(* ===== verification/Prelude.thy ===== *)
theory Prelude
  imports Main "HOL-Library.Word" "HOL-Library.State_Monad"
begin

text \<open>
  Shared vocabulary of the development: the machine integers of the C++ code, little-endian
  loads and stores on byte lists, C strings, slices of byte lists, and the small state monad
  in which every routine that touches a block device is written.  Nothing here models a
  particular source file; the components import it.
\<close>

unbundle bit_operations_syntax

section \<open>Machine integers and bytes\<close>

type_synonym u8 = "8 word"
type_synonym u16 = "16 word"
type_synonym u32 = "32 word"
type_synonym u64 = "64 word"
type_synonym byte = u8

text \<open>\<open>byte_simps\<close> collects the facts that compute with byte layouts (lengths of stores,
  loads of stores, joins of adjacent slices).\<close>

named_theorems byte_simps

definition sub_bytes :: "nat \<Rightarrow> nat \<Rightarrow> 'a list \<Rightarrow> 'a list" where
  "sub_bytes k n bs = take n (drop k bs)"

lemma length_sub_bytes [byte_simps]: "length (sub_bytes k n bs) = min n (length bs - k)"
  by (simp add: sub_bytes_def)

lemma sub_bytes_join:
  "k' = k + a \<Longrightarrow> sub_bytes k a bs @ sub_bytes k' b bs = sub_bytes k (a + b) bs"
  by (simp add: sub_bytes_def take_add add.commute)

lemma sub_bytes_join_rest:
  "k' = k + a \<Longrightarrow> sub_bytes k a bs @ sub_bytes k' b bs @ r = sub_bytes k (a + b) bs @ r"
  by (simp add: sub_bytes_join flip: append_assoc)

lemma sub_bytes_all: "length bs \<le> n \<Longrightarrow> sub_bytes 0 n bs = bs"
  by (simp add: sub_bytes_def)

lemma sub_bytes_append_left:
  "length xs = k \<Longrightarrow> sub_bytes (k + i) n (xs @ ys) = sub_bytes i n ys"
  by (simp add: sub_bytes_def)

lemma sub_bytes_sub_bytes:
  "i + n \<le> m \<Longrightarrow> sub_bytes i n (sub_bytes k m bs) = sub_bytes (k + i) n bs"
  by (simp add: sub_bytes_def drop_take min_def add.commute)

lemma nth_sub_bytes:
  "i < n \<Longrightarrow> k + i < length bs \<Longrightarrow> sub_bytes k n bs ! i = bs ! (k + i)"
  by (simp add: sub_bytes_def)

section \<open>Little-endian words\<close>

definition load_u16_le :: "byte list \<Rightarrow> nat \<Rightarrow> u16" where
  "load_u16_le bs k = ucast (bs ! k) OR push_bit 8 (ucast (bs ! (k + 1)))"

definition load_u32_le :: "byte list \<Rightarrow> nat \<Rightarrow> u32" where
  "load_u32_le bs k =
     ucast (bs ! k) OR push_bit 8 (ucast (bs ! (k + 1))) OR
     push_bit 16 (ucast (bs ! (k + 2))) OR push_bit 24 (ucast (bs ! (k + 3)))"

definition load_u64_le :: "byte list \<Rightarrow> nat \<Rightarrow> u64" where
  "load_u64_le bs k = ucast (load_u32_le bs k) OR push_bit 32 (ucast (load_u32_le bs (k + 4)))"

definition store_u16_le :: "u16 \<Rightarrow> byte list" where
  "store_u16_le w = [ucast w, ucast (drop_bit 8 w)]"

definition store_u32_le :: "u32 \<Rightarrow> byte list" where
  "store_u32_le w = [ucast w, ucast (drop_bit 8 w), ucast (drop_bit 16 w), ucast (drop_bit 24 w)]"

definition store_u64_le :: "u64 \<Rightarrow> byte list" where
  "store_u64_le w = store_u32_le (ucast w) @ store_u32_le (ucast (drop_bit 32 w))"

lemma length_store [simp]:
  "length (store_u16_le a) = 2" "length (store_u32_le b) = 4" "length (store_u64_le c) = 8"
  by (simp_all add: store_u16_le_def store_u32_le_def store_u64_le_def)

lemma load_store_u16: "load_u16_le (store_u16_le w) 0 = w"
  by (rule bit_word_eqI) (auto simp: load_u16_le_def store_u16_le_def bit_simps nat_less_iff)

lemma load_store_u32: "load_u32_le (store_u32_le w) 0 = w"
proof (rule bit_word_eqI)
  fix n
  assume "n < LENGTH(32)"
  moreover have "24 + (n - 24) = n" if "24 \<le> n" using that by simp
  ultimately show "bit (load_u32_le (store_u32_le w) 0) n = bit w n"
    by (cases "n < 8"; cases "n < 16"; cases "n < 24")
      (auto simp: load_u32_le_def store_u32_le_def bit_simps not_less)
qed

lemma bit_byte_high: "8 \<le> n \<Longrightarrow> \<not> bit (b::byte) n"
  by (auto dest: bit_imp_le_length)

lemma u16_bytes:
  fixes a b :: byte
  defines "w \<equiv> ucast a OR push_bit 8 (ucast b) :: u16"
  shows "ucast w = a" "ucast (drop_bit 8 w) = b"
  by (rule bit_word_eqI; auto simp: w_def bit_simps bit_byte_high)+

lemma u32_bytes:
  fixes a b c d :: byte
  defines "w \<equiv> ucast a OR push_bit 8 (ucast b) OR push_bit 16 (ucast c) OR push_bit 24 (ucast d) :: u32"
  shows "ucast w = a" "ucast (drop_bit 8 w) = b" "ucast (drop_bit 16 w) = c" "ucast (drop_bit 24 w) = d"
  by (rule bit_word_eqI; auto simp: w_def bit_simps bit_byte_high)+

lemma sub_bytes_Cons: "k < length bs \<Longrightarrow> sub_bytes k (Suc n) bs = bs ! k # sub_bytes (Suc k) n bs"
  by (simp add: sub_bytes_def Cons_nth_drop_Suc [symmetric])

lemma sub_bytes_0 [simp]: "sub_bytes k 0 bs = []"
  by (simp add: sub_bytes_def)

lemma sub_bytes_2: "k + 2 \<le> length bs \<Longrightarrow> sub_bytes k 2 bs = [bs ! k, bs ! (k + 1)]"
  by (simp add: numeral_2_eq_2 sub_bytes_Cons)

lemma sub_bytes_4:
  "k + 4 \<le> length bs \<Longrightarrow> sub_bytes k 4 bs = [bs ! k, bs ! (k + 1), bs ! (k + 2), bs ! (k + 3)]"
  by (simp add: eval_nat_numeral sub_bytes_Cons)

lemma store_load_u16:
  "k + 2 \<le> length bs \<Longrightarrow> store_u16_le (load_u16_le bs k) = sub_bytes k 2 bs"
  unfolding store_u16_le_def load_u16_le_def u16_bytes by (simp only: sub_bytes_2)

lemma store_load_u32:
  "k + 4 \<le> length bs \<Longrightarrow> store_u32_le (load_u32_le bs k) = sub_bytes k 4 bs"
  unfolding store_u32_le_def load_u32_le_def u32_bytes by (simp only: sub_bytes_4)

lemma u64_halves:
  fixes a b :: u32
  defines "w \<equiv> ucast a OR push_bit 32 (ucast b) :: u64"
  shows "ucast w = a" "ucast (drop_bit 32 w) = b"
  by (rule bit_word_eqI; auto simp: w_def bit_simps dest: bit_imp_le_length)+

lemma store_load_u64:
  "k + 8 \<le> length bs \<Longrightarrow> store_u64_le (load_u64_le bs k) = sub_bytes k 8 bs"
  unfolding store_u64_le_def load_u64_le_def u64_halves by (simp add: store_load_u32 sub_bytes_join)

lemma load_u16_sub_bytes:
  "j + 2 \<le> n \<Longrightarrow> k + j + 2 \<le> length bs \<Longrightarrow> load_u16_le (sub_bytes k n bs) j = load_u16_le bs (k + j)"
  by (simp add: load_u16_le_def nth_sub_bytes add.assoc)

lemma load_u32_sub_bytes:
  "j + 4 \<le> n \<Longrightarrow> k + j + 4 \<le> length bs \<Longrightarrow> load_u32_le (sub_bytes k n bs) j = load_u32_le bs (k + j)"
  by (simp add: load_u32_le_def nth_sub_bytes add.assoc)

text \<open>Reading at an offset of a concatenation: skip the prefix, or read the field that is
  in front.  With the lengths computed by \<open>byte_simps\<close> these rules decode an encoded record.\<close>

lemma load_u16_front [byte_simps]: "load_u16_le (store_u16_le w @ xs) 0 = w"
  using load_store_u16 [of w] by (simp add: load_u16_le_def nth_append store_u16_le_def)

lemma load_u32_front [byte_simps]: "load_u32_le (store_u32_le w @ xs) 0 = w"
  using load_store_u32 [of w] by (simp add: load_u32_le_def nth_append store_u32_le_def)

lemma load_u16_skip [byte_simps]:
  "length ys \<le> k \<Longrightarrow> load_u16_le (ys @ xs) k = load_u16_le xs (k - length ys)"
  by (simp add: load_u16_le_def nth_append Suc_diff_le)

lemma load_u32_skip [byte_simps]:
  "length ys \<le> k \<Longrightarrow> load_u32_le (ys @ xs) k = load_u32_le xs (k - length ys)"
  by (simp add: load_u32_le_def nth_append Suc_diff_le)

lemma load_u64_front [byte_simps]: "load_u64_le (store_u64_le w @ xs) 0 = w"
proof -
  have "load_u64_le (store_u64_le w @ xs) 0 = ucast (ucast w :: u32) OR push_bit 32 (ucast (ucast (drop_bit 32 w) :: u32))"
    by (simp add: load_u64_le_def store_u64_le_def byte_simps)
  also have "\<dots> = w"
    by (rule bit_word_eqI) (auto simp: bit_simps not_less)
  finally show ?thesis .
qed

lemma load_u64_skip [byte_simps]:
  "length ys \<le> k \<Longrightarrow> load_u64_le (ys @ xs) k = load_u64_le xs (k - length ys)"
  by (simp add: load_u64_le_def load_u32_skip Nat.add_diff_assoc2)

lemma sub_bytes_skip [byte_simps]:
  "length ys \<le> k \<Longrightarrow> sub_bytes k n (ys @ xs) = sub_bytes (k - length ys) n xs"
  by (simp add: sub_bytes_def)

lemma load_u16_Cons [byte_simps]: "0 < k \<Longrightarrow> load_u16_le (b # xs) k = load_u16_le xs (k - 1)"
  using load_u16_skip [of "[b]" k xs] by simp

lemma load_u32_Cons [byte_simps]: "0 < k \<Longrightarrow> load_u32_le (b # xs) k = load_u32_le xs (k - 1)"
  using load_u32_skip [of "[b]" k xs] by simp

lemma sub_bytes_Cons_skip [byte_simps]: "0 < k \<Longrightarrow> sub_bytes k n (b # xs) = sub_bytes (k - 1) n xs"
  using sub_bytes_skip [of "[b]" k n xs] by simp

lemma sub_bytes_front [byte_simps]: "length ys = n \<Longrightarrow> sub_bytes 0 n (ys @ xs) = ys"
  by (simp add: sub_bytes_def)

text \<open>Packed arrays: \<open>n\<close> elements of \<open>w\<close> bytes from offset \<open>k\<close>.\<close>

definition decode_array :: "(byte list \<Rightarrow> 'a) \<Rightarrow> nat \<Rightarrow> nat \<Rightarrow> nat \<Rightarrow> byte list \<Rightarrow> 'a list" where
  "decode_array dec w k n bs = map (\<lambda>i. dec (sub_bytes (k + w * i) w bs)) [0 ..< n]"

lemma length_decode_array [simp]: "length (decode_array dec w k n bs) = n"
  by (simp add: decode_array_def)

lemma concat_sub_bytes:
  "concat (map (\<lambda>i. sub_bytes (k + w * i) w bs) [0 ..< n]) = sub_bytes k (w * n) bs"
  by (induction n) (simp_all add: sub_bytes_join add.commute)

lemma encode_decode_array:
  assumes "\<And>xs. length xs = w \<Longrightarrow> enc (dec xs) = xs" "k + w * n \<le> length bs"
  shows "concat (map enc (decode_array dec w k n bs)) = sub_bytes k (w * n) bs"
proof -
  have "enc (dec (sub_bytes (k + w * i) w bs)) = sub_bytes (k + w * i) w bs" if "i < n" for i
  proof (rule assms(1))
    have "w * i + w \<le> w * n" using that by (metis Suc_leI mult_Suc_right add.commute mult_le_mono2)
    with assms(2) show "length (sub_bytes (k + w * i) w bs) = w" by (simp add: length_sub_bytes)
  qed
  then have "map enc (decode_array dec w k n bs) = map (\<lambda>i. sub_bytes (k + w * i) w bs) [0 ..< n]"
    by (simp add: decode_array_def)
  then show ?thesis by (simp add: concat_sub_bytes)
qed

lemma decode_array_skip [byte_simps]:
  "length ys \<le> k \<Longrightarrow> decode_array dec w k n (ys @ xs) = decode_array dec w (k - length ys) n xs"
  by (simp add: decode_array_def sub_bytes_skip)

lemma sub_bytes_concat:
  "\<lbrakk>i < length xs; \<And>x. length (f x) = w\<rbrakk> \<Longrightarrow>
   sub_bytes (w * i) w (concat (map f xs) @ ys) = f (xs ! i)"
proof (induction xs arbitrary: i)
  case (Cons x xs)
  then show ?case
    by (cases i) (simp_all add: sub_bytes_def)
qed simp

lemma decode_array_front:
  assumes "length xs = n" "\<And>x. length (enc x) = w" "\<And>x. dec (enc x) = x"
  shows "decode_array dec w 0 n (concat (map enc xs) @ ys) = xs"
  using assms by (auto simp: decode_array_def sub_bytes_concat intro: nth_equalityI)

text \<open>A checksum loop adds the words one after the other; the order does not matter.\<close>

lemma fold_plus_sum:
  fixes f :: "nat \<Rightarrow> 'a::comm_monoid_add"
  shows "fold (\<lambda>i s. s + f i) [a ..< b] c = c + (\<Sum>i\<in>{a ..< b}. f i)"
proof -
  have "fold (\<lambda>i s. s + f i) xs c = c + sum_list (map f xs)" for xs
    by (induction xs arbitrary: c) (simp_all add: add.assoc)
  then show ?thesis by (simp add: interv_sum_list_conv_sum_set_nat)
qed

section \<open>Widening conversions keep the value\<close>

lemma unat_ucast_up [simp]:
  "unat (ucast (w::u32) :: u64) = unat w"
  "unat (ucast (h::u16) :: u64) = unat h"
  "unat (ucast (h::u16) :: u32) = unat h"
  "unat (ucast (b::u8) :: u64) = unat b"
  by (simp_all add: unsigned_ucast_eq take_bit_nat_eq_self unsigned_less [THEN less_le_trans])

lemma unat_u32_less: "unat (w::u32) < 4294967296"
  using unsigned_less [where 'a = nat, of w] by simp

lemma unat_u16_less: "unat (w::u16) < 65536"
  using unsigned_less [where 'a = nat, of w] by simp

lemma unat_u64_less: "unat (w::u64) < 18446744073709551616"
  using unsigned_less [where 'a = nat, of w] by simp

section \<open>Characters and C strings\<close>

text \<open>A \<open>std::string\<close> is a HOL string; each byte of the disk is one \<open>char\<close>.\<close>

definition char_of_byte :: "byte \<Rightarrow> char" where
  "char_of_byte b = char_of (unat b)"

definition byte_of_char :: "char \<Rightarrow> byte" where
  "byte_of_char c = word_of_nat (of_char c)"

lemma byte_of_char_of_byte [simp]: "byte_of_char (char_of_byte b) = b"
proof -
  have "unat b < 2 ^ 8" using unsigned_less [of b] by simp
  then show ?thesis by (simp add: byte_of_char_def char_of_byte_def)
qed

lemma char_of_byte_of_char [simp]: "char_of_byte (byte_of_char c) = c"
proof -
  have "(of_char c :: nat) < 256" by simp
  then show ?thesis by (simp add: byte_of_char_def char_of_byte_def unat_of_nat)
qed

lemma char_of_byte_inj: "char_of_byte a = char_of_byte b \<longleftrightarrow> a = b"
  by (metis byte_of_char_of_byte)

section \<open>Computations over a device state\<close>

text \<open>
  A routine that may touch a device is a \<open>('s, 'a) state\<close> computation; one that may fail
  returns a sum, \<open>Inl\<close> the error.  \<open>bindE\<close> is the early return: it runs the second
  computation only when the first one succeeded.
\<close>

abbreviation ret :: "'a \<Rightarrow> ('s, 'a) state" where
  "ret \<equiv> State_Monad.return"

abbreviation okE :: "'a \<Rightarrow> ('s, 'e + 'a) state" where
  "okE a \<equiv> State_Monad.return (Inr a)"

abbreviation failE :: "'e \<Rightarrow> ('s, 'e + 'a) state" where
  "failE e \<equiv> State_Monad.return (Inl e)"

definition bindE :: "('s, 'e + 'a) state \<Rightarrow> ('a \<Rightarrow> ('s, 'e + 'b) state) \<Rightarrow> ('s, 'e + 'b) state" where
  "bindE m f = do { r \<leftarrow> m; case r of Inl e \<Rightarrow> failE e | Inr a \<Rightarrow> f a }"

definition evalS :: "('s, 'a) state \<Rightarrow> 's \<Rightarrow> 'a" where
  "evalS m s = fst (run_state m s)"

lemma run_bindE:
  "run_state (bindE m f) s =
     (case run_state m s of (Inl e, s') \<Rightarrow> (Inl e, s') | (Inr a, s') \<Rightarrow> run_state (f a) s')"
  by (auto simp: bindE_def split: prod.splits sum.splits)

lemma run_bindE_Inr:
  "run_state (bindE m f) s = (Inr b, t) \<longleftrightarrow>
     (\<exists>a s'. run_state m s = (Inr a, s') \<and> run_state (f a) s' = (Inr b, t))"
  by (auto simp: run_bindE split: prod.splits sum.splits)

lemma run_state_bind_eq:
  "run_state (State_Monad.bind m f) s = (b, t) \<longleftrightarrow>
     (\<exists>a s'. run_state m s = (a, s') \<and> run_state (f a) s' = (b, t))"
  by (auto split: prod.splits)

lemma bindE_okE [simp]: "bindE (okE a) f = f a"
  by (simp add: bindE_def)

lemma bindE_failE [simp]: "bindE (failE e) f = failE e"
  by (simp add: bindE_def)

end
