(* ===== verification/ApaFormat.thy ===== *)
theory ApaFormat
  imports Prelude
begin

text \<open>
  The on-disk APA partition header of \<open>include/ps2hdd/apa.hpp\<close>: the packed structs as records
  with their little-endian byte layout, the header checksum and the small header queries of
  \<open>src/core/apa.cpp\<close>.  The C++ code overlays the structs on the bytes it read; \<open>decode_header\<close>
  is that overlay, \<open>encode_header\<close> the bytes of a header object.
\<close>

definition kMagic :: u32 where "kMagic = 0x00415041"
definition kSectorSize :: nat where "kSectorSize = 512"
definition kHeaderSize :: nat where "kHeaderSize = 1024"
definition kIdMax :: nat where "kIdMax = 32"
definition kPassMax :: nat where "kPassMax = 8"
definition kMaxSub :: nat where "kMaxSub = 64"
definition kFlagSub :: u16 where "kFlagSub = 0x0001"
definition kTypeFree :: u16 where "kTypeFree = 0x0000"
definition kTypeMbr :: u16 where "kTypeMbr = 0x0001"
definition kTypePfs :: u16 where "kTypePfs = 0x0100"
definition kTypeHdl :: u16 where "kTypeHdl = 0x1337"

record ps2_time =
  t_unused :: u8
  t_sec :: u8
  t_min :: u8
  t_hour :: u8
  t_day :: u8
  t_month :: u8
  t_year :: u16

record sub_partition =
  sub_start :: u32
  sub_length :: u32

record mbr_data =
  mbr_magic :: "byte list"
  mbr_version :: u32
  mbr_nsector :: u32
  mbr_created :: ps2_time
  mbr_osd_start :: u32
  mbr_osd_size :: u32
  mbr_reserved :: "byte list"

record apa_header =
  h_checksum :: u32
  h_magic :: u32
  h_next :: u32
  h_prev :: u32
  h_id :: "byte list"
  h_rpwd :: "byte list"
  h_fpwd :: "byte list"
  h_start :: u32
  h_length :: u32
  h_type :: u16
  h_flags :: u16
  h_nsub :: u32
  h_created :: ps2_time
  h_main :: u32
  h_number :: u32
  h_modver :: u32
  h_padding1 :: "byte list"
  h_padding2 :: "byte list"
  h_mbr :: mbr_data
  h_subs :: "sub_partition list"

section \<open>Byte layout\<close>

definition decode_time :: "byte list \<Rightarrow> ps2_time" where
  "decode_time bs =
     \<lparr>t_unused = bs ! 0, t_sec = bs ! 1, t_min = bs ! 2, t_hour = bs ! 3, t_day = bs ! 4,
      t_month = bs ! 5, t_year = load_u16_le bs 6\<rparr>"

definition encode_time :: "ps2_time \<Rightarrow> byte list" where
  "encode_time t =
     [t_unused t, t_sec t, t_min t, t_hour t, t_day t, t_month t] @ store_u16_le (t_year t)"

definition decode_sub :: "byte list \<Rightarrow> sub_partition" where
  "decode_sub bs = \<lparr>sub_start = load_u32_le bs 0, sub_length = load_u32_le bs 4\<rparr>"

definition encode_sub :: "sub_partition \<Rightarrow> byte list" where
  "encode_sub s = store_u32_le (sub_start s) @ store_u32_le (sub_length s)"

definition decode_mbr :: "byte list \<Rightarrow> mbr_data" where
  "decode_mbr bs =
     \<lparr>mbr_magic = sub_bytes 0 32 bs, mbr_version = load_u32_le bs 32, mbr_nsector = load_u32_le bs 36,
      mbr_created = decode_time (sub_bytes 40 8 bs), mbr_osd_start = load_u32_le bs 48,
      mbr_osd_size = load_u32_le bs 52, mbr_reserved = sub_bytes 56 200 bs\<rparr>"

definition encode_mbr :: "mbr_data \<Rightarrow> byte list" where
  "encode_mbr m =
     mbr_magic m @ store_u32_le (mbr_version m) @ store_u32_le (mbr_nsector m) @
     encode_time (mbr_created m) @ store_u32_le (mbr_osd_start m) @ store_u32_le (mbr_osd_size m) @
     mbr_reserved m"

definition decode_header :: "byte list \<Rightarrow> apa_header" where
  "decode_header bs =
     \<lparr>h_checksum = load_u32_le bs 0, h_magic = load_u32_le bs 4, h_next = load_u32_le bs 8,
      h_prev = load_u32_le bs 12, h_id = sub_bytes 16 kIdMax bs, h_rpwd = sub_bytes 48 kPassMax bs,
      h_fpwd = sub_bytes 56 kPassMax bs, h_start = load_u32_le bs 64, h_length = load_u32_le bs 68,
      h_type = load_u16_le bs 72, h_flags = load_u16_le bs 74, h_nsub = load_u32_le bs 76,
      h_created = decode_time (sub_bytes 80 8 bs), h_main = load_u32_le bs 88,
      h_number = load_u32_le bs 92, h_modver = load_u32_le bs 96, h_padding1 = sub_bytes 100 28 bs,
      h_padding2 = sub_bytes 128 128 bs, h_mbr = decode_mbr (sub_bytes 256 256 bs),
      h_subs = decode_array decode_sub 8 512 kMaxSub bs\<rparr>"

definition encode_header :: "apa_header \<Rightarrow> byte list" where
  "encode_header h =
     store_u32_le (h_checksum h) @ store_u32_le (h_magic h) @ store_u32_le (h_next h) @
     store_u32_le (h_prev h) @ h_id h @ h_rpwd h @ h_fpwd h @ store_u32_le (h_start h) @
     store_u32_le (h_length h) @ store_u16_le (h_type h) @ store_u16_le (h_flags h) @
     store_u32_le (h_nsub h) @ encode_time (h_created h) @ store_u32_le (h_main h) @
     store_u32_le (h_number h) @ store_u32_le (h_modver h) @ h_padding1 h @ h_padding2 h @
     encode_mbr (h_mbr h) @ concat (map encode_sub (h_subs h))"

text \<open>The array sizes of the struct declarations.\<close>

definition mbr_wf :: "mbr_data \<Rightarrow> bool" where
  "mbr_wf m \<longleftrightarrow> length (mbr_magic m) = 32 \<and> length (mbr_reserved m) = 200"

definition header_wf :: "apa_header \<Rightarrow> bool" where
  "header_wf h \<longleftrightarrow>
     length (h_id h) = kIdMax \<and> length (h_rpwd h) = kPassMax \<and> length (h_fpwd h) = kPassMax \<and>
     length (h_padding1 h) = 28 \<and> length (h_padding2 h) = 128 \<and> mbr_wf (h_mbr h) \<and>
     length (h_subs h) = kMaxSub"

section \<open>Queries\<close>

text \<open>View the header as 256 little-endian words and sum words 1..255.\<close>

definition checksum :: "apa_header \<Rightarrow> u32" where
  "checksum h =
     (let bytes = encode_header h
      in fold (\<lambda>i sum. sum + load_u32_le bytes (4 * i)) [1 ..< length bytes div 4] 0)"

definition partition_id :: "apa_header \<Rightarrow> string" where
  "partition_id h = map char_of_byte (takeWhile (\<lambda>b. b \<noteq> 0) (h_id h))"

definition kSonyMbrMagic :: string where
  "kSonyMbrMagic = ''Sony Computer Entertainment Inc.''"

definition has_sony_mbr_magic :: "apa_header \<Rightarrow> bool" where
  "has_sony_mbr_magic h \<longleftrightarrow>
     take (length kSonyMbrMagic) (mbr_magic (h_mbr h)) = map byte_of_char kSonyMbrMagic"

definition type_name :: "u16 \<Rightarrow> string" where
  "type_name t =
     (if t = kTypeFree then ''FREE''
      else if t = kTypeMbr then ''MBR''
      else if t = 0x0082 then ''EXT2SWAP''
      else if t = 0x0083 then ''EXT2''
      else if t = 0x0088 then ''REISER''
      else if t = kTypePfs then ''PFS''
      else if t = 0x0101 then ''CFS''
      else if t = kTypeHdl then ''HDL''
      else ''UNKNOWN'')"

section \<open>The layout is a bijection\<close>

lemma length_encode [simp]:
  "length (encode_time t) = 8" "length (encode_sub s) = 8"
  by (simp_all add: encode_time_def encode_sub_def)

lemma length_encode_mbr [byte_simps]: "mbr_wf m \<Longrightarrow> length (encode_mbr m) = 256"
  by (simp add: encode_mbr_def mbr_wf_def)

lemma length_encode_subs [simp]: "length (concat (map encode_sub ss)) = 8 * length ss"
  by (induction ss) auto

lemma length_encode_header: "header_wf h \<Longrightarrow> length (encode_header h) = kHeaderSize"
  by (simp add: encode_header_def header_wf_def length_encode_mbr kIdMax_def kPassMax_def kMaxSub_def
      kHeaderSize_def)

lemma decode_encode_time [simp]: "decode_time (encode_time t) = t"
  using load_store_u16 [of "t_year t"]
  by (simp add: decode_time_def encode_time_def load_u16_le_def store_u16_le_def)

lemma decode_encode_sub [simp]: "decode_sub (encode_sub s) = s"
  by (simp add: decode_sub_def encode_sub_def byte_simps load_u32_front [where xs = "[]", simplified])

lemma encode_decode_time:
  assumes "length bs = 8"
  shows "encode_time (decode_time bs) = bs"
proof -
  from assms obtain a b c d e f g h where bs: "bs = [a, b, c, d, e, f, g, h]"
    by (auto simp: eval_nat_numeral length_Suc_conv)
  show ?thesis
    using store_load_u16 [of 6 bs] by (simp add: bs encode_time_def decode_time_def sub_bytes_def)
qed

lemma encode_decode_sub: "length bs = 8 \<Longrightarrow> encode_sub (decode_sub bs) = bs"
  by (simp add: encode_sub_def decode_sub_def store_load_u32 sub_bytes_join sub_bytes_all)

lemma encode_decode_mbr: "length bs = 256 \<Longrightarrow> encode_mbr (decode_mbr bs) = bs"
  by (simp add: encode_mbr_def decode_mbr_def store_load_u32 encode_decode_time byte_simps
      sub_bytes_join sub_bytes_join_rest sub_bytes_all)

lemma decode_encode_mbr: "mbr_wf m \<Longrightarrow> decode_mbr (encode_mbr m) = m"
  by (simp add: encode_mbr_def decode_mbr_def mbr_wf_def byte_simps)
    (simp add: sub_bytes_all)

lemma encode_decode_header:
  assumes "length bs = kHeaderSize"
  shows "encode_header (decode_header bs) = bs"
proof -
  have subs: "concat (map encode_sub (h_subs (decode_header bs))) = sub_bytes 512 512 bs"
    using encode_decode_array [of 8 encode_sub decode_sub 512 kMaxSub bs] assms
    by (simp add: decode_header_def encode_decode_sub kMaxSub_def kHeaderSize_def)
  show ?thesis
    unfolding encode_header_def subs using assms
    by (simp add: decode_header_def store_load_u32 store_load_u16 encode_decode_time encode_decode_mbr
        byte_simps sub_bytes_join sub_bytes_join_rest sub_bytes_all kIdMax_def kPassMax_def kHeaderSize_def)
qed

lemma decode_encode_header: "header_wf h \<Longrightarrow> decode_header (encode_header h) = h"
  by (simp add: header_wf_def decode_header_def kIdMax_def kPassMax_def kMaxSub_def)
    (simp add: encode_header_def byte_simps length_encode_mbr decode_encode_mbr
      decode_array_front [where ys = "[]", simplified])

text \<open>The packed header layout loses nothing: the bytes of a decoded 1024-byte sector pair are the
  bytes that were read, and decoding the bytes of a header with the declared array sizes gives the
  header back.\<close>

theorem header_roundtrip:
  "(length bs = kHeaderSize \<longrightarrow> encode_header (decode_header bs) = bs) \<and>
   (header_wf h \<longrightarrow> decode_header (encode_header h) = h)"
  by (simp add: encode_decode_header decode_encode_header)

end
