(* ===== verification/BlockDevice.thy ===== *)
theory BlockDevice
  imports Prelude
begin

text \<open>
  The block-device layer: the abstract class \<open>BlockDevice\<close> of
  \<open>include/ps2hdd/block_device.hpp\<close> as a record of its virtual operations, the contract its
  clients rely on as locales, and the statistics wrapper \<open>InstrumentedBlockDevice\<close> of
  \<open>include/ps2hdd/instrumented_block_device.hpp\<close>.
\<close>

section \<open>Storage characteristics\<close>

datatype storage_media_class = Media_unknown | Media_rotational | Media_solid_state

record storage_characteristics =
  media_class :: storage_media_class
  seek_penalty_known :: bool
  incurs_seek_penalty :: bool
  trim_known :: bool
  trim_enabled :: bool
  bus_type_known :: bool
  bus_type :: u32
  nominal_rotation_rate_known :: bool
  nominal_rotation_rate :: u16

definition default_characteristics :: storage_characteristics where
  "default_characteristics =
     \<lparr>media_class = Media_unknown, seek_penalty_known = False, incurs_seek_penalty = False,
      trim_known = False, trim_enabled = False, bus_type_known = False, bus_type = 0,
      nominal_rotation_rate_known = False, nominal_rotation_rate = 0\<rparr>"

fun storage_media_class_name :: "storage_media_class \<Rightarrow> string" where
  "storage_media_class_name Media_rotational = ''rotational''"
| "storage_media_class_name Media_solid_state = ''solid-state''"
| "storage_media_class_name Media_unknown = ''unknown''"

section \<open>The device interface\<close>

text \<open>
  A device is the record of its virtual functions over a state \<open>'s\<close> (the object and
  whatever it wraps).  \<open>read\<close> fills the whole span or returns false: the span's length is
  the argument, \<open>Some\<close> carries its contents.  What a failed read leaves in the span is not
  modelled; no caller uses it.
\<close>

record 's device =
  dev_size :: "'s \<Rightarrow> u64"
  dev_name :: "'s \<Rightarrow> string"
  dev_characteristics :: "'s \<Rightarrow> storage_characteristics"
  dev_read :: "u64 \<Rightarrow> nat \<Rightarrow> ('s, byte list option) state"

definition size_bytes :: "'s device \<Rightarrow> ('s, u64) state" where
  "size_bytes D = do { s \<leftarrow> State_Monad.get; ret (dev_size D s) }"

text \<open>The bytes of a disk.  A read of the image either lies inside it or fails; this is the
  reference every device stack is compared with.\<close>

record image =
  img_size :: u64
  img_byte :: "nat \<Rightarrow> byte"

definition in_image :: "image \<Rightarrow> u64 \<Rightarrow> nat \<Rightarrow> bool" where
  "in_image im off n \<longleftrightarrow> off \<le> img_size im \<and> n \<le> unat (img_size im - off)"

definition image_slice :: "image \<Rightarrow> nat \<Rightarrow> nat \<Rightarrow> byte list" where
  "image_slice im off n = map (img_byte im) [off ..< off + n]"

definition image_device :: "image device" where
  "image_device =
     \<lparr>dev_size = img_size, dev_name = (\<lambda>_. ''image''),
      dev_characteristics = (\<lambda>_. default_characteristics),
      dev_read = (\<lambda>off n. do {
        im \<leftarrow> State_Monad.get;
        ret (if in_image im off n then Some (image_slice im (unat off) n) else None) })\<rparr>"

lemma in_image_nat: "in_image im off n \<longleftrightarrow> unat off + n \<le> unat (img_size im)"
  by (auto simp: in_image_def word_le_nat_alt unat_sub_if_size)

lemma length_image_slice [simp]: "length (image_slice im off n) = n"
  by (simp add: image_slice_def)

lemma nth_image_slice: "i < n \<Longrightarrow> image_slice im off n ! i = img_byte im (off + i)"
  by (simp add: image_slice_def)

lemma sub_bytes_image_slice:
  "k + n \<le> m \<Longrightarrow> sub_bytes k n (image_slice im off m) = image_slice im (off + k) n"
  by (rule nth_equalityI) (auto simp: byte_simps nth_sub_bytes nth_image_slice add.assoc)

lemma image_slice_append:
  "image_slice im off (a + b) = image_slice im off a @ image_slice im (off + a) b"
  using upt_add_eq_append [of off "off + a" b] by (simp add: image_slice_def add.assoc)

lemma take_image_slice: "n \<le> m \<Longrightarrow> take n (image_slice im off m) = image_slice im off n"
  using sub_bytes_image_slice [of 0 n m im off] by (simp add: sub_bytes_def)

lemma run_image_read:
  "run_state (dev_read image_device off n) im =
     (if in_image im off n then Some (image_slice im (unat off) n) else None, im)"
  by (simp add: image_device_def)

section \<open>Transparency\<close>

text \<open>
  A computation \<open>m\<close> over a device state is transparent for its reference computation
  \<open>m0\<close> over the image when, from every state satisfying the invariant, it returns what
  \<open>m0\<close> returns on the image behind that state, keeps the invariant and leaves the image
  alone (as \<open>m0\<close> does).
\<close>

named_theorems transparent_intros

definition transparent ::
  "('s \<Rightarrow> bool) \<Rightarrow> ('s \<Rightarrow> image) \<Rightarrow> ('s, 'a) state \<Rightarrow> (image, 'a) state \<Rightarrow> bool" where
  "transparent ok img m m0 \<longleftrightarrow>
     (\<forall>s. ok s \<longrightarrow>
        ok (snd (run_state m s)) \<and> img (snd (run_state m s)) = img s \<and>
        run_state m0 (img s) = (fst (run_state m s), img s))"

lemma transparentI:
  assumes "\<And>s a s'. ok s \<Longrightarrow> run_state m s = (a, s') \<Longrightarrow>
    ok s' \<and> img s' = img s \<and> run_state m0 (img s) = (a, img s)"
  shows "transparent ok img m m0"
  using assms unfolding transparent_def by (metis prod.collapse)

lemma transparentD:
  assumes "transparent ok img m m0" "ok s" "run_state m s = (a, s')"
  shows "ok s'" "img s' = img s" "run_state m0 (img s) = (a, img s)"
  using assms unfolding transparent_def by auto

lemma transparent_eval:
  "transparent ok img m m0 \<Longrightarrow> ok s \<Longrightarrow> evalS m s = evalS m0 (img s)"
  by (simp add: transparent_def evalS_def)

lemma transparent_ret [transparent_intros]: "transparent ok img (ret a) (ret a)"
  by (simp add: transparent_def)

lemma transparent_bind [transparent_intros]:
  assumes "transparent ok img m m0" "\<And>a. transparent ok img (f a) (f0 a)"
  shows "transparent ok img (State_Monad.bind m f) (State_Monad.bind m0 f0)"
proof (rule transparentI)
  fix s b t
  assume s: "ok s" and run: "run_state (State_Monad.bind m f) s = (b, t)"
  obtain a s' where m: "run_state m s = (a, s')" by fastforce
  with run have f: "run_state (f a) s' = (b, t)" by simp
  note m' = transparentD [OF assms(1) s m]
  show "ok t \<and> img t = img s \<and> run_state (State_Monad.bind m0 f0) (img s) = (b, img s)"
    using transparentD [OF assms(2) m'(1) f] m' by simp
qed

lemma transparent_bindE [transparent_intros]:
  assumes "transparent ok img m m0" "\<And>a. transparent ok img (f a) (f0 a)"
  shows "transparent ok img (bindE m f) (bindE m0 f0)"
  unfolding bindE_def
  by (rule transparent_bind [OF assms(1)]) (auto split: sum.splits intro: assms(2) transparent_ret)

lemma transparent_if [transparent_intros]:
  "\<lbrakk>b \<Longrightarrow> transparent ok img m m0; \<not> b \<Longrightarrow> transparent ok img n n0\<rbrakk> \<Longrightarrow>
   transparent ok img (if b then m else n) (if b then m0 else n0)"
  by simp

lemma transparent_option [transparent_intros]:
  "\<lbrakk>transparent ok img m m0; \<And>x. transparent ok img (f x) (f0 x)\<rbrakk> \<Longrightarrow>
   transparent ok img (case v of None \<Rightarrow> m | Some x \<Rightarrow> f x) (case v of None \<Rightarrow> m0 | Some x \<Rightarrow> f0 x)"
  by (cases v) auto

lemma transparent_sum [transparent_intros]:
  "\<lbrakk>\<And>x. transparent ok img (f x) (f0 x); \<And>x. transparent ok img (g x) (g0 x)\<rbrakk> \<Longrightarrow>
   transparent ok img (case v of Inl x \<Rightarrow> f x | Inr x \<Rightarrow> g x) (case v of Inl x \<Rightarrow> f0 x | Inr x \<Rightarrow> g0 x)"
  by (cases v) auto

lemma transparent_prod [transparent_intros]:
  "(\<And>x y. transparent ok img (f x y) (f0 x y)) \<Longrightarrow>
   transparent ok img (case v of (x, y) \<Rightarrow> f x y) (case v of (x, y) \<Rightarrow> f0 x y)"
  by (cases v) auto

lemma transparent_Let [transparent_intros]:
  "(\<And>x. transparent ok img (f x) (f0 x)) \<Longrightarrow>
   transparent ok img (let x = v in f x) (let x = v in f0 x)"
  by (simp add: Let_def)

section \<open>The contract of a device\<close>

text \<open>
  \<open>block_device\<close>: reads are sound (exact bytes of the image, inside it), and neither the
  image nor its size ever changes: the interface has no write.  \<open>reliable_device\<close>: in
  addition no read inside the image fails.  Every parser of the library is a client of these
  two contracts.
\<close>

locale block_device =
  fixes D :: "'s device" and ok :: "'s \<Rightarrow> bool" and img :: "'s \<Rightarrow> image"
  assumes size_law: "ok s \<Longrightarrow> dev_size D s = img_size (img s)"
    and read_keeps: "\<lbrakk>ok s; run_state (dev_read D off n) s = (r, s')\<rbrakk> \<Longrightarrow> ok s' \<and> img s' = img s"
    and read_sound: "\<lbrakk>ok s; run_state (dev_read D off n) s = (Some bs, s')\<rbrakk> \<Longrightarrow>
      in_image (img s) off n \<and> bs = image_slice (img s) (unat off) n"
begin

lemma read_length:
  "\<lbrakk>ok s; run_state (dev_read D off n) s = (Some bs, s')\<rbrakk> \<Longrightarrow> length bs = n"
  by (auto dest: read_sound)

lemma transparent_size [transparent_intros]:
  "transparent ok img (size_bytes D) (size_bytes image_device)"
  by (rule transparentI) (auto simp: size_bytes_def size_law image_device_def)

end

locale reliable_device = block_device +
  assumes read_total: "\<lbrakk>ok s; in_image (img s) off n\<rbrakk> \<Longrightarrow> fst (run_state (dev_read D off n) s) \<noteq> None"
begin

lemma transparent_read [transparent_intros]:
  "transparent ok img (dev_read D off n) (dev_read image_device off n)"
proof (rule transparentI)
  fix s r s'
  assume s: "ok s" and r: "run_state (dev_read D off n) s = (r, s')"
  have "run_state (dev_read image_device off n) (img s) = (r, img s)"
  proof (cases "in_image (img s) off n")
    case True
    with read_total [OF s True] r obtain bs where "r = Some bs" by auto
    with read_sound [OF s] r True show ?thesis by (simp add: run_image_read)
  next
    case False
    with read_sound [OF s] r have "r = None" by (cases r) auto
    with False show ?thesis by (simp add: run_image_read)
  qed
  with read_keeps [OF s r] show "ok s' \<and> img s' = img s \<and>
    run_state (dev_read image_device off n) (img s) = (r, img s)" by simp
qed

end

lemma block_deviceI:
  assumes "\<And>s. ok s \<Longrightarrow> dev_size D s = img_size (img s)"
    and "\<And>s off n r s'. \<lbrakk>ok s; run_state (dev_read D off n) s = (r, s')\<rbrakk> \<Longrightarrow>
      ok s' \<and> img s' = img s \<and>
      (\<forall>bs. r = Some bs \<longrightarrow> in_image (img s) off n \<and> bs = image_slice (img s) (unat off) n)"
  shows "block_device D ok img"
  by (rule block_device.intro) (use assms in \<open>blast+\<close>)

lemma reliable_deviceI:
  assumes "block_device D ok img"
    and "\<And>s off n. \<lbrakk>ok s; in_image (img s) off n\<rbrakk> \<Longrightarrow> fst (run_state (dev_read D off n) s) \<noteq> None"
  shows "reliable_device D ok img"
  using assms by (simp add: reliable_device_def reliable_device_axioms_def)

interpretation image: reliable_device image_device "\<lambda>_. True" "\<lambda>im. im"
  by unfold_locales (auto simp: run_image_read image_device_def split: if_splits)

end
