(* ===== verification/Apa.thy ===== *)
theory Apa
  imports ApaFormat BlockDevice
begin

text \<open>
  The APA scanner of \<open>src/core/apa.cpp\<close>: \<open>Reader::read_header\<close> and \<open>Reader::scan\<close> over an
  arbitrary block device, the partitions and diagnostics they produce, and what a scan result
  says about the disk.
\<close>

section \<open>Results\<close>

record partition =
  p_id :: string
  p_start_lba :: u32
  p_length_sectors :: u32
  p_total_sectors :: u64
  p_type :: u16
  p_flags :: u16
  p_main_lba :: u32
  p_number :: u32
  p_sub_count :: u32
  p_created :: ps2_time
  p_sub_partitions :: "sub_partition list"

definition is_sub :: "partition \<Rightarrow> bool" where
  "is_sub p \<longleftrightarrow> p_flags p AND kFlagSub \<noteq> 0"

definition partition_size_bytes :: "partition \<Rightarrow> u64" where
  "partition_size_bytes p = p_total_sectors p * of_nat kSectorSize"

datatype issue_severity = Warning | Error

record issue =
  i_severity :: issue_severity
  i_lba :: u32
  i_message :: string

record scan_result =
  mbr_valid :: bool
  apa_version :: u32
  partitions :: "partition list"
  issues :: "issue list"

definition empty_scan :: scan_result where
  "empty_scan = \<lparr>mbr_valid = False, apa_version = 0, partitions = [], issues = []\<rparr>"

definition scan_ok :: "scan_result \<Rightarrow> bool" where
  "scan_ok r \<longleftrightarrow> mbr_valid r \<and> list_all (\<lambda>i. i_severity i \<noteq> Error) (issues r)"

definition warn :: "u32 \<Rightarrow> string \<Rightarrow> issue" where
  "warn lba msg = \<lparr>i_severity = Warning, i_lba = lba, i_message = msg\<rparr>"

definition err :: "u32 \<Rightarrow> string \<Rightarrow> issue" where
  "err lba msg = \<lparr>i_severity = Error, i_lba = lba, i_message = msg\<rparr>"

definition add_issues :: "issue list \<Rightarrow> scan_result \<Rightarrow> scan_result" where
  "add_issues is r = r\<lparr>issues := issues r @ is\<rparr>"

definition add_partition :: "partition \<Rightarrow> scan_result \<Rightarrow> scan_result" where
  "add_partition p r = r\<lparr>partitions := partitions r @ [p]\<rparr>"

section \<open>Ranges\<close>

definition range_fits :: "u64 \<Rightarrow> u64 \<Rightarrow> u64 \<Rightarrow> bool" where
  "range_fits offset bytes device_size \<longleftrightarrow>
     offset \<le> device_size \<and> bytes \<le> device_size - offset"

definition sector_offset :: "u32 \<Rightarrow> u64" where
  "sector_offset lba = ucast lba * of_nat kSectorSize"

definition sector_extent_fits :: "u32 \<Rightarrow> u32 \<Rightarrow> u64 \<Rightarrow> bool" where
  "sector_extent_fits start len device_size \<longleftrightarrow>
     range_fits (sector_offset start) (sector_offset len) device_size"

section \<open>One header\<close>

definition read_header :: "'s device \<Rightarrow> u32 \<Rightarrow> ('s, apa_header option) state" where
  "read_header D lba = do {
     device_size \<leftarrow> size_bytes D;
     if \<not> range_fits (sector_offset lba) (of_nat kHeaderSize) device_size then ret None
     else do {
       raw \<leftarrow> dev_read D (sector_offset lba) kHeaderSize;
       ret (map_option decode_header raw)
     }
   }"

text \<open>The checks of a header reached through a link; the first one was checked before the loop.\<close>

definition load_linked_header :: "'s device \<Rightarrow> u32 \<Rightarrow> ('s, string + apa_header) state" where
  "load_linked_header D lba = do {
     header \<leftarrow> read_header D lba;
     case header of
       None \<Rightarrow> failE ''Could not read APA header''
     | Some h \<Rightarrow>
         if h_magic h \<noteq> kMagic then failE ''Invalid APA magic''
         else if checksum h \<noteq> h_checksum h then failE ''APA checksum mismatch''
         else okE h
   }"

definition header_issues :: "u64 \<Rightarrow> bool \<Rightarrow> u32 \<Rightarrow> u32 \<Rightarrow> apa_header \<Rightarrow> issue list" where
  "header_issues device_size first current_lba expected_prev h =
     (if h_start h \<noteq> current_lba
      then [warn current_lba ''Header start LBA does not match its physical location''] else []) @
     (if \<not> first \<and> h_prev h \<noteq> expected_prev
      then [warn current_lba ''APA prev link does not point to the previous header''] else []) @
     (if of_nat kMaxSub < h_nsub h
      then [warn current_lba ''APA sub-partition count exceeds format limit; clamping to 64''] else []) @
     (if \<not> sector_extent_fits (h_start h) (h_length h) device_size
      then [err current_lba ''APA partition extent extends outside the device''] else [])"

definition header_subs :: "apa_header \<Rightarrow> sub_partition list" where
  "header_subs h = take (unat (min (h_nsub h) (of_nat kMaxSub))) (h_subs h)"

definition sub_issues :: "u64 \<Rightarrow> u32 \<Rightarrow> apa_header \<Rightarrow> issue list" where
  "sub_issues device_size current_lba h =
     concat (map (\<lambda>s. if \<not> sector_extent_fits (sub_start s) (sub_length s) device_size
       then [err current_lba ''APA sub-partition extent extends outside the device''] else [])
       (header_subs h))"

definition partition_of :: "apa_header \<Rightarrow> partition" where
  "partition_of h =
     \<lparr>p_id = partition_id h, p_start_lba = h_start h, p_length_sectors = h_length h,
      p_total_sectors = fold (\<lambda>s total. total + ucast (sub_length s)) (header_subs h) (ucast (h_length h)),
      p_type = h_type h, p_flags = h_flags h, p_main_lba = h_main h, p_number = h_number h,
      p_sub_count = min (h_nsub h) (of_nat kMaxSub), p_created = h_created h,
      p_sub_partitions = header_subs h\<rparr>"

section \<open>The scan\<close>

text \<open>
  \<open>scan_loop D k first visited lba prev h r\<close> is the loop with \<open>k\<close> headers left before
  \<open>max_headers\<close>; \<open>first\<close> says that \<open>count\<close> is still 0 and \<open>h\<close> holds the MBR header.
\<close>

fun scan_loop ::
  "'s device \<Rightarrow> nat \<Rightarrow> bool \<Rightarrow> u32 set \<Rightarrow> u32 \<Rightarrow> u32 \<Rightarrow> apa_header \<Rightarrow> scan_result \<Rightarrow>
   ('s, scan_result) state" where
  "scan_loop D 0 first visited lba prev h r = ret r"
| "scan_loop D (Suc k) first visited lba prev h r =
    (if lba \<in> visited then ret (add_issues [err lba ''Cycle detected in APA partition chain''] r)
     else do {
       loaded \<leftarrow> (if first then okE h else load_linked_header D lba);
       case loaded of
         Inl msg \<Rightarrow> ret (add_issues [err lba msg] r)
       | Inr h \<Rightarrow> do {
           device_size \<leftarrow> size_bytes D;
           let r = add_partition (partition_of h)
             (add_issues (header_issues device_size first lba prev h @ sub_issues device_size lba h) r);
           if h_next h = 0 then ret r
           else if \<not> range_fits (sector_offset (h_next h)) (of_nat kHeaderSize) device_size
           then ret (add_issues [err (h_next h) ''APA next link points outside the device''] r)
           else scan_loop D k False (insert lba visited) (h_next h) lba h
             (if k = 0 then add_issues [err (h_next h) ''APA scan header limit reached''] r else r)
         }
     })"

definition scan :: "'s device \<Rightarrow> nat \<Rightarrow> ('s, scan_result) state" where
  "scan D max_headers = do {
     device_size \<leftarrow> size_bytes D;
     if device_size < of_nat kHeaderSize
     then ret (add_issues [err 0 ''Device is smaller than one APA header''] empty_scan)
     else do {
       header \<leftarrow> read_header D 0;
       case header of
         None \<Rightarrow> ret (add_issues [err 0 ''Could not read APA MBR header''] empty_scan)
       | Some h \<Rightarrow>
           if h_magic h \<noteq> kMagic
           then ret (add_issues [err 0 ''APA magic is missing at LBA 0''] empty_scan)
           else if checksum h \<noteq> h_checksum h
           then ret (add_issues [err 0 ''APA MBR checksum mismatch''] empty_scan)
           else if \<not> has_sony_mbr_magic h
           then ret (add_issues [err 0 ''Sony APA MBR signature is missing''] empty_scan)
           else scan_loop D max_headers True {} 0 (h_prev h) h
             (empty_scan\<lparr>mbr_valid := True, apa_version := mbr_version (h_mbr h)\<rparr>)
     }
   }"

definition default_max_headers :: nat where "default_max_headers = 65536"

section \<open>Arithmetic of ranges\<close>

lemma range_fits_nat: "range_fits a b d \<longleftrightarrow> unat a + unat b \<le> unat d"
  by (auto simp: range_fits_def word_le_nat_alt unat_sub_if_size)

lemma unat_sector_offset [simp]: "unat (sector_offset lba) = unat lba * kSectorSize"
  using unat_u32_less [of lba] by (simp add: sector_offset_def kSectorSize_def unat_word_ariths)

lemma sector_extent_fits_nat:
  "sector_extent_fits start len d \<longleftrightarrow> (unat start + unat len) * kSectorSize \<le> unat d"
  by (simp add: sector_extent_fits_def range_fits_nat algebra_simps)

section \<open>The scanner is a client of the device contract\<close>

context reliable_device
begin

lemma transparent_read_header [transparent_intros]:
  "transparent ok img (read_header D lba) (read_header image_device lba)"
  unfolding read_header_def by (intro transparent_intros)

lemma transparent_load_linked_header [transparent_intros]:
  "transparent ok img (load_linked_header D lba) (load_linked_header image_device lba)"
  unfolding load_linked_header_def by (intro transparent_intros)

lemma transparent_scan_loop [transparent_intros]:
  "transparent ok img (scan_loop D k first visited lba prev h r)
     (scan_loop image_device k first visited lba prev h r)"
proof (induction k arbitrary: first visited lba prev h r)
  case 0
  show ?case unfolding scan_loop.simps by (rule transparent_ret)
next
  case (Suc k)
  show ?case unfolding scan_loop.simps by (intro transparent_intros Suc.IH)
qed

lemma transparent_scan [transparent_intros]:
  "transparent ok img (scan D max_headers) (scan image_device max_headers)"
  unfolding scan_def by (intro transparent_intros)

end

section \<open>What the scan guarantees on any device\<close>

lemma add_issues_sels [simp]:
  "mbr_valid (add_issues is r) = mbr_valid r" "partitions (add_issues is r) = partitions r"
  "issues (add_issues is r) = issues r @ is" "apa_version (add_issues is r) = apa_version r"
  by (simp_all add: add_issues_def)

lemma add_partition_sels [simp]:
  "mbr_valid (add_partition p r) = mbr_valid r" "partitions (add_partition p r) = partitions r @ [p]"
  "issues (add_partition p r) = issues r" "apa_version (add_partition p r) = apa_version r"
  by (simp_all add: add_partition_def)

lemma empty_scan_sels [simp]:
  "mbr_valid empty_scan = False" "partitions empty_scan = []" "issues empty_scan = []"
  by (simp_all add: empty_scan_def)

lemma severity_simps [simp]:
  "i_severity (warn lba msg) = Warning" "i_severity (err lba msg) = Error"
  by (simp_all add: warn_def err_def)

text \<open>The loop preserves whatever every single turn preserves: a rule for invariants of the
  result that depend on the size of the device.\<close>

lemma scan_loop_invariant:
  assumes size: "\<And>s off n r s'. ok s \<Longrightarrow> run_state (dev_read D off n) s = (r, s') \<Longrightarrow>
      ok s' \<and> dev_size D s' = dev_size D s"
    and issue: "\<And>r lba msg. P r \<Longrightarrow> P (add_issues [err lba msg] r)"
    and turn: "\<And>r h first lba prev. P r \<Longrightarrow> P (add_partition (partition_of h)
      (add_issues (header_issues dsz first lba prev h @ sub_issues dsz lba h) r))"
    and "ok s" "dev_size D s = dsz" "P r"
    and "run_state (scan_loop D k first visited lba prev h r) s = (r', s')"
  shows "P r'"
  using assms(4-7)
proof (induction k arbitrary: first visited lba prev h r s)
  case 0
  then show ?case by simp
next
  case (Suc k)
  have read: "ok t \<and> dev_size D t = dsz" if "run_state (load_linked_header D lba) s = (l, t)" for l t
    using that Suc.prems(1,2) size
    by (auto simp: load_linked_header_def read_header_def size_bytes_def split: prod.splits if_splits option.splits)
  show ?case
  proof (cases "lba \<in> visited")
    case True
    with Suc.prems show ?thesis by (auto intro: issue)
  next
    case False
    obtain l t where load: "run_state (if first then okE h else load_linked_header D lba) s = (l, t)"
      by fastforce
    with Suc.prems(1,2) read have t: "ok t" "dev_size D t = dsz"
      by (auto split: if_splits)
    show ?thesis
    proof (cases l)
      case (Inl msg)
      with Suc.prems(3,4) False load show ?thesis by (auto intro: issue)
    next
      case (Inr h)
      let ?r = "add_partition (partition_of h)
        (add_issues (header_issues dsz first lba prev h @ sub_issues dsz lba h) r)"
      have r: "P ?r" using Suc.prems(3) by (rule turn)
      let ?next = "if k = 0 then add_issues [err (h_next h) ''APA scan header limit reached''] ?r else ?r"
      have "P ?next" by (simp add: r issue)
      note tail = Suc.IH [OF t this]
      from Suc.prems(4) False load Inr t(2) have run:
        "run_state (if h_next h = 0 then ret ?r
           else if \<not> range_fits (sector_offset (h_next h)) (of_nat kHeaderSize) dsz
           then ret (add_issues [err (h_next h) ''APA next link points outside the device''] ?r)
           else scan_loop D k False (insert lba visited) (h_next h) lba h ?next) t = (r', s')"
        by (simp add: size_bytes_def Let_def cong: if_cong)
      consider "h_next h = 0"
        | "h_next h \<noteq> 0" "\<not> range_fits (sector_offset (h_next h)) (of_nat kHeaderSize) dsz"
        | "h_next h \<noteq> 0" "range_fits (sector_offset (h_next h)) (of_nat kHeaderSize) dsz" by blast
      then show ?thesis
      proof cases
        case 1
        with run have "r' = ?r" by simp
        with r show ?thesis by simp
      next
        case 2
        with run have "r' = add_issues [err (h_next h) ''APA next link points outside the device''] ?r" by simp
        with issue [OF r] show ?thesis by simp
      next
        case 3
        with run have "run_state (scan_loop D k False (insert lba visited) (h_next h) lba h ?next) t = (r', s')"
          by simp
        then show ?thesis by (rule tail)
      qed
    qed
  qed
qed

definition partition_fits :: "u64 \<Rightarrow> partition \<Rightarrow> bool" where
  "partition_fits device_size p \<longleftrightarrow>
     (unat (p_start_lba p) + unat (p_length_sectors p)) * kSectorSize \<le> unat device_size \<and>
     list_all (\<lambda>s. (unat (sub_start s) + unat (sub_length s)) * kSectorSize \<le> unat device_size)
       (p_sub_partitions p)"

lemma clean_turn_fits:
  assumes "list_all (\<lambda>i. i_severity i \<noteq> Error)
    (header_issues dsz first lba prev h @ sub_issues dsz lba h)"
  shows "partition_fits dsz (partition_of h)"
  using assms
  by (auto simp: header_issues_def sub_issues_def partition_fits_def partition_of_def list_all_iff
      sector_extent_fits_nat split: if_splits)

lemma scan_keeps_device:
  assumes "block_device D ok img" "ok s" "run_state (dev_read D off n) s = (r, s')"
  shows "ok s' \<and> dev_size D s' = dev_size D s"
  using assms unfolding block_device_def by metis

lemma scan_run_cases:
  assumes "run_state (scan D mx) s = (r, s')" "mbr_valid r"
  obtains h t where "run_state (read_header D 0) s = (Some h, t)" "h_magic h = kMagic"
    "checksum h = h_checksum h" "has_sony_mbr_magic h"
    "run_state (scan_loop D mx True {} 0 (h_prev h) h
       (empty_scan\<lparr>mbr_valid := True, apa_version := mbr_version (h_mbr h)\<rparr>)) t = (r, s')"
  using assms
  by (auto simp: scan_def size_bytes_def split: prod.splits if_splits option.splits)

lemma read_header_keeps:
  assumes "block_device D ok img" "ok s" "run_state (read_header D lba) s = (h, t)"
  shows "ok t \<and> dev_size D t = dev_size D s"
  using assms(2,3) scan_keeps_device [OF assms(1)]
  by (auto simp: read_header_def size_bytes_def split: prod.splits if_splits)

text \<open>C13: On any device, a scan that reports no fatal diagnostic only returns partitions whose main
  extent and recorded sub-extents all lie inside the device: no later address computed from them
  can leave the disk.\<close>

theorem scan_ok_partitions_fit:
  assumes "block_device D ok img" "ok s" "run_state (scan D mx) s = (r, s')" "scan_ok r"
    and "p \<in> set (partitions r)"
  shows "partition_fits (dev_size D s) p"
proof -
  let ?P = "\<lambda>r. list_all (\<lambda>i. i_severity i \<noteq> Error) (issues r) \<longrightarrow>
      (\<forall>p \<in> set (partitions r). partition_fits (dev_size D s) p)"
  from assms(4) have valid: "mbr_valid r" and clean: "list_all (\<lambda>i. i_severity i \<noteq> Error) (issues r)"
    by (simp_all add: scan_ok_def)
  from scan_run_cases [OF assms(3) valid] obtain h t
    where head: "run_state (read_header D 0) s = (Some h, t)"
      and run: "run_state (scan_loop D mx True {} 0 (h_prev h) h
        (empty_scan\<lparr>mbr_valid := True, apa_version := mbr_version (h_mbr h)\<rparr>)) t = (r, s')"
    by metis
  from read_header_keeps [OF assms(1,2) head] have t: "ok t" "dev_size D t = dev_size D s" by auto
  have "?P r"
  proof (rule scan_loop_invariant [where P = ?P and ok = ok and dsz = "dev_size D s", rotated 6, OF run])
    fix r :: scan_result and h first lba prev
    assume "?P r"
    then show "?P (add_partition (partition_of h)
        (add_issues (header_issues (dev_size D s) first lba prev h @ sub_issues (dev_size D s) lba h) r))"
      using clean_turn_fits [of "dev_size D s" first lba prev h] by simp
  next
    show "ok t" "dev_size D t = dev_size D s" by (fact t)+
  qed (use scan_keeps_device [OF assms(1)] in \<open>auto simp: empty_scan_def\<close>)
  with clean assms(5) show ?thesis by blast
qed

lemma scan_loop_length:
  "run_state (scan_loop D k first visited lba prev h r) s = (r', s') \<Longrightarrow>
   length (partitions r') \<le> length (partitions r) + k"
proof (induction k arbitrary: first visited lba prev h r s)
  case (Suc k)
  from Suc.prems show ?case
    by (auto simp: size_bytes_def Let_def dest: Suc.IH split: if_splits prod.splits sum.splits)
qed simp

text \<open>C14: A scan always returns, and with at most \<open>max_headers\<close> partitions, whatever the links on
  the disk say.\<close>

theorem scan_bounded: "length (partitions (evalS (scan D max_headers) s)) \<le> max_headers"
proof -
  obtain r s' where run: "run_state (scan D max_headers) s = (r, s')" by fastforce
  have "length (partitions r) \<le> max_headers"
    using run
    by (auto simp: scan_def size_bytes_def dest!: scan_loop_length split: prod.splits option.splits if_splits)
  with run show ?thesis by (simp add: evalS_def)
qed

section \<open>Sizes do not overflow\<close>

lemma header_subs_length: "length (header_subs h) \<le> kMaxSub"
proof -
  have "unat (min (h_nsub h) (of_nat kMaxSub)) \<le> unat (of_nat kMaxSub :: u32)"
    by (simp add: unat_mono word_le_nat_alt [symmetric])
  then show ?thesis by (simp add: header_subs_def kMaxSub_def)
qed

lemma total_sectors_exact:
  assumes "unat acc + length ss * 4294967295 < 18446744073709551616"
  shows "unat (fold (\<lambda>s total. total + ucast (sub_length s)) ss (acc :: u64))
    = unat acc + (\<Sum>s \<leftarrow> ss. unat (sub_length s))"
  using assms
proof (induction ss arbitrary: acc)
  case (Cons s ss)
  have "unat (sub_length s) \<le> 4294967295" using unat_u32_less [of "sub_length s"] by simp
  moreover from this Cons.prems have "unat (acc + ucast (sub_length s)) = unat acc + unat (sub_length s)"
    by (simp add: unat_word_ariths)
  ultimately show ?case using Cons.prems by (simp add: Cons.IH)
qed simp

text \<open>The sector total of a partition is the exact sum of its main extent and its sub-extents,
  and its size in bytes is exactly 512 times that: 64-bit arithmetic never wraps, whatever the
  header holds.\<close>

theorem partition_size_exact:
  "unat (p_total_sectors (partition_of h)) =
     unat (h_length h) + (\<Sum>s \<leftarrow> header_subs h. unat (sub_length s)) \<and>
   unat (partition_size_bytes (partition_of h)) = 512 * unat (p_total_sectors (partition_of h))"
proof -
  have len: "length (header_subs h) \<le> 64" using header_subs_length by (simp add: kMaxSub_def)
  have total: "unat (p_total_sectors (partition_of h)) =
      unat (h_length h) + (\<Sum>s \<leftarrow> header_subs h. unat (sub_length s))"
    using total_sectors_exact [of "ucast (h_length h)" "header_subs h"] len unat_u32_less [of "h_length h"]
    by (simp add: partition_of_def)
  have "(\<Sum>s \<leftarrow> ss. unat (sub_length s)) \<le> length ss * 4294967295" for ss :: "sub_partition list"
  proof (induction ss)
    case (Cons s ss)
    then show ?case using unat_u32_less [of "sub_length s"] by simp
  qed simp
  from this [of "header_subs h"]
  have "unat (p_total_sectors (partition_of h)) < 300000000000"
    using total len unat_u32_less [of "h_length h"] by simp
  then have "unat (partition_size_bytes (partition_of h)) = 512 * unat (p_total_sectors (partition_of h))"
    by (simp add: partition_size_bytes_def kSectorSize_def unat_word_ariths)
  with total show ?thesis by simp
qed

section \<open>A clean scan is exactly a well-formed chain\<close>

text \<open>The specification: a chain of LBAs on the disk, each a readable header with the right magic
  and checksum whose extents fit, each linked to the next, the last one linked to 0.\<close>

definition header_at :: "image \<Rightarrow> u32 \<Rightarrow> apa_header" where
  "header_at im lba = decode_header (image_slice im (unat (sector_offset lba)) kHeaderSize)"

definition header_valid :: "image \<Rightarrow> u32 \<Rightarrow> bool" where
  "header_valid im lba \<longleftrightarrow>
     in_image im (sector_offset lba) kHeaderSize \<and>
     h_magic (header_at im lba) = kMagic \<and> checksum (header_at im lba) = h_checksum (header_at im lba)"

definition extents_fit :: "image \<Rightarrow> u32 \<Rightarrow> bool" where
  "extents_fit im lba \<longleftrightarrow> partition_fits (img_size im) (partition_of (header_at im lba))"

fun apa_chain :: "image \<Rightarrow> u32 list \<Rightarrow> bool" where
  "apa_chain im [] \<longleftrightarrow> False"
| "apa_chain im [l] \<longleftrightarrow> header_valid im l \<and> extents_fit im l \<and> h_next (header_at im l) = 0"
| "apa_chain im (l # m # ls) \<longleftrightarrow>
     header_valid im l \<and> extents_fit im l \<and> h_next (header_at im l) = m \<and> m \<noteq> 0 \<and> apa_chain im (m # ls)"

definition no_errors :: "scan_result \<Rightarrow> bool" where
  "no_errors r \<longleftrightarrow> list_all (\<lambda>i. i_severity i \<noteq> Error) (issues r)"

lemma no_errors_simps [simp]:
  "no_errors (add_issues is r) \<longleftrightarrow> no_errors r \<and> list_all (\<lambda>i. i_severity i \<noteq> Error) is"
  "no_errors (add_partition p r) \<longleftrightarrow> no_errors r"
  by (auto simp: no_errors_def)

lemma run_size_image [simp]: "run_state (size_bytes image_device) im = (img_size im, im)"
  by (simp add: size_bytes_def image_device_def)

lemma run_read_header_image:
  "run_state (read_header image_device lba) im =
     (if in_image im (sector_offset lba) kHeaderSize then Some (header_at im lba) else None, im)"
  by (auto simp: read_header_def run_image_read header_at_def range_fits_nat in_image_nat kHeaderSize_def)

lemma run_load_linked_image:
  "run_state (load_linked_header image_device lba) im =
     (if \<not> in_image im (sector_offset lba) kHeaderSize then Inl ''Could not read APA header''
      else if h_magic (header_at im lba) \<noteq> kMagic then Inl ''Invalid APA magic''
      else if checksum (header_at im lba) \<noteq> h_checksum (header_at im lba) then Inl ''APA checksum mismatch''
      else Inr (header_at im lba), im)"
  by (simp add: load_linked_header_def run_read_header_image)

lemma turn_clean_iff:
  "list_all (\<lambda>i. i_severity i \<noteq> Error) (header_issues dsz first lba prev h) \<and>
   list_all (\<lambda>i. i_severity i \<noteq> Error) (sub_issues dsz lba h) \<longleftrightarrow> partition_fits dsz (partition_of h)"
  by (auto simp: header_issues_def sub_issues_def partition_fits_def partition_of_def list_all_iff
      sector_extent_fits_nat)

lemma next_in_image:
  "range_fits (sector_offset m) (of_nat kHeaderSize) (img_size im) \<longleftrightarrow>
   in_image im (sector_offset m) kHeaderSize"
  by (simp add: range_fits_nat in_image_nat kHeaderSize_def)

lemma scan_loop_errors_stay:
  "run_state (scan_loop image_device k first visited lba prev h r) im = (r', im') \<Longrightarrow>
   no_errors r' \<Longrightarrow> no_errors r"
proof (induction k arbitrary: first visited lba prev h r)
  case (Suc k)
  from Suc.prems show ?case
    by (auto simp: Let_def run_load_linked_image dest!: Suc.IH split: if_splits)
qed simp

text \<open>One turn of the loop that reaches a header.\<close>

lemma run_turn_image:
  assumes "lba \<notin> visited" "header_valid im lba" "first \<longrightarrow> h = header_at im lba"
  shows "run_state (scan_loop image_device (Suc k) first visited lba prev h r) im =
    (let h = header_at im lba;
         r = add_partition (partition_of h)
           (add_issues (header_issues (img_size im) first lba prev h @ sub_issues (img_size im) lba h) r)
     in if h_next h = 0 then (r, im)
        else if \<not> in_image im (sector_offset (h_next h)) kHeaderSize
        then (add_issues [err (h_next h) ''APA next link points outside the device''] r, im)
        else run_state (scan_loop image_device k False (insert lba visited) (h_next h) lba h
          (if k = 0 then add_issues [err (h_next h) ''APA scan header limit reached''] r else r)) im)"
  using assms by (auto simp: Let_def run_load_linked_image header_valid_def next_in_image)

lemma scan_loop_chain:
  assumes "run_state (scan_loop image_device (Suc k) first visited lba prev h r) im = (r', im')"
    and "first \<longrightarrow> header_valid im lba \<and> h = header_at im lba" "no_errors r'"
  shows "\<exists>ls. apa_chain im (lba # ls) \<and> distinct (lba # ls) \<and> set (lba # ls) \<inter> visited = {} \<and>
    length (lba # ls) \<le> Suc k \<and>
    partitions r' = partitions r @ map (\<lambda>l. partition_of (header_at im l)) (lba # ls)"
  using assms
proof (induction k arbitrary: first visited lba prev h r)
  case (Suc k)
  have new: "lba \<notin> visited" using Suc.prems by (auto split: if_splits)
  have valid: "header_valid im lba" and h: "first \<longrightarrow> h = header_at im lba"
    using Suc.prems new by (auto simp: run_load_linked_image header_valid_def split: if_splits)
  note run = Suc.prems(1) [unfolded run_turn_image [OF new valid h] Let_def]
  let ?h = "header_at im lba"
  let ?r = "add_partition (partition_of ?h) (add_issues (header_issues (img_size im) first lba prev ?h
      @ sub_issues (img_size im) lba ?h) r)"
  have fits: "extents_fit im lba" if "no_errors ?r"
    using that turn_clean_iff [of "img_size im" first lba prev ?h] by (simp add: extents_fit_def)
  show ?case
  proof (cases "h_next ?h = 0")
    case True
    with run have "r' = ?r" by auto
    with Suc.prems(3) new valid fits True show ?thesis by (intro exI [of _ "[]"]) auto
  next
    case False
    with run Suc.prems(3) have inside: "in_image im (sector_offset (h_next ?h)) kHeaderSize"
      by (auto split: if_splits)
    with False run have tail: "run_state (scan_loop image_device (Suc k) False (insert lba visited) (h_next ?h) lba ?h ?r) im = (r', im')"
      by simp
    from scan_loop_errors_stay [OF tail Suc.prems(3)] fits have fit: "extents_fit im lba" by simp
    from Suc.IH [OF tail] Suc.prems(3) obtain ls where
      ls: "apa_chain im (h_next ?h # ls)" "distinct (h_next ?h # ls)"
        "set (h_next ?h # ls) \<inter> insert lba visited = {}" "length (h_next ?h # ls) \<le> Suc k"
        "partitions r' = partitions ?r @ map (\<lambda>l. partition_of (header_at im l)) (h_next ?h # ls)"
      by auto
    then show ?thesis using valid fit new False by (intro exI [of _ "h_next ?h # ls"]) auto
  qed
next
  case 0
  have new: "lba \<notin> visited" using "0.prems" by (auto split: if_splits)
  have valid: "header_valid im lba" and h: "first \<longrightarrow> h = header_at im lba"
    using "0.prems" new by (auto simp: run_load_linked_image header_valid_def split: if_splits)
  note run = "0.prems"(1) [unfolded run_turn_image [OF new valid h] Let_def]
  let ?h = "header_at im lba"
  from run "0.prems"(3) have last: "h_next ?h = 0" by (auto split: if_splits)
  with run have "r' = add_partition (partition_of ?h) (add_issues (header_issues (img_size im) first lba prev ?h
      @ sub_issues (img_size im) lba ?h) r)" by auto
  with "0.prems"(3) turn_clean_iff [of "img_size im" first lba prev ?h] new valid last
  show ?case by (intro exI [of _ "[]"]) (auto simp: extents_fit_def)
qed

lemma chain_scan_loop:
  assumes "apa_chain im (lba # ls)" "distinct (lba # ls)" "set (lba # ls) \<inter> visited = {}"
    and "length (lba # ls) \<le> k" "no_errors r" "first \<longrightarrow> h = header_at im lba"
  shows "no_errors (fst (run_state (scan_loop image_device k first visited lba prev h r) im)) \<and>
    mbr_valid (fst (run_state (scan_loop image_device k first visited lba prev h r) im)) = mbr_valid r \<and>
    partitions (fst (run_state (scan_loop image_device k first visited lba prev h r) im)) =
      partitions r @ map (\<lambda>l. partition_of (header_at im l)) (lba # ls)"
  using assms
proof (induction ls arbitrary: k first visited lba prev h r)
  case Nil
  then obtain j where k: "k = Suc j" by (cases k) auto
  have new: "lba \<notin> visited" and valid: "header_valid im lba" and h: "first \<longrightarrow> h = header_at im lba"
    using Nil by auto
  show ?case
    unfolding k run_turn_image [OF new valid h] Let_def
    using Nil turn_clean_iff [of "img_size im" first lba prev "header_at im lba"]
    by (simp add: extents_fit_def)
next
  case (Cons m ls)
  then obtain j where k: "k = Suc j" and j: "j \<noteq> 0" by (cases k) auto
  have new: "lba \<notin> visited" and valid: "header_valid im lba" and h: "first \<longrightarrow> h = header_at im lba"
    and link: "h_next (header_at im lba) = m" "m \<noteq> 0" and tail: "apa_chain im (m # ls)"
    using Cons.prems by auto
  have "header_valid im m" using tail by (cases ls) auto
  then have inside: "in_image im (sector_offset m) kHeaderSize" by (simp add: header_valid_def)
  show ?case
    unfolding k run_turn_image [OF new valid h] Let_def link
    using Cons.prems link inside j turn_clean_iff [of "img_size im" first lba prev "header_at im lba"]
    by (simp add: Cons.IH k extents_fit_def)
qed

lemma chain_first: "apa_chain im (l # ls) \<Longrightarrow> header_valid im l"
  by (cases ls) auto

text \<open>C12: On an image, a scan ends with \<open>ok()\<close> and the partition list \<open>ps\<close> exactly when the disk
  carries a well-formed APA chain from LBA 0 (Sony signature at the MBR, every header with the right
  magic and checksum, every extent inside the disk, every link followed to the end, no LBA twice) of
  at most \<open>max_headers\<close> headers, and \<open>ps\<close> is the list of their partitions in chain order.\<close>

theorem scan_ok_iff_chain:
  "scan_ok (evalS (scan image_device (Suc k)) im) \<and> partitions (evalS (scan image_device (Suc k)) im) = ps \<longleftrightarrow>
     has_sony_mbr_magic (header_at im 0) \<and>
     (\<exists>ls. apa_chain im (0 # ls) \<and> distinct (0 # ls) \<and> length (0 # ls) \<le> Suc k \<and>
        ps = map (\<lambda>l. partition_of (header_at im l)) (0 # ls))"
  (is "?ok \<and> ?ps \<longleftrightarrow> ?sony \<and> (\<exists>ls. ?chain ls)")
proof -
  let ?h = "header_at im 0"
  let ?r0 = "empty_scan\<lparr>mbr_valid := True, apa_version := mbr_version (h_mbr ?h)\<rparr>"
  let ?loop = "run_state (scan_loop image_device (Suc k) True {} 0 (h_prev ?h) ?h ?r0) im"
  have small: "in_image im 0 kHeaderSize \<Longrightarrow> \<not> img_size im < of_nat kHeaderSize"
    by (simp add: in_image_nat kHeaderSize_def word_less_nat_alt)
  have scan: "evalS (scan image_device (Suc k)) im = fst ?loop" if "header_valid im 0" ?sony
    using that small
    by (simp add: scan_def evalS_def run_read_header_image header_valid_def sector_offset_def
        del: scan_loop.simps)
  have valid: "header_valid im 0" and sony: ?sony if ?ok
    using that small
    by (auto simp: scan_def evalS_def run_read_header_image header_valid_def scan_ok_def sector_offset_def
        simp del: scan_loop.simps split: if_splits)
  have clean0: "no_errors ?r0" "partitions ?r0 = []" by (simp_all add: no_errors_def empty_scan_def)
  show ?thesis
  proof
    assume l: "?ok \<and> ?ps"
    then have v: "header_valid im 0" and s: ?sony using valid sony by auto
    from l scan [OF v s] have "no_errors (fst ?loop)" "partitions (fst ?loop) = ps"
      by (simp_all add: scan_ok_def no_errors_def)
    with scan_loop_chain [of k True "{}" 0 "h_prev ?h" ?h ?r0 im "fst ?loop" "snd ?loop"] v clean0
    have "\<exists>ls. ?chain ls" by (simp del: scan_loop.simps)
    with s show "?sony \<and> (\<exists>ls. ?chain ls)" by blast
  next
    assume r: "?sony \<and> (\<exists>ls. ?chain ls)"
    then obtain ls where ls: "apa_chain im (0 # ls)" "distinct (0 # ls)" "length (0 # ls) \<le> Suc k"
      and ps: "ps = map (\<lambda>l. partition_of (header_at im l)) (0 # ls)" and s: ?sony by blast
    from chain_scan_loop [OF ls(1,2) _ ls(3) clean0(1), of "{}" True ?h "h_prev ?h"] clean0(2)
    have "no_errors (fst ?loop) \<and> mbr_valid (fst ?loop) \<and> partitions (fst ?loop) = ps"
      by (simp del: scan_loop.simps add: ps)
    with scan [OF chain_first [OF ls(1)] s] show "?ok \<and> ?ps"
      by (simp add: scan_ok_def no_errors_def del: scan_loop.simps)
  qed
qed

end
