(* ===== verification/ApaVolume.thy ===== *)
theory ApaVolume
  imports Apa
begin

text \<open>
  \<open>ApaVolume\<close> (\<open>src/core/apa_volume.cpp\<close>): the logical address space of one partition.  Extent 0
  is the main APA extent, extents 1.. its recorded sub-partitions; \<open>read_sectors\<close> is the only
  place where a logical sector becomes a physical one.
\<close>

record extent =
  start_lba :: u32
  length_sectors :: u32

record apa_volume =
  vol_partition :: partition
  vol_extents :: "extent list"

definition apa_volume :: "partition \<Rightarrow> apa_volume" where
  "apa_volume p =
     \<lparr>vol_partition = p,
      vol_extents = \<lparr>start_lba = p_start_lba p, length_sectors = p_length_sectors p\<rparr> #
        map (\<lambda>s. \<lparr>start_lba = sub_start s, length_sectors = sub_length s\<rparr>) (p_sub_partitions p)\<rparr>"

definition extent_count :: "apa_volume \<Rightarrow> nat" where
  "extent_count v = length (vol_extents v)"

definition read_sectors ::
  "'s device \<Rightarrow> apa_volume \<Rightarrow> nat \<Rightarrow> u32 \<Rightarrow> u32 \<Rightarrow> nat \<Rightarrow> ('s, byte list option) state" where
  "read_sectors D v sub sector count n =
     (if length (vol_extents v) \<le> sub then ret None
      else
        let e = vol_extents v ! sub;
            end_sector = ucast sector + ucast count :: u64
        in if ucast (length_sectors e) < end_sector then ret None
        else
          let byte_count = ucast count * of_nat kSectorSize :: u64
          in if unat byte_count \<noteq> n then ret None
          else
            let physical_lba = ucast (start_lba e) + ucast sector :: u64
            in if (- 1) div of_nat kSectorSize < physical_lba then ret None
            else dev_read D (physical_lba * of_nat kSectorSize) n)"

section \<open>Translation is exact\<close>

lemma unat_add_u32 [simp]: "unat (ucast (a::u32) + ucast (b::u32) :: u64) = unat a + unat b"
  using unat_u32_less [of a] unat_u32_less [of b] by (simp add: unat_word_ariths)

lemma unat_sectors [simp]: "unat (ucast (c::u32) * of_nat kSectorSize :: u64) = unat c * 512"
  using unat_u32_less [of c] by (simp add: kSectorSize_def unat_word_ariths)

lemma unat_physical [simp]:
  "unat ((ucast (a::u32) + ucast (b::u32)) * of_nat kSectorSize :: u64) = (unat a + unat b) * 512"
  using unat_u32_less [of a] unat_u32_less [of b]
  by (simp add: kSectorSize_def unat_word_ariths)

lemma physical_never_overflows:
  "\<not> (- 1) div of_nat kSectorSize < (ucast (a::u32) + ucast (b::u32) :: u64)"
proof -
  have "unat ((- 1) div of_nat kSectorSize :: u64) = 36028797018963967"
    by (simp add: kSectorSize_def unat_div_distrib)
  then show ?thesis
    using unat_u32_less [of a] unat_u32_less [of b] by (simp add: word_less_nat_alt)
qed

definition sector_addr :: "extent \<Rightarrow> u32 \<Rightarrow> u64" where
  "sector_addr e sector = (ucast (start_lba e) + ucast sector) * of_nat kSectorSize"

lemma unat_sector_addr: "unat (sector_addr e sector) = (unat (start_lba e) + unat sector) * 512"
  by (simp add: sector_addr_def)

lemma read_sectors_eq:
  "read_sectors D v sub sector count n =
     (if sub < length (vol_extents v) \<and>
         unat sector + unat count \<le> unat (length_sectors (vol_extents v ! sub)) \<and>
         n = unat count * 512
      then dev_read D (sector_addr (vol_extents v ! sub) sector) n
      else ret None)"
proof -
  have "ucast l < (ucast sector + ucast count :: u64) \<longleftrightarrow> \<not> unat sector + unat count \<le> unat l" for l :: u32
    by (simp add: word_less_nat_alt not_le)
  then show ?thesis
    by (simp add: read_sectors_def Let_def physical_never_overflows sector_addr_def not_le)
qed

text \<open>On an image, \<open>read_sectors\<close> succeeds exactly when the extent exists, the sector range lies in
  it, the buffer has the right size and the physical range lies on the disk; it then returns the
  bytes of the disk at (start LBA + sector) * 512.  In particular the overflow guard of the code can
  never fire.\<close>

theorem read_sectors_image:
  "evalS (read_sectors image_device v sub sector count n) im =
     (if sub < extent_count v \<and>
         unat sector + unat count \<le> unat (length_sectors (vol_extents v ! sub)) \<and>
         n = unat count * 512 \<and>
         (unat (start_lba (vol_extents v ! sub)) + unat sector) * 512 + n \<le> unat (img_size im)
      then Some (image_slice im ((unat (start_lba (vol_extents v ! sub)) + unat sector) * 512) n)
      else None)"
  by (auto simp: evalS_def read_sectors_eq extent_count_def run_image_read in_image_nat unat_sector_addr)

text \<open>The extents of a volume are those of its partition, so a partition that fits the device has a
  volume that fits it.\<close>

definition volume_fits :: "u64 \<Rightarrow> apa_volume \<Rightarrow> bool" where
  "volume_fits device_size v \<longleftrightarrow>
     list_all (\<lambda>e. (unat (start_lba e) + unat (length_sectors e)) * 512 \<le> unat device_size) (vol_extents v)"

lemma volume_fits_partition: "partition_fits dsz p \<Longrightarrow> volume_fits dsz (apa_volume p)"
  by (auto simp: volume_fits_def partition_fits_def apa_volume_def kSectorSize_def list_all_iff)

text \<open>On a reliable device, no read inside a recorded extent of a partition that a clean scan
  accepted can fail, and it returns the disk's bytes.\<close>

theorem read_sectors_total:
  assumes "reliable_device D ok img" "ok s" "partition_fits (dev_size D s) p"
    and "sub < extent_count (apa_volume p)"
    and "unat sector + unat count \<le> unat (length_sectors (vol_extents (apa_volume p) ! sub))"
  shows "evalS (read_sectors D (apa_volume p) sub sector count (unat count * 512)) s =
    Some (image_slice (img s)
      ((unat (start_lba (vol_extents (apa_volume p) ! sub)) + unat sector) * 512) (unat count * 512))"
proof -
  let ?e = "vol_extents (apa_volume p) ! sub"
  have size: "dev_size D s = img_size (img s)"
    using assms(1,2) by (simp add: reliable_device_def block_device_def)
  have "(unat (start_lba ?e) + unat (length_sectors ?e)) * 512 \<le> unat (dev_size D s)"
    using volume_fits_partition [OF assms(3)] assms(4)
    by (simp add: volume_fits_def list_all_length extent_count_def)
  then have inside: "in_image (img s) (sector_addr ?e sector) (unat count * 512)"
    using assms(5) size by (simp add: in_image_nat unat_sector_addr)
  have "transparent ok img (dev_read D a n) (dev_read image_device a n)" for a n
    by (rule reliable_device.transparent_read [OF assms(1)])
  from transparent_eval [OF this assms(2)]
  have "evalS (read_sectors D (apa_volume p) sub sector count (unat count * 512)) s =
      evalS (dev_read image_device (sector_addr ?e sector) (unat count * 512)) (img s)"
    using assms(4,5) by (simp add: read_sectors_eq extent_count_def)
  with inside show ?thesis by (simp add: evalS_def run_image_read unat_sector_addr)
qed

context reliable_device
begin

lemma transparent_read_sectors [transparent_intros]:
  "transparent ok img (read_sectors D v sub sector count n) (read_sectors image_device v sub sector count n)"
  unfolding read_sectors_eq by (intro transparent_intros)

end

end
