(* ===== verification/PfsFormat.thy ===== *)
theory PfsFormat
  imports ApaVolume
begin

text \<open>
  The on-disk PFS structures of \<open>include/ps2hdd/pfs.hpp\<close> with their byte layout, the metadata
  checksum and the filesystem probe of \<open>src/core/pfs.cpp\<close>.
\<close>

definition kSuperMagic :: u32 where "kSuperMagic = 0x50465300"
definition kSegdMagic :: u32 where "kSegdMagic = 0x53454744"
definition kSegiMagic :: u32 where "kSegiMagic = 0x53454749"
definition kFormatVersion :: u32 where "kFormatVersion = 3"
definition kSuperSector :: u32 where "kSuperSector = 8192"
definition kSuperBackupSector :: u32 where "kSuperBackupSector = 8193"
definition kFsckWriteError :: u32 where "kFsckWriteError = 0x01"
definition kFsckErrorsFixed :: u32 where "kFsckErrorsFixed = 0x02"
definition kMetadataSize :: nat where "kMetadataSize = 1024"
definition kInodeMaxBlocks :: nat where "kInodeMaxBlocks = 114"
definition kIndirectMaxBlocks :: nat where "kIndirectMaxBlocks = 123"
definition kModeMask :: u16 where "kModeMask = 0xF000"
definition kModeDirectory :: u16 where "kModeDirectory = 0x1000"
definition kModeRegular :: u16 where "kModeRegular = 0x2000"

record block_info =
  bi_number :: u32
  bi_subpart :: u16
  bi_count :: u16

text \<open>\<open>pfs::DateTime\<close> has the fields and the layout of \<open>apa::Ps2Time\<close>.\<close>

type_synonym date_time = ps2_time

record super_block =
  sb_magic :: u32
  sb_version :: u32
  sb_modver :: u32
  sb_fsck_stat :: u32
  sb_zone_size :: u32
  sb_num_subs :: u32
  sb_log :: block_info
  sb_root :: block_info

record inode =
  i_checksum :: u32
  i_magic :: u32
  i_inode_block :: block_info
  i_next_segment :: block_info
  i_last_segment :: block_info
  i_unused :: block_info
  i_data :: "block_info list"
  i_mode :: u16
  i_attr :: u16
  i_uid :: u16
  i_gid :: u16
  i_atime :: date_time
  i_ctime :: date_time
  i_mtime :: date_time
  i_size :: u64
  i_number_blocks :: u32
  i_number_data :: u32
  i_number_segdesg :: u32
  i_subpart :: u32
  i_reserved :: "u32 list"

record segment_descriptor =
  sd_checksum :: u32
  sd_magic :: u32
  sd_inode_block :: block_info
  sd_next_segment :: block_info
  sd_last_segment :: block_info
  sd_unused :: block_info
  sd_data :: "block_info list"

section \<open>Byte layout\<close>

definition decode_block_info :: "byte list \<Rightarrow> block_info" where
  "decode_block_info bs =
     \<lparr>bi_number = load_u32_le bs 0, bi_subpart = load_u16_le bs 4, bi_count = load_u16_le bs 6\<rparr>"

definition encode_block_info :: "block_info \<Rightarrow> byte list" where
  "encode_block_info b =
     store_u32_le (bi_number b) @ store_u16_le (bi_subpart b) @ store_u16_le (bi_count b)"

definition decode_u32 :: "byte list \<Rightarrow> u32" where
  "decode_u32 bs = load_u32_le bs 0"

definition decode_super :: "byte list \<Rightarrow> super_block" where
  "decode_super bs =
     \<lparr>sb_magic = load_u32_le bs 0, sb_version = load_u32_le bs 4, sb_modver = load_u32_le bs 8,
      sb_fsck_stat = load_u32_le bs 12, sb_zone_size = load_u32_le bs 16,
      sb_num_subs = load_u32_le bs 20, sb_log = decode_block_info (sub_bytes 24 8 bs),
      sb_root = decode_block_info (sub_bytes 32 8 bs)\<rparr>"

definition encode_super :: "super_block \<Rightarrow> byte list" where
  "encode_super s =
     store_u32_le (sb_magic s) @ store_u32_le (sb_version s) @ store_u32_le (sb_modver s) @
     store_u32_le (sb_fsck_stat s) @ store_u32_le (sb_zone_size s) @ store_u32_le (sb_num_subs s) @
     encode_block_info (sb_log s) @ encode_block_info (sb_root s)"

definition decode_inode :: "byte list \<Rightarrow> inode" where
  "decode_inode bs =
     \<lparr>i_checksum = load_u32_le bs 0, i_magic = load_u32_le bs 4,
      i_inode_block = decode_block_info (sub_bytes 8 8 bs),
      i_next_segment = decode_block_info (sub_bytes 16 8 bs),
      i_last_segment = decode_block_info (sub_bytes 24 8 bs),
      i_unused = decode_block_info (sub_bytes 32 8 bs),
      i_data = decode_array decode_block_info 8 40 kInodeMaxBlocks bs,
      i_mode = load_u16_le bs 952, i_attr = load_u16_le bs 954, i_uid = load_u16_le bs 956,
      i_gid = load_u16_le bs 958, i_atime = decode_time (sub_bytes 960 8 bs),
      i_ctime = decode_time (sub_bytes 968 8 bs), i_mtime = decode_time (sub_bytes 976 8 bs),
      i_size = load_u64_le bs 984, i_number_blocks = load_u32_le bs 992,
      i_number_data = load_u32_le bs 996, i_number_segdesg = load_u32_le bs 1000,
      i_subpart = load_u32_le bs 1004, i_reserved = decode_array decode_u32 4 1008 4 bs\<rparr>"

definition encode_inode :: "inode \<Rightarrow> byte list" where
  "encode_inode i =
     store_u32_le (i_checksum i) @ store_u32_le (i_magic i) @ encode_block_info (i_inode_block i) @
     encode_block_info (i_next_segment i) @ encode_block_info (i_last_segment i) @
     encode_block_info (i_unused i) @ concat (map encode_block_info (i_data i)) @
     store_u16_le (i_mode i) @ store_u16_le (i_attr i) @ store_u16_le (i_uid i) @
     store_u16_le (i_gid i) @ encode_time (i_atime i) @ encode_time (i_ctime i) @
     encode_time (i_mtime i) @ store_u64_le (i_size i) @ store_u32_le (i_number_blocks i) @
     store_u32_le (i_number_data i) @ store_u32_le (i_number_segdesg i) @
     store_u32_le (i_subpart i) @ concat (map store_u32_le (i_reserved i))"

definition decode_segment :: "byte list \<Rightarrow> segment_descriptor" where
  "decode_segment bs =
     \<lparr>sd_checksum = load_u32_le bs 0, sd_magic = load_u32_le bs 4,
      sd_inode_block = decode_block_info (sub_bytes 8 8 bs),
      sd_next_segment = decode_block_info (sub_bytes 16 8 bs),
      sd_last_segment = decode_block_info (sub_bytes 24 8 bs),
      sd_unused = decode_block_info (sub_bytes 32 8 bs),
      sd_data = decode_array decode_block_info 8 40 kIndirectMaxBlocks bs\<rparr>"

definition encode_segment :: "segment_descriptor \<Rightarrow> byte list" where
  "encode_segment d =
     store_u32_le (sd_checksum d) @ store_u32_le (sd_magic d) @
     encode_block_info (sd_inode_block d) @ encode_block_info (sd_next_segment d) @
     encode_block_info (sd_last_segment d) @ encode_block_info (sd_unused d) @
     concat (map encode_block_info (sd_data d))"

text \<open>The array sizes of the struct declarations.\<close>

definition inode_wf :: "inode \<Rightarrow> bool" where
  "inode_wf i \<longleftrightarrow> length (i_data i) = kInodeMaxBlocks \<and> length (i_reserved i) = 4"

definition segment_wf :: "segment_descriptor \<Rightarrow> bool" where
  "segment_wf d \<longleftrightarrow> length (sd_data d) = kIndirectMaxBlocks"

subsection \<open>The layout is a bijection\<close>

lemma length_encode_block_info [simp]: "length (encode_block_info b) = 8"
  by (simp add: encode_block_info_def)

lemma decode_encode_block_info [simp]: "decode_block_info (encode_block_info b) = b"
  by (simp add: decode_block_info_def encode_block_info_def byte_simps
      load_u16_front [where xs = "[]", simplified])

lemma encode_decode_block_info: "length bs = 8 \<Longrightarrow> encode_block_info (decode_block_info bs) = bs"
  by (simp add: encode_block_info_def decode_block_info_def store_load_u32 store_load_u16
      sub_bytes_join sub_bytes_join_rest sub_bytes_all)

lemma length_encode_blocks [simp]: "length (concat (map encode_block_info bs)) = 8 * length bs"
  by (induction bs) auto

lemma length_store_u32s [simp]: "length (concat (map store_u32_le ws)) = 4 * length ws"
  by (induction ws) auto

lemma encode_decode_blocks:
  "k + 8 * n \<le> length bs \<Longrightarrow>
   concat (map encode_block_info (decode_array decode_block_info 8 k n bs)) = sub_bytes k (8 * n) bs"
  by (rule encode_decode_array) (simp_all add: encode_decode_block_info)

lemma encode_decode_u32s:
  "k + 4 * n \<le> length bs \<Longrightarrow>
   concat (map store_u32_le (decode_array decode_u32 4 k n bs)) = sub_bytes k (4 * n) bs"
  by (rule encode_decode_array) (simp_all add: decode_u32_def store_load_u32 sub_bytes_all)

lemma decode_u32_store [simp]: "decode_u32 (store_u32_le w) = w"
  by (simp add: decode_u32_def load_store_u32)

lemma length_encode_super [simp]: "length (encode_super s) = 40"
  by (simp add: encode_super_def)

lemma decode_encode_super: "decode_super (encode_super s) = s"
  by (simp add: decode_super_def encode_super_def byte_simps)
    (simp add: sub_bytes_all)

lemma encode_super_inject: "encode_super a = encode_super b \<longleftrightarrow> a = b"
  by (metis decode_encode_super)

lemma length_encode_inode: "inode_wf i \<Longrightarrow> length (encode_inode i) = kMetadataSize"
  by (simp add: encode_inode_def inode_wf_def kInodeMaxBlocks_def kMetadataSize_def)

lemma length_encode_segment: "segment_wf d \<Longrightarrow> length (encode_segment d) = kMetadataSize"
  by (simp add: encode_segment_def segment_wf_def kIndirectMaxBlocks_def kMetadataSize_def)

lemma decode_inode_wf: "inode_wf (decode_inode bs)"
  by (simp add: decode_inode_def inode_wf_def)

lemma decode_segment_wf: "segment_wf (decode_segment bs)"
  by (simp add: decode_segment_def segment_wf_def)

lemma encode_decode_inode: "length bs = kMetadataSize \<Longrightarrow> encode_inode (decode_inode bs) = bs"
  by (simp add: encode_inode_def decode_inode_def encode_decode_blocks encode_decode_u32s
      store_load_u16 store_load_u32 store_load_u64 encode_decode_block_info encode_decode_time byte_simps
      sub_bytes_join sub_bytes_join_rest sub_bytes_all kInodeMaxBlocks_def kMetadataSize_def)

lemma decode_encode_inode: "inode_wf i \<Longrightarrow> decode_inode (encode_inode i) = i"
  by (simp add: inode_wf_def decode_inode_def kInodeMaxBlocks_def)
    (simp add: encode_inode_def byte_simps decode_array_front
      decode_array_front [where ys = "[]", simplified])

lemma encode_decode_segment: "length bs = kMetadataSize \<Longrightarrow> encode_segment (decode_segment bs) = bs"
  by (simp add: encode_segment_def decode_segment_def encode_decode_blocks
      store_load_u32 encode_decode_block_info byte_simps
      sub_bytes_join sub_bytes_join_rest sub_bytes_all kIndirectMaxBlocks_def kMetadataSize_def)

lemma decode_encode_segment: "segment_wf d \<Longrightarrow> decode_segment (encode_segment d) = d"
  by (simp add: segment_wf_def decode_segment_def kIndirectMaxBlocks_def)
    (simp add: encode_segment_def byte_simps decode_array_front
      decode_array_front [where ys = "[]", simplified])

text \<open>The packed PFS metadata layouts lose nothing: a SEGD inode and a SEGI descriptor decoded from
  1024 bytes encode to those bytes again, and decoding the bytes of one with the declared array sizes
  gives it back; the same for the superblock.\<close>

theorem pfs_metadata_roundtrip:
  "decode_super (encode_super s) = s \<and>
   (length bs = kMetadataSize \<longrightarrow>
      encode_inode (decode_inode bs) = bs \<and> encode_segment (decode_segment bs) = bs) \<and>
   (inode_wf i \<longrightarrow> decode_inode (encode_inode i) = i) \<and>
   (segment_wf d \<longrightarrow> decode_segment (encode_segment d) = d)"
  by (simp add: decode_encode_super encode_decode_inode encode_decode_segment decode_encode_inode
      decode_encode_segment)

section \<open>The metadata checksum\<close>

text \<open>The first word stores the checksum, the remaining 1020 bytes are summed as 32-bit words.\<close>

definition metadata_checksum :: "byte list \<Rightarrow> u32" where
  "metadata_checksum bytes =
     fold (\<lambda>i sum. sum + load_u32_le bytes (4 * i)) [1 ..< kMetadataSize div 4] 0"

definition inode_checksum :: "inode \<Rightarrow> u32" where
  "inode_checksum i = metadata_checksum (encode_inode i)"

definition segment_checksum :: "segment_descriptor \<Rightarrow> u32" where
  "segment_checksum d = metadata_checksum (encode_segment d)"

lemma metadata_checksum_sum:
  "metadata_checksum bytes = (\<Sum>i\<in>{1 ..< 256}. load_u32_le bytes (4 * i))"
  using fold_plus_sum [of "\<lambda>i. load_u32_le bytes (4 * i)" 1 256 0]
  by (simp add: metadata_checksum_def kMetadataSize_def)

text \<open>\<open>patch_word j w bs\<close> replaces the aligned word \<open>j\<close> of \<open>bs\<close>.\<close>

definition patch_word :: "nat \<Rightarrow> byte list \<Rightarrow> byte list \<Rightarrow> byte list" where
  "patch_word j w bs = take (4 * j) bs @ w @ drop (4 * j + 4) bs"

lemma load_patch_word:
  assumes "length w = 4" "4 * j + 4 \<le> length bs" "4 * i + 4 \<le> length bs"
  shows "load_u32_le (patch_word j w bs) (4 * i) = (if i = j then load_u32_le w 0 else load_u32_le bs (4 * i))"
proof -
  consider "i < j" | "i = j" | "j < i" by linarith
  then show ?thesis
  proof cases
    case 1
    then show ?thesis using assms by (simp add: patch_word_def load_u32_le_def nth_append)
  next
    case 2
    then show ?thesis using assms
      by (simp add: patch_word_def load_u32_le_def nth_append numeral_2_eq_2)
  next
    case 3
    then obtain d where d: "4 * i = 4 * j + 4 + 4 * d" by (auto simp: less_iff_Suc_add)
    have "load_u32_le (patch_word j w bs) (4 * i) = load_u32_le (drop (4 * j + 4) bs) (4 * d)"
      using assms by (simp add: patch_word_def d load_u32_skip)
    also have "\<dots> = load_u32_le bs (4 * i)"
      using assms by (simp add: load_u32_le_def d add.assoc)
    finally show ?thesis using 3 by simp
  qed
qed

lemma load_u32_inject:
  "\<lbrakk>length v = 4; length w = 4\<rbrakk> \<Longrightarrow> load_u32_le v 0 = load_u32_le w 0 \<longleftrightarrow> v = w"
  by (metis add_0 order_refl store_load_u32 sub_bytes_all)

lemma checksum_patch:
  assumes w: "length w = 4" and bs: "length bs = kMetadataSize" and j: "j < 256"
    and diff: "w \<noteq> sub_bytes (4 * j) 4 bs"
    and ok: "metadata_checksum bs = load_u32_le bs 0"
  shows "metadata_checksum (patch_word j w bs) \<noteq> load_u32_le (patch_word j w bs) 0"
proof -
  let ?f = "\<lambda>i. load_u32_le bs (4 * i)" and ?g = "\<lambda>i. load_u32_le (patch_word j w bs) (4 * i)"
  have len: "4 * i + 4 \<le> length bs" if "i < 256" for i
    using that bs by (simp add: kMetadataSize_def)
  have old: "?f j = load_u32_le (sub_bytes (4 * j) 4 bs) 0"
    using load_u32_sub_bytes [of 0 4 "4 * j" bs] len [OF j] by simp
  have new: "?g j \<noteq> ?f j"
    unfolding old load_patch_word [OF w len [OF j] len [OF j]]
    using diff w len [OF j] by (simp add: load_u32_inject length_sub_bytes)
  have same: "?g i = ?f i" if "i < 256" "i \<noteq> j" for i
    using load_patch_word [OF w len [OF j] len [OF that(1)]] that(2) by simp
  show ?thesis
  proof (cases "j = 0")
    case True
    then have "metadata_checksum (patch_word j w bs) = metadata_checksum bs"
      unfolding metadata_checksum_sum by (intro sum.cong refl same) (use True in auto)
    with new ok True show ?thesis by simp
  next
    case False
    then have in_sum: "j \<in> {1 ..< 256}" "finite {1 ..< 256::nat}" using j by auto
    have "(\<Sum>i\<in>{1 ..< 256} - {j}. ?g i) = (\<Sum>i\<in>{1 ..< 256} - {j}. ?f i)"
      by (intro sum.cong) (auto simp: same)
    then have "metadata_checksum (patch_word j w bs) \<noteq> metadata_checksum bs"
      unfolding metadata_checksum_sum sum.remove [OF in_sum(2,1)] using new by simp
    with ok same [of 0] False show ?thesis by simp
  qed
qed

text \<open>C30: A metadata block whose checksum matches is rejected after any change confined to one aligned
  32-bit word, the stored checksum included: the checksum then no longer matches.  This holds for SEGD
  inodes and for SEGI descriptors.\<close>

theorem metadata_word_corruption_detected:
  assumes "length bs = kMetadataSize" "length w = 4" "j < 256" "w \<noteq> sub_bytes (4 * j) 4 bs"
  shows "(inode_checksum (decode_inode bs) = i_checksum (decode_inode bs) \<longrightarrow>
      inode_checksum (decode_inode (patch_word j w bs)) \<noteq> i_checksum (decode_inode (patch_word j w bs))) \<and>
    (segment_checksum (decode_segment bs) = sd_checksum (decode_segment bs) \<longrightarrow>
      segment_checksum (decode_segment (patch_word j w bs)) \<noteq> sd_checksum (decode_segment (patch_word j w bs)))"
proof -
  have "length (patch_word j w bs) = kMetadataSize"
    using assms by (simp add: patch_word_def kMetadataSize_def)
  then show ?thesis
    using checksum_patch [OF assms(2,1,3,4)] assms(1)
    by (simp add: inode_checksum_def segment_checksum_def encode_decode_inode encode_decode_segment)
      (simp add: decode_inode_def decode_segment_def)
qed

section \<open>Zone sizes\<close>

definition valid_zone_size :: "u32 \<Rightarrow> bool" where
  "valid_zone_size zone_size \<longleftrightarrow>
     2 * 1024 \<le> zone_size \<and> zone_size \<le> 128 * 1024 \<and> zone_size AND (zone_size - 1) = 0"

lemma and_pred_eq_0:
  assumes "0 < (z::u32)" "z AND (z - 1) = 0"
  obtains k where "unat z = 2 ^ k"
proof -
  have "0 < unat z" using assms(1) by (simp add: word_gt_0 unat_gt_0)
  then obtain k where k: "2 ^ k \<le> unat z" "unat z < 2 ^ (k + 1)"
    using ex_power_ivl1 [of 2 "unat z"] by auto
  have k_less: "k < 32"
  proof (rule ccontr)
    assume "\<not> k < 32"
    then have "(2::nat) ^ 32 \<le> 2 ^ k" by (intro power_increasing) auto
    with k(1) unat_u32_less [of z] show False by simp
  qed
  have "unat z = 2 ^ k"
  proof (rule ccontr)
    assume ne: "unat z \<noteq> 2 ^ k"
    have pred: "unat (z - 1) = unat z - 1"
      using \<open>0 < unat z\<close> by (simp add: unat_sub word_le_nat_alt)
    have "unat z div 2 ^ k = 1" "unat (z - 1) div 2 ^ k = 1"
      unfolding pred using k ne by (auto intro!: div_nat_eqI)
    then have "bit (unat z) k" "bit (unat (z - 1)) k"
      by (simp_all only: bit_iff_odd) simp_all
    then have "bit z k" "bit (z - 1) k"
      by (simp_all add: bit_unsigned_iff)
    then have "bit (z AND (z - 1)) k" by (simp add: bit_and_iff)
    with assms(2) show False by simp
  qed
  then show ?thesis by (rule that)
qed

lemma valid_zone_size_nat:
  "valid_zone_size z \<longleftrightarrow> unat z \<in> {2048, 4096, 8192, 16384, 32768, 65536, 131072}"
proof
  assume v: "valid_zone_size z"
  then have bounds: "2048 \<le> unat z" "unat z \<le> 131072"
    by (auto simp: valid_zone_size_def word_le_nat_alt)
  then have "0 < z" by (simp add: word_less_nat_alt)
  with v obtain k where k: "unat z = 2 ^ k"
    using and_pred_eq_0 by (auto simp: valid_zone_size_def)
  have "(2::nat) ^ 11 \<le> 2 ^ k" "(2::nat) ^ k \<le> 2 ^ 17" using bounds k by auto
  then have "11 \<le> k" "k \<le> 17" by (metis power_increasing_iff one_less_numeral_iff semiring_norm(76))+
  then have "k \<in> {11, 12, 13, 14, 15, 16, 17}" by auto
  then show "unat z \<in> {2048, 4096, 8192, 16384, 32768, 65536, 131072}" using k by auto
next
  assume "unat z \<in> {2048, 4096, 8192, 16384, 32768, 65536, 131072}"
  then have "z \<in> {2048, 4096, 8192, 16384, 32768, 65536, 131072}"
    by (auto simp: word_unat_eq_iff)
  then show "valid_zone_size z" by (auto simp: valid_zone_size_def)
qed

end
