(* ===== verification/PfsReader.thy ===== *)
theory PfsReader
  imports PfsFormat
begin

text \<open>
  \<open>pfs::probe\<close> and the metadata and payload readers of \<open>pfs::Reader\<close> (\<open>src/core/pfs.cpp\<close>):
  superblocks, SEGD inodes, SEGI descriptors and bytes of one block descriptor.  A routine that
  fails returns \<open>Inl\<close> the value the code leaves in \<open>last_error_\<close>; \<open>pfs_message\<close> is its text.
\<close>

section \<open>Errors\<close>

datatype pfs_error =
    Probe_not_pfs | Probe_sub_partition | Probe_unreadable | Probe_magic | Probe_version
  | Probe_zone_size | Probe_missing_subs | Probe_root_subpart | Probe_log_subpart
  | Not_valid
  | Inode_subpart | Inode_address | Inode_sector | Inode_unreadable | Inode_magic
  | Inode_checksum | Inode_no_blocks | Inode_no_chain
  | Segi_null | Segi_subpart | Segi_address | Segi_sector | Segi_unreadable | Segi_magic
  | Segi_checksum
  | Data_subpart | Data_extent | Data_address | Data_sectors | Data_sector
  | Read_bounds | Read_no_descriptor | Read_empty_block | Read_overflow | Read_short
  | Read_long_chain
  | Dir_not_directory | Dir_too_large | Dir_allocation | Dir_name_length
  | Path_not_found string
  | Does_not_return

fun pfs_message :: "pfs_error \<Rightarrow> string" where
  "pfs_message Probe_not_pfs = ''APA partition is not marked as PFS''"
| "pfs_message Probe_sub_partition = ''A PFS filesystem must be probed from its main APA partition''"
| "pfs_message Probe_unreadable = ''Could not read PFS superblock at sector 8192''"
| "pfs_message Probe_magic = ''PFS superblock magic is invalid''"
| "pfs_message Probe_version = ''PFS format version is newer than supported version 3''"
| "pfs_message Probe_zone_size = ''PFS zone size is invalid''"
| "pfs_message Probe_missing_subs = ''PFS expects more APA sub-partitions than are attached''"
| "pfs_message Probe_root_subpart = ''PFS root inode points to a missing sub-partition''"
| "pfs_message Probe_log_subpart = ''PFS journal points to a missing sub-partition''"
| "pfs_message Not_valid = ''PFS filesystem is not valid''"
| "pfs_message Inode_subpart = ''PFS inode points to a missing sub-partition''"
| "pfs_message Inode_address = ''PFS inode block address overflows''"
| "pfs_message Inode_sector = ''PFS inode sector address overflows''"
| "pfs_message Inode_unreadable = ''Could not read PFS inode metadata''"
| "pfs_message Inode_magic = ''PFS inode has invalid SEGD magic''"
| "pfs_message Inode_checksum = ''PFS inode checksum mismatch''"
| "pfs_message Inode_no_blocks = ''PFS inode has no block descriptors''"
| "pfs_message Inode_no_chain = ''PFS inode references indirect data but has no SEGI chain''"
| "pfs_message Segi_null = ''PFS SEGI chain contains a null descriptor pointer''"
| "pfs_message Segi_subpart = ''PFS SEGI descriptor points to a missing sub-partition''"
| "pfs_message Segi_address = ''PFS SEGI block address overflows''"
| "pfs_message Segi_sector = ''PFS SEGI sector address overflows''"
| "pfs_message Segi_unreadable = ''Could not read PFS SEGI metadata''"
| "pfs_message Segi_magic = ''PFS indirect descriptor has invalid SEGI magic''"
| "pfs_message Segi_checksum = ''PFS indirect descriptor checksum mismatch''"
| "pfs_message Data_subpart = ''PFS data block points to a missing sub-partition''"
| "pfs_message Data_extent = ''PFS read exceeds block descriptor extent''"
| "pfs_message Data_address = ''PFS data sector address overflows''"
| "pfs_message Data_sectors = ''Could not read PFS data sectors''"
| "pfs_message Data_sector = ''Could not read PFS data sector''"
| "pfs_message Read_bounds = ''PFS read is outside file bounds''"
| "pfs_message Read_no_descriptor = ''PFS indirect data encountered before a SEGI descriptor''"
| "pfs_message Read_empty_block = ''PFS contains an empty block descriptor inside the used descriptor range''"
| "pfs_message Read_overflow = ''PFS logical file extent overflows''"
| "pfs_message Read_short = ''PFS inode does not describe enough data for the requested read''"
| "pfs_message Read_long_chain = ''PFS SEGI chain is longer than inode metadata reports''"
| "pfs_message Dir_not_directory = ''PFS node is not a directory''"
| "pfs_message Dir_too_large = ''PFS directory size is implausibly large''"
| "pfs_message Dir_allocation = ''Malformed PFS directory entry allocation length''"
| "pfs_message Dir_name_length = ''Malformed PFS directory entry name length''"
| "pfs_message (Path_not_found component) = ''PFS path component not found: '' @ component"
| "pfs_message Does_not_return = ''''"

datatype pfs_warning =
    Unregistered_subs | Backup_unreadable | Backup_differs | Fsck_write_error | Fsck_errors_fixed

section \<open>Probing\<close>

record probe_result =
  pr_valid :: bool
  pr_backup_matches :: bool
  pr_super :: super_block
  pr_warnings :: "pfs_warning list"
  pr_errors :: "pfs_error list"

definition empty_block_info :: block_info where
  "empty_block_info = \<lparr>bi_number = 0, bi_subpart = 0, bi_count = 0\<rparr>"

definition empty_super :: super_block where
  "empty_super =
     \<lparr>sb_magic = 0, sb_version = 0, sb_modver = 0, sb_fsck_stat = 0, sb_zone_size = 0,
      sb_num_subs = 0, sb_log = empty_block_info, sb_root = empty_block_info\<rparr>"

definition empty_probe :: probe_result where
  "empty_probe =
     \<lparr>pr_valid = False, pr_backup_matches = False, pr_super = empty_super, pr_warnings = [],
      pr_errors = []\<rparr>"

definition read_super :: "'s device \<Rightarrow> apa_volume \<Rightarrow> u32 \<Rightarrow> ('s, super_block option) state" where
  "read_super D v sector = do {
     raw \<leftarrow> read_sectors D v 0 sector 1 kSectorSize;
     ret (map_option decode_super raw)
   }"

text \<open>The last part of \<open>probe\<close>, reached when every check on the primary superblock passed.\<close>

definition check_backup :: "'s device \<Rightarrow> apa_volume \<Rightarrow> probe_result \<Rightarrow> ('s, probe_result) state" where
  "check_backup D v r = do {
     backup \<leftarrow> read_super D v kSuperBackupSector;
     let sb = pr_super r;
     let matches = (case backup of None \<Rightarrow> False | Some b \<Rightarrow> encode_super sb = encode_super b);
     let w = (case backup of None \<Rightarrow> [Backup_unreadable]
              | Some b \<Rightarrow> if matches then [] else [Backup_differs]) @
             (if sb_fsck_stat sb AND kFsckWriteError \<noteq> 0 then [Fsck_write_error] else []) @
             (if sb_fsck_stat sb AND kFsckErrorsFixed \<noteq> 0 then [Fsck_errors_fixed] else []);
     ret (r\<lparr>pr_backup_matches := matches, pr_warnings := pr_warnings r @ w, pr_valid := True\<rparr>)
   }"

definition probe :: "'s device \<Rightarrow> apa_volume \<Rightarrow> ('s, probe_result) state" where
  "probe D v =
     (let failed = (\<lambda>r e. ret (r\<lparr>pr_errors := [e]\<rparr>)) in
      if p_type (vol_partition v) \<noteq> kTypePfs then failed empty_probe Probe_not_pfs
      else if is_sub (vol_partition v) then failed empty_probe Probe_sub_partition
      else do {
        primary \<leftarrow> read_super D v kSuperSector;
        case primary of
          None \<Rightarrow> failed empty_probe Probe_unreadable
        | Some sb \<Rightarrow>
            let r = empty_probe\<lparr>pr_super := sb\<rparr>;
                available_subs = extent_count v - 1;
                r' = r\<lparr>pr_warnings := if unat (sb_num_subs sb) < available_subs then [Unregistered_subs] else []\<rparr>
            in if sb_magic sb \<noteq> kSuperMagic then failed r Probe_magic
               else if kFormatVersion < sb_version sb then failed r Probe_version
               else if \<not> valid_zone_size (sb_zone_size sb) then failed r Probe_zone_size
               else if available_subs < unat (sb_num_subs sb) then failed r Probe_missing_subs
               else if sb_num_subs sb < ucast (bi_subpart (sb_root sb)) then failed r' Probe_root_subpart
               else if sb_num_subs sb < ucast (bi_subpart (sb_log sb)) then failed r' Probe_log_subpart
               else check_backup D v r'
      })"

text \<open>What a valid probe says of the superblock.\<close>

definition super_ok :: "apa_volume \<Rightarrow> super_block \<Rightarrow> bool" where
  "super_ok v sb \<longleftrightarrow>
     sb_magic sb = kSuperMagic \<and> sb_version sb \<le> kFormatVersion \<and> valid_zone_size (sb_zone_size sb) \<and>
     unat (sb_num_subs sb) \<le> extent_count v - 1 \<and>
     unat (bi_subpart (sb_root sb)) \<le> unat (sb_num_subs sb) \<and>
     unat (bi_subpart (sb_log sb)) \<le> unat (sb_num_subs sb)"

definition probe_ok :: "apa_volume \<Rightarrow> probe_result \<Rightarrow> bool" where
  "probe_ok v pr \<longleftrightarrow> (pr_valid pr \<longleftrightarrow> pr_errors pr = []) \<and> (pr_valid pr \<longrightarrow> super_ok v (pr_super pr))"

lemma check_backup_keeps:
  "run_state (check_backup D v r) s = (pr, s') \<Longrightarrow>
   pr_valid pr \<and> pr_super pr = pr_super r \<and> pr_errors pr = pr_errors r"
  by (auto simp: check_backup_def Let_def split: prod.splits)

lemma empty_probe_sels [simp]:
  "pr_valid empty_probe = False" "pr_errors empty_probe = []"
  by (simp_all add: empty_probe_def)

lemma probe_cases:
  assumes "run_state (probe D v) s = (pr, s')"
  shows "probe_ok v pr \<and>
    (pr_valid pr \<longleftrightarrow>
       p_type (vol_partition v) = kTypePfs \<and> \<not> is_sub (vol_partition v) \<and>
       (\<exists>sb. evalS (read_super D v kSuperSector) s = Some sb \<and> super_ok v sb \<and> pr_super pr = sb))"
proof (cases "p_type (vol_partition v) = kTypePfs \<and> \<not> is_sub (vol_partition v)")
  case False
  with assms show ?thesis by (auto simp: probe_def probe_ok_def Let_def split: if_splits)
next
  case True
  obtain primary t where super: "run_state (read_super D v kSuperSector) s = (primary, t)" by fastforce
  show ?thesis
  proof (cases primary)
    case None
    with assms True super show ?thesis by (auto simp: probe_def probe_ok_def evalS_def)
  next
    case (Some sb)
    show ?thesis
    proof (cases "super_ok v sb")
      case ok: True
      from assms True super Some ok show ?thesis
        by (auto simp: probe_def probe_ok_def super_ok_def evalS_def Let_def not_less
            word_less_nat_alt word_le_nat_alt dest: check_backup_keeps)
    next
      case False
      from assms True super Some False show ?thesis
        by (auto simp: probe_def probe_ok_def super_ok_def evalS_def Let_def not_less
            word_less_nat_alt word_le_nat_alt split: if_splits)
    qed
  qed
qed

text \<open>C38: On any device, a probe accepts exactly the main PFS partitions whose primary superblock
  can be read and passes the magic, version, zone-size and sub-partition checks; it accepts exactly
  when it reports no error, and the result carries that superblock.\<close>

theorem probe_valid_iff:
  "pr_valid (evalS (probe D v) s) \<longleftrightarrow>
     p_type (vol_partition v) = kTypePfs \<and> \<not> is_sub (vol_partition v) \<and>
     (\<exists>sb. evalS (read_super D v kSuperSector) s = Some sb \<and> super_ok v sb \<and>
        pr_super (evalS (probe D v) s) = sb \<and> pr_errors (evalS (probe D v) s) = [])"
  using probe_cases [of D v s] unfolding evalS_def probe_ok_def by (cases "run_state (probe D v) s") auto

end
