(* ===== verification/PfsMetadata.thy ===== *)
theory PfsMetadata
  imports PfsReader
begin

text \<open>
  \<open>pfs::Reader\<close> (\<open>src/core/pfs.cpp\<close>), metadata part: \<open>inode_scale\<close>, \<open>read_inode\<close>, \<open>root\<close>
  and \<open>read_segment_descriptor\<close>; and \<open>extent_bytes\<close>, the specification every access to a
  volume is compared with.
\<close>

record pfs_reader =
  rd_volume :: apa_volume
  rd_probe :: probe_result

record pfs_node =
  nd_location :: block_info
  nd_inode :: inode

definition open_reader :: "'s device \<Rightarrow> apa_volume \<Rightarrow> ('s, pfs_reader) state" where
  "open_reader D v = do { pr \<leftarrow> probe D v; ret \<lparr>rd_volume = v, rd_probe = pr\<rparr> }"

abbreviation rd_super :: "pfs_reader \<Rightarrow> super_block" where
  "rd_super rd \<equiv> pr_super (rd_probe rd)"

definition reader_valid :: "pfs_reader \<Rightarrow> bool" where
  "reader_valid rd \<longleftrightarrow> pr_valid (rd_probe rd)"

section \<open>Metadata addresses\<close>

text \<open>The loop of \<open>inode_scale\<close>; \<open>None\<close> is the loop that never ends (the 32-bit shift reaches 0).\<close>

partial_function (option) inode_scale_loop :: "u32 \<Rightarrow> u32 \<Rightarrow> nat \<Rightarrow> nat option" where
  "inode_scale_loop zone sz scale =
     (if sz < zone then inode_scale_loop zone (push_bit 1 sz) (scale + 1) else Some scale)"

definition inode_scale :: "u32 \<Rightarrow> nat option" where
  "inode_scale zone = inode_scale_loop zone (of_nat kMetadataSize) 0"

definition subpart_missing :: "pfs_reader \<Rightarrow> block_info \<Rightarrow> bool" where
  "subpart_missing rd loc \<longleftrightarrow>
     sb_num_subs (rd_super rd) < ucast (bi_subpart loc) \<or>
     extent_count (rd_volume rd) \<le> unat (bi_subpart loc)"

text \<open>The address computation and the read that \<open>read_inode\<close> and \<open>read_segment_descriptor\<close> share;
  they differ in the messages.\<close>

definition read_metadata ::
  "'s device \<Rightarrow> pfs_reader \<Rightarrow> block_info \<Rightarrow> pfs_error \<Rightarrow> pfs_error \<Rightarrow> pfs_error \<Rightarrow>
   ('s, pfs_error + byte list) state" where
  "read_metadata D rd loc e_address e_sector e_unreadable =
     (case inode_scale (sb_zone_size (rd_super rd)) of
        None \<Rightarrow> failE Does_not_return
      | Some scale \<Rightarrow>
          if drop_bit scale (- 1) < bi_number loc then failE e_address
          else
            let metadata_block = push_bit scale (bi_number loc);
                sectors_per_metadata = of_nat (kMetadataSize div kSectorSize) :: u32;
                sector64 = ucast metadata_block * ucast sectors_per_metadata :: u64
            in if ucast (- 1 :: u32) < sector64 then failE e_sector
            else do {
              raw \<leftarrow> read_sectors D (rd_volume rd) (unat (bi_subpart loc)) (ucast sector64)
                sectors_per_metadata kMetadataSize;
              case raw of None \<Rightarrow> failE e_unreadable | Some bs \<Rightarrow> okE bs
            })"

section \<open>Inodes and SEGI descriptors\<close>

definition inode_error :: "inode \<Rightarrow> pfs_error option" where
  "inode_error i =
     (if i_magic i \<noteq> kSegdMagic then Some Inode_magic
      else if inode_checksum i \<noteq> i_checksum i then Some Inode_checksum
      else if i_number_data i = 0 then Some Inode_no_blocks
      else if of_nat kInodeMaxBlocks < i_number_data i \<and> bi_number (i_next_segment i) = 0
      then Some Inode_no_chain
      else None)"

definition read_inode :: "'s device \<Rightarrow> pfs_reader \<Rightarrow> block_info \<Rightarrow> ('s, pfs_error + pfs_node) state" where
  "read_inode D rd loc =
     (if \<not> reader_valid rd then failE Not_valid
      else if subpart_missing rd loc then failE Inode_subpart
      else bindE (read_metadata D rd loc Inode_address Inode_sector Inode_unreadable) (\<lambda>raw.
        let i = decode_inode raw
        in case inode_error i of
             Some e \<Rightarrow> failE e
           | None \<Rightarrow> okE \<lparr>nd_location = loc, nd_inode = i\<rparr>))"

definition read_root :: "'s device \<Rightarrow> pfs_reader \<Rightarrow> ('s, pfs_error + pfs_node) state" where
  "read_root D rd =
     (if \<not> reader_valid rd then failE Not_valid else read_inode D rd (sb_root (rd_super rd)))"

definition segment_error :: "segment_descriptor \<Rightarrow> pfs_error option" where
  "segment_error d =
     (if sd_magic d \<noteq> kSegiMagic then Some Segi_magic
      else if segment_checksum d \<noteq> sd_checksum d then Some Segi_checksum
      else None)"

definition read_segment_descriptor ::
  "'s device \<Rightarrow> pfs_reader \<Rightarrow> block_info \<Rightarrow> ('s, pfs_error + segment_descriptor) state" where
  "read_segment_descriptor D rd loc =
     (if bi_number loc = 0 then failE Segi_null
      else if subpart_missing rd loc then failE Segi_subpart
      else bindE (read_metadata D rd loc Segi_address Segi_sector Segi_unreadable) (\<lambda>raw.
        let d = decode_segment raw
        in case segment_error d of Some e \<Rightarrow> failE e | None \<Rightarrow> okE d))"

section \<open>The scale loop\<close>

lemma scale_loop_step:
  "sz < zone \<Longrightarrow> inode_scale_loop zone sz scale = inode_scale_loop zone (sz * 2) (Suc scale)"
  by (subst inode_scale_loop.simps) (simp add: push_bit_eq_mult)

lemma scale_loop_stop: "\<not> sz < zone \<Longrightarrow> inode_scale_loop zone sz scale = Some scale"
  by (subst inode_scale_loop.simps) simp

lemma scale_loop_zero: "0 < zone \<Longrightarrow> inode_scale_loop zone 0 scale = None"
proof -
  have "sz = 0 \<longrightarrow> \<not> 0 < zone" if "inode_scale_loop zone sz scale = Some r" for sz scale r
    by (rule inode_scale_loop.raw_induct [where P = "\<lambda>zone sz _ _. sz = 0 \<longrightarrow> \<not> 0 < zone", OF _ that])
      (auto split: if_splits)
  then show "0 < zone \<Longrightarrow> inode_scale_loop zone 0 scale = None"
    by (metis not_None_eq)
qed

lemma unat_double: "unat (sz::u32) < 2147483648 \<Longrightarrow> unat (sz * 2) = unat sz * 2"
  by (simp add: unat_word_ariths)

lemma scale_loop_returns:
  assumes "unat sz * 2 ^ k = 2147483648" "zone \<le> 2147483648"
  shows "\<exists>r. inode_scale_loop zone sz scale = Some r"
  using assms(1)
proof (induction k arbitrary: sz scale)
  case 0
  with assms(2) show ?case by (simp add: scale_loop_stop word_le_nat_alt word_less_nat_alt)
next
  case (Suc k)
  show ?case
  proof (cases "sz < zone")
    case True
    then have "unat (sz * 2) = unat sz * 2"
      using assms(2) by (intro unat_double) (simp add: word_le_nat_alt word_less_nat_alt)
    with Suc.prems have "unat (sz * 2) * 2 ^ k = 2147483648" by simp
    from Suc.IH [OF this] True show ?thesis by (simp add: scale_loop_step)
  qed (simp add: scale_loop_stop)
qed

lemma scale_loop_diverges:
  assumes "unat sz * 2 ^ k = 4294967296" "2147483648 < zone"
  shows "inode_scale_loop zone sz scale = None"
  using assms(1)
proof (induction k arbitrary: sz scale)
  case 0
  with unat_u32_less [of sz] show ?case by simp
next
  case (Suc k)
  then have half: "unat sz * 2 ^ k = 2147483648" by simp
  have "unat sz * 1 \<le> unat sz * 2 ^ k" by (intro mult_left_mono) auto
  with half have le: "unat sz \<le> 2147483648" by simp
  then have less: "sz < zone" using assms(2) by (simp add: word_less_nat_alt)
  have "inode_scale_loop zone (sz * 2) (Suc scale) = None"
  proof (cases "unat sz = 2147483648")
    case True
    then have "sz * 2 = 0" by (simp add: word_unat_eq_iff unat_word_ariths)
    moreover have "0 < zone" using assms(2) by (simp add: word_less_nat_alt)
    ultimately show ?thesis by (simp add: scale_loop_zero)
  next
    case False
    with le have "unat (sz * 2) = unat sz * 2" by (intro unat_double) simp
    with Suc.prems show ?thesis by (intro Suc.IH) simp
  qed
  with less show ?case by (simp add: scale_loop_step)
qed

text \<open>The loop that computes the metadata scale returns exactly for zone sizes of at most 2 GiB; on a
  larger one the 32-bit shift drops its only bit and the loop never ends.  (\<open>valid_zone_size\<close>, checked
  by the probe, keeps the reader away from that.)\<close>

theorem inode_scale_returns_iff: "(\<exists>k. inode_scale zone = Some k) \<longleftrightarrow> zone \<le> 2147483648"
proof (cases "zone \<le> 2147483648")
  case True
  with scale_loop_returns [of "of_nat kMetadataSize" 21 zone 0] show ?thesis
    by (simp add: inode_scale_def kMetadataSize_def)
next
  case False
  with scale_loop_diverges [of "of_nat kMetadataSize" 22 zone 0] show ?thesis
    by (simp add: inode_scale_def kMetadataSize_def)
qed

lemma inode_scale_valid:
  assumes "valid_zone_size z"
  obtains k where "inode_scale z = Some k" "unat z = 1024 * 2 ^ k" "1 \<le> k" "k \<le> 7"
proof -
  from assms have "z \<in> {2048, 4096, 8192, 16384, 32768, 65536, 131072}"
    by (auto simp: valid_zone_size_nat word_unat_eq_iff)
  then have "\<exists>k \<in> {1 .. 7}. inode_scale z = Some k \<and> unat z = 1024 * 2 ^ k"
    by (elim insertE) (simp_all add: inode_scale_def kMetadataSize_def scale_loop_step scale_loop_stop)
  then show ?thesis by (auto intro: that)
qed

section \<open>The volume as bytes\<close>

text \<open>
  \<open>extent_bytes im v sub off n\<close> is what byte range \<open>off .. off + n\<close> of extent \<open>sub\<close> holds: it
  exists when the extent does and the sectors that contain the range lie in the extent and on the
  disk.  The last sector counts in full, because the volume only reads whole sectors.
\<close>

definition sectors_upto :: "nat \<Rightarrow> nat" where
  "sectors_upto x = (x + 511) div 512"

definition extent_readable :: "image \<Rightarrow> apa_volume \<Rightarrow> nat \<Rightarrow> nat \<Rightarrow> bool" where
  "extent_readable im v sub limit \<longleftrightarrow>
     sub < extent_count v \<and> sectors_upto limit \<le> unat (length_sectors (vol_extents v ! sub)) \<and>
     (unat (start_lba (vol_extents v ! sub)) + sectors_upto limit) * 512 \<le> unat (img_size im)"

definition extent_bytes :: "image \<Rightarrow> apa_volume \<Rightarrow> nat \<Rightarrow> nat \<Rightarrow> nat \<Rightarrow> byte list option" where
  "extent_bytes im v sub off n =
     (if n = 0 then Some []
      else if extent_readable im v sub (off + n)
      then Some (image_slice im (unat (start_lba (vol_extents v ! sub)) * 512 + off) n)
      else None)"

lemma sectors_upto_mult [simp]:
  "sectors_upto (a * 512) = a" "sectors_upto (a * 512 + b * 512) = a + b"
  by (simp_all add: sectors_upto_def)

lemma sectors_upto_mono: "a \<le> b \<Longrightarrow> sectors_upto a \<le> sectors_upto b"
  by (simp add: sectors_upto_def div_le_mono)

lemma extent_readable_mono: "\<lbrakk>extent_readable im v sub b; a \<le> b\<rbrakk> \<Longrightarrow> extent_readable im v sub a"
  using sectors_upto_mono [of a b] by (auto simp: extent_readable_def)

lemma extent_bytes_length: "extent_bytes im v sub off n = Some bs \<Longrightarrow> length bs = n"
  by (auto simp: extent_bytes_def split: if_splits)

lemma image_slice_0 [simp]: "image_slice im off 0 = []"
  by (simp add: image_slice_def)

lemma extent_bytes_append:
  "0 < b \<Longrightarrow> extent_bytes im v sub off (a + b) =
     (case extent_bytes im v sub (off + a) b of None \<Rightarrow> None
      | Some r \<Rightarrow> map_option (\<lambda>l. l @ r) (extent_bytes im v sub off a))"
  using extent_readable_mono [of im v sub "off + a + b" "off + a"]
  by (auto simp: extent_bytes_def image_slice_append add.assoc)

lemma extent_bytes_prefix_none:
  "\<lbrakk>extent_bytes im v sub off a = None; a \<le> n\<rbrakk> \<Longrightarrow> extent_bytes im v sub off n = None"
  using extent_readable_mono [of im v sub "off + n" "off + a"]
  by (auto simp: extent_bytes_def split: if_splits)

text \<open>Extents are shorter than \<open>2 ^ 32\<close> sectors.\<close>

lemma extent_bytes_far: "\<lbrakk>4294967296 * 512 \<le> off; 0 < n\<rbrakk> \<Longrightarrow> extent_bytes im v sub off n = None"
  using unat_u32_less [of "length_sectors (vol_extents v ! sub)"]
  by (auto simp: extent_bytes_def extent_readable_def sectors_upto_def)

lemma extent_bytes_sector:
  "k + n \<le> 512 \<Longrightarrow> 0 < n \<Longrightarrow>
   extent_bytes im v sub (s * 512 + k) n = map_option (sub_bytes k n) (extent_bytes im v sub (s * 512) 512)"
proof -
  assume "k + n \<le> 512" "0 < n"
  moreover from this have "sectors_upto (s * 512 + k + n) = s + 1" "sectors_upto (s * 512 + 512) = s + 1"
    by (simp_all add: sectors_upto_def div_nat_eqI)
  ultimately show ?thesis
    by (simp add: extent_bytes_def extent_readable_def sub_bytes_image_slice add.assoc)
qed

lemma read_sectors_extent:
  "0 < count \<Longrightarrow> n = unat count * 512 \<Longrightarrow>
   run_state (read_sectors image_device v sub sector count n) im =
     (extent_bytes im v sub (unat sector * 512) (unat count * 512), im)"
  by (auto simp: read_sectors_eq run_image_read in_image_nat unat_sector_addr extent_bytes_def
      extent_readable_def extent_count_def algebra_simps word_less_nat_alt)

definition result_opt :: "'e + 'a \<Rightarrow> 'a option" where
  "result_opt r = (case r of Inl _ \<Rightarrow> None | Inr a \<Rightarrow> Some a)"

lemma result_opt_simps [simp]: "result_opt (Inl e) = None" "result_opt (Inr a) = Some a"
  by (simp_all add: result_opt_def)

lemma result_opt_Some [simp]: "result_opt r = Some a \<longleftrightarrow> r = Inr a"
  by (cases r) auto

text \<open>A metadata block lives where the payload of the same zone number lives.\<close>

lemma unat_pow2: "k \<le> 7 \<Longrightarrow> unat (2 ^ k :: u32) = 2 ^ k"
proof -
  assume "k \<le> 7"
  then have "k = 0 \<or> k = 1 \<or> k = 2 \<or> k = 3 \<or> k = 4 \<or> k = 5 \<or> k = 6 \<or> k = 7" by arith
  then show ?thesis by (elim disjE) simp_all
qed

lemma unat_max_u32: "unat (- 1 :: u32) = 4294967295"
  by (simp add: unsigned_minus_1_eq_mask mask_eq_exp_minus_1)

lemma sector_guard: "ucast (- 1 :: u32) < (x::u64) \<longleftrightarrow> 4294967295 < unat x"
  by (simp add: word_less_nat_alt unat_max_u32)

lemma metadata_guard:
  assumes "k \<le> 7"
  shows "drop_bit k (- 1) < (n::u32) \<longleftrightarrow> 4294967296 \<le> unat n * 2 ^ k"
proof -
  have "unat (drop_bit k (- 1 :: u32)) = 4294967295 div 2 ^ k"
    using assms by (simp add: drop_bit_eq_div unat_div_distrib unat_pow2 unat_max_u32)
  moreover have "4294967295 div 2 ^ k < unat n \<longleftrightarrow> 4294967295 < unat n * 2 ^ k"
    by (simp add: div_less_iff_less_mult)
  ultimately show ?thesis by (auto simp only: word_less_nat_alt)
qed

lemma read_metadata_image:
  assumes "valid_zone_size (sb_zone_size (rd_super rd))"
  shows "\<exists>r. run_state (read_metadata image_device rd loc e1 e2 e3) im = (r, im) \<and>
    result_opt r = extent_bytes im (rd_volume rd) (unat (bi_subpart loc))
      (unat (bi_number loc) * unat (sb_zone_size (rd_super rd))) kMetadataSize"
proof -
  from assms obtain k where k: "inode_scale (sb_zone_size (rd_super rd)) = Some k"
    "unat (sb_zone_size (rd_super rd)) = 1024 * 2 ^ k" "k \<le> 7" by (rule inode_scale_valid)
  let ?n = "bi_number loc" and ?far = "unat (bi_number loc) * unat (sb_zone_size (rd_super rd))"
  have far: "extent_bytes im (rd_volume rd) (unat (bi_subpart loc)) ?far kMetadataSize = None"
    if "2147483648 \<le> unat ?n * 2 ^ k"
    using that by (intro extent_bytes_far) (simp_all add: k(2) kMetadataSize_def)
  have sector: "unat (ucast (push_bit k ?n) * 2 :: u64) = unat ?n * 2 ^ k * 2"
    if "unat ?n * 2 ^ k < 4294967296"
  proof -
    have "unat (push_bit k ?n) = unat ?n * 2 ^ k"
      using that k(3) by (simp add: push_bit_eq_mult unat_word_ariths unat_pow2)
    then show ?thesis using that by (simp add: unat_word_ariths)
  qed
  note eq = read_metadata_def [of image_device rd loc e1 e2 e3, unfolded k(1) option.case metadata_guard [OF k(3)]]
  show ?thesis
  proof (cases "unat ?n * 2 ^ k < 2147483648")
    case False
    then show ?thesis
      using far k sector
      by (auto simp: eq sector_guard Let_def kMetadataSize_def kSectorSize_def)
  next
    case True
    let ?s = "ucast (ucast (push_bit k ?n) * 2 :: u64) :: u32"
    have "unat ?s = unat ?n * 2 ^ k * 2"
      using sector True by (simp add: unsigned_ucast_eq take_bit_eq_mod)
    then show ?thesis
      using True k sector
      by (auto simp: eq sector_guard Let_def kMetadataSize_def
          kSectorSize_def read_sectors_extent algebra_simps split: option.splits)
  qed
qed

section \<open>Readers\<close>

text \<open>What a reader built by the constructor guarantees: if it is valid, its superblock passed the
  checks.\<close>

definition reader_ok :: "pfs_reader \<Rightarrow> bool" where
  "reader_ok rd \<longleftrightarrow> (reader_valid rd \<longrightarrow> super_ok (rd_volume rd) (rd_super rd))"

lemma reader_okD:
  "\<lbrakk>reader_ok rd; reader_valid rd\<rbrakk> \<Longrightarrow> valid_zone_size (sb_zone_size (rd_super rd))"
  by (simp add: reader_ok_def super_ok_def)

lemma open_reader_ok: "reader_ok (evalS (open_reader D v) s)"
proof -
  obtain pr s' where "run_state (probe D v) s = (pr, s')" by fastforce
  with probe_cases [OF this] show ?thesis
    by (simp add: open_reader_def evalS_def reader_ok_def reader_valid_def probe_ok_def)
qed

lemma subpart_missing_nat:
  "subpart_missing rd loc \<longleftrightarrow>
     unat (sb_num_subs (rd_super rd)) < unat (bi_subpart loc) \<or>
     extent_count (rd_volume rd) \<le> unat (bi_subpart loc)"
  by (simp add: subpart_missing_def word_less_nat_alt)

text \<open>The bytes of the metadata block at a location.\<close>

definition metadata_bytes :: "image \<Rightarrow> pfs_reader \<Rightarrow> block_info \<Rightarrow> byte list option" where
  "metadata_bytes im rd loc =
     (if subpart_missing rd loc then None
      else extent_bytes im (rd_volume rd) (unat (bi_subpart loc))
        (unat (bi_number loc) * unat (sb_zone_size (rd_super rd))) kMetadataSize)"

lemma read_inode_image:
  assumes "reader_ok rd"
  shows "\<exists>r. run_state (read_inode image_device rd loc) im = (r, im) \<and>
    (\<forall>nd. r = Inr nd \<longleftrightarrow>
       reader_valid rd \<and> (\<exists>raw. metadata_bytes im rd loc = Some raw \<and>
         inode_error (decode_inode raw) = None \<and> nd = \<lparr>nd_location = loc, nd_inode = decode_inode raw\<rparr>))"
proof (cases "reader_valid rd \<and> \<not> subpart_missing rd loc")
  case False
  then show ?thesis by (auto simp: read_inode_def metadata_bytes_def)
next
  case True
  with assms have "valid_zone_size (sb_zone_size (rd_super rd))" by (simp add: reader_okD)
  from read_metadata_image [OF this, of loc Inode_address Inode_sector Inode_unreadable im]
  obtain r where r: "run_state (read_metadata image_device rd loc Inode_address Inode_sector Inode_unreadable) im = (r, im)"
    "metadata_bytes im rd loc = result_opt r"
    using True by (auto simp: metadata_bytes_def)
  show ?thesis
    using True r by (cases r) (auto simp: read_inode_def run_bindE Let_def split: option.splits)
qed

subsection \<open>The layout of the format\<close>

text \<open>Metadata blocks as the format lays them out: 32-bit word \<open>k\<close> of a block, least significant byte first,
  as a number; the sum of all words after the first; and what makes a SEGD and a SEGI block.  Word 0 is the
  checksum, word 1 the magic number; in a SEGD block word 4 is the number of its next SEGI zone and word 249
  its number of descriptors, of which the block itself holds 114.\<close>

definition raw_word :: "byte list \<Rightarrow> nat \<Rightarrow> nat" where
  "raw_word raw k = (\<Sum>j < 4. 256 ^ j * unat (raw ! (4 * k + j)))"

definition word_sum :: "byte list \<Rightarrow> nat" where
  "word_sum raw = (\<Sum>k = 1..255. raw_word raw k) mod 2 ^ 32"

definition segd_block :: "byte list \<Rightarrow> bool" where
  "segd_block raw \<longleftrightarrow>
     raw_word raw 1 = 0x53454744 \<and> raw_word raw 0 = word_sum raw \<and>
     0 < raw_word raw 249 \<and> (raw_word raw 249 \<le> 114 \<or> raw_word raw 4 \<noteq> 0)"

definition segi_block :: "byte list \<Rightarrow> bool" where
  "segi_block raw \<longleftrightarrow> raw_word raw 1 = 0x53454749 \<and> raw_word raw 0 = word_sum raw"

lemma byte_or: "ucast (b::u8) OR push_bit 8 (y::u32) = ucast b + push_bit 8 y"
proof -
  have "(ucast b :: u32) AND push_bit 8 y = 0"
    by (rule bit_word_eqI) (auto simp: bit_simps bit_byte_high)
  from disjunctive_add_eq_or [OF this] show ?thesis by simp
qed

lemma unat_byte: "unat (b::u8) < 256"
  using unsigned_less [of b, where ?'a = nat] by simp

lemma unat_byte_or:
  assumes "unat (y::u32) < 16777216"
  shows "unat (ucast (b::u8) OR push_bit 8 y) = unat b + 256 * unat y"
proof -
  have up: "unat (ucast b :: u32) = unat b"
    using unat_byte [of b] by (simp add: unsigned_ucast_eq take_bit_eq_mod)
  have shift: "unat (push_bit 8 y) = 256 * unat y"
    using assms by (simp add: push_bit_eq_mult unat_word_ariths)
  show ?thesis
    unfolding byte_or unat_word_ariths up shift using assms unat_byte [of b] by simp
qed

lemma three_bytes: "\<lbrakk>a < 256; b < 256; c < 256\<rbrakk> \<Longrightarrow> a + 256 * (b + 256 * c) < (16777216 :: nat)"
  by (simp add: distrib_left)

lemma lessThan_4: "(\<Sum>j < (4::nat). f j) = f 0 + f 1 + f 2 + (f 3 :: nat)"
  by (simp add: eval_nat_numeral)

lemma unat_load_u32: "unat (load_u32_le raw (4 * k)) = raw_word raw k"
proof -
  let ?b = "\<lambda>j. raw ! (4 * k + j)"
  have word: "raw_word raw k = unat (?b 0) + 256 * (unat (?b 1) + 256 * (unat (?b 2) + 256 * unat (?b 3)))"
    unfolding raw_word_def lessThan_4 by simp
  have "load_u32_le raw (4 * k) =
      ucast (?b 0) OR push_bit 8 (ucast (?b 1) OR push_bit 8 (ucast (?b 2) OR push_bit 8 (ucast (?b 3))))"
    by (simp add: load_u32_le_def push_bit_or ac_simps)
  also have "unat \<dots> = unat (?b 0) + 256 * (unat (?b 1) + 256 * (unat (?b 2) + 256 * unat (?b 3)))"
  proof -
    have 3: "unat (ucast (?b 3) :: u32) = unat (?b 3)"
      using unat_byte [of "?b 3"] by (simp add: unsigned_ucast_eq take_bit_eq_mod)
    have 2: "unat (ucast (?b 2) OR push_bit 8 (ucast (?b 3)) :: u32) = unat (?b 2) + 256 * unat (?b 3)"
      unfolding 3 [symmetric] by (rule unat_byte_or) (unfold 3, use unat_byte [of "?b 3"] in linarith)
    have 1: "unat (ucast (?b 1) OR push_bit 8 (ucast (?b 2) OR push_bit 8 (ucast (?b 3))) :: u32) =
        unat (?b 1) + 256 * (unat (?b 2) + 256 * unat (?b 3))"
      unfolding 2 [symmetric]
      by (rule unat_byte_or) (unfold 2, use unat_byte [of "?b 3"] unat_byte [of "?b 2"] in linarith)
    show ?thesis
      unfolding 1 [symmetric]
      by (rule unat_byte_or) (unfold 1, rule three_bytes; rule unat_byte)
  qed
  finally show ?thesis by (simp only: word)
qed

lemma unat_checksum: "unat (metadata_checksum raw) = word_sum raw"
proof -
  have "unat (\<Sum>k\<in>K. load_u32_le raw (4 * k)) = (\<Sum>k\<in>K. raw_word raw k) mod 2 ^ 32" for K
    by (induction K rule: infinite_finite_induct) (simp_all add: unat_word_ariths unat_load_u32 mod_simps)
  moreover have "{1..<256} = {1..255::nat}" by auto
  ultimately show ?thesis by (simp add: metadata_checksum_sum word_sum_def)
qed

lemma unat_field: "unat (load_u32_le raw n) = raw_word raw (n div 4)" if "4 dvd n"
  using that unat_load_u32 [of raw "n div 4"] by simp

lemma inode_error_raw:
  assumes "length raw = kMetadataSize"
  shows "inode_error (decode_inode raw) = None \<longleftrightarrow> segd_block raw"
proof -
  have "i_magic (decode_inode raw) = kSegdMagic \<longleftrightarrow> raw_word raw 1 = 0x53454744"
    using unat_field [of 4 raw] by (simp add: decode_inode_def kSegdMagic_def word_unat_eq_iff)
  moreover have "inode_checksum (decode_inode raw) = i_checksum (decode_inode raw) \<longleftrightarrow> raw_word raw 0 = word_sum raw"
    using unat_field [of 0 raw] unat_checksum [of raw]
    by (auto simp: inode_checksum_def encode_decode_inode assms) (auto simp: decode_inode_def word_unat_eq_iff)
  moreover have "unat (i_number_data (decode_inode raw)) = raw_word raw 249"
    "unat (bi_number (i_next_segment (decode_inode raw))) = raw_word raw 4"
    using unat_field [of 996 raw] unat_field [of 16 raw] load_u32_sub_bytes [of 0 8 16 raw] assms
    by (simp_all add: decode_inode_def decode_block_info_def kMetadataSize_def)
  ultimately show ?thesis
    by (auto simp: inode_error_def segd_block_def kInodeMaxBlocks_def word_less_nat_alt word_unat_eq_iff not_less)
qed

lemma segment_error_raw:
  assumes "length raw = kMetadataSize"
  shows "segment_error (decode_segment raw) = None \<longleftrightarrow> segi_block raw"
proof -
  have "sd_magic (decode_segment raw) = kSegiMagic \<longleftrightarrow> raw_word raw 1 = 0x53454749"
    using unat_field [of 4 raw] by (simp add: decode_segment_def kSegiMagic_def word_unat_eq_iff)
  moreover have "segment_checksum (decode_segment raw) = sd_checksum (decode_segment raw) \<longleftrightarrow> raw_word raw 0 = word_sum raw"
    using unat_field [of 0 raw] unat_checksum [of raw]
    by (auto simp: segment_checksum_def encode_decode_segment assms) (auto simp: decode_segment_def word_unat_eq_iff)
  ultimately show ?thesis by (auto simp: segment_error_def segi_block_def)
qed

lemma read_inode_block:
  assumes "reader_ok rd"
  shows "evalS (read_inode image_device rd loc) im = Inr nd \<longleftrightarrow>
     reader_valid rd \<and> unat (bi_subpart loc) \<le> unat (sb_num_subs (rd_super rd)) \<and>
     unat (bi_subpart loc) < extent_count (rd_volume rd) \<and>
     (\<exists>k raw. unat (sb_zone_size (rd_super rd)) = 1024 * 2 ^ k \<and>
       extent_bytes im (rd_volume rd) (unat (bi_subpart loc)) (unat (bi_number loc) * 2 ^ k * 1024) 1024 = Some raw \<and>
       segd_block raw \<and> nd_location nd = loc \<and> inode_wf (nd_inode nd) \<and> encode_inode (nd_inode nd) = raw)"
proof (cases "reader_valid rd \<and> \<not> subpart_missing rd loc")
  case False
  moreover obtain r where "run_state (read_inode image_device rd loc) im = (r, im)" "r = Inr nd \<longleftrightarrow> reader_valid rd \<and>
      (\<exists>raw. metadata_bytes im rd loc = Some raw \<and> inode_error (decode_inode raw) = None \<and>
        nd = \<lparr>nd_location = loc, nd_inode = decode_inode raw\<rparr>)"
    using read_inode_image [OF assms, of loc im] by blast
  ultimately have "evalS (read_inode image_device rd loc) im \<noteq> Inr nd"
    by (auto simp: evalS_def metadata_bytes_def)
  then show ?thesis using False by (auto simp: subpart_missing_nat)
next
  case True
  then obtain k where k: "unat (sb_zone_size (rd_super rd)) = 1024 * 2 ^ k"
    using inode_scale_valid [OF reader_okD [OF assms]] by metis
  define bytes where "bytes = extent_bytes im (rd_volume rd) (unat (bi_subpart loc)) (unat (bi_number loc) * 2 ^ k * 1024) 1024"
  have bytes: "metadata_bytes im rd loc = bytes"
    using True by (simp add: metadata_bytes_def bytes_def k kMetadataSize_def ac_simps)
  have node: "inode_error (decode_inode raw) = None \<and> nd = \<lparr>nd_location = loc, nd_inode = decode_inode raw\<rparr> \<longleftrightarrow>
      segd_block raw \<and> nd_location nd = loc \<and> inode_wf (nd_inode nd) \<and> encode_inode (nd_inode nd) = raw"
    if "bytes = Some raw" for raw
  proof -
    have "length raw = kMetadataSize"
      using extent_bytes_length that unfolding bytes_def kMetadataSize_def by blast
    then show ?thesis
      using inode_error_raw encode_decode_inode decode_inode_wf [of raw] decode_encode_inode [of "nd_inode nd"]
      by (cases nd) auto
  qed
  obtain r where "run_state (read_inode image_device rd loc) im = (r, im)" "r = Inr nd \<longleftrightarrow> reader_valid rd \<and>
      (\<exists>raw. metadata_bytes im rd loc = Some raw \<and> inode_error (decode_inode raw) = None \<and>
        nd = \<lparr>nd_location = loc, nd_inode = decode_inode raw\<rparr>)"
    using read_inode_image [OF assms, of loc im] by blast
  then have "evalS (read_inode image_device rd loc) im = Inr nd \<longleftrightarrow>
      (\<exists>raw. bytes = Some raw \<and> segd_block raw \<and> nd_location nd = loc \<and> inode_wf (nd_inode nd) \<and> encode_inode (nd_inode nd) = raw)"
    unfolding bytes using True node by (simp only: evalS_def fst_conv) blast
  moreover have "unat (sb_zone_size (rd_super rd)) = 1024 * 2 ^ k' \<longleftrightarrow> k' = k" for k' by (auto simp: k)
  ultimately show ?thesis
    using True by (auto simp: bytes_def subpart_missing_nat not_less not_le)
qed

text \<open>C15: Which inodes are read.  On a disk image, a freshly opened reader returns a node exactly when it is valid,
  the sub-partition exists, and the 1024 bytes of the metadata block are readable and form a SEGD block: magic
  number, a checksum word that is the sum of the other 255 words, and a descriptor count that is not 0 and is
  above 114 only with a SEGI chain.  The block is found as the format says, by shifting the zone number by
  the ratio of the zone size to 1024 bytes; no overflow of the 32-bit arithmetic hides a readable inode.
  The node is the inode whose packed layout is the block.\<close>

theorem read_inode_iff:
  "let rd = evalS (open_reader D v) s in
   evalS (read_inode image_device rd loc) im = Inr nd \<longleftrightarrow>
     reader_valid rd \<and> unat (bi_subpart loc) \<le> unat (sb_num_subs (rd_super rd)) \<and>
     unat (bi_subpart loc) < extent_count v \<and>
     (\<exists>k raw. unat (sb_zone_size (rd_super rd)) = 1024 * 2 ^ k \<and>
       extent_bytes im v (unat (bi_subpart loc)) (unat (bi_number loc) * 2 ^ k * 1024) 1024 = Some raw \<and>
       segd_block raw \<and> nd_location nd = loc \<and> inode_wf (nd_inode nd) \<and> encode_inode (nd_inode nd) = raw)"
proof -
  have "rd_volume (evalS (open_reader D v) s) = v"
    by (simp add: open_reader_def evalS_def split: prod.split)
  then show ?thesis
    unfolding Let_def using read_inode_block [OF open_reader_ok [of D v s], of loc im nd] by simp
qed

lemma read_segment_image:
  assumes "reader_ok rd" "reader_valid rd"
  shows "\<exists>r. run_state (read_segment_descriptor image_device rd loc) im = (r, im) \<and>
    (\<forall>d. r = Inr d \<longleftrightarrow> bi_number loc \<noteq> 0 \<and>
       (\<exists>raw. metadata_bytes im rd loc = Some raw \<and> segment_error (decode_segment raw) = None \<and>
         d = decode_segment raw))"
proof (cases "bi_number loc = 0 \<or> subpart_missing rd loc")
  case True
  then show ?thesis by (auto simp: read_segment_descriptor_def metadata_bytes_def)
next
  case False
  with assms have "valid_zone_size (sb_zone_size (rd_super rd))" by (simp add: reader_okD)
  from read_metadata_image [OF this, of loc Segi_address Segi_sector Segi_unreadable im]
  obtain r where r: "run_state (read_metadata image_device rd loc Segi_address Segi_sector Segi_unreadable) im = (r, im)"
    "metadata_bytes im rd loc = result_opt r"
    using False by (auto simp: metadata_bytes_def)
  show ?thesis
    using False r by (cases r) (auto simp: read_segment_descriptor_def run_bindE Let_def split: option.splits)
qed

section \<open>Transparency\<close>

context reliable_device
begin

lemma transparent_probe [transparent_intros]:
  "transparent ok img (probe D v) (probe image_device v)"
  unfolding probe_def check_backup_def read_super_def Let_def by (intro transparent_intros)

lemma transparent_open_reader [transparent_intros]:
  "transparent ok img (open_reader D v) (open_reader image_device v)"
  unfolding open_reader_def by (intro transparent_intros)

lemma transparent_read_metadata [transparent_intros]:
  "transparent ok img (read_metadata D rd loc e1 e2 e3) (read_metadata image_device rd loc e1 e2 e3)"
  unfolding read_metadata_def by (intro transparent_intros)

lemma transparent_read_inode [transparent_intros]:
  "transparent ok img (read_inode D rd loc) (read_inode image_device rd loc)"
  unfolding read_inode_def by (intro transparent_intros)

lemma transparent_read_root [transparent_intros]:
  "transparent ok img (read_root D rd) (read_root image_device rd)"
  unfolding read_root_def by (intro transparent_intros)

lemma transparent_read_segment_descriptor [transparent_intros]:
  "transparent ok img (read_segment_descriptor D rd loc) (read_segment_descriptor image_device rd loc)"
  unfolding read_segment_descriptor_def by (intro transparent_intros)

end

end
