(* ===== verification/PfsPayload.thy ===== *)
theory PfsPayload
  imports PfsMetadata
begin

text \<open>
  \<open>pfs::Reader\<close> (\<open>src/core/pfs.cpp\<close>), payload part: \<open>read_zone_bytes\<close>, which serves a byte
  range of one block descriptor, and \<open>read\<close>, which walks the direct and indirect descriptors of
  an inode, merges adjacent ones into runs and serves the request from the runs.
\<close>

section \<open>Bytes of one block descriptor\<close>

function zone_loop ::
  "'s device \<Rightarrow> pfs_reader \<Rightarrow> nat \<Rightarrow> u64 \<Rightarrow> u64 \<Rightarrow> nat \<Rightarrow> ('s, pfs_error + byte list) state" where
  "zone_loop D rd sub base_sector byte_position remaining =
     (if remaining = 0 then okE []
      else
        let relative_sector = byte_position div of_nat kSectorSize;
            in_sector = unat (byte_position mod of_nat kSectorSize);
            sector64 = base_sector + relative_sector
        in if in_sector = 0 \<and> kSectorSize \<le> remaining
        then
          let whole_sectors = remaining div kSectorSize;
              batch = min whole_sectors 128;
              bytes = batch * kSectorSize
          in if ucast (- 1 :: u32) < sector64 then failE Data_address
          else bindE
            (do { r \<leftarrow> read_sectors D (rd_volume rd) sub (ucast sector64) (of_nat batch) bytes;
                  case r of None \<Rightarrow> failE Data_sectors | Some bs \<Rightarrow> okE bs })
            (\<lambda>bs. bindE (zone_loop D rd sub base_sector (byte_position + of_nat bytes) (remaining - bytes))
              (\<lambda>rest. okE (bs @ rest)))
        else
          let taken = min remaining (kSectorSize - in_sector)
          in if ucast (- 1 :: u32) < sector64 then failE Data_sector
          else bindE
            (do { r \<leftarrow> read_sectors D (rd_volume rd) sub (ucast sector64) 1 kSectorSize;
                  case r of None \<Rightarrow> failE Data_sector | Some bs \<Rightarrow> okE bs })
            (\<lambda>sector. bindE (zone_loop D rd sub base_sector (byte_position + of_nat taken) (remaining - taken))
              (\<lambda>rest. okE (sub_bytes in_sector taken sector @ rest))))"
  by pat_completeness auto

lemma byte_in_sector: "unat ((x::u64) mod of_nat kSectorSize) < kSectorSize"
  by (simp add: kSectorSize_def unat_mod_distrib)

termination zone_loop
  by (relation "measure (\<lambda>(D, rd, sub, base, pos, n). n)")
    (use byte_in_sector in \<open>auto simp: kSectorSize_def div_greater_zero_iff\<close>)

declare zone_loop.simps [simp del]

definition read_zone_bytes ::
  "'s device \<Rightarrow> pfs_reader \<Rightarrow> block_info \<Rightarrow> u64 \<Rightarrow> nat \<Rightarrow> ('s, pfs_error + byte list) state" where
  "read_zone_bytes D rd block zone_offset n =
     (if subpart_missing rd block then failE Data_subpart
      else
        let segment_bytes = ucast (bi_count block) * ucast (sb_zone_size (rd_super rd)) :: u64
        in if segment_bytes < zone_offset \<or> unat (segment_bytes - zone_offset) < n
        then failE Data_extent
        else
          let sectors_per_zone = sb_zone_size (rd_super rd) div of_nat kSectorSize;
              base_sector = ucast (bi_number block) * ucast sectors_per_zone :: u64
          in zone_loop D rd (unat (bi_subpart block)) base_sector zone_offset n)"

subsection \<open>The loop reads exactly the range\<close>

lemma unat_zone_position:
  assumes "unat (base::u64) < 2 ^ 50" "unat (pos::u64) < 2 ^ 50"
  shows "unat (base + pos div of_nat kSectorSize) = unat base + unat pos div 512"
    "unat (pos mod of_nat kSectorSize) = unat pos mod 512"
proof -
  have "unat (pos div of_nat kSectorSize) = unat pos div 512"
    by (simp add: kSectorSize_def unat_div_distrib)
  moreover have "unat base + unat pos div 512 < 18446744073709551616"
    using assms by simp
  ultimately show "unat (base + pos div of_nat kSectorSize) = unat base + unat pos div 512"
    by (simp add: unat_word_ariths)
  show "unat (pos mod of_nat kSectorSize) = unat pos mod 512"
    by (simp add: kSectorSize_def unat_mod_distrib)
qed

lemma unat_step:
  "unat (pos::u64) + n < 2 ^ 50 \<Longrightarrow> k \<le> n \<Longrightarrow> unat (pos + of_nat k) = unat pos + k"
  by (simp add: unat_word_ariths unat_of_nat)

text \<open>Concatenation of two results that may be missing.\<close>

definition append_opt :: "'a list option \<Rightarrow> 'a list option \<Rightarrow> 'a list option" where
  "append_opt x y = (case x of None \<Rightarrow> None | Some a \<Rightarrow> map_option (\<lambda>b. a @ b) y)"

lemma append_opt_simps [simp]:
  "append_opt None y = None" "append_opt x None = None" "append_opt (Some a) (Some b) = Some (a @ b)"
  "append_opt (Some []) y = y" "append_opt x (Some []) = x"
  by (cases x; cases y; simp add: append_opt_def)+

lemma append_opt_assoc: "append_opt (append_opt x y) z = append_opt x (append_opt y z)"
  by (cases x; cases y; cases z) simp_all

lemma extent_bytes_0 [simp]: "extent_bytes im v sub off 0 = Some []"
  by (simp add: extent_bytes_def)

lemma extent_bytes_step:
  assumes "m \<le> n"
  shows "extent_bytes im v sub off n =
    append_opt (extent_bytes im v sub off m) (extent_bytes im v sub (off + m) (n - m))"
proof (cases "m = n")
  case True
  then show ?thesis by simp
next
  case False
  with assms have "0 < n - m" "m + (n - m) = n" by auto
  from extent_bytes_append [OF this(1), of im v sub off m] this(2) show ?thesis
    by (auto simp: append_opt_def split: option.splits)
qed

lemma run_read_then:
  assumes read: "run_state R im = (x, im)" "map_option f x = extent_bytes im v sub off m" and "m \<le> n"
    and rest: "run_state rest im = (q, im)" "result_opt q = extent_bytes im v sub (off + m) (n - m)"
  shows "\<exists>r. run_state (bindE (do { x \<leftarrow> R; case x of None \<Rightarrow> failE e | Some bs \<Rightarrow> okE bs })
      (\<lambda>bs. bindE rest (\<lambda>ys. okE (f bs @ ys)))) im = (r, im) \<and>
    result_opt r = extent_bytes im v sub off n"
  unfolding extent_bytes_step [OF assms(3)] rest(2) [symmetric] read(2) [symmetric]
  by (cases x; cases q) (simp_all add: run_bindE read(1) rest(1))

lemma zone_loop_image:
  assumes "unat base < 2 ^ 50" "unat pos + n < 2 ^ 50"
  shows "\<exists>r. run_state (zone_loop image_device rd sub base pos n) im = (r, im) \<and>
    result_opt r = extent_bytes im (rd_volume rd) sub (unat base * 512 + unat pos) n"
  using assms(2)
proof (induction n arbitrary: pos rule: less_induct)
  case (less n)
  let ?v = "rd_volume rd" and ?off = "unat base * 512 + unat pos"
  let ?s64 = "base + pos div of_nat kSectorSize" and ?k = "unat pos mod 512"
  let ?sec = "unat base + unat pos div 512"
  have pos_lt: "unat pos < 2 ^ 50" using less.prems by simp
  note addr = unat_zone_position [OF assms(1) pos_lt]
  have off: "?off = ?sec * 512 + ?k" by (simp add: algebra_simps)
  have tail: "\<exists>q. run_state (zone_loop image_device rd sub base (pos + of_nat m) (n - m)) im = (q, im) \<and>
      result_opt q = extent_bytes im ?v sub (?off + m) (n - m)" if "0 < m" "m \<le> n" for m
  proof -
    have step: "unat (pos + of_nat m) = unat pos + m"
      by (rule unat_step [OF less.prems that(2)])
    have "n - m < n" "unat (pos + of_nat m) + (n - m) < 2 ^ 50" using that less.prems step by auto
    from less.IH [OF this] show ?thesis by (simp add: step add.assoc)
  qed
  consider "n = 0" | "n \<noteq> 0" "4294967295 < ?sec"
    | "n \<noteq> 0" "\<not> 4294967295 < ?sec" "?k = 0" "512 \<le> n"
    | "n \<noteq> 0" "\<not> 4294967295 < ?sec" "\<not> (?k = 0 \<and> 512 \<le> n)" by argo
  then show ?case
  proof cases
    case 1
    then show ?thesis by (simp add: zone_loop.simps extent_bytes_def)
  next
    case 2
    then have "extent_bytes im ?v sub ?off n = None" using off by (intro extent_bytes_far) auto
    with 2 addr show ?thesis by (subst zone_loop.simps) (simp add: sector_guard Let_def)
  next
    case 3
    define m where "m = min (n div 512) 128"
    have m: "0 < m" "m \<le> 128" "m * 512 \<le> n"
      using 3 by (auto simp: m_def min_def div_greater_zero_iff)
    have u: "unat (of_nat m :: u32) = m" using m by (simp add: unat_of_nat)
    have near: "unat (ucast ?s64 :: u32) = ?sec"
      using 3 addr(1) by (simp add: unsigned_ucast_eq take_bit_eq_mod)
    have read: "run_state (read_sectors image_device ?v sub (ucast ?s64) (of_nat m) (m * 512)) im =
        (extent_bytes im ?v sub ?off (m * 512), im)"
      using read_sectors_extent [of "of_nat m" "m * 512" ?v sub "ucast ?s64" im] m u near 3 off
      by (simp add: word_less_nat_alt)
    from tail [of "m * 512"] m obtain q where
      q: "run_state (zone_loop image_device rd sub base (pos + of_nat (m * 512)) (n - m * 512)) im = (q, im)"
        "result_opt q = extent_bytes im ?v sub (?off + m * 512) (n - m * 512)" by auto
    show ?thesis
      using run_read_then [OF read option.map_ident m(3) q, of Data_sectors] 3 addr
      by (subst zone_loop.simps) (simp add: sector_guard Let_def m_def kSectorSize_def)
  next
    case 4
    define m where "m = min n (512 - ?k)"
    have m: "0 < m" "m \<le> n" "?k + m \<le> 512" using 4 by (auto simp: m_def)
    have near: "unat (ucast ?s64 :: u32) = ?sec"
      using 4 addr(1) by (simp add: unsigned_ucast_eq take_bit_eq_mod)
    define R where "R = map_option (sub_bytes ?k m) (extent_bytes im ?v sub (?sec * 512) 512)"
    have R: "R = extent_bytes im ?v sub ?off m"
      unfolding R_def off by (rule extent_bytes_sector [symmetric]) (use m in auto)
    have read: "run_state (read_sectors image_device ?v sub (ucast ?s64) 1 512) im =
        (extent_bytes im ?v sub (?sec * 512) 512, im)"
      using read_sectors_extent [of 1 512 ?v sub "ucast ?s64" im] near by simp
    from tail [of m] m obtain q where
      q: "run_state (zone_loop image_device rd sub base (pos + of_nat m) (n - m)) im = (q, im)"
        "result_opt q = extent_bytes im ?v sub (?off + m) (n - m)" by auto
    show ?thesis
      using run_read_then [OF read, of "sub_bytes ?k m", OF R [unfolded R_def] m(2) q, of Data_sector] 4 addr
      by (subst zone_loop.simps) (auto simp: sector_guard Let_def m_def kSectorSize_def)
  qed
qed

lemma zone_size_le: "valid_zone_size z \<Longrightarrow> unat z \<le> 131072 \<and> unat z div 512 * 512 = unat z"
  by (auto simp: valid_zone_size_nat)

lemma unat_segment_bytes:
  "valid_zone_size z \<Longrightarrow> unat (ucast (c::u16) * ucast z :: u64) = unat c * unat z"
proof -
  assume "valid_zone_size z"
  then have "unat c * unat z \<le> 65536 * 131072"
    using unat_u16_less [of c] zone_size_le by (intro mult_mono) auto
  then show ?thesis by (simp add: unat_word_ariths)
qed

text \<open>\<open>block_bytes\<close> is the specification of \<open>read_zone_bytes\<close>: the bytes from \<open>within\<close> of the
  zones of a block descriptor.\<close>

definition block_bytes :: "image \<Rightarrow> pfs_reader \<Rightarrow> block_info \<Rightarrow> nat \<Rightarrow> nat \<Rightarrow> byte list option" where
  "block_bytes im rd b within n =
     (if subpart_missing rd b \<or> unat (bi_count b) * unat (sb_zone_size (rd_super rd)) < within + n then None
      else extent_bytes im (rd_volume rd) (unat (bi_subpart b))
        (unat (bi_number b) * unat (sb_zone_size (rd_super rd)) + within) n)"

lemma read_zone_bytes_image:
  assumes "valid_zone_size (sb_zone_size (rd_super rd))"
  shows "\<exists>r. run_state (read_zone_bytes image_device rd b off n) im = (r, im) \<and>
    result_opt r = block_bytes im rd b (unat off) n"
proof -
  let ?z = "sb_zone_size (rd_super rd)"
  let ?seg = "ucast (bi_count b) * ucast ?z :: u64"
  let ?base = "ucast (bi_number b) * ucast (?z div of_nat kSectorSize) :: u64"
  note z = zone_size_le [OF assms]
  have seg: "unat ?seg = unat (bi_count b) * unat ?z" by (rule unat_segment_bytes [OF assms])
  have guard: "?seg < off \<or> unat (?seg - off) < n \<longleftrightarrow> unat (bi_count b) * unat ?z < unat off + n"
    by (auto simp: word_less_nat_alt seg unat_sub_if_size)
  have seg_le: "unat (bi_count b) * unat ?z \<le> 65536 * 131072"
    using z unat_u16_less [of "bi_count b"] by (intro mult_mono) auto
  have "unat (bi_number b) * (unat ?z div 512) \<le> 4294967296 * 131072"
    using z unat_u32_less [of "bi_number b"] by (intro mult_mono) auto
  moreover have q: "unat (?z div of_nat kSectorSize) = unat ?z div 512"
    by (simp add: kSectorSize_def unat_div_distrib)
  ultimately have base: "unat ?base = unat (bi_number b) * (unat ?z div 512)" "unat ?base < 2 ^ 50"
    using q by (simp_all add: unat_mult_lem [THEN iffD1])
  have base512: "unat ?base * 512 = unat (bi_number b) * unat ?z"
    using z by (simp add: base mult.assoc)
  show ?thesis
  proof (cases "subpart_missing rd b \<or> unat (bi_count b) * unat ?z < unat off + n")
    case True
    then show ?thesis by (auto simp: read_zone_bytes_def block_bytes_def guard Let_def)
  next
    case False
    with seg_le have "unat off + n < 2 ^ 50" by simp
    from zone_loop_image [OF base(2) this, of rd "unat (bi_subpart b)" im] False show ?thesis
      by (auto simp: read_zone_bytes_def block_bytes_def guard Let_def base512)
  qed
qed

section \<open>Runs\<close>

record data_run =
  run_block :: block_info
  run_start :: u64
  run_bytes :: u64

definition mergeable :: "data_run \<Rightarrow> block_info \<Rightarrow> u64 \<Rightarrow> bool" where
  "mergeable previous block logical \<longleftrightarrow>
     (let b = run_block previous;
          expected_zone = ucast (bi_number b) + ucast (bi_count b) :: u64;
          combined_count = ucast (bi_count b) + ucast (bi_count block) :: u64
      in bi_subpart b = bi_subpart block \<and> expected_zone = ucast (bi_number block) \<and>
         run_start previous + run_bytes previous = logical \<and>
         combined_count \<le> ucast (- 1 :: u16))"

definition add_run :: "block_info \<Rightarrow> u64 \<Rightarrow> u64 \<Rightarrow> data_run list \<Rightarrow> data_run list" where
  "add_run block logical segment_size runs =
     (if runs \<noteq> [] \<and> mergeable (last runs) block logical
      then butlast runs @
        [(last runs)\<lparr>run_block := (run_block (last runs))\<lparr>bi_count := bi_count (run_block (last runs)) + bi_count block\<rparr>,
                     run_bytes := run_bytes (last runs) + segment_size\<rparr>]
      else runs @ [\<lparr>run_block = block, run_start = logical, run_bytes = segment_size\<rparr>])"

text \<open>The reference without merging: one run per block descriptor.\<close>

definition add_block :: "block_info \<Rightarrow> u64 \<Rightarrow> u64 \<Rightarrow> data_run list \<Rightarrow> data_run list" where
  "add_block block logical segment_size runs =
     runs @ [\<lparr>run_block = block, run_start = logical, run_bytes = segment_size\<rparr>]"

text \<open>
  The descriptor walk, \<open>k\<close> turns before \<open>number_data\<close>.  \<open>add\<close> records a descriptor that meets the
  request: \<open>add_run\<close> in the code, \<open>add_block\<close> in the reference.
\<close>

definition descriptor_block :: "inode \<Rightarrow> segment_descriptor option \<Rightarrow> nat \<Rightarrow> block_info option" where
  "descriptor_block i indirect global =
     (if global < kInodeMaxBlocks then Some (i_data i ! global)
      else map_option (\<lambda>d. sd_data d ! ((global - kInodeMaxBlocks) mod kIndirectMaxBlocks)) indirect)"

fun collect_runs ::
  "(block_info \<Rightarrow> u64 \<Rightarrow> u64 \<Rightarrow> data_run list \<Rightarrow> data_run list) \<Rightarrow> 's device \<Rightarrow> pfs_reader \<Rightarrow> inode \<Rightarrow>
   u64 \<Rightarrow> u64 \<Rightarrow> nat \<Rightarrow> nat \<Rightarrow> u64 \<Rightarrow> segment_descriptor option \<Rightarrow> block_info \<Rightarrow> nat \<Rightarrow> data_run list \<Rightarrow>
   ('s, pfs_error + data_run list \<times> nat) state" where
  "collect_runs add D rd i offset request_end 0 global logical indirect next_segment segi_loaded runs =
     okE (runs, segi_loaded)"
| "collect_runs add D rd i offset request_end (Suc k) global logical indirect next_segment segi_loaded runs =
     (if \<not> logical < request_end then okE (runs, segi_loaded)
      else if kInodeMaxBlocks \<le> global \<and> (global - kInodeMaxBlocks) mod kIndirectMaxBlocks = 0
      then bindE (read_segment_descriptor D rd next_segment) (\<lambda>d.
        collect_runs add D rd i offset request_end k (global + 1) logical (Some d) (sd_next_segment d)
          (segi_loaded + 1) runs)
      else case descriptor_block i indirect global of
        None \<Rightarrow> failE Read_no_descriptor
      | Some block \<Rightarrow>
          if bi_count block = 0 then failE Read_empty_block
          else
            let segment_size = ucast (bi_count block) * ucast (sb_zone_size (rd_super rd)) :: u64
            in if - 1 - segment_size < logical then failE Read_overflow
            else
              let segment_end = logical + segment_size;
                  runs' = (if offset < segment_end \<and> logical < request_end
                           then add block logical segment_size runs else runs)
              in collect_runs add D rd i offset request_end k (global + 1) segment_end indirect
                   next_segment segi_loaded runs')"

fun serve_runs ::
  "'s device \<Rightarrow> pfs_reader \<Rightarrow> data_run list \<Rightarrow> u64 \<Rightarrow> nat \<Rightarrow> ('s, pfs_error + byte list) state" where
  "serve_runs D rd [] request_position left = okE []"
| "serve_runs D rd (run # runs) request_position left =
     (if left = 0 then okE []
      else
        let run_end = run_start run + run_bytes run
        in if run_end \<le> request_position then serve_runs D rd runs request_position left
        else
          let within = (if run_start run < request_position then request_position - run_start run else 0);
              available = run_bytes run - within;
              taken = unat (min available (of_nat left))
          in bindE (read_zone_bytes D rd (run_block run) within taken) (\<lambda>bs.
               bindE (serve_runs D rd runs (request_position + of_nat taken) (left - taken)) (\<lambda>rest.
                 okE (bs @ rest))))"

definition read_with ::
  "(block_info \<Rightarrow> u64 \<Rightarrow> u64 \<Rightarrow> data_run list \<Rightarrow> data_run list) \<Rightarrow> 's device \<Rightarrow> pfs_reader \<Rightarrow> pfs_node \<Rightarrow>
   u64 \<Rightarrow> nat \<Rightarrow> ('s, pfs_error + byte list) state" where
  "read_with add D rd node offset n =
     (let i = nd_inode node in
      if \<not> reader_valid rd then failE Not_valid
      else if i_size i < offset \<or> unat (i_size i - offset) < n then failE Read_bounds
      else if n = 0 then okE []
      else bindE
        (collect_runs add D rd i offset (offset + of_nat n) (unat (i_number_data i) - 1) 1 0 None
          (i_next_segment i) 0 [])
        (\<lambda>(runs, segi_loaded). bindE (serve_runs D rd runs offset n) (\<lambda>bs.
           if length bs \<noteq> n then failE Read_short
           else if i_number_segdesg i \<noteq> 0 \<and> unat (i_number_segdesg i) < segi_loaded then failE Read_long_chain
           else okE bs)))"

definition pfs_read :: "'s device \<Rightarrow> pfs_reader \<Rightarrow> pfs_node \<Rightarrow> u64 \<Rightarrow> nat \<Rightarrow> ('s, pfs_error + byte list) state" where
  "pfs_read = read_with add_run"

definition pfs_read_unmerged ::
  "'s device \<Rightarrow> pfs_reader \<Rightarrow> pfs_node \<Rightarrow> u64 \<Rightarrow> nat \<Rightarrow> ('s, pfs_error + byte list) state" where
  "pfs_read_unmerged = read_with add_block"

end
