(* ===== verification/PfsReadSpec.thy ===== *)
theory PfsReadSpec
  imports PfsPayload
begin

text \<open>
  What \<open>Reader::read\<close> returns: merging adjacent descriptors changes no result, and the bytes are
  those of the zones the descriptors name.  The proofs go through \<open>serve_spec\<close>, the run server
  over natural numbers.
\<close>

section \<open>Serving runs\<close>

definition run_ok :: "pfs_reader \<Rightarrow> data_run \<Rightarrow> bool" where
  "run_ok rd r \<longleftrightarrow>
     unat (run_bytes r) = unat (bi_count (run_block r)) * unat (sb_zone_size (rd_super rd)) \<and>
     unat (run_start r) + unat (run_bytes r) < 18446744073709551616 \<and> 0 < unat (run_bytes r)"

fun serve_spec :: "image \<Rightarrow> pfs_reader \<Rightarrow> data_run list \<Rightarrow> nat \<Rightarrow> nat \<Rightarrow> byte list option" where
  "serve_spec im rd [] pos n = Some []"
| "serve_spec im rd (r # rs) pos n =
     (if n = 0 then Some []
      else if unat (run_start r) + unat (run_bytes r) \<le> pos then serve_spec im rd rs pos n
      else
        let within = pos - unat (run_start r);
            m = min (unat (run_bytes r) - within) n
        in append_opt (block_bytes im rd (run_block r) within m) (serve_spec im rd rs (pos + m) (n - m)))"

lemma serve_spec_0 [simp]: "serve_spec im rd rs pos 0 = Some []"
  by (cases rs) simp_all

lemma unat_min: "unat (min a b) = min (unat (a::u64)) (unat b)"
  by (simp add: min_def word_le_nat_alt)

lemma run_end: "run_ok rd r \<Longrightarrow> unat (run_start r + run_bytes r) = unat (run_start r) + unat (run_bytes r)"
  by (simp add: run_ok_def unat_word_ariths)

lemma serve_image:
  assumes "valid_zone_size (sb_zone_size (rd_super rd))"
    and "list_all (run_ok rd) runs" "unat pos + n < 18446744073709551616"
  shows "\<exists>r. run_state (serve_runs image_device rd runs pos n) im = (r, im) \<and>
    result_opt r = serve_spec im rd runs (unat pos) n"
  using assms(2,3)
proof (induction runs arbitrary: pos n)
  case (Cons r runs)
  then have r: "run_ok rd r" and runs: "list_all (run_ok rd) runs" by auto
  let ?e = "unat (run_start r) + unat (run_bytes r)"
  consider "n = 0" | "n \<noteq> 0" "?e \<le> unat pos" | "n \<noteq> 0" "unat pos < ?e" by linarith
  then show ?case
  proof cases
    case 2
    with Cons.IH [OF runs Cons.prems(2)] show ?thesis
      by (simp add: Let_def word_le_nat_alt run_end [OF r])
  next
    case 3
    define within where "within = (if run_start r < pos then pos - run_start r else 0)"
    define m where "m = unat (min (run_bytes r - within) (of_nat n))"
    have within: "unat within = unat pos - unat (run_start r)"
      by (auto simp: within_def unat_sub_if_size word_less_nat_alt)
    moreover from this 3 have "unat within \<le> unat (run_bytes r)" by linarith
    moreover have "unat (of_nat n :: u64) = n" using Cons.prems(2) by (simp add: unat_of_nat)
    ultimately have m: "m = min (unat (run_bytes r) - (unat pos - unat (run_start r))) n"
      by (simp add: m_def unat_min unat_sub_if_size)
    then have "m \<le> n" by simp
    then have step: "unat (pos + of_nat m) = unat pos + m"
      using Cons.prems(2) by (simp add: unat_word_ariths unat_of_nat)
    from \<open>m \<le> n\<close> Cons.prems(2) have "unat (pos + of_nat m) + (n - m) < 18446744073709551616"
      by (simp add: step)
    from Cons.IH [OF runs this] obtain q where
      q: "run_state (serve_runs image_device rd runs (pos + of_nat m) (n - m)) im = (q, im)"
        "result_opt q = serve_spec im rd runs (unat pos + m) (n - m)" by (auto simp: step)
    from read_zone_bytes_image [OF assms(1), of "run_block r" within m im] obtain x where
      x: "run_state (read_zone_bytes image_device rd (run_block r) within m) im = (x, im)"
        "block_bytes im rd (run_block r) (unat pos - unat (run_start r)) m = result_opt x"
      by (auto simp: within)
    have "serve_runs image_device rd (r # runs) pos n =
        bindE (read_zone_bytes image_device rd (run_block r) within m) (\<lambda>bs.
          bindE (serve_runs image_device rd runs (pos + of_nat m) (n - m)) (\<lambda>rest. okE (bs @ rest)))"
      using 3 by (simp add: Let_def within_def m_def word_le_nat_alt run_end [OF r])
    moreover have "serve_spec im rd (r # runs) (unat pos) n =
        append_opt (result_opt x) (result_opt q)"
      using 3 by (simp add: Let_def m [symmetric] x(2) q(2) [symmetric])
    ultimately show ?thesis
      by (cases x; cases q) (simp_all add: run_bindE x(1) q(1))
  qed simp
qed simp

section \<open>Merging two runs\<close>

definition merge_runs :: "data_run \<Rightarrow> data_run \<Rightarrow> data_run" where
  "merge_runs r q =
     r\<lparr>run_block := (run_block r)\<lparr>bi_count := bi_count (run_block r) + bi_count (run_block q)\<rparr>,
       run_bytes := run_bytes r + run_bytes q\<rparr>"

definition merge_ok :: "pfs_reader \<Rightarrow> data_run \<Rightarrow> data_run \<Rightarrow> bool" where
  "merge_ok rd r q \<longleftrightarrow> run_ok rd r \<and> run_ok rd q \<and> mergeable r (run_block q) (run_start q)"

lemma merge_nat:
  assumes "merge_ok rd r q"
  shows "bi_subpart (run_block q) = bi_subpart (run_block r)"
    "unat (bi_number (run_block q)) = unat (bi_number (run_block r)) + unat (bi_count (run_block r))"
    "unat (bi_count (run_block (merge_runs r q))) = unat (bi_count (run_block r)) + unat (bi_count (run_block q))"
    "unat (run_start q) = unat (run_start r) + unat (run_bytes r)"
    "unat (run_bytes (merge_runs r q)) = unat (run_bytes r) + unat (run_bytes q)"
proof -
  let ?b = "run_block r" and ?c = "run_block q"
  have m: "bi_subpart ?b = bi_subpart ?c"
      "ucast (bi_number ?b) + ucast (bi_count ?b) = (ucast (bi_number ?c) :: u64)"
      "run_start r + run_bytes r = run_start q"
      "ucast (bi_count ?b) + ucast (bi_count ?c) \<le> (ucast (- 1 :: u16) :: u64)"
    using assms by (auto simp: merge_ok_def mergeable_def Let_def)
  show "bi_subpart ?c = bi_subpart ?b" using m(1) by simp
  have "unat (ucast (bi_number ?b) + ucast (bi_count ?b) :: u64) = unat (bi_number ?b) + unat (bi_count ?b)"
    using unat_u32_less [of "bi_number ?b"] unat_u16_less [of "bi_count ?b"]
    by (simp add: unat_word_ariths)
  then show "unat (bi_number ?c) = unat (bi_number ?b) + unat (bi_count ?b)"
    using m(2) by simp
  have "unat (- 1 :: u16) = 65535" by (simp add: unsigned_minus_1_eq_mask mask_eq_exp_minus_1)
  moreover have "unat (ucast (bi_count ?b) + ucast (bi_count ?c) :: u64) = unat (bi_count ?b) + unat (bi_count ?c)"
    using unat_u16_less [of "bi_count ?b"] unat_u16_less [of "bi_count ?c"] by (simp add: unat_word_ariths)
  ultimately have "unat (bi_count ?b) + unat (bi_count ?c) \<le> 65535"
    using m(4) by (simp add: word_le_nat_alt)
  then show "unat (bi_count (run_block (merge_runs r q))) = unat (bi_count ?b) + unat (bi_count ?c)"
    by (simp add: merge_runs_def unat_word_ariths)
  have "run_ok rd r" "run_ok rd q" using assms by (auto simp: merge_ok_def)
  then show start: "unat (run_start q) = unat (run_start r) + unat (run_bytes r)"
    unfolding m(3) [symmetric] by (intro run_end)
  then show "unat (run_bytes (merge_runs r q)) = unat (run_bytes r) + unat (run_bytes q)"
    using \<open>run_ok rd q\<close> by (simp add: merge_runs_def unat_word_ariths run_ok_def)
qed

lemma merge_run_ok: "merge_ok rd r q \<Longrightarrow> run_ok rd (merge_runs r q)"
  using merge_nat [of rd r q]
  by (auto simp: run_ok_def merge_ok_def add_mult_distrib) (simp_all add: merge_runs_def)

lemma merge_sels [simp]:
  "run_start (merge_runs r q) = run_start r"
  "bi_subpart (run_block (merge_runs r q)) = bi_subpart (run_block r)"
  "bi_number (run_block (merge_runs r q)) = bi_number (run_block r)"
  by (simp_all add: merge_runs_def)

text \<open>Serving the merged run is serving one run after the other.\<close>

lemma block_bytes_merged:
  assumes "merge_ok rd r q" "w + n \<le> unat (run_bytes r) + unat (run_bytes q)"
    and sub: "subpart_missing rd (run_block q) \<longleftrightarrow> subpart_missing rd (run_block r)"
  shows "block_bytes im rd (run_block (merge_runs r q)) w n =
    (if w + n \<le> unat (run_bytes r) then block_bytes im rd (run_block r) w n
     else if unat (run_bytes r) \<le> w then block_bytes im rd (run_block q) (w - unat (run_bytes r)) n
     else append_opt (block_bytes im rd (run_block r) w (unat (run_bytes r) - w))
       (block_bytes im rd (run_block q) 0 (n - (unat (run_bytes r) - w))))"
proof -
  let ?z = "unat (sb_zone_size (rd_super rd))"
  note nat = merge_nat [OF assms(1)]
  have r: "unat (bi_count (run_block r)) * ?z = unat (run_bytes r)"
    and q: "unat (bi_count (run_block q)) * ?z = unat (run_bytes q)"
    using assms(1) by (auto simp: merge_ok_def run_ok_def)
  have m: "unat (bi_count (run_block (merge_runs r q))) * ?z = unat (run_bytes r) + unat (run_bytes q)"
    by (simp add: nat(3) add_mult_distrib r q)
  have num: "unat (bi_number (run_block q)) * ?z = unat (bi_number (run_block r)) * ?z + unat (run_bytes r)"
    by (simp add: nat(2) add_mult_distrib r)
  have miss: "subpart_missing rd (run_block (merge_runs r q)) = subpart_missing rd (run_block r)"
    by (simp add: subpart_missing_def)
  let ?a = "unat (run_bytes r)" and ?off = "unat (bi_number (run_block r)) * ?z"
  let ?E = "extent_bytes im (rd_volume rd) (unat (bi_subpart (run_block r)))"
  have whole: "block_bytes im rd (run_block (merge_runs r q)) w n =
      (if subpart_missing rd (run_block r) then None else ?E (?off + w) n)"
    using assms(2) by (simp add: block_bytes_def miss m)
  consider "w + n \<le> ?a" | "\<not> w + n \<le> ?a" "?a \<le> w" | "\<not> w + n \<le> ?a" "w < ?a" by linarith
  then show ?thesis
  proof cases
    case 1
    then show ?thesis unfolding whole by (simp add: block_bytes_def r)
  next
    case 2
    then have "\<not> unat (run_bytes q) < w - ?a + n" using assms(2) by linarith
    with 2 show ?thesis unfolding whole by (simp add: block_bytes_def q sub nat(1) num add.assoc)
  next
    case 3
    then have "?E (?off + w) n = append_opt (?E (?off + w) (?a - w)) (?E (?off + ?a) (n - (?a - w)))"
      by (subst extent_bytes_step [of "?a - w"]) auto
    moreover have "\<not> unat (run_bytes q) < n - (?a - w)" using 3 assms(2) by linarith
    ultimately show ?thesis using 3 unfolding whole
      by (simp add: block_bytes_def r q sub nat(1) num)
  qed
qed

lemma serve_merged:
  assumes "merge_ok rd r q"
  shows "serve_spec im rd (merge_runs r q # rs) pos n = serve_spec im rd (r # q # rs) pos n"
proof -
  let ?a = "unat (run_bytes r)" and ?b = "unat (run_bytes q)" and ?s = "unat (run_start r)"
  note nat = merge_nat [OF assms]
  have sub: "subpart_missing rd (run_block q) \<longleftrightarrow> subpart_missing rd (run_block r)"
    by (simp add: subpart_missing_def nat(1))
  note bytes = block_bytes_merged [OF assms _ sub, of _ _ im]
  define w where "w = pos - ?s"
  consider "n = 0" | "n \<noteq> 0" "?s + ?a + ?b \<le> pos" | "n \<noteq> 0" "?s + ?a \<le> pos" "pos < ?s + ?a + ?b"
    | "n \<noteq> 0" "pos < ?s + ?a" "w + n \<le> ?a" | "n \<noteq> 0" "pos < ?s + ?a" "?a < w + n" by linarith
  then show ?thesis
  proof cases
    case 3
    then have "w - ?a = pos - (?s + ?a)" "?a \<le> w" "\<not> w + min (?a + ?b - w) n \<le> ?a"
        "?a + ?b - w = ?b - (pos - (?s + ?a))" "w + min (?a + ?b - w) n \<le> ?a + ?b"
      by (auto simp: w_def)
    with 3 bytes [of w "min (?a + ?b - w) n"] show ?thesis
      by (simp add: Let_def nat w_def [symmetric])
  next
    case 4
    then have "min (?a + ?b - w) n = n" "min (?a - w) n = n" "n \<le> ?a - w" by (auto simp: w_def)
    with 4 bytes [of w n] show ?thesis
      by (simp add: Let_def nat w_def [symmetric])
  next
    case 5
    define m where "m = min (?a + ?b - w) n"
    have "0 < ?a" using assms unfolding merge_ok_def run_ok_def by blast
    with 5 have w: "w < ?a" by (auto simp: w_def)
    have pos: "pos + (?a - w) \<le> ?s + ?a" using 5 w by (simp add: w_def)
    have m: "?a - w \<le> m" "w + m \<le> ?a + ?b" "min (?a - w) n = ?a - w"
        "min ?b (n - (?a - w)) = m - (?a - w)" "0 < n - (?a - w)"
      using 5 w by (auto simp: m_def min_def)
    have b: "0 < ?b" using assms unfolding merge_ok_def run_ok_def by blast
    then have "0 < m - (?a - w)" unfolding m(4) [symmetric] using m(5) by simp
    then have m2: "\<not> w + m \<le> ?a" "\<not> ?a \<le> w" "?s + ?a + ?b > pos + (?a - w)"
        "pos + (?a - w) - (?s + ?a) = 0" "pos + (?a - w) + (m - (?a - w)) = pos + m"
        "n - (?a - w) - (m - (?a - w)) = n - m"
      using b w m(1,5) pos by linarith+
    have "serve_spec im rd (q # rs) (pos + (?a - w)) (n - (?a - w)) =
        append_opt (block_bytes im rd (run_block q) 0 (m - (?a - w))) (serve_spec im rd rs (pos + m) (n - m))"
      using m m2 by (simp add: Let_def nat)
    moreover have "serve_spec im rd (r # q # rs) pos n =
        append_opt (block_bytes im rd (run_block r) w (?a - w))
          (serve_spec im rd (q # rs) (pos + (?a - w)) (n - (?a - w)))"
      unfolding serve_spec.simps(2) [of im rd r] using 5 m(3) by (simp only: Let_def w_def [symmetric] if_False) simp
    moreover have "serve_spec im rd (merge_runs r q # rs) pos n =
        append_opt (block_bytes im rd (run_block (merge_runs r q)) w m) (serve_spec im rd rs (pos + m) (n - m))"
      using 5 by (simp add: Let_def nat w_def [symmetric] m_def)
    ultimately show ?thesis
      using bytes [of w m] m(2) m2(1,2) by (simp add: append_opt_assoc)
  qed (simp_all add: Let_def nat)
qed

section \<open>The walk with and without merging\<close>

text \<open>\<open>merge_all\<close> replays \<open>add_run\<close> over a list of unmerged runs.\<close>

definition merge_all :: "data_run list \<Rightarrow> data_run list" where
  "merge_all ps = foldl (\<lambda>rs p. add_run (run_block p) (run_start p) (run_bytes p) rs) [] ps"

lemma add_run_snoc:
  "add_run (run_block p) (run_start p) (run_bytes p) rs =
     (if rs \<noteq> [] \<and> mergeable (last rs) (run_block p) (run_start p)
      then butlast rs @ [merge_runs (last rs) p] else rs @ [p])"
  by (simp add: add_run_def merge_runs_def)

lemma serve_append:
  "(\<And>pos n. serve_spec im rd xs pos n = serve_spec im rd ys pos n) \<Longrightarrow>
   serve_spec im rd (zs @ xs) pos n = serve_spec im rd (zs @ ys) pos n"
  by (induction zs arbitrary: pos n) (simp_all add: Let_def)

lemma serve_merge_all:
  assumes "list_all (run_ok rd) rs" "list_all (run_ok rd) ps"
  defines "m \<equiv> foldl (\<lambda>rs p. add_run (run_block p) (run_start p) (run_bytes p) rs)"
  shows "list_all (run_ok rd) (m rs ps) \<and> serve_spec im rd (m rs ps) pos n = serve_spec im rd (rs @ ps) pos n"
  using assms(1,2)
proof (induction ps arbitrary: rs)
  case Nil
  then show ?case by (simp add: m_def)
next
  case (Cons p ps)
  let ?rs = "add_run (run_block p) (run_start p) (run_bytes p) rs"
  have step: "m rs (p # ps) = m ?rs ps" by (simp add: m_def)
  show ?case
  proof (cases "rs \<noteq> [] \<and> mergeable (last rs) (run_block p) (run_start p)")
    case False
    with Cons.IH [of "rs @ [p]"] Cons.prems show ?thesis
      unfolding step add_run_snoc by auto
  next
    case True
    then obtain xs r where rs: "rs = xs @ [r]" by (metis append_butlast_last_id)
    with True Cons.prems have ok: "merge_ok rd r p" by (simp add: merge_ok_def)
    have new: "?rs = xs @ [merge_runs r p]" using True by (simp add: add_run_snoc rs)
    have "list_all (run_ok rd) ?rs" unfolding new using Cons.prems ok by (simp add: rs merge_run_ok)
    moreover have "list_all (run_ok rd) ps" using Cons.prems by simp
    moreover have "serve_spec im rd (xs @ merge_runs r p # ps) pos n = serve_spec im rd (xs @ r # p # ps) pos n"
      by (rule serve_append) (rule serve_merged [OF ok])
    ultimately show ?thesis using Cons.IH [of ?rs] unfolding step unfolding new unfolding rs by simp
  qed
qed

lemma merge_all_add_block:
  "merge_all (add_block b l z ps) = add_run b l z (merge_all ps)"
  by (simp add: merge_all_def add_block_def)

lemma collect_merged:
  "run_state (collect_runs add_run D rd i off e k g l ind nx sg (merge_all ps)) s =
     (case run_state (collect_runs add_block D rd i off e k g l ind nx sg ps) s of
        (Inl x, t) \<Rightarrow> (Inl x, t)
      | (Inr (ps', sg'), t) \<Rightarrow> (Inr (merge_all ps', sg'), t))"
proof (induction k arbitrary: g l ind nx sg ps s)
  case (Suc k)
  show ?case
    by (auto simp: run_bindE Let_def Suc.IH merge_all_add_block [symmetric]
        split: prod.splits sum.splits option.splits)
qed simp

section \<open>The runs of a walk\<close>

fun chained :: "nat \<Rightarrow> data_run list \<Rightarrow> nat \<Rightarrow> bool" where
  "chained a [] b \<longleftrightarrow> a = b"
| "chained a (r # rs) b \<longleftrightarrow> unat (run_start r) = a \<and> chained (a + unat (run_bytes r)) rs b"

lemma chained_snoc:
  "chained a (rs @ [r]) b \<longleftrightarrow> chained a rs (unat (run_start r)) \<and> unat (run_start r) + unat (run_bytes r) = b"
  by (induction rs arbitrary: a) auto

definition walk_ok :: "pfs_reader \<Rightarrow> nat \<Rightarrow> nat \<Rightarrow> data_run list \<Rightarrow> bool" where
  "walk_ok rd off logical ps \<longleftrightarrow>
     list_all (run_ok rd) ps \<and>
     (if ps = [] then logical \<le> off else off < logical \<and> (\<exists>a \<le> off. chained a ps logical))"

lemma unat_no_overflow:
  assumes "\<not> - 1 - z < (l :: u64)"
  shows "unat (l + z) = unat l + unat z" "unat l + unat z < 18446744073709551616"
proof -
  have "unat (- 1 - z) = 18446744073709551615 - unat z"
    by (simp add: unat_sub unsigned_minus_1_eq_mask mask_eq_exp_minus_1)
  with assms unat_u64_less [of z] show "unat l + unat z < 18446744073709551616"
    by (simp add: word_less_nat_alt)
  then show "unat (l + z) = unat l + unat z" by (simp add: unat_word_ariths)
qed

lemma walk_ok_step:
  assumes "valid_zone_size (sb_zone_size (rd_super rd))" "walk_ok rd (unat off) (unat l) ps"
    and "bi_count b \<noteq> 0" "z = ucast (bi_count b) * ucast (sb_zone_size (rd_super rd))"
    and "\<not> - 1 - z < l"
  shows "walk_ok rd (unat off) (unat (l + z)) (if off < l + z then add_block b l z ps else ps)"
proof -
  let ?zone = "sb_zone_size (rd_super rd)"
  have z: "unat z = unat (bi_count b) * unat ?zone"
    unfolding assms(4) by (rule unat_segment_bytes [OF assms(1)])
  note sum = unat_no_overflow(1) [OF assms(5)] and fits = unat_no_overflow(2) [OF assms(5)]
  have "unat (bi_count b) \<noteq> 0" using assms(3) by (simp add: unat_eq_0)
  moreover have "unat ?zone \<noteq> 0" using assms(1) by (auto simp: valid_zone_size_nat)
  ultimately have "0 < unat z" by (simp add: z)
  then have ok: "run_ok rd \<lparr>run_block = b, run_start = l, run_bytes = z\<rparr>"
    using fits by (simp add: run_ok_def z [symmetric])
  show ?thesis
  proof (cases "ps = []")
    case True
    then show ?thesis using assms(2) ok
      by (auto simp: walk_ok_def add_block_def sum word_less_nat_alt)
  next
    case False
    then obtain a where a: "a \<le> unat off" "chained a ps (unat l)" "list_all (run_ok rd) ps"
      using assms(2) by (auto simp: walk_ok_def)
    have "chained a (add_block b l z ps) (unat l + unat z)"
      using a(2) by (simp add: add_block_def chained_snoc)
    moreover have "unat off < unat l" using assms(2) False by (simp add: walk_ok_def)
    ultimately show ?thesis using a(1,3) ok False
      by (auto simp: walk_ok_def sum word_less_nat_alt add_block_def)
  qed
qed

lemma collect_walk_ok:
  assumes "valid_zone_size (sb_zone_size (rd_super rd))" "walk_ok rd (unat off) (unat l) ps"
    and "run_state (collect_runs add_block D rd i off e k g l ind nx sg ps) s = (Inr (ps', sg'), t)"
  shows "\<exists>l'. walk_ok rd (unat off) l' ps'"
  using assms(2,3)
proof (induction k arbitrary: g l ind nx sg ps s)
  case (Suc k)
  note step = walk_ok_step [OF assms(1) Suc.prems(1)]
  from Suc.prems(1) have stop: "\<exists>l'. walk_ok rd (unat off) l' ps" by blast
  show ?case
  proof (cases "l < e")
    case False
    with Suc.prems stop show ?thesis by auto
  next
    case True
    with Suc.prems(2) show ?thesis
      by (auto simp: run_bindE Let_def split: if_splits prod.splits sum.splits option.splits
        intro: Suc.IH Suc.prems(1) step)
  qed
qed auto

lemma collect_image:
  assumes "reader_ok rd" "reader_valid rd"
  shows "snd (run_state (collect_runs add image_device rd i off e k g l ind nx sg ps) im) = im"
proof (induction k arbitrary: g l ind nx sg ps)
  case (Suc k)
  obtain x where "run_state (read_segment_descriptor image_device rd nx) im = (x, im)"
    using read_segment_image [OF assms] by blast
  then show ?case
    by (cases x) (auto simp: run_bindE Let_def Suc.IH split: option.splits)
qed simp

section \<open>What a read returns\<close>

text \<open>Both variants in one formula: the walk without merging, then the specification of the server.\<close>

definition read_accepts :: "image \<Rightarrow> pfs_reader \<Rightarrow> pfs_node \<Rightarrow> u64 \<Rightarrow> nat \<Rightarrow> byte list \<Rightarrow> bool" where
  "read_accepts im rd node off n bs \<longleftrightarrow>
     reader_valid rd \<and> unat off + n \<le> unat (i_size (nd_inode node)) \<and>
     (if n = 0 then bs = []
      else \<exists>ps sg.
        evalS (collect_runs add_block image_device rd (nd_inode node) off (off + of_nat n)
          (unat (i_number_data (nd_inode node)) - 1) 1 0 None (i_next_segment (nd_inode node)) 0 []) im =
          Inr (ps, sg) \<and>
        serve_spec im rd ps (unat off) n = Some bs \<and> length bs = n \<and>
        (i_number_segdesg (nd_inode node) = 0 \<or> sg \<le> unat (i_number_segdesg (nd_inode node))))"

lemma read_with_image:
  assumes "reader_ok rd" "add = add_run \<and> (f = merge_all) \<or> add = add_block \<and> f = id"
  shows "\<exists>r. run_state (read_with add image_device rd node off n) im = (r, im) \<and>
    (\<forall>bs. r = Inr bs \<longleftrightarrow> read_accepts im rd node off n bs)"
proof -
  let ?i = "nd_inode node"
  have bounds: "i_size ?i < off \<or> unat (i_size ?i - off) < n \<longleftrightarrow> \<not> unat off + n \<le> unat (i_size ?i)"
    by (auto simp: word_less_nat_alt unat_sub_if_size)
  let ?walk = "\<lambda>add. collect_runs add image_device rd ?i off (off + of_nat n) (unat (i_number_data ?i) - 1) 1 0 None
    (i_next_segment ?i) 0 []"
  show ?thesis
  proof (cases "reader_valid rd \<and> unat off + n \<le> unat (i_size ?i) \<and> n \<noteq> 0")
    case False
    then show ?thesis by (auto simp: read_with_def read_accepts_def bounds Let_def)
  next
    case True
    with assms(1) have zone: "valid_zone_size (sb_zone_size (rd_super rd))" by (simp add: reader_okD)
    obtain x where x: "run_state (?walk add_block) im = (x, im)"
      using collect_image [OF assms(1), of add_block] True by (metis prod.collapse)
    have walk: "run_state (?walk add) im = (case x of Inl y \<Rightarrow> (Inl y, im) | Inr (ps, sg) \<Rightarrow> (Inr (f ps, sg), im))"
      using assms(2) collect_merged [where ps = "[]" and s = im and D = image_device] x
      by (auto simp: merge_all_def split: sum.splits prod.splits)
    show ?thesis
    proof (cases x)
      case (Inl y)
      with True walk x show ?thesis by (auto simp: read_with_def read_accepts_def bounds Let_def run_bindE evalS_def)
    next
      case (Inr p)
      obtain ps sg where p: "p = (ps, sg)" by (cases p)
      have "walk_ok rd (unat off) (unat (0::u64)) []" by (simp add: walk_ok_def)
      from collect_walk_ok [OF zone this x [unfolded Inr p]]
      have ps: "list_all (run_ok rd) ps" by (auto simp: walk_ok_def)
      have lim: "unat off + n < 18446744073709551616"
        using True unat_u64_less [of "i_size ?i"] by linarith
      have fps: "list_all (run_ok rd) (f ps)" "serve_spec im rd (f ps) (unat off) n = serve_spec im rd ps (unat off) n"
        using assms(2) serve_merge_all [OF _ ps, of "[]" im "unat off" n] ps by (auto simp: merge_all_def)
      from serve_image [OF zone fps(1) lim, of im] fps(2) obtain y where
        y: "run_state (serve_runs image_device rd (f ps) off n) im = (y, im)"
          "serve_spec im rd ps (unat off) n = result_opt y" by auto
      show ?thesis
        using True walk x Inr p y
        by (cases y) (auto simp: read_with_def read_accepts_def bounds Let_def run_bindE evalS_def not_less)
    qed
  qed
qed

text \<open>C10: Merging adjacent descriptors into runs is invisible: with a freshly opened reader, on every disk
  image, for every inode and every byte range, \<open>read\<close> succeeds exactly when the reader that serves one
  descriptor at a time succeeds, and with the same bytes.\<close>

theorem read_equals_unmerged:
  "result_opt (evalS (pfs_read image_device (evalS (open_reader D v) s) node off n) im) =
   result_opt (evalS (pfs_read_unmerged image_device (evalS (open_reader D v) s) node off n) im)"
proof -
  let ?rd = "evalS (open_reader D v) s"
  from read_with_image [OF open_reader_ok, of add_run merge_all D v s node off n im]
    read_with_image [OF open_reader_ok, of add_block id D v s node off n im]
  have "result_opt (evalS (read_with add_run image_device ?rd node off n) im) = Some bs \<longleftrightarrow>
      result_opt (evalS (read_with add_block image_device ?rd node off n) im) = Some bs" for bs
    by (auto simp: evalS_def)
  then show ?thesis unfolding pfs_read_def pfs_read_unmerged_def by (metis option.exhaust)
qed

text \<open>Each byte comes from the zone that its descriptor names.\<close>

lemma extent_bytes_nth:
  "\<lbrakk>extent_bytes im v sub off m = Some bs; i < m\<rbrakk> \<Longrightarrow> extent_bytes im v sub (off + i) 1 = Some [bs ! i]"
  using extent_readable_mono [of im v sub "off + m" "off + i + 1"]
  by (auto simp: extent_bytes_def nth_image_slice image_slice_def add.assoc split: if_splits)

lemma block_bytes_nth:
  assumes "block_bytes im rd b w m = Some bs" "i < m"
  shows "block_bytes im rd b (w + i) 1 = Some [bs ! i]"
proof -
  have b: "\<not> subpart_missing rd b" "w + m \<le> unat (bi_count b) * unat (sb_zone_size (rd_super rd))"
    and e: "extent_bytes im (rd_volume rd) (unat (bi_subpart b))
      (unat (bi_number b) * unat (sb_zone_size (rd_super rd)) + w) m = Some bs"
    using assms(1) by (auto simp: block_bytes_def split: if_splits)
  from extent_bytes_nth [OF e assms(2)] b assms(2) show ?thesis
    by (simp add: block_bytes_def add.assoc)
qed

lemma block_bytes_length: "block_bytes im rd b w m = Some bs \<Longrightarrow> length bs = m"
  by (auto simp: block_bytes_def dest: extent_bytes_length split: if_splits)

definition run_byte :: "image \<Rightarrow> pfs_reader \<Rightarrow> data_run \<Rightarrow> nat \<Rightarrow> byte option" where
  "run_byte im rd r p =
     (if unat (run_start r) \<le> p \<and> p < unat (run_start r) + unat (run_bytes r)
      then map_option hd (block_bytes im rd (run_block r) (p - unat (run_start r)) 1)
      else None)"

lemma append_opt_Some:
  "append_opt x y = Some c \<longleftrightarrow> (\<exists>a b. x = Some a \<and> y = Some b \<and> c = a @ b)"
  by (cases x; cases y) auto

lemma serve_content:
  assumes "serve_spec im rd rs pos n = Some bs" "chained a rs e" "a \<le> pos" "i < length bs"
  shows "\<exists>r \<in> set rs. run_byte im rd r (pos + i) = Some (bs ! i)"
  using assms
proof (induction rs arbitrary: a pos n bs i)
  case (Cons r rs)
  let ?s = "unat (run_start r)" and ?b = "unat (run_bytes r)"
  have r: "?s = a" "chained (?s + ?b) rs e" using Cons.prems(2) by auto
  show ?case
  proof (cases "n = 0 \<or> ?s + ?b \<le> pos")
    case True
    then show ?thesis
      using Cons.IH [OF _ r(2), of pos n bs i] Cons.prems by (auto split: if_splits)
  next
    case False
    define m where "m = min (?b - (pos - ?s)) n"
    from False Cons.prems(1) obtain xs ys where
      xs: "block_bytes im rd (run_block r) (pos - ?s) m = Some xs" and
      ys: "serve_spec im rd rs (pos + m) (n - m) = Some ys" and bs: "bs = xs @ ys"
      by (auto simp: Let_def append_opt_Some m_def)
    have m: "length xs = m" "pos - ?s + m \<le> ?b" "?s \<le> pos"
      using block_bytes_length [OF xs] False Cons.prems(3) r(1) by (auto simp: m_def)
    show ?thesis
    proof (cases "i < m")
      case True
      have "run_byte im rd r (pos + i) = Some (bs ! i)"
        using block_bytes_nth [OF xs True] True m by (simp add: run_byte_def bs nth_append)
      then show ?thesis by auto
    next
      case i: False
      then have "0 < n - m" using ys bs m Cons.prems(4) by (cases "n - m") auto
      then have "m = ?b - (pos - ?s)" by (auto simp: m_def)
      then have "?s + ?b \<le> pos + m" using m by simp
      from Cons.IH [OF ys r(2) this, of "i - m"] i bs m(1) Cons.prems(4)
      show ?thesis by (auto simp: nth_append)
    qed
  qed
qed simp

subsection \<open>The zones of a file\<close>

text \<open>
  What the format says a file consists of, over natural numbers and without the walk of the code.  A zone
  extent is a zone number, a sub-partition and a count of zones; in a block it is two 32-bit words, the
  zone number first, then the sub-partition in the low and the count in the high half.  An inode names
  its next SEGI block, and a SEGI block the next one in word 4; descriptor \<open>j\<close> of a SEGI block is at word
  \<open>10 + 2 * j\<close>.  A SEGD block has 114 and a SEGI block 123 descriptors; the first of each block names the block itself.
\<close>

type_synonym zone_extent = "nat \<times> nat \<times> nat"

definition info_extent :: "block_info \<Rightarrow> zone_extent" where
  "info_extent b = (unat (bi_number b), unat (bi_subpart b), unat (bi_count b))"

definition raw_extent :: "byte list \<Rightarrow> nat \<Rightarrow> zone_extent" where
  "raw_extent raw w = (raw_word raw w, raw_word raw (w + 1) mod 65536, raw_word raw (w + 1) div 65536)"

abbreviation zone_bytes :: "pfs_reader \<Rightarrow> nat" where
  "zone_bytes rd \<equiv> unat (sb_zone_size (rd_super rd))"

definition zone_data :: "image \<Rightarrow> pfs_reader \<Rightarrow> nat \<Rightarrow> nat \<Rightarrow> nat \<Rightarrow> nat \<Rightarrow> byte list option" where
  "zone_data im rd s z off n =
     (if s \<le> unat (sb_num_subs (rd_super rd)) \<and> s < extent_count (rd_volume rd)
      then extent_bytes im (rd_volume rd) s (z * zone_bytes rd + off) n else None)"

fun segi_raw :: "image \<Rightarrow> pfs_reader \<Rightarrow> zone_extent \<Rightarrow> byte list option" where
  "segi_raw im rd (z, s, c) =
     (if z = 0 then None
      else case zone_data im rd s z 0 1024 of
        None \<Rightarrow> None | Some raw \<Rightarrow> if segi_block raw then Some raw else None)"

function segi_extents :: "image \<Rightarrow> pfs_reader \<Rightarrow> zone_extent \<Rightarrow> nat \<Rightarrow> zone_extent list" where
  "segi_extents im rd e n =
     (if n = 0 then []
      else case segi_raw im rd e of
        None \<Rightarrow> []
      | Some raw \<Rightarrow> map (\<lambda>j. raw_extent raw (10 + 2 * j)) [1 ..< min n 123] @
          segi_extents im rd (raw_extent raw 4) (n - 123))"
  by pat_completeness auto

termination segi_extents
  by (relation "measure (\<lambda>(im, rd, e, n). n)") auto

declare segi_extents.simps [simp del]

definition file_extents :: "image \<Rightarrow> pfs_reader \<Rightarrow> inode \<Rightarrow> zone_extent list" where
  "file_extents im rd i =
     map (\<lambda>j. info_extent (i_data i ! j)) [1 ..< min (unat (i_number_data i)) 114] @
     segi_extents im rd (info_extent (i_next_segment i)) (unat (i_number_data i) - 114)"

text \<open>Byte \<open>p\<close> of the zones of a list of extents, one extent after the other.\<close>

fun file_byte :: "image \<Rightarrow> pfs_reader \<Rightarrow> zone_extent list \<Rightarrow> nat \<Rightarrow> byte option" where
  "file_byte im rd [] p = None"
| "file_byte im rd ((z, s, c) # es) p =
     (if p < c * zone_bytes rd then map_option hd (zone_data im rd s z p 1)
      else file_byte im rd es (p - c * zone_bytes rd))"

lemma unat_load_u16: "unat (load_u16_le raw k) = unat (raw ! k) + 256 * unat (raw ! (k + 1))"
proof -
  have "(ucast (raw ! k) :: u16) AND push_bit 8 (ucast (raw ! (k + 1))) = 0"
    by (rule bit_word_eqI) (auto simp: bit_simps bit_byte_high)
  from disjunctive_add_eq_or [OF this]
  have "load_u16_le raw k = ucast (raw ! k) + push_bit 8 (ucast (raw ! (k + 1)))"
    by (simp add: load_u16_le_def)
  then show ?thesis
    using unat_byte [of "raw ! k"] unat_byte [of "raw ! (k + 1)"]
    by (simp add: push_bit_eq_mult unat_word_ariths unsigned_ucast_eq take_bit_eq_mod)
qed

lemma raw_word_halves:
  "raw_word raw k mod 65536 = unat (load_u16_le raw (4 * k))"
  "raw_word raw k div 65536 = unat (load_u16_le raw (4 * k + 2))"
proof -
  have word: "raw_word raw k = unat (load_u16_le raw (4 * k)) + 65536 * unat (load_u16_le raw (4 * k + 2))"
    unfolding raw_word_def lessThan_4 unat_load_u16 by (simp add: numeral_3_eq_3)
  show "raw_word raw k mod 65536 = unat (load_u16_le raw (4 * k))"
    "raw_word raw k div 65536 = unat (load_u16_le raw (4 * k + 2))"
    unfolding word using unat_u16_less [of "load_u16_le raw (4 * k)"] by simp_all
qed

lemma info_extent_decode:
  assumes "4 * w + 8 \<le> length raw"
  shows "info_extent (decode_block_info (sub_bytes (4 * w) 8 raw)) = raw_extent raw w"
  using assms unat_load_u32 [of raw w] raw_word_halves [of raw "w + 1"]
  by (simp add: info_extent_def raw_extent_def decode_block_info_def load_u32_sub_bytes load_u16_sub_bytes
      add.commute)

lemma segment_extents:
  assumes "length raw = 1024"
  shows "info_extent (sd_next_segment (decode_segment raw)) = raw_extent raw 4"
    "j < 123 \<Longrightarrow> info_extent (sd_data (decode_segment raw) ! j) = raw_extent raw (10 + 2 * j)"
  using info_extent_decode [of 4 raw] info_extent_decode [of "10 + 2 * j" raw] assms
  by (simp_all add: decode_segment_def decode_array_def kIndirectMaxBlocks_def)

lemma metadata_bytes_zone:
  "metadata_bytes im rd b =
     (case info_extent b of (z, s, c) \<Rightarrow> zone_data im rd s z 0 1024)"
  by (auto simp: metadata_bytes_def subpart_missing_nat info_extent_def zone_data_def kMetadataSize_def)

lemma read_segment_raw:
  assumes "reader_ok rd" "reader_valid rd"
    and "run_state (read_segment_descriptor image_device rd loc) im = (Inr d, im')"
  obtains raw where "segi_raw im rd (info_extent loc) = Some raw" "length raw = 1024" "d = decode_segment raw" "im' = im"
proof -
  from read_segment_image [OF assms(1,2), of loc im] assms(3) obtain raw where
    raw: "bi_number loc \<noteq> 0" "metadata_bytes im rd loc = Some raw" "segment_error (decode_segment raw) = None"
      "d = decode_segment raw" "im' = im" by auto
  from raw(2) have len: "length raw = 1024"
    by (auto simp: metadata_bytes_def kMetadataSize_def dest: extent_bytes_length split: if_splits)
  then have "segi_block raw" using raw(3) segment_error_raw by (simp add: kMetadataSize_def)
  then have "segi_raw im rd (info_extent loc) = Some raw"
    using raw(1,2) by (simp add: metadata_bytes_zone info_extent_def unat_eq_0)
  with raw len that show thesis by blast
qed

subsection \<open>The walk visits the zones of the file\<close>

text \<open>The extents the walk has still to visit, \<open>k\<close> turns before the end.\<close>

definition rest_extents ::
  "image \<Rightarrow> pfs_reader \<Rightarrow> inode \<Rightarrow> nat \<Rightarrow> nat \<Rightarrow> segment_descriptor option \<Rightarrow> block_info \<Rightarrow> zone_extent list" where
  "rest_extents im rd i k g ind nx =
     (if g < 114 then map (\<lambda>j. info_extent (i_data i ! j)) [g ..< min (g + k) 114] @
        segi_extents im rd (info_extent nx) (g + k - 114)
      else let j = (g - 114) mod 123 in
        if j = 0 then segi_extents im rd (info_extent nx) k
        else map (\<lambda>j. info_extent (sd_data (the ind) ! j)) [j ..< min (j + k) 123] @
          segi_extents im rd (info_extent nx) (j + k - 123))"

lemma segi_extents_0 [simp]: "segi_extents im rd e 0 = []"
  by (simp add: segi_extents.simps)

lemma upt_turn: "g < m \<Longrightarrow> [g ..< min (g + Suc k) m] = g # [g + 1 ..< min (g + 1 + k) m]"
  by (subst upt_conv_Cons) simp_all

lemma next_turn: "114 \<le> g \<Longrightarrow> g - 113 = Suc (g - 114)"
  by simp

lemma rest_extents_segd:
  "g < 114 \<Longrightarrow> rest_extents im rd i (Suc k) g ind nx =
     info_extent (i_data i ! g) # rest_extents im rd i k (g + 1) ind nx"
  unfolding rest_extents_def upt_turn by (cases "g = 113") auto

lemma rest_extents_load:
  assumes "114 \<le> g" "(g - 114) mod 123 = 0" "segi_raw im rd (info_extent nx) = Some raw" "length raw = 1024"
  shows "rest_extents im rd i (Suc k) g ind nx =
    rest_extents im rd i k (g + 1) (Some (decode_segment raw)) (sd_next_segment (decode_segment raw))"
proof -
  have j: "(g + 1 - 114) mod 123 = 1" using assms(1,2) mod_Suc [of "g - 114" 123] by (simp add: next_turn)
  have "map (\<lambda>j. info_extent (sd_data (decode_segment raw) ! j)) [1 ..< min (Suc k) 123] =
      map (\<lambda>j. raw_extent raw (10 + 2 * j)) [1 ..< min (Suc k) 123]"
    by (rule map_cong) (auto simp: segment_extents assms(4))
  with assms j show ?thesis
    by (simp add: rest_extents_def Let_def segi_extents.simps [of im rd "info_extent nx" "Suc k"] segment_extents)
qed

lemma rest_extents_segi:
  assumes "114 \<le> g" "(g - 114) mod 123 \<noteq> 0"
  shows "rest_extents im rd i (Suc k) g (Some d) nx =
    info_extent (sd_data d ! ((g - 114) mod 123)) # rest_extents im rd i k (g + 1) (Some d) nx"
proof -
  define j where "j = (g - 114) mod 123"
  have j: "0 < j" "j < 123" using assms(2) by (auto simp: j_def)
  have j': "(g + 1 - 114) mod 123 = (if j = 122 then 0 else j + 1)"
    using assms(1) mod_Suc [of "g - 114" 123] by (simp add: j_def next_turn)
  show ?thesis
    using assms(1) j unfolding rest_extents_def Let_def j' j_def [symmetric] upt_turn [OF j(2)] by auto
qed

lemma rest_extents_payload:
  assumes "\<not> (kInodeMaxBlocks \<le> g \<and> (g - kInodeMaxBlocks) mod kIndirectMaxBlocks = 0)"
    and "descriptor_block i ind g = Some b"
  shows "rest_extents im rd i (Suc k) g ind nx = info_extent b # rest_extents im rd i k (g + 1) ind nx"
proof (cases "g < 114")
  case True
  with assms(2) show ?thesis by (simp add: rest_extents_segd descriptor_block_def kInodeMaxBlocks_def)
next
  case False
  with assms(2) obtain d where "ind = Some d" "b = sd_data d ! ((g - 114) mod 123)"
    by (auto simp: descriptor_block_def kInodeMaxBlocks_def kIndirectMaxBlocks_def)
  then show ?thesis
    using False assms(1) by (simp add: rest_extents_segi kInodeMaxBlocks_def kIndirectMaxBlocks_def)
qed

definition serves_extents :: "image \<Rightarrow> pfs_reader \<Rightarrow> zone_extent list \<Rightarrow> nat \<Rightarrow> data_run list \<Rightarrow> bool" where
  "serves_extents im rd es l rs \<longleftrightarrow>
     (\<forall>r \<in> set rs. l \<le> unat (run_start r) \<and>
       (\<forall>p x. run_byte im rd r p = Some x \<longrightarrow> file_byte im rd es (p - l) = Some x))"

lemma file_byte_extent:
  "file_byte im rd (info_extent b # es) p =
     (if p < unat (bi_count b) * zone_bytes rd then map_option hd (block_bytes im rd b p 1)
      else file_byte im rd es (p - unat (bi_count b) * zone_bytes rd))"
  by (auto simp: info_extent_def block_bytes_def zone_data_def subpart_missing_nat not_less)

lemma run_byte_start: "run_byte im rd r p = Some x \<Longrightarrow> unat (run_start r) \<le> p"
  by (simp add: run_byte_def split: if_splits)

lemma serves_extents_Cons:
  assumes "serves_extents im rd es (l + unat (bi_count b) * zone_bytes rd) rs"
  shows "serves_extents im rd (info_extent b # es) l rs"
  using assms by (fastforce simp: serves_extents_def file_byte_extent dest: run_byte_start)

lemma serves_extents_run:
  assumes "serves_extents im rd es (unat l + unat (bi_count b) * zone_bytes rd) rs"
    and "unat z = unat (bi_count b) * zone_bytes rd"
  shows "serves_extents im rd (info_extent b # es) (unat l) (\<lparr>run_block = b, run_start = l, run_bytes = z\<rparr> # rs)"
  using serves_extents_Cons [OF assms(1)] assms(2)
  by (auto simp: serves_extents_def file_byte_extent run_byte_def split: if_splits)

lemma collect_extents:
  assumes "reader_ok rd" "reader_valid rd"
    and "run_state (collect_runs add_block image_device rd i off e k g l ind nx sg ps) im = (Inr (ps', sg'), t)"
  shows "\<exists>new. ps' = ps @ new \<and> serves_extents im rd (rest_extents im rd i k g ind nx) (unat l) new"
  using assms(3)
proof (induction k arbitrary: g l ind nx sg ps)
  case (Suc k)
  have none: "ps' = ps \<Longrightarrow> ?case" by (intro exI [of _ "[]"]) (simp add: serves_extents_def)
  consider "\<not> l < e" | "l < e" "kInodeMaxBlocks \<le> g \<and> (g - kInodeMaxBlocks) mod kIndirectMaxBlocks = 0"
    | "l < e" "\<not> (kInodeMaxBlocks \<le> g \<and> (g - kInodeMaxBlocks) mod kIndirectMaxBlocks = 0)" by blast
  then show ?case
  proof cases
    case 1
    with Suc.prems none show ?thesis by simp
  next
    case 2
    with Suc.prems obtain d im' where
      d: "run_state (read_segment_descriptor image_device rd nx) im = (Inr d, im')"
        "run_state (collect_runs add_block image_device rd i off e k (g + 1) l (Some d) (sd_next_segment d)
          (sg + 1) ps) im' = (Inr (ps', sg'), t)"
      by (auto simp: run_bindE split: prod.splits sum.splits)
    obtain raw where raw: "segi_raw im rd (info_extent nx) = Some raw" "length raw = 1024" "d = decode_segment raw" "im' = im"
      by (rule read_segment_raw [OF assms(1,2) d(1)])
    have "114 \<le> g" "(g - 114) mod 123 = 0" using 2(2) by (simp_all add: kInodeMaxBlocks_def kIndirectMaxBlocks_def)
    from rest_extents_load [OF this raw(1,2), of i k ind] Suc.IH [OF d(2) [unfolded raw(4)]] raw(3)
    show ?thesis by simp
  next
    case 3
    then obtain b where b: "descriptor_block i ind g = Some b" "bi_count b \<noteq> 0"
      using Suc.prems by (auto split: option.splits if_splits)
    define z where "z = (ucast (bi_count b) * ucast (sb_zone_size (rd_super rd)) :: u64)"
    define runs where "runs = (if off < l + z then add_block b l z ps else ps)"
    have fits: "\<not> - 1 - z < l" and
      rest: "run_state (collect_runs add_block image_device rd i off e k (g + 1) (l + z) ind nx sg runs) im = (Inr (ps', sg'), t)"
      using Suc.prems 3 b by (auto simp: Let_def z_def runs_def split: if_splits)
    have z: "unat z = unat (bi_count b) * zone_bytes rd"
      unfolding z_def by (rule unat_segment_bytes [OF reader_okD [OF assms(1,2)]])
    note sum = unat_no_overflow(1) [OF fits, unfolded z]
    from Suc.IH [OF rest] obtain new where
      new: "ps' = runs @ new" "serves_extents im rd (rest_extents im rd i k (g + 1) ind nx)
        (unat l + unat (bi_count b) * zone_bytes rd) new" by (auto simp: sum)
    note head = rest_extents_payload [OF 3(2) b(1), of im rd k nx]
    show ?thesis
      using new(1) serves_extents_Cons [OF new(2)] serves_extents_run [OF new(2) z]
      by (cases "off < l + z") (auto simp: runs_def add_block_def head)
  qed
qed (auto simp: serves_extents_def)

lemma rest_extents_file: "rest_extents im rd i (unat (i_number_data i) - 1) 1 None (i_next_segment i) = file_extents im rd i"
  by (cases "unat (i_number_data i)") (auto simp: rest_extents_def file_extents_def)

lemma read_content_ok:
  assumes "reader_ok rd" "evalS (pfs_read image_device rd node off n) im = Inr bs"
  shows "length bs = n" "unat off + n \<le> unat (i_size (nd_inode node))"
    "k < n \<Longrightarrow> file_byte im rd (file_extents im rd (nd_inode node)) (unat off + k) = Some (bs ! k)"
proof -
  let ?i = "nd_inode node"
  let ?walk = "collect_runs add_block image_device rd ?i off (off + of_nat n) (unat (i_number_data ?i) - 1) 1 0
    None (i_next_segment ?i) 0 []"
  from read_with_image [OF assms(1), of add_run merge_all node off n im] obtain r where
    r: "run_state (pfs_read image_device rd node off n) im = (r, im)"
      "\<And>bs. r = Inr bs \<longleftrightarrow> read_accepts im rd node off n bs" unfolding pfs_read_def by blast
  from r(1) assms(2) have "r = Inr bs" by (simp add: evalS_def)
  then have acc: "read_accepts im rd node off n bs" by (rule r(2) [THEN iffD1])
  then have valid: "reader_valid rd" and "unat off + n \<le> unat (i_size ?i)" by (simp_all add: read_accepts_def)
  then show "unat off + n \<le> unat (i_size ?i)" by simp
  show len: "length bs = n" using acc by (auto simp: read_accepts_def split: if_splits)
  show "file_byte im rd (file_extents im rd ?i) (unat off + k) = Some (bs ! k)" if "k < n"
  proof -
    from acc that obtain ps sg where ps: "evalS ?walk im = Inr (ps, sg)"
      "serve_spec im rd ps (unat off) n = Some bs" by (auto simp: read_accepts_def)
    obtain t where run: "run_state ?walk im = (Inr (ps, sg), t)"
      using ps(1) by (cases "run_state ?walk im") (simp add: evalS_def)
    have zone: "valid_zone_size (sb_zone_size (rd_super rd))" using assms(1) valid by (simp add: reader_okD)
    have "walk_ok rd (unat off) (unat (0::u64)) []" by (simp add: walk_ok_def)
    from collect_walk_ok [OF zone this run] obtain e where w: "walk_ok rd (unat off) e ps" by blast
    have "ps \<noteq> []" using ps(2) len that by auto
    with w obtain a where "a \<le> unat off" "chained a ps e" unfolding walk_ok_def by auto
    from serve_content [OF ps(2) this(2,1), of k] len that
    obtain r where "r \<in> set ps" "run_byte im rd r (unat off + k) = Some (bs ! k)" by blast
    with collect_extents [OF assms(1) valid run] show ?thesis
      unfolding serves_extents_def rest_extents_file by auto
  qed
qed

text \<open>C11: A successful read returns exactly the requested number of bytes, inside the file, and each of
  them is the byte at its position in the zones that the format assigns to the file: the descriptors 1 to
  113 of the inode, then descriptors 1 to 122 of each block of its SEGI chain, up to the number of
  descriptors of the inode, laid end to end.  (\<open>file_extents\<close> and \<open>file_byte\<close> state this over the raw
  blocks of the disk and natural numbers, without the walk and the runs of the code.)\<close>

theorem read_content:
  assumes "evalS (pfs_read image_device (evalS (open_reader D v) s) node off n) im = Inr bs"
  shows "length bs = n \<and> unat off + n \<le> unat (i_size (nd_inode node)) \<and>
    (\<forall>k < n. file_byte im (evalS (open_reader D v) s)
        (file_extents im (evalS (open_reader D v) s) (nd_inode node)) (unat off + k) = Some (bs ! k))"
  using read_content_ok [OF open_reader_ok assms] by blast

section \<open>Transparency\<close>

context reliable_device
begin

lemma transparent_zone_loop [transparent_intros]:
  "transparent ok img (zone_loop D rd sub base pos n) (zone_loop image_device rd sub base pos n)"
proof (induction n arbitrary: pos rule: less_induct)
  case (less n)
  have tail: "transparent ok img (zone_loop D rd sub base (pos + of_nat m) (n - m))
      (zone_loop image_device rd sub base (pos + of_nat m) (n - m))" if "0 < m" "n \<noteq> 0" for m
    using that by (intro less.IH) auto
  have whole: "0 < min (n div kSectorSize) 128 * kSectorSize" if "kSectorSize \<le> n"
    using that by (auto simp: kSectorSize_def div_greater_zero_iff)
  have edge: "0 < min n (kSectorSize - unat (pos mod of_nat kSectorSize))" if "n \<noteq> 0"
    using that byte_in_sector [of pos] by auto
  show ?case
    unfolding zone_loop.simps [of _ _ _ _ _ n] Let_def
    by (intro transparent_intros tail whole edge) simp_all
qed

lemma transparent_read_zone_bytes [transparent_intros]:
  "transparent ok img (read_zone_bytes D rd b off n) (read_zone_bytes image_device rd b off n)"
  unfolding read_zone_bytes_def by (intro transparent_intros)

lemma transparent_collect_runs [transparent_intros]:
  "transparent ok img (collect_runs add D rd i off e k g l ind nx sg ps)
     (collect_runs add image_device rd i off e k g l ind nx sg ps)"
proof (induction k arbitrary: g l ind nx sg ps)
  case 0
  show ?case unfolding collect_runs.simps by (rule transparent_ret)
next
  case (Suc k)
  show ?case unfolding collect_runs.simps Let_def by (intro transparent_intros Suc.IH)
qed

lemma transparent_serve_runs [transparent_intros]:
  "transparent ok img (serve_runs D rd runs pos n) (serve_runs image_device rd runs pos n)"
proof (induction runs arbitrary: pos n)
  case Nil
  show ?case unfolding serve_runs.simps by (rule transparent_ret)
next
  case (Cons r runs)
  show ?case unfolding serve_runs.simps Let_def by (intro transparent_intros Cons.IH)
qed

lemma transparent_pfs_read [transparent_intros]:
  "transparent ok img (pfs_read D rd node off n) (pfs_read image_device rd node off n)"
  unfolding pfs_read_def read_with_def Let_def by (intro transparent_intros)

end

end
