(* ===== verification/PfsDirectory.thy ===== *)
theory PfsDirectory
  imports PfsReadSpec
begin

text \<open>
  \<open>pfs::Reader\<close> (\<open>src/core/pfs.cpp\<close>), directories: \<open>list_directory\<close>, whose entries may not cross
  a 512-byte sector, and \<open>resolve\<close>, the walk along the components of a path.
\<close>

section \<open>Entries\<close>

record directory_entry =
  de_name :: string
  de_inode :: block_info
  de_mode :: u16

definition mode_is_directory :: "u16 \<Rightarrow> bool" where
  "mode_is_directory m \<longleftrightarrow> m AND kModeMask = kModeDirectory"

definition mode_is_regular :: "u16 \<Rightarrow> bool" where
  "mode_is_regular m \<longleftrightarrow> m AND kModeMask = kModeRegular"

definition is_directory :: "directory_entry \<Rightarrow> bool" where
  "is_directory e \<longleftrightarrow> mode_is_directory (de_mode e)"

definition is_regular :: "directory_entry \<Rightarrow> bool" where
  "is_regular e \<longleftrightarrow> mode_is_regular (de_mode e)"

function parse_entries :: "byte list \<Rightarrow> bool \<Rightarrow> nat \<Rightarrow> pfs_error + directory_entry list" where
  "parse_entries bytes include_dots position =
     (if length bytes \<le> position then Inr []
      else
        let sector_start = position div kSectorSize * kSectorSize;
            sector_end = min (sector_start + kSectorSize) (length bytes)
        in if sector_end < position + 8 then parse_entries bytes include_dots sector_end
        else
          let inode_number = load_u32_le bytes position;
              subpart = bytes ! (position + 4);
              path_len = unat (bytes ! (position + 5));
              raw_len = load_u16_le bytes (position + 6);
              allocated = unat (raw_len AND 0x0FFF);
              mode = raw_len AND kModeMask
          in if allocated < 8 \<or> allocated mod 4 \<noteq> 0 \<or> sector_end < position + allocated
             then Inl Dir_allocation
          else if allocated - 8 < path_len then Inl Dir_name_length
          else
            let name = map char_of_byte (sub_bytes (position + 8) path_len bytes);
                kept = inode_number \<noteq> 0 \<and> path_len \<noteq> 0 \<and>
                  (include_dots \<or> name \<noteq> ''.'' \<and> name \<noteq> ''..'');
                entry = \<lparr>de_name = name,
                  de_inode = \<lparr>bi_number = inode_number, bi_subpart = ucast subpart, bi_count = 1\<rparr>,
                  de_mode = mode\<rparr>
            in case parse_entries bytes include_dots (position + allocated) of
                 Inl e \<Rightarrow> Inl e
               | Inr es \<Rightarrow> Inr (if kept then entry # es else es))"
  by pat_completeness auto

lemma sector_end_after:
  "position < len \<Longrightarrow> position < min (position div kSectorSize * kSectorSize + kSectorSize) len"
  by (simp add: kSectorSize_def)

termination parse_entries
  by (relation "measure (\<lambda>(bytes, dots, position). length bytes - position)")
    (auto simp: kSectorSize_def dest: sector_end_after)

declare parse_entries.simps [simp del]

definition list_directory ::
  "'s device \<Rightarrow> pfs_reader \<Rightarrow> pfs_node \<Rightarrow> bool \<Rightarrow> ('s, pfs_error + directory_entry list) state" where
  "list_directory D rd directory include_dots =
     (let i = nd_inode directory in
      if \<not> mode_is_directory (i_mode i) then failE Dir_not_directory
      else if 64 * 1024 * 1024 < i_size i then failE Dir_too_large
      else bindE (pfs_read D rd directory 0 (unat (i_size i))) (\<lambda>bytes.
        ret (parse_entries bytes include_dots 0)))"

section \<open>Paths\<close>

definition is_separator :: "char \<Rightarrow> bool" where
  "is_separator c \<longleftrightarrow> c = CHR ''/'' \<or> c = CHR 0x5C"

function resolve_from :: "'s device \<Rightarrow> pfs_reader \<Rightarrow> pfs_node \<Rightarrow> string \<Rightarrow> ('s, pfs_error + pfs_node) state" where
  "resolve_from D rd current path =
     (let rest = dropWhile is_separator path in
      if rest = [] then okE current
      else
        let component = takeWhile (\<lambda>c. \<not> is_separator c) rest;
            rest' = dropWhile (\<lambda>c. \<not> is_separator c) rest
        in if component = ''.'' then resolve_from D rd current rest'
        else bindE (list_directory D rd current True) (\<lambda>entries.
          case find (\<lambda>e. de_name e = component) entries of
            None \<Rightarrow> failE (Path_not_found component)
          | Some e \<Rightarrow> bindE (read_inode D rd (de_inode e)) (\<lambda>node. resolve_from D rd node rest')))"
  by pat_completeness auto

lemma rest_shorter:
  assumes "dropWhile p path \<noteq> []"
  shows "length (dropWhile (\<lambda>c. \<not> p c) (dropWhile p path)) < length path"
proof -
  obtain c cs where cs: "dropWhile p path = c # cs" using assms by (cases "dropWhile p path") auto
  then have "\<not> p c" by (metis hd_dropWhile list.sel(1) list.distinct(1))
  with cs length_dropWhile_le [of "\<lambda>c. \<not> p c" cs] length_dropWhile_le [of p path] show ?thesis by simp
qed

termination resolve_from
  by (relation "measure (\<lambda>(D, rd, current, path). length path)") (auto intro: rest_shorter)

declare resolve_from.simps [simp del]

definition resolve :: "'s device \<Rightarrow> pfs_reader \<Rightarrow> string \<Rightarrow> ('s, pfs_error + pfs_node) state" where
  "resolve D rd path = bindE (read_root D rd) (\<lambda>current. resolve_from D rd current path)"

section \<open>Directory contents parse back\<close>

text \<open>\<open>dir_record\<close> is one record of a directory file as PFS lays it out: an entry, padded to its
  allocation.\<close>

record dir_record =
  dr_inode :: u32
  dr_subpart :: u8
  dr_mode :: u16
  dr_name :: string
  dr_alloc :: nat

definition encode_record :: "dir_record \<Rightarrow> byte list" where
  "encode_record r =
     store_u32_le (dr_inode r) @ [dr_subpart r, of_nat (length (dr_name r))] @
     store_u16_le (dr_mode r OR of_nat (dr_alloc r)) @ map byte_of_char (dr_name r) @
     replicate (dr_alloc r - 8 - length (dr_name r)) 0"

definition record_ok :: "dir_record \<Rightarrow> bool" where
  "record_ok r \<longleftrightarrow>
     length (dr_name r) \<le> 255 \<and> 8 + length (dr_name r) \<le> dr_alloc r \<and> dr_alloc r \<le> 512 \<and>
     dr_alloc r mod 4 = 0 \<and> dr_mode r AND 0x0FFF = 0"

definition record_entry :: "dir_record \<Rightarrow> directory_entry" where
  "record_entry r =
     \<lparr>de_name = dr_name r,
      de_inode = \<lparr>bi_number = dr_inode r, bi_subpart = ucast (dr_subpart r), bi_count = 1\<rparr>,
      de_mode = dr_mode r\<rparr>"

definition record_listed :: "bool \<Rightarrow> dir_record \<Rightarrow> bool" where
  "record_listed include_dots r \<longleftrightarrow>
     dr_inode r \<noteq> 0 \<and> dr_name r \<noteq> [] \<and> (include_dots \<or> dr_name r \<noteq> ''.'' \<and> dr_name r \<noteq> ''..'')"

text \<open>No record crosses a sector boundary.\<close>

fun records_fit :: "nat \<Rightarrow> dir_record list \<Rightarrow> bool" where
  "records_fit position [] \<longleftrightarrow> True"
| "records_fit position (r # rs) \<longleftrightarrow>
     position mod kSectorSize + dr_alloc r \<le> kSectorSize \<and> records_fit (position + dr_alloc r) rs"

lemma length_encode_record: "record_ok r \<Longrightarrow> length (encode_record r) = dr_alloc r"
  by (auto simp: encode_record_def record_ok_def)

lemma raw_len_fields:
  assumes "(m::u16) AND 0x0FFF = 0" "a \<le> 512"
  shows "unat ((m OR of_nat a) AND 0x0FFF) = a" "(m OR of_nat a) AND kModeMask = m"
proof -
  have mask: "(0x0FFF :: u16) = mask 12" by (simp add: mask_eq_exp_minus_1)
  have a: "unat (of_nat a :: u16) = a" using assms(2) by (simp add: unat_of_nat)
  have "take_bit 12 (of_nat a :: u16) = of_nat a"
    using assms(2) a by (simp only: word_unat_eq_iff unsigned_take_bit_eq a) (simp add: take_bit_nat_eq_self)
  then have low: "of_nat a AND 0x0FFF = (of_nat a :: u16)" by (simp add: mask flip: take_bit_eq_mask)
  then show "unat ((m OR of_nat a) AND 0x0FFF) = a"
    using assms(1) a by (simp add: bit.conj_disj_distrib2)
  have cover: "kModeMask = NOT 0x0FFF" by (simp add: kModeMask_def)
  have "m AND kModeMask = m"
  proof -
    have "m = m AND (0x0FFF OR NOT 0x0FFF)" by simp
    also have "\<dots> = m AND NOT 0x0FFF" unfolding bit.conj_disj_distrib assms(1) by simp
    finally show ?thesis unfolding cover by simp
  qed
  moreover have "of_nat a AND kModeMask = (0::u16)"
    unfolding cover by (subst low [symmetric]) (simp add: and.assoc)
  ultimately show "(m OR of_nat a) AND kModeMask = m"
    by (simp add: bit.conj_disj_distrib2)
qed

lemma parse_encoded:
  assumes "list_all record_ok rs" "records_fit (length pre) rs"
  shows "parse_entries (pre @ concat (map encode_record rs)) dots (length pre) =
    Inr (map record_entry (filter (record_listed dots) rs))"
  using assms
proof (induction rs arbitrary: pre)
  case Nil
  then show ?case by (simp add: parse_entries.simps)
next
  case (Cons r rs)
  let ?p = "length pre" and ?tail = "concat (map encode_record rs)"
  let ?bytes = "pre @ encode_record r @ ?tail"
  have r: "record_ok r" using Cons.prems by simp
  then have alloc: "8 \<le> dr_alloc r" "dr_alloc r \<le> 512" "length (dr_name r) \<le> dr_alloc r - 8"
    "length (dr_name r) \<le> 255" by (auto simp: record_ok_def)
  have mode: "dr_mode r AND 0x0FFF = 0" using r by (simp add: record_ok_def)
  note raw = raw_len_fields [OF mode alloc(2)]
  have len: "length ?bytes = ?p + dr_alloc r + length ?tail" by (simp add: length_encode_record [OF r])
  have fit: "?p + dr_alloc r \<le> min (?p div kSectorSize * kSectorSize + kSectorSize) (length ?bytes)"
    using Cons.prems(2) len by (simp add: kSectorSize_def) (metis add.commute add_le_mono1 mod_div_mult_eq add.assoc)
  have fields: "load_u32_le ?bytes ?p = dr_inode r" "?bytes ! (?p + 4) = dr_subpart r"
      "?bytes ! (?p + 5) = of_nat (length (dr_name r))"
      "load_u16_le ?bytes (?p + 6) = dr_mode r OR of_nat (dr_alloc r)"
      "map char_of_byte (sub_bytes (?p + 8) (length (dr_name r)) ?bytes) = dr_name r"
    by (simp_all add: encode_record_def byte_simps nth_append comp_def)
  have name_len: "unat (of_nat (length (dr_name r)) :: u8) = length (dr_name r)"
    using alloc by (simp add: unat_of_nat)
  have rest: "parse_entries ?bytes dots (?p + dr_alloc r) =
      Inr (map record_entry (filter (record_listed dots) rs))"
    using Cons.IH [of "pre @ encode_record r"] Cons.prems by (simp add: length_encode_record [OF r])
  let ?stop = "min (?p div kSectorSize * kSectorSize + kSectorSize) (length ?bytes)"
  have guards: "\<not> length ?bytes \<le> ?p" "\<not> ?stop < ?p + 8"
      "\<not> (dr_alloc r < 8 \<or> dr_alloc r mod 4 \<noteq> 0 \<or> ?stop < ?p + dr_alloc r)"
      "\<not> dr_alloc r - 8 < length (dr_name r)"
    using alloc fit len r by (linarith, linarith, auto simp: record_ok_def)
  have "parse_entries ?bytes dots ?p =
      (case parse_entries ?bytes dots (?p + dr_alloc r) of Inl e \<Rightarrow> Inl e
       | Inr es \<Rightarrow> Inr (if record_listed dots r then record_entry r # es else es))"
    by (subst parse_entries.simps)
      (simp only: Let_def fields raw name_len guards if_False record_listed_def record_entry_def
        length_0_conv)
  with rest show ?case by simp
qed

text \<open>C29: A directory file laid out by the PFS rules (records of 8 + name bytes padded to a multiple of 4,
  none crossing a sector, type in the top four bits of the length word) parses, without an error, to
  exactly the records that are in use, in order, the dot entries only on demand.\<close>

theorem directory_roundtrip:
  assumes "list_all record_ok rs" "records_fit 0 rs"
  shows "parse_entries (concat (map encode_record rs)) dots 0 =
    Inr (map record_entry (filter (record_listed dots) rs))"
  using parse_encoded [of rs "[]"] assms by simp

section \<open>Paths resolve by components\<close>

function path_components :: "string \<Rightarrow> string list" where
  "path_components path =
     (let rest = dropWhile is_separator path in
      if rest = [] then []
      else takeWhile (\<lambda>c. \<not> is_separator c) rest #
        path_components (dropWhile (\<lambda>c. \<not> is_separator c) rest))"
  by pat_completeness auto

termination path_components
  by (relation "measure length") (auto intro: rest_shorter)

declare path_components.simps [simp del]

definition resolve_step :: "'s device \<Rightarrow> pfs_reader \<Rightarrow> string \<Rightarrow> pfs_node \<Rightarrow> ('s, pfs_error + pfs_node) state" where
  "resolve_step D rd component current =
     (if component = ''.'' then okE current
      else bindE (list_directory D rd current True) (\<lambda>entries.
        case find (\<lambda>e. de_name e = component) entries of
          None \<Rightarrow> failE (Path_not_found component)
        | Some e \<Rightarrow> read_inode D rd (de_inode e)))"

primrec resolve_components ::
  "'s device \<Rightarrow> pfs_reader \<Rightarrow> pfs_node \<Rightarrow> string list \<Rightarrow> ('s, pfs_error + pfs_node) state" where
  "resolve_components D rd current [] = okE current"
| "resolve_components D rd current (c # cs) =
     bindE (resolve_step D rd c current) (\<lambda>node. resolve_components D rd node cs)"

lemma state_eqI: "(\<And>s. run_state m s = run_state m' s) \<Longrightarrow> m = m'"
  by (cases m; cases m') auto

lemma bindE_assoc: "bindE (bindE m f) g = bindE m (\<lambda>x. bindE (f x) g)"
  by (rule state_eqI) (auto simp: run_bindE split: prod.splits sum.splits)

lemma bindE_case_option:
  "bindE (case x of None \<Rightarrow> m | Some a \<Rightarrow> f a) g = (case x of None \<Rightarrow> bindE m g | Some a \<Rightarrow> bindE (f a) g)"
  by (cases x) auto

lemma resolve_from_components:
  "resolve_from D rd current path = resolve_components D rd current (path_components path)"
proof (induction path arbitrary: current rule: path_components.induct)
  case (1 path)
  show ?case
    using 1 by (subst resolve_from.simps, subst path_components.simps)
      (simp add: Let_def resolve_step_def bindE_assoc bindE_case_option cong: option.case_cong)
qed

lemma resolve_components_append:
  "resolve_components D rd current (xs @ ys) =
     bindE (resolve_components D rd current xs) (\<lambda>node. resolve_components D rd node ys)"
  by (induction xs arbitrary: current) (simp_all add: bindE_assoc)

lemma dropWhile_append_stop: "p c \<Longrightarrow> dropWhile (\<lambda>c. \<not> p c) (xs @ c # ys) = dropWhile (\<lambda>c. \<not> p c) xs @ c # ys"
  by (induction xs) auto

lemma takeWhile_append_stop: "p c \<Longrightarrow> takeWhile (\<lambda>c. \<not> p c) (xs @ c # ys) = takeWhile (\<lambda>c. \<not> p c) xs"
  by (induction xs) auto

lemma path_components_append:
  "is_separator c \<Longrightarrow> path_components (p @ c # q) = path_components p @ path_components q"
proof (induction p rule: path_components.induct)
  case (1 p)
  show ?case
  proof (cases "dropWhile is_separator p = []")
    case True
    then have "\<forall>x \<in> set p. is_separator x" by (simp add: dropWhile_eq_Nil_conv)
    then have "dropWhile is_separator (p @ c # q) = dropWhile is_separator q"
      using 1(2) by (simp add: dropWhile_append2)
    with True show ?thesis
      by (simp add: path_components.simps [of "p @ c # q"] path_components.simps [of p]
          path_components.simps [of q])
  next
    case False
    then have "dropWhile is_separator (p @ c # q) = dropWhile is_separator p @ c # q"
      by (metis dropWhile_append1 dropWhile_eq_Nil_conv)
    with 1 False show ?thesis
      by (simp add: path_components.simps [of "p @ c # q"] path_components.simps [of p] Let_def
          dropWhile_append_stop takeWhile_append_stop)
  qed
qed

text \<open>Resolving a path with a separator in it is resolving the part before it and continuing from the
  node found there: \<open>/a/b\<close>, \<open>a//b\<close> and \<open>a\b\<close> all mean the same.  No state is carried from one
  resolution to the next.\<close>

theorem resolve_append:
  "resolve D rd (p @ ''/'' @ q) = bindE (resolve D rd p) (\<lambda>node. resolve_from D rd node q) \<and>
   resolve D rd (p @ [CHR 0x5C] @ q) = resolve D rd (p @ ''/'' @ q) \<and>
   resolve D rd (''/'' @ p) = resolve D rd p"
proof -
  have sep: "is_separator CHR ''/''" "is_separator CHR 0x5C" by (simp_all add: is_separator_def)
  have "path_components (''/'' @ p) = path_components [] @ path_components p"
    using path_components_append [OF sep(1), of "[]" p] by simp
  moreover have "path_components [] = []" by (simp add: path_components.simps)
  ultimately show ?thesis
    using sep by (simp add: resolve_def resolve_from_components path_components_append
        resolve_components_append bindE_assoc)
qed

section \<open>Transparency\<close>

context reliable_device
begin

lemma transparent_list_directory [transparent_intros]:
  "transparent ok img (list_directory D rd node dots) (list_directory image_device rd node dots)"
  unfolding list_directory_def Let_def by (intro transparent_intros)

lemma transparent_resolve_components [transparent_intros]:
  "transparent ok img (resolve_components D rd current cs) (resolve_components image_device rd current cs)"
proof (induction cs arbitrary: current)
  case Nil
  show ?case unfolding resolve_components.simps by (rule transparent_ret)
next
  case (Cons c cs)
  show ?case unfolding resolve_components.simps resolve_step_def by (intro transparent_intros Cons.IH)
qed

lemma transparent_resolve [transparent_intros]:
  "transparent ok img (resolve D rd path) (resolve image_device rd path)"
  unfolding resolve_def resolve_from_components by (intro transparent_intros)

end

end
