(* ===== verification/HostNames.thy ===== *)
theory HostNames
  imports Prelude
begin

text \<open>
  Host-safe names: \<open>sanitize_host_filename\<close> of \<open>src/host/pfs_export.cpp\<close> and the collision-free
  aliases that \<open>export_node\<close> and \<open>src/host/mount_view.cpp\<close> give to the names of one directory.
\<close>

section \<open>Windows names\<close>

definition char_code :: "char \<Rightarrow> nat" where
  "char_code c = of_char c"

definition upper_char :: "char \<Rightarrow> char" where
  "upper_char c = (if 97 \<le> char_code c \<and> char_code c \<le> 122 then char_of (char_code c - 32) else c)"

definition uppercase_ascii :: "string \<Rightarrow> string" where
  "uppercase_ascii = map upper_char"

definition name_stem :: "string \<Rightarrow> string" where
  "name_stem s = uppercase_ascii (takeWhile (\<lambda>c. c \<noteq> CHR ''.'') s)"

definition reserved_windows_name :: "string \<Rightarrow> bool" where
  "reserved_windows_name s \<longleftrightarrow>
     (let stem = name_stem s in
      stem \<in> {''CON'', ''PRN'', ''AUX'', ''NUL''} \<or>
      length stem = 4 \<and> take 3 stem \<in> {''COM'', ''LPT''} \<and>
        49 \<le> char_code (stem ! 3) \<and> char_code (stem ! 3) \<le> 57)"

definition forbidden_char :: "char \<Rightarrow> bool" where
  "forbidden_char c \<longleftrightarrow>
     char_code c < 0x20 \<or>
     c \<in> {CHR ''<'', CHR ''>'', CHR '':'', CHR 0x22, CHR ''/'', CHR 0x5C, CHR ''|'', CHR ''?'', CHR ''*''}"

definition bad_tail :: "char \<Rightarrow> bool" where
  "bad_tail c \<longleftrightarrow> c = CHR '' '' \<or> c = CHR ''.''"

text \<open>The loop that replaces a trailing space or dot ends after one turn: what it writes is neither.\<close>

definition fix_tail :: "string \<Rightarrow> string" where
  "fix_tail s = (if s \<noteq> [] \<and> bad_tail (last s) then butlast s @ ''_'' else s)"

definition sanitize_host_filename :: "string \<Rightarrow> string" where
  "sanitize_host_filename name =
     (let result = map (\<lambda>c. if forbidden_char c then CHR ''_'' else c) name;
          result = (if result = '''' \<or> result = ''.'' \<or> result = ''..'' then ''_'' else result);
          result = fix_tail result
      in if reserved_windows_name result then CHR ''_'' # result else result)"

definition host_safe :: "string \<Rightarrow> bool" where
  "host_safe s \<longleftrightarrow>
     s \<noteq> '''' \<and> \<not> (\<exists>c \<in> set s. forbidden_char c) \<and> \<not> bad_tail (last s) \<and> \<not> reserved_windows_name s"

lemma underscore [simp]:
  "\<not> forbidden_char CHR ''_''" "\<not> bad_tail CHR ''_''" "upper_char CHR ''_'' = CHR ''_''"
  by (simp_all add: forbidden_char_def bad_tail_def upper_char_def char_code_def)

lemma stem_underscore: "name_stem (CHR ''_'' # s) = CHR ''_'' # name_stem s"
  by (simp add: name_stem_def uppercase_ascii_def)

lemma reserved_no_underscore:
  assumes "CHR ''_'' \<in> set (name_stem s)"
  shows "\<not> reserved_windows_name s"
proof
  assume r: "reserved_windows_name s"
  show False
  proof (cases "length (name_stem s) = 4 \<and> take 3 (name_stem s) \<in> {''COM'', ''LPT''} \<and>
      49 \<le> char_code (name_stem s ! 3) \<and> char_code (name_stem s ! 3) \<le> 57")
    case True
    then have "name_stem s = take 3 (name_stem s) @ [name_stem s ! 3]"
      using take_Suc_conv_app_nth [of 3 "name_stem s"] by simp
    then have "CHR ''_'' \<in> set (take 3 (name_stem s)) \<or> name_stem s ! 3 = CHR ''_''"
      using assms by (metis Un_iff empty_iff insert_iff list.simps(15) set_append set_empty)
    with True show False by (auto simp: char_code_def)
  next
    case False
    with r have "name_stem s \<in> {''CON'', ''PRN'', ''AUX'', ''NUL''}"
      by (simp only: reserved_windows_name_def Let_def simp_thms)
    with assms show False by auto
  qed
qed

lemma reserved_nonempty: "reserved_windows_name s \<Longrightarrow> s \<noteq> []"
  by (auto simp: reserved_windows_name_def Let_def name_stem_def uppercase_ascii_def)

lemma sanitize_safe: "host_safe (sanitize_host_filename name)"
proof -
  define a where "a = map (\<lambda>c. if forbidden_char c then CHR ''_'' else c) name"
  define b where "b = (if a = '''' \<or> a = ''.'' \<or> a = ''..'' then ''_'' else a)"
  define d where "d = fix_tail b"
  have "\<forall>c \<in> set b. \<not> forbidden_char c" by (auto simp: a_def b_def)
  then have d: "\<forall>c \<in> set d. \<not> forbidden_char c" "d \<noteq> []" "\<not> bad_tail (last d)"
    by (auto simp: d_def fix_tail_def b_def dest: in_set_butlastD)
  have s: "sanitize_host_filename name = (if reserved_windows_name d then CHR ''_'' # d else d)"
    by (simp add: sanitize_host_filename_def Let_def a_def b_def d_def)
  have "\<not> reserved_windows_name (CHR ''_'' # d)"
    by (rule reserved_no_underscore) (simp add: stem_underscore)
  with d show ?thesis by (simp add: s host_safe_def)
qed

lemma sanitize_fixed:
  assumes "host_safe s"
  shows "sanitize_host_filename s = s"
proof -
  have "map (\<lambda>c. if forbidden_char c then CHR ''_'' else c) s = s"
    using assms by (intro map_idI) (auto simp: host_safe_def)
  moreover have "s \<noteq> ''''" "s \<noteq> ''.''" "s \<noteq> ''..''" "fix_tail s = s"
    using assms by (auto simp: host_safe_def fix_tail_def bad_tail_def)
  ultimately show ?thesis using assms by (simp add: sanitize_host_filename_def host_safe_def)
qed

text \<open>A sanitized name can be used on the host: it is not empty, not a dot name, contains no separator,
  control or wildcard character, does not end in a space or a dot and is no reserved device name.
  Sanitizing changes exactly the names that are not safe already, so it is idempotent.\<close>

theorem sanitize_correct:
  "host_safe (sanitize_host_filename name) \<and> (sanitize_host_filename name = name \<longleftrightarrow> host_safe name) \<and>
   sanitize_host_filename (sanitize_host_filename name) = sanitize_host_filename name"
  using sanitize_safe [of name] sanitize_fixed [of name] sanitize_fixed [OF sanitize_safe [of name]] by metis

section \<open>Decimal suffixes\<close>

fun decimal :: "nat \<Rightarrow> string" where
  "decimal n = (if n < 10 then [char_of (48 + n)] else decimal (n div 10) @ [char_of (48 + n mod 10)])"

declare decimal.simps [simp del]

fun decimal_value :: "string \<Rightarrow> nat" where
  "decimal_value s = foldl (\<lambda>n c. 10 * n + (char_code c - 48)) 0 s"

lemma code_small: "char_code c < 256"
  unfolding char_code_def by (cases c) simp

lemma char_code_digit: "d < 10 \<Longrightarrow> char_code (char_of (48 + d)) = 48 + d"
  by (simp add: char_code_def)

lemma decimal_inverse [simp]: "decimal_value (decimal n) = n"
proof (induction n rule: decimal.induct)
  case (1 n)
  show ?case
  proof (cases "n < 10")
    case True
    then show ?thesis by (subst decimal.simps) (simp add: char_code_digit)
  next
    case False
    with 1 show ?thesis by (subst decimal.simps) (simp add: char_code_digit)
  qed
qed

lemma decimal_inj: "decimal m = decimal n \<longleftrightarrow> m = n"
  by (metis decimal_inverse)

lemma decimal_digits: "c \<in> set (decimal n) \<Longrightarrow> 48 \<le> char_code c \<and> char_code c \<le> 57"
proof (induction n rule: decimal.induct)
  case (1 n)
  show ?case
  proof (cases "n < 10")
    case True
    with 1(2) show ?thesis by (subst (asm) decimal.simps) (simp add: char_code_digit)
  next
    case False
    with 1 show ?thesis by (subst (asm) (2) decimal.simps) (auto simp: char_code_digit)
  qed
qed

lemma decimal_nonempty [simp]: "decimal n \<noteq> []"
  by (subst decimal.simps) simp

section \<open>Aliases\<close>

text \<open>\<open>alias_from\<close> is the suffix loop of \<open>export_node\<close>, \<open>make_entry_aliases\<close> and
  \<open>make_partition_aliases\<close>; \<open>used\<close> holds the upper-case names given out so far.  The suffix is a
  32-bit counter in the code; it cannot reach its end before \<open>used\<close> has four billion names.\<close>

definition with_suffix :: "string \<Rightarrow> nat \<Rightarrow> string" where
  "with_suffix base n = base @ ''_'' @ decimal n"

definition clashes :: "string list \<Rightarrow> string \<Rightarrow> nat \<Rightarrow> nat set" where
  "clashes used base n = {k. n \<le> k \<and> uppercase_ascii (with_suffix base k) \<in> set used}"

lemma upper_decimal [simp]: "uppercase_ascii (decimal n) = decimal n"
  unfolding uppercase_ascii_def
  by (rule map_idI) (auto simp: upper_char_def dest: decimal_digits)

lemma with_suffix_upper_inj:
  "uppercase_ascii (with_suffix base m) = uppercase_ascii (with_suffix base n) \<longleftrightarrow> m = n"
proof -
  have "uppercase_ascii (with_suffix base k) = uppercase_ascii (base @ ''_'') @ decimal k" for k
    using upper_decimal [of k] by (simp add: with_suffix_def uppercase_ascii_def)
  then show ?thesis by (simp add: decimal_inj)
qed

lemma finite_clashes: "finite (clashes used base n)"
proof (rule finite_imageD)
  show "finite ((\<lambda>k. uppercase_ascii (with_suffix base k)) ` clashes used base n)"
    by (rule finite_subset [of _ "set used"]) (auto simp: clashes_def)
  show "inj_on (\<lambda>k. uppercase_ascii (with_suffix base k)) (clashes used base n)"
    by (auto intro: inj_onI simp: with_suffix_upper_inj)
qed

function alias_from :: "string list \<Rightarrow> string \<Rightarrow> nat \<Rightarrow> string" where
  "alias_from used base suffix =
     (let name = with_suffix base suffix in
      if uppercase_ascii name \<in> set used then alias_from used base (suffix + 1) else name)"
  by pat_completeness auto

termination alias_from
proof (relation "measure (\<lambda>(used, base, n). card (clashes used base n))")
  fix used :: "string list" and b :: string and n :: nat and name
  assume "name = with_suffix b n" "uppercase_ascii name \<in> set used"
  then have "n \<in> clashes used b n - clashes used b (n + 1)" by (simp add: clashes_def)
  moreover have "clashes used b (n + 1) \<subseteq> clashes used b n" by (auto simp: clashes_def)
  ultimately have "clashes used b (n + 1) \<subset> clashes used b n" by blast
  then show "((used, b, n + 1), used, b, n) \<in> measure (\<lambda>(used, base, n). card (clashes used base n))"
    by (simp add: psubset_card_mono finite_clashes)
qed simp

declare alias_from.simps [simp del]

definition pick_alias :: "string list \<Rightarrow> string \<Rightarrow> string" where
  "pick_alias used name =
     (let base = sanitize_host_filename name in
      if uppercase_ascii base \<in> set used then alias_from used base 2 else base)"

fun assign_aliases :: "string list \<Rightarrow> string list \<Rightarrow> string list" where
  "assign_aliases used [] = []"
| "assign_aliases used (name # names) =
     (let v = pick_alias used name in v # assign_aliases (uppercase_ascii v # used) names)"

lemma alias_from_fresh: "uppercase_ascii (alias_from used base n) \<notin> set used"
  by (induction used base n rule: alias_from.induct) (subst alias_from.simps, simp add: Let_def)

lemma alias_from_suffix: "\<exists>k \<ge> n. alias_from used base n = with_suffix base k"
proof (induction used base n rule: alias_from.induct)
  case (1 used base n)
  then show ?case
    by (subst alias_from.simps) (auto simp: Let_def intro: Suc_leD)
qed

lemma pick_alias_fresh: "uppercase_ascii (pick_alias used name) \<notin> set used"
  by (simp add: pick_alias_def Let_def alias_from_fresh)

lemma host_safe_with_suffix:
  assumes "host_safe base"
  shows "host_safe (with_suffix base k)"
proof -
  have ok: "\<not> forbidden_char c \<and> \<not> bad_tail c \<and> c \<noteq> CHR ''.''" if "c \<in> set (decimal k)" for c
    using decimal_digits [OF that] by (auto simp: forbidden_char_def bad_tail_def char_code_def)
  have "\<not> bad_tail (last (with_suffix base k))"
    using ok [of "last (decimal k)"] by (simp add: with_suffix_def)
  moreover have "\<not> reserved_windows_name (with_suffix base k)"
  proof (cases "CHR ''.'' \<in> set base")
    case True
    then have "name_stem (with_suffix base k) = name_stem base"
      by (simp add: name_stem_def with_suffix_def takeWhile_append1)
    with assms show ?thesis by (simp add: reserved_windows_name_def host_safe_def)
  next
    case False
    then have "takeWhile (\<lambda>c. c \<noteq> CHR ''.'') (with_suffix base k) = with_suffix base k"
      using ok by (subst takeWhile_eq_all_conv) (auto simp: with_suffix_def)
    then have "CHR ''_'' \<in> set (name_stem (with_suffix base k))"
      by (auto simp: name_stem_def uppercase_ascii_def with_suffix_def)
    then show ?thesis by (rule reserved_no_underscore)
  qed
  ultimately show ?thesis
    using assms ok by (auto simp: host_safe_def with_suffix_def)
qed

lemma pick_alias_safe: "host_safe (pick_alias used name)"
  using alias_from_suffix [of 2 used "sanitize_host_filename name"]
  by (auto simp: pick_alias_def Let_def sanitize_safe host_safe_with_suffix)

lemma assign_aliases_spec:
  "length (assign_aliases used names) = length names \<and>
   (\<forall>v \<in> set (assign_aliases used names). host_safe v \<and> uppercase_ascii v \<notin> set used) \<and>
   distinct (map uppercase_ascii (assign_aliases used names))"
proof (induction names arbitrary: used)
  case (Cons name names)
  let ?v = "pick_alias used name"
  show ?case
    using Cons.IH [of "uppercase_ascii ?v # used"] pick_alias_safe [of used name] pick_alias_fresh [of used name]
    by (auto simp: Let_def)
qed simp

lemma assign_aliases_prefix:
  "assign_aliases used (take n names) = take n (assign_aliases used names)"
  by (induction names arbitrary: n used) (auto simp: Let_def take_Cons')

text \<open>The aliases of a directory are host-safe and pairwise different even without regard to case,
  whatever names PFS holds, one for each name; and an alias depends only on the names before it, so
  listing the same directory twice gives the same aliases.\<close>

theorem aliases_unique:
  "length (assign_aliases [] names) = length names \<and>
   list_all host_safe (assign_aliases [] names) \<and>
   distinct (map uppercase_ascii (assign_aliases [] names)) \<and>
   assign_aliases [] (take n names) = take n (assign_aliases [] names)"
  using assign_aliases_spec [of "[]" names] by (simp add: list_all_iff assign_aliases_prefix)

end
