(* ===== verification/PfsExport.thy ===== *)
theory PfsExport
  imports PfsDirectory HostNames
begin

text \<open>
  \<open>src/host/pfs_export.cpp\<close>: the recursive export of a PFS file or directory to the host.  The host
  file system is not part of the program: \<open>host calls op\<close> is its answer to the call \<open>op\<close> after the
  calls made so far, \<open>None\<close> for success and \<open>Some\<close> message for a failure.  Every call the export
  makes is recorded in \<open>ex_calls\<close>.
\<close>

type_synonym host_path = "string list"

datatype host_op =
    Create_directories host_path
  | Open_file host_path
  | Write_file host_path "byte list"
  | Remove_file host_path

type_synonym host = "host_op list \<Rightarrow> host_op \<Rightarrow> string option"

record export_stats =
  xs_files :: u64
  xs_directories :: u64
  xs_bytes :: u64
  xs_skipped :: u64

record 's export_state =
  ex_device :: 's
  ex_calls :: "host_op list"
  ex_stats :: export_stats
  ex_error :: string
  ex_warnings :: "string list"
  ex_active :: "u64 set"
  ex_progress :: "(export_stats \<times> string) list"

type_synonym 's export = "('s export_state, bool) state"

definition join_path :: "string \<Rightarrow> string \<Rightarrow> string" where
  "join_path parent child = (if parent = '''' then child else parent @ ''/'' @ child)"

text \<open>The export of inodes identifies a directory by sub-partition and number.\<close>

definition inode_key :: "block_info \<Rightarrow> u64" where
  "inode_key loc = push_bit 32 (ucast (bi_subpart loc)) OR ucast (bi_number loc)"

definition on_device :: "('s, 'a) state \<Rightarrow> ('s export_state, 'a) state" where
  "on_device m = do {
     x \<leftarrow> State_Monad.get;
     let (a, s') = run_state m (ex_device x);
     _ \<leftarrow> State_Monad.set (x\<lparr>ex_device := s'\<rparr>);
     ret a
   }"

definition on_host :: "host \<Rightarrow> host_op \<Rightarrow> ('s export_state, string option) state" where
  "on_host host op = do {
     x \<leftarrow> State_Monad.get;
     _ \<leftarrow> State_Monad.set (x\<lparr>ex_calls := ex_calls x @ [op]\<rparr>);
     ret (host (ex_calls x) op)
   }"

definition modify :: "('x \<Rightarrow> 'x) \<Rightarrow> ('x, unit) state" where
  "modify f = do { x \<leftarrow> State_Monad.get; State_Monad.set (f x) }"

definition export_failed :: "string \<Rightarrow> 's export" where
  "export_failed msg = do { _ \<leftarrow> modify (\<lambda>x. x\<lparr>ex_error := msg\<rparr>); ret False }"

definition report_progress :: "string \<Rightarrow> ('s export_state, unit) state" where
  "report_progress logical_path = modify (\<lambda>x. x\<lparr>ex_progress := ex_progress x @ [(ex_stats x, logical_path)]\<rparr>)"

definition skip_node :: "string \<Rightarrow> ('s export_state, unit) state" where
  "skip_node warning = modify (\<lambda>x.
     x\<lparr>ex_stats := (ex_stats x)\<lparr>xs_skipped := xs_skipped (ex_stats x) + 1\<rparr>,
       ex_warnings := ex_warnings x @ [warning]\<rparr>)"

section \<open>Regular files\<close>

definition kChunkSize :: nat where "kChunkSize = 1024 * 1024"

text \<open>The streaming loop; \<open>remaining\<close> is \<open>size - offset\<close>.\<close>

function export_chunks ::
  "'s device \<Rightarrow> host \<Rightarrow> pfs_reader \<Rightarrow> pfs_node \<Rightarrow> string \<Rightarrow> host_path \<Rightarrow> u64 \<Rightarrow> nat \<Rightarrow> 's export" where
  "export_chunks D host rd node logical_path destination offset remaining =
     (if remaining = 0 then ret True
      else
        let n = min kChunkSize remaining
        in do {
          r \<leftarrow> on_device (pfs_read D rd node offset n);
          case r of
            Inl e \<Rightarrow> do {
              _ \<leftarrow> modify (\<lambda>x. x\<lparr>ex_error := pfs_message e\<rparr>);
              _ \<leftarrow> on_host host (Remove_file destination);
              ret False
            }
          | Inr bs \<Rightarrow> do {
              w \<leftarrow> on_host host (Write_file destination bs);
              case w of
                Some _ \<Rightarrow> do {
                  _ \<leftarrow> modify (\<lambda>x. x\<lparr>ex_error := ''Host write failed during PFS export''\<rparr>);
                  _ \<leftarrow> on_host host (Remove_file destination);
                  ret False
                }
              | None \<Rightarrow> do {
                  _ \<leftarrow> modify (\<lambda>x. x\<lparr>ex_stats := (ex_stats x)\<lparr>xs_bytes := xs_bytes (ex_stats x) + of_nat n\<rparr>\<rparr>);
                  _ \<leftarrow> report_progress logical_path;
                  export_chunks D host rd node logical_path destination (offset + of_nat n) (remaining - n)
                }
            }
        })"
  by pat_completeness auto

termination export_chunks
  by (relation "measure (\<lambda>(D, host, rd, node, path, dst, off, remaining). remaining)")
    (auto simp: kChunkSize_def)

declare export_chunks.simps [simp del]

definition export_file ::
  "'s device \<Rightarrow> host \<Rightarrow> pfs_reader \<Rightarrow> pfs_node \<Rightarrow> string \<Rightarrow> host_path \<Rightarrow> 's export" where
  "export_file D host rd node logical_path destination = do {
     made \<leftarrow> (if butlast destination \<noteq> [] then on_host host (Create_directories (butlast destination)) else ret None);
     case made of
       Some msg \<Rightarrow> export_failed (''Could not create host output directory: '' @ msg)
     | None \<Rightarrow> do {
         opened \<leftarrow> on_host host (Open_file destination);
         case opened of
           Some _ \<Rightarrow> export_failed ''Could not create host output file''
         | None \<Rightarrow> do {
             ok \<leftarrow> export_chunks D host rd node logical_path destination 0 (unat (i_size (nd_inode node)));
             if \<not> ok then ret False
             else do {
               _ \<leftarrow> modify (\<lambda>x. x\<lparr>ex_stats := (ex_stats x)\<lparr>xs_files := xs_files (ex_stats x) + 1\<rparr>\<rparr>);
               _ \<leftarrow> report_progress logical_path;
               ret True
             }
           }
       }
   }"

section \<open>Directories\<close>

text \<open>The loop over the entries of one directory; \<open>child\<close> exports one node.\<close>

fun export_entries ::
  "(pfs_node \<Rightarrow> string \<Rightarrow> host_path \<Rightarrow> 's export) \<Rightarrow> 's device \<Rightarrow> pfs_reader \<Rightarrow> string \<Rightarrow> host_path \<Rightarrow>
   string list \<Rightarrow> directory_entry list \<Rightarrow> 's export" where
  "export_entries child D rd logical_path destination used [] = ret True"
| "export_entries child D rd logical_path destination used (entry # entries) = do {
     r \<leftarrow> on_device (read_inode D rd (de_inode entry));
     case r of
       Inl _ \<Rightarrow> do {
         _ \<leftarrow> skip_node (''Could not read inode for: '' @ join_path logical_path (de_name entry));
         export_entries child D rd logical_path destination used entries
       }
     | Inr node \<Rightarrow> do {
         let host_name = pick_alias used (de_name entry);
         ok \<leftarrow> child node (join_path logical_path (de_name entry)) (destination @ [host_name]);
         if \<not> ok then ret False
         else export_entries child D rd logical_path destination (uppercase_ascii host_name # used) entries
       }
   }"

text \<open>A directory that is not active yet: it is active while its entries are exported, and no longer on
  every way out.\<close>

definition export_directory ::
  "(pfs_node \<Rightarrow> string \<Rightarrow> host_path \<Rightarrow> 's export) \<Rightarrow> 's device \<Rightarrow> host \<Rightarrow> pfs_reader \<Rightarrow> pfs_node \<Rightarrow>
   string \<Rightarrow> host_path \<Rightarrow> 's export" where
  "export_directory child D host rd node logical_path destination =
     (let key = inode_key (nd_location node) in
      do {
        _ \<leftarrow> modify (\<lambda>x. x\<lparr>ex_active := insert key (ex_active x)\<rparr>);
        made \<leftarrow> on_host host (Create_directories destination);
        case made of
          Some msg \<Rightarrow> do {
            _ \<leftarrow> modify (\<lambda>x. x\<lparr>ex_active := ex_active x - {key}\<rparr>);
            export_failed (''Could not create host directory: '' @ msg)
          }
        | None \<Rightarrow> do {
            _ \<leftarrow> modify (\<lambda>x. x\<lparr>ex_stats := (ex_stats x)\<lparr>xs_directories := xs_directories (ex_stats x) + 1\<rparr>\<rparr>);
            _ \<leftarrow> report_progress logical_path;
            listed \<leftarrow> on_device (list_directory D rd node False);
            case listed of
              Inl e \<Rightarrow> do {
                _ \<leftarrow> modify (\<lambda>x. x\<lparr>ex_active := ex_active x - {key}\<rparr>);
                export_failed (pfs_message e)
              }
            | Inr entries \<Rightarrow> do {
                ok \<leftarrow> export_entries child D rd logical_path destination [] entries;
                _ \<leftarrow> modify (\<lambda>x. x\<lparr>ex_active := ex_active x - {key}\<rparr>);
                ret ok
              }
          }
      })"

text \<open>\<open>export_node\<close> with \<open>k\<close> levels left before the depth limit: depth \<open>d\<close> of the code is
  \<open>k = 257 - d\<close>.\<close>

primrec export_node ::
  "nat \<Rightarrow> 's device \<Rightarrow> host \<Rightarrow> pfs_reader \<Rightarrow> pfs_node \<Rightarrow> string \<Rightarrow> host_path \<Rightarrow> 's export" where
  "export_node 0 D host rd node logical_path destination =
     export_failed ''PFS export exceeded the directory-depth safety limit''"
| "export_node (Suc k) D host rd node logical_path destination =
     (let mode = i_mode (nd_inode node) in
      if mode_is_regular mode then export_file D host rd node logical_path destination
      else if \<not> mode_is_directory mode then do {
        _ \<leftarrow> skip_node (''Skipped unsupported PFS node: '' @ logical_path);
        ret True
      }
      else do {
        x \<leftarrow> State_Monad.get;
        let key = inode_key (nd_location node);
        if key \<in> ex_active x
        then export_failed (''PFS directory cycle detected while exporting: '' @ logical_path)
        else export_directory (export_node k D host rd) D host rd node logical_path destination
      })"

definition empty_export :: "'s \<Rightarrow> 's export_state" where
  "empty_export s =
     \<lparr>ex_device = s, ex_calls = [], ex_stats = \<lparr>xs_files = 0, xs_directories = 0, xs_bytes = 0, xs_skipped = 0\<rparr>,
      ex_error = '''', ex_warnings = [], ex_active = {}, ex_progress = []\<rparr>"

definition pfs_export_to_host ::
  "'s device \<Rightarrow> host \<Rightarrow> pfs_reader \<Rightarrow> string \<Rightarrow> host_path \<Rightarrow> 's export" where
  "pfs_export_to_host D host rd source_path destination = do {
     r \<leftarrow> on_device (resolve D rd source_path);
     case r of
       Inl e \<Rightarrow> export_failed (pfs_message e)
     | Inr node \<Rightarrow> export_node 257 D host rd node source_path destination
   }"

section \<open>Where the export writes\<close>

text \<open>A relation between the states before and after a computation.  With a preorder, it holds for a
  composition when it holds for the parts.\<close>

definition effect :: "('x \<Rightarrow> 'x \<Rightarrow> bool) \<Rightarrow> ('x, 'a) state \<Rightarrow> bool" where
  "effect R m \<longleftrightarrow> (\<forall>x. R x (snd (run_state m x)))"

locale effect_preorder =
  fixes R :: "'x \<Rightarrow> 'x \<Rightarrow> bool"
  assumes effect_refl: "R x x"
    and effect_trans: "R x y \<Longrightarrow> R y z \<Longrightarrow> R x z"
begin

lemma effect_ret: "effect R (ret a)"
  by (simp add: effect_def effect_refl)

lemma effect_get: "effect R State_Monad.get"
  by (simp add: effect_def effect_refl State_Monad.get_def)

lemma effect_bind: "effect R m \<Longrightarrow> (\<And>a. effect R (f a)) \<Longrightarrow> effect R (State_Monad.bind m f)"
  unfolding effect_def by (auto split: prod.splits intro: effect_trans)

lemma effect_if: "(b \<Longrightarrow> effect R m) \<Longrightarrow> (\<not> b \<Longrightarrow> effect R n) \<Longrightarrow> effect R (if b then m else n)"
  by simp

lemma effect_option: "effect R m \<Longrightarrow> (\<And>a. effect R (f a)) \<Longrightarrow> effect R (case v of None \<Rightarrow> m | Some a \<Rightarrow> f a)"
  by (cases v) auto

lemma effect_sum: "(\<And>a. effect R (f a)) \<Longrightarrow> (\<And>a. effect R (g a)) \<Longrightarrow> effect R (case v of Inl a \<Rightarrow> f a | Inr a \<Rightarrow> g a)"
  by (cases v) auto

lemmas effect_intros = effect_ret effect_get effect_bind effect_if effect_option effect_sum

end

fun op_path :: "host_op \<Rightarrow> host_path" where
  "op_path (Create_directories p) = p"
| "op_path (Open_file p) = p"
| "op_path (Write_file p bs) = p"
| "op_path (Remove_file p) = p"

text \<open>A call is confined to a destination if it names the destination, something below it reached by
  host-safe names only, or creates the destination's parent.\<close>

definition confined :: "host_path \<Rightarrow> host_op \<Rightarrow> bool" where
  "confined dest op \<longleftrightarrow>
     (\<exists>rest. list_all host_safe rest \<and> op_path op = dest @ rest) \<or> op = Create_directories (butlast dest)"

lemma confined_child: "host_safe v \<Longrightarrow> confined (dest @ [v]) op \<Longrightarrow> confined dest op"
proof -
  assume v: "host_safe v" and c: "confined (dest @ [v]) op"
  have "\<exists>rest. list_all host_safe rest \<and> op_path op = dest @ rest"
  proof (cases "op = Create_directories (butlast (dest @ [v]))")
    case True
    then show ?thesis by (intro exI [of _ "[]"]) simp
  next
    case False
    with c obtain rest where "list_all host_safe rest" "op_path op = (dest @ [v]) @ rest"
      by (auto simp: confined_def)
    with v show ?thesis by (intro exI [of _ "v # rest"]) simp
  qed
  then show ?thesis by (simp add: confined_def)
qed

lemma confined_self: "op_path op = dest \<Longrightarrow> confined dest op"
  by (auto simp: confined_def intro: exI [of _ "[]"])

definition calls_confined :: "host_path \<Rightarrow> 's export_state \<Rightarrow> 's export_state \<Rightarrow> bool" where
  "calls_confined dest x y \<longleftrightarrow> (\<exists>ops. ex_calls y = ex_calls x @ ops \<and> list_all (confined dest) ops)"

interpretation calls: effect_preorder "calls_confined dest" for dest
  by unfold_locales (auto simp: calls_confined_def)

lemma confined_on_host: "confined dest op \<Longrightarrow> effect (calls_confined dest) (on_host host op)"
  by (simp add: effect_def calls_confined_def on_host_def)

lemma confined_on_device: "effect (calls_confined dest) (on_device m)"
  by (simp add: effect_def calls_confined_def on_device_def split: prod.splits)

lemma confined_modify: "(\<And>x. ex_calls (f x) = ex_calls x) \<Longrightarrow> effect (calls_confined dest) (modify f)"
  by (simp add: effect_def calls_confined_def modify_def)

lemma confined_notes:
  "effect (calls_confined dest) (export_failed msg)" "effect (calls_confined dest) (report_progress p)"
  "effect (calls_confined dest) (skip_node w)"
  unfolding export_failed_def report_progress_def skip_node_def
  by (intro calls.effect_intros confined_modify; simp)+

lemmas confined_intros = calls.effect_intros confined_on_host confined_on_device confined_modify confined_notes

lemma confined_chunks: "effect (calls_confined dest) (export_chunks D host rd node path dest off n)"
proof (induction n arbitrary: off rule: less_induct)
  case (less n)
  have tail: "effect (calls_confined dest) (export_chunks D host rd node path dest (off + of_nat (min kChunkSize n))
      (n - min kChunkSize n))" if "n \<noteq> 0"
    using that by (intro less.IH) (auto simp: kChunkSize_def)
  show ?case
    unfolding export_chunks.simps [of _ _ _ _ _ _ _ n] Let_def
    by (intro confined_intros tail; simp add: confined_self)
qed

lemma confined_file: "effect (calls_confined dest) (export_file D host rd node path dest)"
  unfolding export_file_def
  by (intro confined_intros confined_chunks; simp add: confined_self confined_def)

lemma confined_mono:
  "effect (calls_confined (dest @ [v])) m \<Longrightarrow> host_safe v \<Longrightarrow> effect (calls_confined dest) m"
  by (fastforce simp: effect_def calls_confined_def list_all_iff intro: confined_child)

lemma confined_entries:
  assumes "\<And>node path v. effect (calls_confined (dest @ [v])) (child node path (dest @ [v]))"
  shows "effect (calls_confined dest) (export_entries child D rd path dest used entries)"
proof (induction entries arbitrary: used)
  case (Cons e es)
  have "effect (calls_confined dest) (child node p (dest @ [pick_alias used (de_name e)]))" for node p
    by (rule confined_mono [OF assms pick_alias_safe])
  then show ?case
    unfolding export_entries.simps Let_def by (intro confined_intros Cons.IH)
qed (simp add: calls.effect_ret)

lemma confined_node: "effect (calls_confined dest) (export_node k D host rd node path dest)"
proof (induction k arbitrary: node path dest)
  case 0
  show ?case by (simp add: confined_notes)
next
  case (Suc k)
  show ?case
    unfolding export_node.simps export_directory_def Let_def
    by (intro confined_intros confined_file confined_entries Suc.IH; simp add: confined_self)
qed

lemma confined_export: "effect (calls_confined dest) (pfs_export_to_host D host rd src dest)"
  unfolding pfs_export_to_host_def by (intro confined_intros confined_node)

text \<open>C16: An export never leaves its destination, whatever names the PFS directories contain and however
  the host answers: every path it creates, opens, writes or removes is the destination itself, lies
  below it through host-safe names (no separator, no dot name, no device name), or is the parent
  directory of the destination.\<close>

theorem export_confined:
  "list_all (confined destination)
     (ex_calls (snd (run_state (pfs_export_to_host D host rd source destination) (empty_export s))))"
  using confined_export [of destination D host rd source]
  by (auto simp: effect_def calls_confined_def empty_export_def dest!: spec [of _ "empty_export s"])

section \<open>Cycles\<close>

text \<open>The key of a directory identifies its location.\<close>

lemma inode_key_inject:
  "inode_key a = inode_key b \<longleftrightarrow> bi_subpart a = bi_subpart b \<and> bi_number a = bi_number b"
proof
  assume "inode_key a = inode_key b"
  then have bits: "bit (inode_key a) n = bit (inode_key b) n" for n by simp
  have "bi_number a = bi_number b"
  proof (rule bit_word_eqI)
    fix n assume "n < LENGTH(32)"
    then show "bit (bi_number a) n = bit (bi_number b) n"
      using bits [of n] by (simp add: inode_key_def bit_simps)
  qed
  moreover have "bi_subpart a = bi_subpart b"
  proof (rule bit_word_eqI)
    fix n assume "n < LENGTH(16)"
    then show "bit (bi_subpart a) n = bit (bi_subpart b) n"
      using bits [of "n + 32"] by (auto simp: inode_key_def bit_simps dest: bit_imp_le_length)
  qed
  ultimately show "bi_subpart a = bi_subpart b \<and> bi_number a = bi_number b" by simp
qed (simp add: inode_key_def)

text \<open>The reference: the same export, which knows the directories it is inside of as a list of places
  and passes that list down instead of keeping a set of keys up to date.  A directory is a cycle when
  its own place is among them.\<close>

type_synonym place = "u16 \<times> u32"

definition place_of :: "pfs_node \<Rightarrow> place" where
  "place_of node = (bi_subpart (nd_location node), bi_number (nd_location node))"

primrec export_tree ::
  "nat \<Rightarrow> place list \<Rightarrow> 's device \<Rightarrow> host \<Rightarrow> pfs_reader \<Rightarrow> pfs_node \<Rightarrow> string \<Rightarrow> host_path \<Rightarrow> 's export" where
  "export_tree 0 ancestors D host rd node logical_path destination =
     export_failed ''PFS export exceeded the directory-depth safety limit''"
| "export_tree (Suc k) ancestors D host rd node logical_path destination =
     (if mode_is_regular (i_mode (nd_inode node)) then export_file D host rd node logical_path destination
      else if \<not> mode_is_directory (i_mode (nd_inode node)) then do {
        _ \<leftarrow> skip_node (''Skipped unsupported PFS node: '' @ logical_path);
        ret True
      }
      else if place_of node \<in> set ancestors
      then export_failed (''PFS directory cycle detected while exporting: '' @ logical_path)
      else do {
        made \<leftarrow> on_host host (Create_directories destination);
        case made of
          Some msg \<Rightarrow> export_failed (''Could not create host directory: '' @ msg)
        | None \<Rightarrow> do {
            _ \<leftarrow> modify (\<lambda>x. x\<lparr>ex_stats := (ex_stats x)\<lparr>xs_directories := xs_directories (ex_stats x) + 1\<rparr>\<rparr>);
            _ \<leftarrow> report_progress logical_path;
            listed \<leftarrow> on_device (list_directory D rd node False);
            case listed of
              Inl e \<Rightarrow> export_failed (pfs_message e)
            | Inr entries \<Rightarrow>
                export_entries (export_tree k (place_of node # ancestors) D host rd) D rd logical_path destination [] entries
          }
      })"

text \<open>\<open>agrees A B m m'\<close>: started with active set \<open>A\<close>, \<open>m\<close> does what \<open>m'\<close> does from any active set, and ends
  with active set \<open>B\<close>.  A computation that does not look at the set agrees with itself.\<close>

abbreviation with_active :: "u64 set \<Rightarrow> 's export_state \<Rightarrow> 's export_state" where
  "with_active A x \<equiv> x\<lparr>ex_active := A\<rparr>"

definition agrees :: "u64 set \<Rightarrow> u64 set \<Rightarrow> ('s export_state, 'a) state \<Rightarrow> ('s export_state, 'a) state \<Rightarrow> bool" where
  "agrees A B m m' \<longleftrightarrow> (\<forall>x. run_state m (with_active A x) = map_prod id (with_active B) (run_state m' x))"

lemma agrees_ret: "agrees A A (ret a) (ret a)"
  by (simp add: agrees_def)

lemma agrees_bind:
  "\<lbrakk>agrees A A m m'; \<And>a. agrees A B (f a) (f' a)\<rbrakk> \<Longrightarrow> agrees A B (State_Monad.bind m f) (State_Monad.bind m' f')"
  by (simp add: agrees_def split: prod.splits)

lemma agrees_option:
  "\<lbrakk>agrees A B m m'; \<And>a. agrees A B (f a) (f' a)\<rbrakk> \<Longrightarrow>
   agrees A B (case v of None \<Rightarrow> m | Some a \<Rightarrow> f a) (case v of None \<Rightarrow> m' | Some a \<Rightarrow> f' a)"
  by (cases v) auto

lemma agrees_sum:
  "\<lbrakk>\<And>a. agrees A B (f a) (f' a); \<And>a. agrees A B (g a) (g' a)\<rbrakk> \<Longrightarrow>
   agrees A B (case v of Inl a \<Rightarrow> f a | Inr a \<Rightarrow> g a) (case v of Inl a \<Rightarrow> f' a | Inr a \<Rightarrow> g' a)"
  by (cases v) auto

lemma agrees_if:
  "\<lbrakk>b \<Longrightarrow> agrees A B m m'; \<not> b \<Longrightarrow> agrees A B n n'\<rbrakk> \<Longrightarrow> agrees A B (if b then m else n) (if b then m' else n')"
  by simp

lemma agrees_on_host: "agrees A A (on_host host op) (on_host host op)"
  by (simp add: agrees_def on_host_def)

lemma agrees_on_device: "agrees A A (on_device m) (on_device m)"
  by (simp add: agrees_def on_device_def split: prod.splits)

lemma agrees_modify: "(\<And>x. f (with_active A x) = with_active A (f x)) \<Longrightarrow> agrees A A (modify f) (modify f)"
  by (simp add: agrees_def modify_def)

lemma agrees_notes:
  "agrees A A (export_failed msg) (export_failed msg)" "agrees A A (report_progress p) (report_progress p)"
  "agrees A A (skip_node w) (skip_node w)"
  by (simp_all add: agrees_def export_failed_def report_progress_def skip_node_def modify_def)

lemmas agrees_intros =
  agrees_ret agrees_bind agrees_option agrees_sum agrees_if agrees_on_host agrees_on_device agrees_modify agrees_notes

lemma agrees_chunks:
  "agrees A A (export_chunks D host rd node path dest off n) (export_chunks D host rd node path dest off n)"
proof (induction n arbitrary: off rule: less_induct)
  case (less n)
  have tail: "agrees A A (export_chunks D host rd node path dest (off + of_nat (min kChunkSize n)) (n - min kChunkSize n))
      (export_chunks D host rd node path dest (off + of_nat (min kChunkSize n)) (n - min kChunkSize n))" if "n \<noteq> 0"
    using that by (intro less.IH) (auto simp: kChunkSize_def)
  show ?case
    unfolding export_chunks.simps [of _ _ _ _ _ _ _ n] Let_def by (intro agrees_intros tail; simp)
qed

lemma agrees_file: "agrees A A (export_file D host rd node path dest) (export_file D host rd node path dest)"
  unfolding export_file_def by (intro agrees_intros agrees_chunks; simp)

lemma agrees_entries:
  assumes "\<And>node path dest. agrees A A (child node path dest) (child' node path dest)"
  shows "agrees A A (export_entries child D rd path dest used es) (export_entries child' D rd path dest used es)"
proof (induction es arbitrary: used)
  case (Cons e es)
  show ?case unfolding export_entries.simps Let_def by (intro agrees_intros assms Cons.IH)
qed (simp add: agrees_ret)

text \<open>Entering a directory, leaving it, and looking at the set.\<close>

lemma agrees_enter:
  "agrees (insert key A) B m m' \<Longrightarrow>
   agrees A B (do { _ \<leftarrow> modify (\<lambda>x. x\<lparr>ex_active := insert key (ex_active x)\<rparr>); m }) m'"
  by (simp add: agrees_def modify_def)

lemma agrees_leave:
  "\<lbrakk>key \<notin> A; agrees A B m m'\<rbrakk> \<Longrightarrow>
   agrees (insert key A) B (do { _ \<leftarrow> modify (\<lambda>x. x\<lparr>ex_active := ex_active x - {key}\<rparr>); m }) m'"
  by (simp add: agrees_def modify_def)

lemma agrees_leave_last:
  assumes "key \<notin> A" "agrees (insert key A) (insert key A) m m'"
  shows "agrees (insert key A) A
    (do { ok \<leftarrow> m; _ \<leftarrow> modify (\<lambda>x. x\<lparr>ex_active := ex_active x - {key}\<rparr>); ret ok }) m'"
  using assms by (simp add: agrees_def modify_def map_prod_def split: prod.splits)

lemma agrees_active:
  "\<lbrakk>key \<in> A \<Longrightarrow> agrees A B m r; key \<notin> A \<Longrightarrow> agrees A B n r\<rbrakk> \<Longrightarrow>
   agrees A B (do { x \<leftarrow> State_Monad.get; if key \<in> ex_active x then m else n }) r"
  by (simp add: agrees_def State_Monad.get_def)

definition place_key :: "place \<Rightarrow> u64" where
  "place_key p = inode_key \<lparr>bi_number = snd p, bi_subpart = fst p, bi_count = 0\<rparr>"

lemma place_key: "inode_key (nd_location node) = place_key (place_of node)"
  by (simp add: place_key_def place_of_def inode_key_def)

lemma place_key_inject: "place_key p = place_key q \<longleftrightarrow> p = q"
  by (cases p; cases q) (simp add: place_key_def inode_key_inject)

lemma export_agrees:
  "agrees (place_key ` set ancestors) (place_key ` set ancestors)
     (export_node k D host rd node path dest) (export_tree k ancestors D host rd node path dest)"
proof (induction k arbitrary: ancestors node path dest)
  case 0
  show ?case by (simp add: agrees_notes)
next
  case (Suc k)
  let ?key = "place_key (place_of node)" and ?A = "place_key ` set ancestors"
  have key: "?key \<in> ?A \<longleftrightarrow> place_of node \<in> set ancestors" by (auto simp: place_key_inject)
  have child: "agrees (insert ?key ?A) (insert ?key ?A) (export_node k D host rd node' path dest)
      (export_tree k (place_of node # ancestors) D host rd node' path dest)" for node' path dest
    using Suc.IH [of "place_of node # ancestors"] by simp
  have directory: "agrees ?A ?A (export_directory (export_node k D host rd) D host rd node path dest)
      (do {
        made \<leftarrow> on_host host (Create_directories dest);
        case made of
          Some msg \<Rightarrow> export_failed (''Could not create host directory: '' @ msg)
        | None \<Rightarrow> do {
            _ \<leftarrow> modify (\<lambda>x. x\<lparr>ex_stats := (ex_stats x)\<lparr>xs_directories := xs_directories (ex_stats x) + 1\<rparr>\<rparr>);
            _ \<leftarrow> report_progress path;
            listed \<leftarrow> on_device (list_directory D rd node False);
            case listed of
              Inl e \<Rightarrow> export_failed (pfs_message e)
            | Inr entries \<Rightarrow>
                export_entries (export_tree k (place_of node # ancestors) D host rd) D rd path dest [] entries
          }
      })" if "place_of node \<notin> set ancestors"
    unfolding export_directory_def Let_def place_key
    by (intro agrees_enter agrees_bind [OF agrees_on_host] agrees_bind [OF agrees_modify]
        agrees_bind [OF agrees_notes(2)] agrees_bind [OF agrees_on_device] agrees_option agrees_sum
        agrees_leave agrees_leave_last agrees_entries agrees_notes(1) child; simp add: key that)
  show ?case
    unfolding export_node.simps export_tree.simps Let_def place_key
  proof (intro agrees_if agrees_file agrees_active agrees_bind agrees_notes agrees_ret, goal_cases)
    case 1
    then have "place_of node \<in> set ancestors" by (simp only: key)
    then show ?case by (simp only: if_True agrees_notes)
  next
    case 2
    then have "place_of node \<notin> set ancestors" by (simp only: key not_False_eq_True)
    then show ?case by (simp only: if_False directory not_False_eq_True)
  qed
qed

text \<open>C17: Cycle detection is exactly ancestry.  Exporting a node with the keys of a list of enclosing
  directories as the active set does what the reference does that carries the list itself: the same host
  calls, progress, warnings, statistics, errors and result, for any source and host.  So a directory is
  reported as a cycle exactly when its own sub-partition and number are among those of the directories it
  is reached through; one that two entries name side by side is exported twice; and on success and on
  every failure the active set is at the end what it was at the start.\<close>

theorem export_cycles_are_ancestors:
  "run_state (export_node k D host rd node path destination) (x\<lparr>ex_active := place_key ` set ancestors\<rparr>) =
   map_prod id (\<lambda>y. y\<lparr>ex_active := place_key ` set ancestors\<rparr>)
     (run_state (export_tree k ancestors D host rd node path destination) x)"
  using export_agrees unfolding agrees_def by blast

section \<open>The device under an export\<close>

definition kept :: "('s \<Rightarrow> bool) \<Rightarrow> ('s \<Rightarrow> image) \<Rightarrow> image \<Rightarrow> 's export_state \<Rightarrow> 's export_state \<Rightarrow> bool" where
  "kept ok img im x y \<longleftrightarrow> (ok (ex_device x) \<and> img (ex_device x) = im \<longrightarrow> ok (ex_device y) \<and> img (ex_device y) = im)"

interpretation kept: effect_preorder "kept ok img im" for ok img im
  by unfold_locales (auto simp: kept_def)

lemma kept_on_device: "transparent ok img m m0 \<Longrightarrow> effect (kept ok img im) (on_device m)"
  by (auto simp: effect_def kept_def on_device_def split: prod.splits dest: transparentD)

lemma kept_modify: "(\<And>x. ex_device (f x) = ex_device x) \<Longrightarrow> effect (kept ok img im) (modify f)"
  by (simp add: effect_def kept_def modify_def)

lemma kept_notes:
  "effect (kept ok img im) (on_host host op)" "effect (kept ok img im) (export_failed msg)"
  "effect (kept ok img im) (report_progress p)" "effect (kept ok img im) (skip_node w)"
  unfolding export_failed_def report_progress_def skip_node_def
  by (simp add: effect_def kept_def on_host_def) (intro kept.effect_intros kept_modify; simp)+

lemmas kept_intros = kept.effect_intros kept_modify kept_notes

context reliable_device
begin

lemmas kept_reads = kept_on_device [OF transparent_pfs_read] kept_on_device [OF transparent_read_inode]
  kept_on_device [OF transparent_list_directory] kept_on_device [OF transparent_resolve]

lemma kept_chunks: "effect (kept ok img im) (export_chunks D host rd node path dest off n)"
proof (induction n arbitrary: off rule: less_induct)
  case (less n)
  have tail: "effect (kept ok img im) (export_chunks D host rd node path dest (off + of_nat (min kChunkSize n))
      (n - min kChunkSize n))" if "n \<noteq> 0"
    using that by (intro less.IH) (auto simp: kChunkSize_def)
  show ?case
    unfolding export_chunks.simps [of _ _ _ _ _ _ _ n] Let_def
    by (intro kept_intros kept_reads tail; simp)
qed

lemma kept_file: "effect (kept ok img im) (export_file D host rd node path dest)"
  unfolding export_file_def by (intro kept_intros kept_chunks; simp)

lemma kept_entries:
  assumes "\<And>node path dest. effect (kept ok img im) (child node path dest)"
  shows "effect (kept ok img im) (export_entries child D rd path dest used entries)"
proof (induction entries arbitrary: used)
  case (Cons e es)
  show ?case
    unfolding export_entries.simps Let_def by (intro kept_intros kept_reads assms Cons.IH)
qed (simp add: kept.effect_ret)

lemma kept_node: "effect (kept ok img im) (export_node k D host rd node path dest)"
proof (induction k arbitrary: node path dest)
  case 0
  show ?case by (simp add: kept_notes)
next
  case (Suc k)
  show ?case
    unfolding export_node.simps export_directory_def Let_def
    by (intro kept_intros kept_reads kept_file kept_entries Suc.IH; simp)
qed

lemma kept_export: "effect (kept ok img im) (pfs_export_to_host D host rd src dest)"
  unfolding pfs_export_to_host_def by (intro kept_intros kept_reads kept_node)

end

end
