(* ===== verification/Hdl.thy ===== *)
theory Hdl
  imports Apa "HOL-Library.Multiset"
begin

text \<open>
  HDLoader game metadata: \<open>src/core/hdl.cpp\<close>.  One bounded read of 1536 bytes per game, the field
  checks, and the catalog of all games of an APA scan in physical order.
\<close>

section \<open>The format\<close>

definition kMetadataOffset :: u64 where "kMetadataOffset = 0x101000"
definition kMetadataBytes :: nat where "kMetadataBytes = 1536"
definition kHdlMagic :: u32 where "kHdlMagic = 0xDEADFEED"
definition kTitleOffset :: nat where "kTitleOffset = 0x0008"
definition kTitleStorage :: nat where "kTitleStorage = 65"
definition kCompatOffset :: nat where "kCompatOffset = 0x00A9"
definition kDmaOffset :: nat where "kDmaOffset = 0x00AA"
definition kStartupOffset :: nat where "kStartupOffset = 0x00AC"
definition kStartupStorage :: nat where "kStartupStorage = 13"
definition kLayerBreakOffset :: nat where "kLayerBreakOffset = 0x00E8"
definition kMediaOffset :: nat where "kMediaOffset = 0x00EC"
definition kPartCountOffset :: nat where "kPartCountOffset = 0x00F0"
definition kAllocTableOffset :: nat where "kAllocTableOffset = 0x00F5"
definition kAllocEntryBytes :: nat where "kAllocEntryBytes = 12"
definition kMaxAllocationEntries :: nat where "kMaxAllocationEntries = 65"

datatype media_type = Media_type_unknown | Media_cd | Media_dvd

fun media_type_name :: "media_type \<Rightarrow> string" where
  "media_type_name Media_cd = ''CD''"
| "media_type_name Media_dvd = ''DVD''"
| "media_type_name Media_type_unknown = ''unknown''"

record game_info =
  g_partition_id :: string
  g_title :: string
  g_startup :: string
  g_start_lba :: u32
  g_compat_flags :: u8
  g_dma :: u16
  g_layer_break :: u32
  g_media :: media_type
  g_declared_parts :: u8
  g_raw_size_bytes :: u64
  g_allocated_size_bytes :: u64
  g_allocation_table_consistent :: bool

record game_result =
  gr_ok :: bool
  gr_error :: string
  gr_game :: game_info

definition game_failed :: "string \<Rightarrow> game_info \<Rightarrow> game_result" where
  "game_failed msg g = \<lparr>gr_ok = False, gr_error = msg, gr_game = g\<rparr>"

text \<open>\<open>read_c_string\<close>: the bytes before the first NUL of the storage, and whether there is one.\<close>

definition read_c_string :: "byte list \<Rightarrow> string \<times> bool" where
  "read_c_string storage = (map char_of_byte (takeWhile (\<lambda>b. b \<noteq> 0) storage), 0 \<in> set storage)"

definition raw_units :: "byte list \<Rightarrow> nat \<Rightarrow> u64" where
  "raw_units bytes declared =
     fold (\<lambda>i sum. sum + ucast (load_u32_le bytes (kAllocTableOffset + i * kAllocEntryBytes + 8)))
       [0 ..< declared] 0"

text \<open>The part of \<open>read_game_info\<close> after the read.  Each step keeps the fields stored so far, also when
  it fails.\<close>

definition parse_game :: "partition \<Rightarrow> game_info \<Rightarrow> byte list \<Rightarrow> game_result" where
  "parse_game p g bytes =
     (if load_u32_le bytes 0 \<noteq> kHdlMagic then game_failed ''HDL metadata magic 0xDEADFEED is missing'' g
      else
        let (title, title_terminated) = read_c_string (sub_bytes kTitleOffset kTitleStorage bytes);
            g = g\<lparr>g_title := title\<rparr>
        in if \<not> title_terminated
           then game_failed ''HDL title is not NUL-terminated within the format limit'' g
        else
          let (startup, startup_terminated) = read_c_string (sub_bytes kStartupOffset kStartupStorage bytes);
              g = g\<lparr>g_startup := startup\<rparr>
          in if \<not> startup_terminated
             then game_failed ''HDL startup ID is not NUL-terminated within the format limit'' g
          else
            let media = load_u32_le bytes kMediaOffset;
                declared = bytes ! kPartCountOffset;
                g = g\<lparr>g_compat_flags := bytes ! kCompatOffset,
                      g_dma := load_u16_le bytes kDmaOffset,
                      g_layer_break := load_u32_le bytes kLayerBreakOffset,
                      g_media := (if media = 0x14 then Media_dvd else if media = 0x12 then Media_cd else g_media g),
                      g_declared_parts := declared\<rparr>
            in if declared = 0 \<or> kMaxAllocationEntries < unat declared
               then game_failed ''HDL allocation-table part count is outside 1..65'' g
            else
              let units = raw_units bytes (unat declared)
              in if units \<le> - 1 div 256
                 then
                   let expected_parts = min (p_sub_count p + 1) (of_nat kMaxAllocationEntries)
                   in \<lparr>gr_ok = True, gr_error = '''',
                       gr_game = g\<lparr>g_raw_size_bytes := units * 256,
                                   g_allocation_table_consistent := (ucast declared = expected_parts)\<rparr>\<rparr>
                 else game_failed ''HDL raw-size calculation overflows'' g)"

definition initial_game :: "partition \<Rightarrow> game_info" where
  "initial_game p =
     \<lparr>g_partition_id = p_id p, g_title = '''', g_startup = '''', g_start_lba = p_start_lba p,
      g_compat_flags = 0, g_dma = 0, g_layer_break = 0, g_media = Media_type_unknown,
      g_declared_parts = 0, g_raw_size_bytes = 0, g_allocated_size_bytes = partition_size_bytes p,
      g_allocation_table_consistent = False\<rparr>"

definition is_hdl_main :: "partition \<Rightarrow> bool" where
  "is_hdl_main p \<longleftrightarrow> \<not> is_sub p \<and> p_type p = kTypeHdl"

definition read_game_info :: "'s device \<Rightarrow> partition \<Rightarrow> ('s, game_result) state" where
  "read_game_info D p =
     (let g = initial_game p in
      if \<not> is_hdl_main p then ret (game_failed ''APA partition is not an HDL main partition'' g)
      else if \<not> range_fits kMetadataOffset (of_nat kMetadataBytes) (ucast (p_length_sectors p) * of_nat kSectorSize)
      then ret (game_failed ''HDL metadata header does not fit inside the main APA extent'' g)
      else if - 1 - kMetadataOffset < ucast (p_start_lba p) * of_nat kSectorSize
      then ret (game_failed ''HDL metadata offset overflows host address space'' g)
      else
        let metadata_offset = ucast (p_start_lba p) * of_nat kSectorSize + kMetadataOffset
        in do {
          device_size \<leftarrow> size_bytes D;
          if \<not> range_fits metadata_offset (of_nat kMetadataBytes) device_size
          then ret (game_failed ''HDL metadata header extends outside the backing device'' g)
          else do {
            raw \<leftarrow> dev_read D metadata_offset kMetadataBytes;
            case raw of
              None \<Rightarrow> ret (game_failed ''Could not read HDL metadata header'' g)
            | Some bytes \<Rightarrow> ret (parse_game p g bytes)
          }
        })"

section \<open>The catalog\<close>

record catalog_result =
  cat_entries :: "game_result list"
  cat_total_candidates :: nat
  cat_readable :: nat
  cat_unreadable :: nat
  cat_cancelled :: bool

text \<open>\<open>std::sort\<close> by start LBA.  Partitions with equal start may come in any order in the code; here
  they keep the scan order.\<close>

definition hdl_mains_by_lba :: "scan_result \<Rightarrow> partition list" where
  "hdl_mains_by_lba sr = sort_key p_start_lba (filter is_hdl_main (partitions sr))"

definition add_game :: "game_result \<Rightarrow> catalog_result \<Rightarrow> catalog_result" where
  "add_game r c =
     c\<lparr>cat_entries := cat_entries c @ [r],
       cat_readable := cat_readable c + (if gr_ok r then 1 else 0),
       cat_unreadable := cat_unreadable c + (if gr_ok r then 0 else 1)\<rparr>"

text \<open>\<open>stop i\<close> is what \<open>stop_requested\<close> answers when asked for the \<open>i\<close>-th time.  The second component
  of the result lists the calls of the progress callback.\<close>

type_synonym progress_log = "(nat \<times> nat \<times> game_result) list"

fun catalog_loop ::
  "'s device \<Rightarrow> (nat \<Rightarrow> bool) \<Rightarrow> nat \<Rightarrow> partition list \<Rightarrow> catalog_result \<Rightarrow> progress_log \<Rightarrow>
   ('s, catalog_result \<times> progress_log) state" where
  "catalog_loop D stop i [] c log = ret (c, log)"
| "catalog_loop D stop i (p # ps) c log =
     (if stop i then ret (c\<lparr>cat_cancelled := True\<rparr>, log)
      else do {
        r \<leftarrow> read_game_info D p;
        let c = add_game r c;
        catalog_loop D stop (i + 1) ps c (log @ [(length (cat_entries c), cat_total_candidates c, r)])
      })"

definition empty_catalog :: "nat \<Rightarrow> catalog_result" where
  "empty_catalog n =
     \<lparr>cat_entries = [], cat_total_candidates = n, cat_readable = 0, cat_unreadable = 0,
      cat_cancelled = False\<rparr>"

definition read_catalog ::
  "'s device \<Rightarrow> scan_result \<Rightarrow> (nat \<Rightarrow> bool) \<Rightarrow> ('s, catalog_result \<times> progress_log) state" where
  "read_catalog D sr stop =
     (let ps = hdl_mains_by_lba sr
      in catalog_loop D stop 0 ps (empty_catalog (length ps)) [])"

section \<open>The size never overflows\<close>

definition part_length :: "byte list \<Rightarrow> nat \<Rightarrow> u32" where
  "part_length bytes i = load_u32_le bytes (kAllocTableOffset + i * kAllocEntryBytes + 8)"

lemma part_lengths_le: "(\<Sum>i<n. unat (part_length bytes i)) \<le> n * 4294967296"
proof -
  have "(\<Sum>i<n. unat (part_length bytes i)) \<le> (\<Sum>i<n. 4294967296)"
    using unat_u32_less by (intro sum_mono) (auto intro: less_imp_le)
  then show ?thesis by simp
qed

lemma unat_raw_units:
  "n \<le> 65 \<Longrightarrow> unat (raw_units bytes n) = (\<Sum>i<n. unat (part_length bytes i))"
proof (induction n)
  case 0
  then show ?case by (simp add: raw_units_def)
next
  case (Suc n)
  have "unat (raw_units bytes n) + unat (part_length bytes n) < 18446744073709551616"
    using Suc part_lengths_le [of bytes n] unat_u32_less [of "part_length bytes n"] by simp
  then show ?case
    using Suc by (simp add: raw_units_def part_length_def unat_word_ariths)
qed

lemma raw_units_bound: "n \<le> 65 \<Longrightarrow> unat (raw_units bytes n) \<le> 65 * 4294967296"
  using part_lengths_le [of bytes n] by (simp add: unat_raw_units)

lemma units_fit: "n \<le> 65 \<Longrightarrow> raw_units bytes n \<le> 72057594037927935"
proof -
  assume "n \<le> 65"
  with raw_units_bound [OF \<open>n \<le> 65\<close>, of bytes] show ?thesis by (simp add: word_le_nat_alt)
qed

text \<open>The checks in the order of the code; the overflow branch is dead.\<close>

lemma parse_game_ok:
  "gr_ok (parse_game p g bytes) \<longleftrightarrow>
     load_u32_le bytes 0 = kHdlMagic \<and> 0 \<in> set (sub_bytes kTitleOffset kTitleStorage bytes) \<and>
     0 \<in> set (sub_bytes kStartupOffset kStartupStorage bytes) \<and>
     bytes ! kPartCountOffset \<noteq> 0 \<and> unat (bytes ! kPartCountOffset) \<le> 65"
  by (auto simp: parse_game_def game_failed_def read_c_string_def Let_def kMaxAllocationEntries_def units_fit)

text \<open>Of the 1536 metadata bytes of a game exactly these are required: the magic, a NUL in the title
  storage and in the startup storage, and a part count of 1 to 65.  The reported raw size is then the
  sum of the part lengths times 256, exactly: neither the sum nor the product can wrap, and the
  overflow error of the code cannot occur.\<close>

theorem hdl_size_exact:
  "gr_ok (parse_game p g bytes) =
     (load_u32_le bytes 0 = kHdlMagic \<and> 0 \<in> set (sub_bytes kTitleOffset kTitleStorage bytes) \<and>
      0 \<in> set (sub_bytes kStartupOffset kStartupStorage bytes) \<and>
      bytes ! kPartCountOffset \<noteq> 0 \<and> unat (bytes ! kPartCountOffset) \<le> 65) \<and>
   gr_error (parse_game p g bytes) \<noteq> ''HDL raw-size calculation overflows'' \<and>
   unat (g_raw_size_bytes (gr_game (parse_game p g bytes))) =
     (if gr_ok (parse_game p g bytes)
      then 256 * (\<Sum>i < unat (bytes ! kPartCountOffset). unat (part_length bytes i))
      else unat (g_raw_size_bytes g))"
proof (cases "gr_ok (parse_game p g bytes)")
  case True
  let ?n = "unat (bytes ! kPartCountOffset)"
  from True have n: "?n \<le> 65" by (simp add: parse_game_ok)
  have size: "unat (raw_units bytes ?n * 256) = 256 * (\<Sum>i < ?n. unat (part_length bytes i))"
    using raw_units_bound [OF n, of bytes] by (simp add: unat_word_ariths flip: unat_raw_units [OF n])
  from True have "gr_error (parse_game p g bytes) = '''' \<and>
      g_raw_size_bytes (gr_game (parse_game p g bytes)) = raw_units bytes ?n * 256"
    unfolding parse_game_ok
    by (simp add: parse_game_def read_c_string_def Let_def kMaxAllocationEntries_def units_fit)
  with True size show ?thesis by (simp add: parse_game_ok)
next
  case False
  then show ?thesis
    unfolding parse_game_ok
    by (auto simp: parse_game_def game_failed_def read_c_string_def Let_def kMaxAllocationEntries_def units_fit)
qed

section \<open>Encoding and parsing\<close>

text \<open>A metadata block as HDLoader writes it.\<close>

record hdl_block =
  hb_title :: string
  hb_compat :: u8
  hb_dma :: u16
  hb_startup :: string
  hb_layer_break :: u32
  hb_media :: u32
  hb_parts :: "(u32 \<times> u32 \<times> u32) list"

definition encode_part :: "u32 \<times> u32 \<times> u32 \<Rightarrow> byte list" where
  "encode_part = (\<lambda>(a, b, len). store_u32_le a @ store_u32_le b @ store_u32_le len)"

definition c_string :: "nat \<Rightarrow> string \<Rightarrow> byte list" where
  "c_string storage s = map byte_of_char s @ replicate (storage - length s) 0"

definition encode_block :: "hdl_block \<Rightarrow> byte list" where
  "encode_block b =
     store_u32_le kHdlMagic @ replicate 4 0 @ c_string 65 (hb_title b) @ replicate 96 0 @
     [hb_compat b] @ store_u16_le (hb_dma b) @ c_string 13 (hb_startup b) @ replicate 47 0 @
     store_u32_le (hb_layer_break b) @ store_u32_le (hb_media b) @ [of_nat (length (hb_parts b))] @
     replicate 4 0 @ concat (map encode_part (hb_parts b)) @ replicate (1291 - 12 * length (hb_parts b)) 0"

definition block_ok :: "hdl_block \<Rightarrow> bool" where
  "block_ok b \<longleftrightarrow>
     length (hb_title b) < 65 \<and> CHR 0x00 \<notin> set (hb_title b) \<and>
     length (hb_startup b) < 13 \<and> CHR 0x00 \<notin> set (hb_startup b) \<and>
     1 \<le> length (hb_parts b) \<and> length (hb_parts b) \<le> 65"

lemma length_encode_part [simp]: "length (encode_part x) = 12"
  by (cases x) (simp add: encode_part_def)

lemma length_encode_parts [simp]: "length (concat (map encode_part xs)) = 12 * length xs"
  by (induction xs) auto

lemma length_c_string [byte_simps]: "length s < n \<Longrightarrow> length (c_string n s) = n"
  by (simp add: c_string_def)

lemma byte_of_char_0: "byte_of_char c = 0 \<longleftrightarrow> c = CHR 0x00"
proof
  assume "byte_of_char c = 0"
  then have "char_of_byte (byte_of_char c) = char_of_byte 0" by (rule arg_cong)
  then have "c = char_of_byte 0" by (simp only: char_of_byte_of_char)
  then show "c = CHR 0x00" by (simp add: char_of_byte_def char_of_def)
qed (simp add: byte_of_char_def)

lemma read_c_string_encoded:
  assumes "length s < n" "CHR 0x00 \<notin> set s"
  shows "read_c_string (c_string n s) = (s, True)"
proof -
  have "takeWhile (\<lambda>b. b \<noteq> 0) (map byte_of_char s @ replicate (n - length s) 0) = map byte_of_char s"
    using assms by (subst takeWhile_append2) (auto simp: byte_of_char_0)
  with assms show ?thesis
    by (simp add: read_c_string_def c_string_def comp_def)
qed

lemma part_length_encoded:
  assumes "block_ok b" "i < length (hb_parts b)"
  shows "part_length (encode_block b) i = snd (snd (hb_parts b ! i))"
proof -
  let ?rest = "replicate (1291 - 12 * length (hb_parts b)) (0::byte)"
  let ?parts = "concat (map encode_part (hb_parts b)) @ ?rest"
  have "part_length (encode_block b) i = load_u32_le ?parts (12 * i + 8)"
    using assms(1)
    by (simp add: part_length_def encode_block_def block_ok_def kAllocTableOffset_def kAllocEntryBytes_def byte_simps
        mult.commute add.commute)
  also have "\<dots> = load_u32_le (sub_bytes (12 * i) 12 ?parts) 8"
    using assms(2) by (subst load_u32_sub_bytes) auto
  also have "\<dots> = load_u32_le (encode_part (hb_parts b ! i)) 8"
    using assms(2) by (simp add: sub_bytes_concat)
  also have "\<dots> = snd (snd (hb_parts b ! i))"
    by (cases "hb_parts b ! i") (simp add: encode_part_def byte_simps load_store_u32)
  finally show ?thesis .
qed

text \<open>Every well-formed HDLoader metadata block is read back field by field, and the consistency flag
  says whether the block's part table is as long as the partition's extent table.\<close>

theorem hdl_block_roundtrip:
  assumes "block_ok b"
  shows "parse_game p (initial_game p) (encode_block b) =
    \<lparr>gr_ok = True, gr_error = '''',
     gr_game = \<lparr>g_partition_id = p_id p, g_title = hb_title b, g_startup = hb_startup b,
       g_start_lba = p_start_lba p, g_compat_flags = hb_compat b, g_dma = hb_dma b,
       g_layer_break = hb_layer_break b,
       g_media = (if hb_media b = 0x14 then Media_dvd else if hb_media b = 0x12 then Media_cd else Media_type_unknown),
       g_declared_parts = of_nat (length (hb_parts b)),
       g_raw_size_bytes = of_nat (256 * sum_list (map (\<lambda>(_, _, len). unat len) (hb_parts b))),
       g_allocated_size_bytes = partition_size_bytes p,
       g_allocation_table_consistent = (length (hb_parts b) = unat (min (p_sub_count p + 1) 65))\<rparr>\<rparr>"
proof -
  let ?bs = "encode_block b" and ?n = "length (hb_parts b)"
  have n: "?n \<le> 65" "?n \<noteq> 0" using assms by (auto simp: block_ok_def)
  have len: "length (hb_title b) < 65" "length (hb_startup b) < 13" using assms by (simp_all add: block_ok_def)
  have fields: "load_u32_le ?bs 0 = kHdlMagic" "sub_bytes kTitleOffset kTitleStorage ?bs = c_string 65 (hb_title b)"
      "sub_bytes kStartupOffset kStartupStorage ?bs = c_string 13 (hb_startup b)"
      "load_u16_le ?bs kDmaOffset = hb_dma b"
      "load_u32_le ?bs kLayerBreakOffset = hb_layer_break b" "load_u32_le ?bs kMediaOffset = hb_media b"
    by (simp_all add: encode_block_def byte_simps len kTitleOffset_def kTitleStorage_def kStartupOffset_def
        kStartupStorage_def kDmaOffset_def kLayerBreakOffset_def kMediaOffset_def)
  have bytes: "?bs ! kCompatOffset = hb_compat b" "?bs ! kPartCountOffset = of_nat ?n"
    by (simp_all add: encode_block_def byte_simps len nth_append kCompatOffset_def kPartCountOffset_def)
  have un: "unat (of_nat ?n :: u8) = ?n" using n by (simp add: unat_of_nat)
  then have n0: "(of_nat ?n :: u8) \<noteq> 0" using n by (metis unat_0)
  have "unat (raw_units ?bs ?n) = (\<Sum>i<?n. unat (snd (snd (hb_parts b ! i))))"
    by (simp add: unat_raw_units [OF n(1)] part_length_encoded [OF assms])
  also have "\<dots> = sum_list (map (\<lambda>(_, _, len). unat len) (hb_parts b))"
    by (simp add: sum_list_sum_nth atLeast0LessThan case_prod_beta)
  finally have s: "unat (raw_units ?bs ?n) = sum_list (map (\<lambda>(_, _, len). unat len) (hb_parts b))" .
  have units: "raw_units ?bs ?n * 256 = of_nat (256 * sum_list (map (\<lambda>(_, _, len). unat len) (hb_parts b)))"
    by (simp add: mult.commute flip: s)
  have cons: "(ucast (of_nat ?n :: u8) = min (p_sub_count p + 1) 65) \<longleftrightarrow>
      ?n = unat (min (p_sub_count p + 1) 65)"
    using un n(1) by (simp add: word_unat_eq_iff unsigned_ucast_eq take_bit_nat_eq_self)
  have strings: "read_c_string (c_string 65 (hb_title b)) = (hb_title b, True)"
      "read_c_string (c_string 13 (hb_startup b)) = (hb_startup b, True)"
    using assms by (auto simp: block_ok_def intro!: read_c_string_encoded)
  show ?thesis
    using n n0 un
    by (simp add: parse_game_def fields bytes strings units cons units_fit Let_def kMaxAllocationEntries_def initial_game_def)
qed

section \<open>The catalog in physical order\<close>

lemma read_game_info_keeps_image: "run_state (read_game_info image_device p) im = (evalS (read_game_info image_device p) im, im)"
  by (auto simp: read_game_info_def evalS_def size_bytes_def run_image_read Let_def split: option.splits)

definition game_on :: "image \<Rightarrow> partition \<Rightarrow> game_result" where
  "game_on im p = evalS (read_game_info image_device p) im"

text \<open>How many of \<open>n\<close> turns run before a stop request is seen.\<close>

fun turns_before_stop :: "(nat \<Rightarrow> bool) \<Rightarrow> nat \<Rightarrow> nat \<Rightarrow> nat" where
  "turns_before_stop stop i 0 = 0"
| "turns_before_stop stop i (Suc n) = (if stop i then 0 else Suc (turns_before_stop stop (i + 1) n))"

lemma turns_before_stop_le: "turns_before_stop stop i n \<le> n"
  by (induction n arbitrary: i) auto

lemma turns_before_stop_never: "turns_before_stop (\<lambda>_. False) i n = n"
  by (induction n arbitrary: i) auto

definition catalog_of :: "nat \<Rightarrow> game_result list \<Rightarrow> catalog_result" where
  "catalog_of n rs =
     \<lparr>cat_entries = rs, cat_total_candidates = n, cat_readable = length (filter gr_ok rs),
      cat_unreadable = length (filter (\<lambda>r. \<not> gr_ok r) rs), cat_cancelled = length rs < n\<rparr>"

definition progress_of :: "nat \<Rightarrow> game_result list \<Rightarrow> progress_log" where
  "progress_of n rs = map (\<lambda>j. (j + 1, n, rs ! j)) [0 ..< length rs]"

lemma catalog_loop_image:
  assumes "length done + length ps = n"
  shows "run_state (catalog_loop image_device stop (length done) ps
      ((catalog_of n done)\<lparr>cat_cancelled := False\<rparr>) (progress_of n done)) im =
    (let rs = done @ map (game_on im) (take (turns_before_stop stop (length done) (length ps)) ps)
     in ((catalog_of n rs, progress_of n rs), im))"
  using assms
proof (induction ps arbitrary: "done")
  case Nil
  then show ?case by (simp add: catalog_of_def)
next
  case (Cons p ps)
  show ?case
  proof (cases "stop (length done)")
    case True
    then show ?thesis using Cons.prems by (simp add: catalog_of_def)
  next
    case False
    let ?r = "game_on im p"
    have step: "add_game ?r ((catalog_of n done)\<lparr>cat_cancelled := False\<rparr>) =
        (catalog_of n (done @ [?r]))\<lparr>cat_cancelled := False\<rparr>"
      by (simp add: add_game_def catalog_of_def)
    have log: "progress_of n done @ [(length (done @ [?r]), n, ?r)] = progress_of n (done @ [?r])"
      by (auto simp: progress_of_def nth_append)
    have "run_state (catalog_loop image_device stop (length done) (p # ps)
        ((catalog_of n done)\<lparr>cat_cancelled := False\<rparr>) (progress_of n done)) im =
      run_state (catalog_loop image_device stop (length (done @ [?r])) ps
        ((catalog_of n (done @ [?r]))\<lparr>cat_cancelled := False\<rparr>) (progress_of n (done @ [?r]))) im"
      using False
      by (simp add: read_game_info_keeps_image game_on_def [symmetric] Let_def step log [symmetric])
        (simp add: catalog_of_def)
    with Cons.IH [of "done @ [?r]"] Cons.prems False show ?thesis by simp
  qed
qed

lemma run_read_catalog:
  "evalS (read_catalog image_device sr stop) im =
     (let ps = hdl_mains_by_lba sr;
          rs = map (game_on im) (take (turns_before_stop stop 0 (length ps)) ps)
      in (catalog_of (length ps) rs, progress_of (length ps) rs))"
proof -
  have "empty_catalog n = (catalog_of n [])\<lparr>cat_cancelled := False\<rparr>" for n
    by (simp add: empty_catalog_def catalog_of_def)
  moreover have "progress_of n [] = []" for n by (simp add: progress_of_def)
  ultimately show ?thesis
    using catalog_loop_image [of "[]" "hdl_mains_by_lba sr" _ stop im]
    by (simp add: read_catalog_def evalS_def Let_def)
qed

text \<open>The serial catalog holds the games of the HDL main partitions in ascending start LBA, up to the
  first stop request; the counters are the numbers of readable and unreadable entries, the catalog is
  marked cancelled exactly when entries are missing, and the progress callback saw every entry once, in
  order, numbered from 1.\<close>

theorem read_catalog_image:
  "evalS (read_catalog image_device sr stop) im =
     (let ps = hdl_mains_by_lba sr;
          rs = map (game_on im) (take (turns_before_stop stop 0 (length ps)) ps)
      in (catalog_of (length ps) rs, progress_of (length ps) rs))"
  by (rule run_read_catalog)

lemma hdl_mains_sorted: "sorted (map p_start_lba (hdl_mains_by_lba sr))"
  by (simp add: hdl_mains_by_lba_def)

lemma mset_hdl_mains: "mset (hdl_mains_by_lba sr) = mset (filter is_hdl_main (partitions sr))"
  by (simp add: hdl_mains_by_lba_def)

context reliable_device
begin

lemma transparent_read_game_info [transparent_intros]:
  "transparent ok img (read_game_info D p) (read_game_info image_device p)"
  unfolding read_game_info_def Let_def by (intro transparent_intros)

lemma transparent_catalog_loop [transparent_intros]:
  "transparent ok img (catalog_loop D stop i ps c log) (catalog_loop image_device stop i ps c log)"
proof (induction ps arbitrary: i c log)
  case Nil
  show ?case unfolding catalog_loop.simps by (rule transparent_ret)
next
  case (Cons p ps)
  show ?case unfolding catalog_loop.simps Let_def by (intro transparent_intros Cons.IH)
qed

lemma transparent_read_catalog [transparent_intros]:
  "transparent ok img (read_catalog D sr stop) (read_catalog image_device sr stop)"
  unfolding read_catalog_def Let_def by (intro transparent_intros)

end

end
