(* ===== verification/PartitionCatalog.thy ===== *)
theory PartitionCatalog
  imports Hdl
begin

text \<open>
  The in-memory HDD-manager data: \<open>src/core/partition_catalog.cpp\<close> builds the list of partitions and
  its totals from an APA scan, \<open>src/host/management_model.cpp\<close> keeps the rows and the progress
  counters while the results of the HDL metadata reads arrive.
\<close>

section \<open>The partition catalog\<close>

datatype catalog_kind = Kind_mbr | Kind_pfs | Kind_hdl | Kind_free_space | Kind_other

record catalog_entry =
  ce_id :: string
  ce_kind :: catalog_kind
  ce_raw_type :: u16
  ce_flags :: u16
  ce_start_lba :: u32
  ce_main_lba :: u32
  ce_number :: u32
  ce_sub_count :: u32
  ce_size_bytes :: u64
  ce_is_sub :: bool

record partition_catalog =
  pc_entries :: "catalog_entry list"
  pc_main_partitions :: nat
  pc_sub_partitions :: nat
  pc_hdl_partitions :: nat
  pc_pfs_partitions :: nat
  pc_hdl_bytes :: u64
  pc_pfs_bytes :: u64
  pc_free_bytes :: u64

definition catalog_kind_of :: "u16 \<Rightarrow> catalog_kind" where
  "catalog_kind_of t =
     (if t = kTypeMbr then Kind_mbr
      else if t = kTypePfs then Kind_pfs
      else if t = kTypeHdl then Kind_hdl
      else if t = kTypeFree then Kind_free_space
      else Kind_other)"

definition entry_of :: "partition \<Rightarrow> catalog_entry" where
  "entry_of p =
     \<lparr>ce_id = p_id p, ce_kind = catalog_kind_of (p_type p), ce_raw_type = p_type p, ce_flags = p_flags p,
      ce_start_lba = p_start_lba p, ce_main_lba = p_main_lba p, ce_number = p_number p,
      ce_sub_count = p_sub_count p, ce_size_bytes = partition_size_bytes p, ce_is_sub = is_sub p\<rparr>"

definition add_totals :: "partition \<Rightarrow> partition_catalog \<Rightarrow> partition_catalog" where
  "add_totals p c =
     (if p_type p = kTypeHdl
      then c\<lparr>pc_hdl_partitions := pc_hdl_partitions c + 1,
             pc_hdl_bytes := pc_hdl_bytes c + partition_size_bytes p\<rparr>
      else if p_type p = kTypePfs
      then c\<lparr>pc_pfs_partitions := pc_pfs_partitions c + 1,
             pc_pfs_bytes := pc_pfs_bytes c + partition_size_bytes p\<rparr>
      else if p_type p = kTypeFree
      then c\<lparr>pc_free_bytes := pc_free_bytes c + partition_size_bytes p\<rparr>
      else c)"

definition catalog_step :: "bool \<Rightarrow> partition_catalog \<Rightarrow> partition \<Rightarrow> partition_catalog" where
  "catalog_step include_subs c p =
     (if is_sub p
      then
        let c = c\<lparr>pc_sub_partitions := pc_sub_partitions c + 1\<rparr>
        in if \<not> include_subs then c else c\<lparr>pc_entries := pc_entries c @ [entry_of p]\<rparr>
      else
        let c = c\<lparr>pc_main_partitions := pc_main_partitions c + 1\<rparr>
        in add_totals p (c\<lparr>pc_entries := pc_entries c @ [entry_of p]\<rparr>))"

definition empty_partition_catalog :: partition_catalog where
  "empty_partition_catalog =
     \<lparr>pc_entries = [], pc_main_partitions = 0, pc_sub_partitions = 0, pc_hdl_partitions = 0,
      pc_pfs_partitions = 0, pc_hdl_bytes = 0, pc_pfs_bytes = 0, pc_free_bytes = 0\<rparr>"

definition build_partition_catalog :: "scan_result \<Rightarrow> bool \<Rightarrow> partition_catalog" where
  "build_partition_catalog sr include_subs =
     foldl (catalog_step include_subs) empty_partition_catalog (partitions sr)"

definition mains_of_type :: "u16 \<Rightarrow> partition list \<Rightarrow> partition list" where
  "mains_of_type t ps = filter (\<lambda>p. \<not> is_sub p \<and> p_type p = t) ps"

definition bytes_of :: "partition list \<Rightarrow> u64" where
  "bytes_of ps = sum_list (map partition_size_bytes ps)"

lemma types_distinct [simp]:
  "kTypePfs \<noteq> kTypeHdl" "kTypeFree \<noteq> kTypeHdl" "kTypeFree \<noteq> kTypePfs"
  "kTypeHdl \<noteq> kTypePfs" "kTypeHdl \<noteq> kTypeFree" "kTypePfs \<noteq> kTypeFree"
  by (simp_all add: kTypePfs_def kTypeHdl_def kTypeFree_def)

definition catalog_spec :: "bool \<Rightarrow> partition list \<Rightarrow> partition_catalog" where
  "catalog_spec include_subs ps =
     \<lparr>pc_entries = map entry_of (filter (\<lambda>p. include_subs \<or> \<not> is_sub p) ps),
      pc_main_partitions = length (filter (\<lambda>p. \<not> is_sub p) ps),
      pc_sub_partitions = length (filter is_sub ps),
      pc_hdl_partitions = length (mains_of_type kTypeHdl ps),
      pc_pfs_partitions = length (mains_of_type kTypePfs ps),
      pc_hdl_bytes = bytes_of (mains_of_type kTypeHdl ps),
      pc_pfs_bytes = bytes_of (mains_of_type kTypePfs ps),
      pc_free_bytes = bytes_of (mains_of_type kTypeFree ps)\<rparr>"

lemma catalog_spec_snoc:
  "catalog_step include_subs (catalog_spec include_subs ps) p = catalog_spec include_subs (ps @ [p])"
  by (auto simp: catalog_step_def catalog_spec_def add_totals_def mains_of_type_def bytes_of_def Let_def)

text \<open>The catalog lists every partition of the scan in order (sub-partitions on request), and its
  counters and byte totals are those of the main partitions of each type; sub-partitions are counted
  but never add bytes, because a main partition's size already includes its sub-partitions.\<close>

theorem partition_catalog_totals:
  "build_partition_catalog sr include_subs = catalog_spec include_subs (partitions sr)"
proof -
  have "foldl (catalog_step include_subs) (catalog_spec include_subs ps) qs =
      catalog_spec include_subs (ps @ qs)" for ps qs
    by (induction qs arbitrary: ps) (simp_all add: catalog_spec_snoc)
  from this [of "[]"] show ?thesis
    by (simp add: build_partition_catalog_def catalog_spec_def empty_partition_catalog_def
        mains_of_type_def bytes_of_def)
qed

section \<open>The management model\<close>

datatype enrichment_state = Not_applicable | Pending | Ready | Failed

record management_row =
  row_partition :: catalog_entry
  row_state :: enrichment_state
  row_game :: "game_info option"
  row_error :: string

record management_progress =
  total_hdl :: nat
  pending_hdl :: nat
  ready_hdl :: nat
  failed_hdl :: nat

record management_model =
  mm_rows :: "management_row list"
  mm_by_lba :: "u32 \<rightharpoonup> nat"
  mm_progress :: management_progress

definition is_hdl_entry :: "catalog_entry \<Rightarrow> bool" where
  "is_hdl_entry e \<longleftrightarrow> \<not> ce_is_sub e \<and> ce_kind e = Kind_hdl"

definition add_row :: "management_model \<Rightarrow> catalog_entry \<Rightarrow> management_model" where
  "add_row m e =
     (let hdl = is_hdl_entry e;
          row = \<lparr>row_partition = e, row_state = (if hdl then Pending else Not_applicable),
                 row_game = None, row_error = ''''\<rparr>;
          m' = (if hdl
                then m\<lparr>mm_by_lba := (case mm_by_lba m (ce_start_lba e) of
                         Some _ \<Rightarrow> mm_by_lba m
                       | None \<Rightarrow> (mm_by_lba m)(ce_start_lba e \<mapsto> length (mm_rows m))),
                       mm_progress := (mm_progress m)\<lparr>total_hdl := total_hdl (mm_progress m) + 1,
                         pending_hdl := pending_hdl (mm_progress m) + 1\<rparr>\<rparr>
                else m)
      in m'\<lparr>mm_rows := mm_rows m' @ [row]\<rparr>)"

definition empty_model :: management_model where
  "empty_model =
     \<lparr>mm_rows = [], mm_by_lba = (\<lambda>_. None),
      mm_progress = \<lparr>total_hdl = 0, pending_hdl = 0, ready_hdl = 0, failed_hdl = 0\<rparr>\<rparr>"

definition management_model :: "partition_catalog \<Rightarrow> management_model" where
  "management_model c = foldl add_row empty_model (pc_entries c)"

definition leave_state :: "enrichment_state \<Rightarrow> management_progress \<Rightarrow> management_progress" where
  "leave_state st p =
     (if st = Pending \<and> pending_hdl p \<noteq> 0 then p\<lparr>pending_hdl := pending_hdl p - 1\<rparr>
      else if st = Ready \<and> ready_hdl p \<noteq> 0 then p\<lparr>ready_hdl := ready_hdl p - 1\<rparr>
      else if st = Failed \<and> failed_hdl p \<noteq> 0 then p\<lparr>failed_hdl := failed_hdl p - 1\<rparr>
      else p)"

definition apply_hdl_result :: "game_result \<Rightarrow> management_model \<Rightarrow> nat option \<times> management_model" where
  "apply_hdl_result r m =
     (case mm_by_lba m (g_start_lba (gr_game r)) of
        None \<Rightarrow> (None, m)
      | Some i \<Rightarrow>
          let row = mm_rows m ! i;
              p = leave_state (row_state row) (mm_progress m);
              row = row\<lparr>row_game := None, row_error := ''''\<rparr>
          in if gr_ok r
             then (Some i, m\<lparr>mm_rows := (mm_rows m)[i := row\<lparr>row_state := Ready, row_game := Some (gr_game r)\<rparr>],
                             mm_progress := p\<lparr>ready_hdl := ready_hdl p + 1\<rparr>\<rparr>)
             else (Some i, m\<lparr>mm_rows := (mm_rows m)[i := row\<lparr>row_state := Failed, row_error := gr_error r\<rparr>],
                             mm_progress := p\<lparr>failed_hdl := failed_hdl p + 1\<rparr>\<rparr>))"

definition apply_all :: "game_result list \<Rightarrow> management_model \<Rightarrow> management_model" where
  "apply_all rs m = foldl (\<lambda>m r. snd (apply_hdl_result r m)) m rs"

subsection \<open>The counters are the states\<close>

definition rows_in :: "enrichment_state \<Rightarrow> management_model \<Rightarrow> nat" where
  "rows_in st m = length (filter (\<lambda>r. row_state r = st) (mm_rows m))"

definition hdl_rows :: "management_model \<Rightarrow> nat" where
  "hdl_rows m = length (filter (\<lambda>r. is_hdl_entry (row_partition r)) (mm_rows m))"

definition counters_ok :: "management_model \<Rightarrow> bool" where
  "counters_ok m \<longleftrightarrow>
     mm_progress m = \<lparr>total_hdl = hdl_rows m, pending_hdl = rows_in Pending m,
       ready_hdl = rows_in Ready m, failed_hdl = rows_in Failed m\<rparr>"

definition rows_ok :: "management_model \<Rightarrow> bool" where
  "rows_ok m \<longleftrightarrow>
     (\<forall>r \<in> set (mm_rows m). row_state r = Not_applicable \<longleftrightarrow> \<not> is_hdl_entry (row_partition r))"

text \<open>The index maps an LBA to the first HDL row that starts there.\<close>

definition first_row :: "catalog_entry list \<Rightarrow> u32 \<Rightarrow> nat option" where
  "first_row es lba =
     (let P = (\<lambda>i. is_hdl_entry (es ! i) \<and> ce_start_lba (es ! i) = lba)
      in find P [0 ..< length es])"

definition model_ok :: "catalog_entry list \<Rightarrow> management_model \<Rightarrow> bool" where
  "model_ok es m \<longleftrightarrow>
     map row_partition (mm_rows m) = es \<and> mm_by_lba m = first_row es \<and> rows_ok m \<and> counters_ok m"

lemma first_row_snoc:
  "first_row (es @ [e]) lba =
     (case first_row es lba of Some i \<Rightarrow> Some i
      | None \<Rightarrow> if is_hdl_entry e \<and> ce_start_lba e = lba then Some (length es) else None)"
proof -
  have "find P (xs @ [x]) = (case find P xs of Some i \<Rightarrow> Some i | None \<Rightarrow> if P x then Some x else None)"
    for P and xs :: "nat list" and x
    by (induction xs) auto
  moreover have "find (\<lambda>i. is_hdl_entry ((es @ [e]) ! i) \<and> ce_start_lba ((es @ [e]) ! i) = lba) [0 ..< length es] =
      find (\<lambda>i. is_hdl_entry (es ! i) \<and> ce_start_lba (es ! i) = lba) [0 ..< length es]"
    by (rule find_cong) (auto simp: nth_append)
  ultimately show ?thesis by (auto simp: first_row_def nth_append split: option.splits)
qed

lemma first_row_Some:
  "first_row es lba = Some i \<Longrightarrow>
   i < length es \<and> is_hdl_entry (es ! i) \<and> ce_start_lba (es ! i) = lba"
  by (auto simp: first_row_def find_Some_iff)

lemma model_ok_empty: "model_ok [] empty_model"
  by (auto simp: model_ok_def empty_model_def first_row_def rows_ok_def counters_ok_def hdl_rows_def rows_in_def)

lemma add_row_ok: "model_ok es m \<Longrightarrow> model_ok (es @ [e]) (add_row m e)"
  by (auto simp: model_ok_def add_row_def Let_def rows_ok_def counters_ok_def hdl_rows_def rows_in_def
      first_row_snoc fun_eq_iff split: option.splits)

lemma management_model_ok: "model_ok (pc_entries c) (management_model c)"
proof -
  have "model_ok es m \<Longrightarrow> model_ok (es @ fs) (foldl add_row m fs)" for es m fs
  proof (induction fs arbitrary: es m)
    case (Cons f fs)
    from Cons.IH [OF add_row_ok [OF Cons.prems]] show ?case by simp
  qed simp
  from this [OF model_ok_empty] show ?thesis by (simp add: management_model_def)
qed

lemma length_filter_update:
  "i < length xs \<Longrightarrow>
   length (filter P (xs[i := y])) + (if P (xs ! i) then 1 else 0) = length (filter P xs) + (if P y then 1 else 0)"
proof (induction xs arbitrary: i)
  case (Cons x xs)
  then show ?case by (cases i) auto
qed simp

lemma rows_in_pos: "\<lbrakk>i < length (mm_rows m); row_state (mm_rows m ! i) = st\<rbrakk> \<Longrightarrow> 0 < rows_in st m"
  by (auto simp: rows_in_def filter_empty_conv)

definition set_row :: "nat \<Rightarrow> management_row \<Rightarrow> management_model \<Rightarrow> management_model" where
  "set_row i row m = m\<lparr>mm_rows := (mm_rows m)[i := row]\<rparr>"

lemma rows_in_set_row:
  "i < length (mm_rows m) \<Longrightarrow>
   rows_in st (set_row i row m) + (if row_state (mm_rows m ! i) = st then 1 else 0) =
   rows_in st m + (if row_state row = st then 1 else 0)"
  using length_filter_update [of i "mm_rows m" "\<lambda>r. row_state r = st" row]
  by (simp add: rows_in_def set_row_def)

text \<open>One result: the state it leaves loses a row, the state it enters gains one.\<close>

lemma counters_set_row:
  assumes "counters_ok m" "i < length (mm_rows m)" "row_state (mm_rows m ! i) \<noteq> Not_applicable"
    and "row_partition row = row_partition (mm_rows m ! i)" "row_state row = st" "st = Ready \<or> st = Failed"
  defines "p \<equiv> leave_state (row_state (mm_rows m ! i)) (mm_progress m)"
  shows "counters_ok ((set_row i row m)\<lparr>mm_progress :=
    (if st = Ready then p\<lparr>ready_hdl := ready_hdl p + 1\<rparr> else p\<lparr>failed_hdl := failed_hdl p + 1\<rparr>)\<rparr>)"
proof -
  let ?old = "row_state (mm_rows m ! i)"
  have hdl: "hdl_rows (set_row i row m) = hdl_rows m"
    using length_filter_update [OF assms(2), of "\<lambda>r. is_hdl_entry (row_partition r)" row] assms(4)
    by (simp add: hdl_rows_def set_row_def split: if_splits)
  have rows: "hdl_rows (m'\<lparr>mm_progress := q\<rparr>) = hdl_rows m'" "rows_in s (m'\<lparr>mm_progress := q\<rparr>) = rows_in s m'" for m' q s
    by (simp_all add: hdl_rows_def rows_in_def)
  have prog: "mm_progress m = \<lparr>total_hdl = hdl_rows m, pending_hdl = rows_in Pending m,
      ready_hdl = rows_in Ready m, failed_hdl = rows_in Failed m\<rparr>"
    using assms(1) by (simp add: counters_ok_def)
  note moves = rows_in_set_row [OF assms(2), of _ row, unfolded assms(5)]
  note counts = moves [of Pending] moves [of Ready] moves [of Failed]
  have pos: "0 < rows_in ?old m" by (rule rows_in_pos [OF assms(2) refl])
  show ?thesis
    using assms(3,6) counts pos
    by (cases ?old; elim disjE; simp add: p_def counters_ok_def rows hdl prog leave_state_def; linarith?)
qed

lemma apply_ok:
  assumes "model_ok es m"
  shows "model_ok es (snd (apply_hdl_result r m))"
proof (cases "mm_by_lba m (g_start_lba (gr_game r))")
  case None
  with assms show ?thesis by (simp add: apply_hdl_result_def)
next
  case (Some i)
  let ?row = "mm_rows m ! i"
  define st where "st = (if gr_ok r then Ready else Failed)"
  define row where "row = (if gr_ok r
    then ?row\<lparr>row_error := '''', row_state := Ready, row_game := Some (gr_game r)\<rparr>
    else ?row\<lparr>row_game := None, row_state := Failed, row_error := gr_error r\<rparr>)"
  have es: "map row_partition (mm_rows m) = es" and by_lba: "mm_by_lba m = first_row es"
    and rows: "rows_ok m" and counters: "counters_ok m"
    using assms by (auto simp: model_ok_def)
  have "first_row es (g_start_lba (gr_game r)) = Some i" using Some by_lba by simp
  from first_row_Some [OF this] have i: "i < length (mm_rows m)" "is_hdl_entry (row_partition ?row)"
    using es by auto
  have app: "row_state ?row \<noteq> Not_applicable" using rows i by (simp add: rows_ok_def)
  let ?p = "leave_state (row_state ?row) (mm_progress m)"
  let ?m = "(set_row i row m)\<lparr>mm_progress :=
    (if st = Ready then ?p\<lparr>ready_hdl := ready_hdl ?p + 1\<rparr> else ?p\<lparr>failed_hdl := failed_hdl ?p + 1\<rparr>)\<rparr>"
  have m': "snd (apply_hdl_result r m) = ?m"
    using Some by (simp add: apply_hdl_result_def set_row_def row_def st_def Let_def)
  have "counters_ok ?m"
    by (rule counters_set_row [OF counters i(1) app]) (auto simp: row_def st_def)
  moreover have "map row_partition (mm_rows ?m) = es"
    using es i(1) by (simp add: set_row_def map_update row_def flip: list_update_id)
      (metis i(1) list_update_id map_update)
  moreover have "rows_ok ?m"
    using rows i unfolding rows_ok_def set_row_def
    by (auto simp: row_def dest!: set_update_subset_insert [THEN subsetD])
  ultimately show ?thesis unfolding m' using by_lba by (simp add: model_ok_def set_row_def)
qed

lemma apply_all_ok: "model_ok es m \<Longrightarrow> model_ok es (apply_all rs m)"
  unfolding apply_all_def by (induction rs arbitrary: m) (auto simp: apply_ok)

text \<open>C39: Whatever results arrive in whatever order, repeats and results of foreign sessions included, the
  counters are the numbers of rows in each state, they add up to the number of HDL rows, and the rows
  stay those of the catalog.\<close>

theorem management_counters:
  "mm_progress (apply_all rs (management_model c)) =
     \<lparr>total_hdl = length (filter is_hdl_entry (pc_entries c)),
      pending_hdl = rows_in Pending (apply_all rs (management_model c)),
      ready_hdl = rows_in Ready (apply_all rs (management_model c)),
      failed_hdl = rows_in Failed (apply_all rs (management_model c))\<rparr> \<and>
   rows_in Pending (apply_all rs (management_model c)) + rows_in Ready (apply_all rs (management_model c)) +
     rows_in Failed (apply_all rs (management_model c)) = length (filter is_hdl_entry (pc_entries c)) \<and>
   map row_partition (mm_rows (apply_all rs (management_model c))) = pc_entries c"
proof -
  let ?m = "apply_all rs (management_model c)"
  have ok: "model_ok (pc_entries c) ?m" by (intro apply_all_ok management_model_ok)
  then have es: "map row_partition (mm_rows ?m) = pc_entries c" by (simp add: model_ok_def)
  then have hdl: "hdl_rows ?m = length (filter is_hdl_entry (pc_entries c))"
    by (simp add: hdl_rows_def comp_def length_filter_map flip: es)
  have sum: "length (filter (\<lambda>r. row_state r = Pending) rs) + length (filter (\<lambda>r. row_state r = Ready) rs) +
      length (filter (\<lambda>r. row_state r = Failed) rs) = length (filter (\<lambda>r. row_state r \<noteq> Not_applicable) rs)" for rs :: "management_row list"
  proof (induction rs)
    case (Cons r rs)
    then show ?case by (cases "row_state r") auto
  qed simp
  have "filter (\<lambda>r. row_state r \<noteq> Not_applicable) (mm_rows ?m) =
      filter (\<lambda>r. is_hdl_entry (row_partition r)) (mm_rows ?m)"
    using ok by (intro filter_cong) (auto simp: model_ok_def rows_ok_def)
  with sum [of "mm_rows ?m"] have "rows_in Pending ?m + rows_in Ready ?m + rows_in Failed ?m = hdl_rows ?m"
    by (simp add: rows_in_def hdl_rows_def)
  with ok es hdl show ?thesis by (simp add: model_ok_def counters_ok_def)
qed

text \<open>A result is applied to the first HDL row that starts at its LBA, whatever came before: that row
  becomes ready with the game or failed with the error, no other row changes, and a result for an LBA
  without an HDL row changes nothing.\<close>

theorem apply_hdl_result_row:
  "(let m = apply_all rs (management_model c); m' = snd (apply_hdl_result r m)
    in fst (apply_hdl_result r m) = first_row (pc_entries c) (g_start_lba (gr_game r)) \<and>
       (case first_row (pc_entries c) (g_start_lba (gr_game r)) of
          None \<Rightarrow> m' = m
        | Some i \<Rightarrow>
            mm_rows m' = (mm_rows m)[i :=
              \<lparr>row_partition = pc_entries c ! i, row_state = (if gr_ok r then Ready else Failed),
               row_game = (if gr_ok r then Some (gr_game r) else None),
               row_error = (if gr_ok r then '''' else gr_error r)\<rparr>] \<and>
            mm_by_lba m' = mm_by_lba m))"
proof -
  let ?m = "apply_all rs (management_model c)"
  have ok: "model_ok (pc_entries c) ?m" by (intro apply_all_ok management_model_ok)
  then have es: "map row_partition (mm_rows ?m) = pc_entries c" by (simp add: model_ok_def)
  have part: "row_partition (mm_rows ?m ! i) = pc_entries c ! i" if "i < length (pc_entries c)" for i
    using that by (simp flip: es)
  let ?lba = "g_start_lba (gr_game r)"
  have by_lba: "mm_by_lba ?m ?lba = first_row (pc_entries c) ?lba" using ok by (simp add: model_ok_def)
  show ?thesis
  proof (cases "first_row (pc_entries c) ?lba")
    case None
    with by_lba show ?thesis by (simp add: Let_def apply_hdl_result_def)
  next
    case (Some i)
    from first_row_Some [OF this] have p: "row_partition (mm_rows ?m ! i) = pc_entries c ! i"
      by (simp add: part)
    obtain row where row: "mm_rows ?m ! i = row" by simp
    show ?thesis
      using p unfolding Let_def apply_hdl_result_def by_lba Some option.case row
      by (cases row) simp
  qed
qed

lemma mm_rows_initial:
  "mm_rows (management_model c) =
     map (\<lambda>e. \<lparr>row_partition = e, row_state = (if is_hdl_entry e then Pending else Not_applicable),
       row_game = None, row_error = ''''\<rparr>) (pc_entries c)"
proof -
  have "mm_rows (foldl add_row m es) = mm_rows m @
      map (\<lambda>e. \<lparr>row_partition = e, row_state = (if is_hdl_entry e then Pending else Not_applicable),
        row_game = None, row_error = ''''\<rparr>) es" for m es
    by (induction es arbitrary: m) (simp_all add: add_row_def Let_def)
  then show ?thesis by (simp add: management_model_def empty_model_def)
qed

lemma unindexed_row_stays:
  assumes "model_ok es m" "\<And>lba. first_row es lba \<noteq> Some j" "j < length es"
  shows "mm_rows (apply_all rs m) ! j = mm_rows m ! j"
  using assms(1)
proof (induction rs arbitrary: m)
  case Nil
  then show ?case by (simp add: apply_all_def)
next
  case (Cons r rs)
  let ?m = "snd (apply_hdl_result r m)"
  have "mm_rows ?m ! j = mm_rows m ! j"
    using Cons.prems assms(2) [of "g_start_lba (gr_game r)"]
    by (auto simp: apply_hdl_result_def Let_def model_ok_def split: option.splits)
  moreover have "mm_rows (apply_all rs ?m) ! j = mm_rows ?m ! j"
    by (rule Cons.IH [OF apply_ok [OF Cons.prems]])
  ultimately show ?case by (simp add: apply_all_def)
qed

text \<open>C40: A second HDL main partition that claims the start LBA of an earlier one never leaves the pending
  state: the index keeps the first row only.  (The scanner reports such a header with a warning, not an
  error, so the catalog can contain it.)\<close>

theorem duplicate_lba_stays_pending:
  assumes "i < j" "j < length (pc_entries c)" "is_hdl_entry (pc_entries c ! i)" "is_hdl_entry (pc_entries c ! j)"
    and "ce_start_lba (pc_entries c ! i) = ce_start_lba (pc_entries c ! j)"
  shows "row_state (mm_rows (apply_all rs (management_model c)) ! j) = Pending \<and>
    pending_hdl (mm_progress (apply_all rs (management_model c))) \<noteq> 0"
proof -
  let ?m = "apply_all rs (management_model c)"
  have "first_row (pc_entries c) lba \<noteq> Some j" for lba
    using assms by (auto simp: first_row_def find_Some_iff)
  from unindexed_row_stays [OF management_model_ok this assms(2)]
  have "mm_rows ?m ! j = mm_rows (management_model c) ! j" by simp
  then have pending: "row_state (mm_rows ?m ! j) = Pending"
    using assms(2,4) by (simp add: mm_rows_initial)
  have ok: "model_ok (pc_entries c) ?m" by (intro apply_all_ok management_model_ok)
  then have "map row_partition (mm_rows ?m) = pc_entries c" by (simp add: model_ok_def)
  then have "j < length (mm_rows ?m)" using assms(2) by (metis length_map)
  from rows_in_pos [OF this pending] ok pending show ?thesis
    by (simp add: model_ok_def counters_ok_def)
qed

end
