(* ===== verification/Instrumented.thy ===== *)
theory Instrumented
  imports BlockDevice
begin

text \<open>
  \<open>InstrumentedBlockDevice\<close> (\<open>include/ps2hdd/instrumented_block_device.hpp\<close>): counters
  around every read of the wrapped device.  A read is split where the code can be interrupted
  by another thread: \<open>ib_begin\<close> is everything before the inner read, \<open>ib_finish\<close> everything
  after it.  The steady clock is a function \<open>now\<close> of the inner state.
\<close>

record 's instrumented =
  ib_inner :: 's
  ib_read_calls :: u64
  ib_bytes_requested :: u64
  ib_failed_reads :: u64
  ib_largest_read :: u64
  ib_small_read_calls :: u64
  ib_read_time_ns :: u64
  ib_in_flight :: u64
  ib_max_in_flight :: u64

record block_io_stats =
  io_read_calls :: u64
  io_bytes_requested :: u64
  io_failed_reads :: u64
  io_largest_read :: u64
  io_small_read_calls :: u64
  io_read_time_ns :: u64
  io_max_in_flight :: u64

definition instrumented :: "'s \<Rightarrow> 's instrumented" where
  "instrumented s =
     \<lparr>ib_inner = s, ib_read_calls = 0, ib_bytes_requested = 0, ib_failed_reads = 0,
      ib_largest_read = 0, ib_small_read_calls = 0, ib_read_time_ns = 0, ib_in_flight = 0,
      ib_max_in_flight = 0\<rparr>"

text \<open>The compare-exchange loops store the larger of the two values.\<close>

definition ib_begin :: "nat \<Rightarrow> 's instrumented \<Rightarrow> 's instrumented" where
  "ib_begin n st =
     (let active = ib_in_flight st + 1 in
      st\<lparr>ib_read_calls := ib_read_calls st + 1,
         ib_bytes_requested := ib_bytes_requested st + of_nat n,
         ib_small_read_calls := (if n \<le> 4096 then ib_small_read_calls st + 1 else ib_small_read_calls st),
         ib_largest_read := max (ib_largest_read st) (of_nat n),
         ib_in_flight := active,
         ib_max_in_flight := max (ib_max_in_flight st) active\<rparr>)"

definition ib_finish :: "int \<Rightarrow> bool \<Rightarrow> 's instrumented \<Rightarrow> 's instrumented" where
  "ib_finish elapsed succeeded st =
     st\<lparr>ib_read_time_ns := ib_read_time_ns st + word_of_int (max elapsed 0),
        ib_in_flight := ib_in_flight st - 1,
        ib_failed_reads := (if succeeded then ib_failed_reads st else ib_failed_reads st + 1)\<rparr>"

definition ib_read ::
  "('s \<Rightarrow> int) \<Rightarrow> 's device \<Rightarrow> u64 \<Rightarrow> nat \<Rightarrow> ('s instrumented, byte list option) state" where
  "ib_read now D off n = State (\<lambda>st.
     let st1 = ib_begin n st;
         started = now (ib_inner st1);
         (r, s') = run_state (dev_read D off n) (ib_inner st1);
         elapsed = now s' - started
     in (r, ib_finish elapsed (r \<noteq> None) (st1\<lparr>ib_inner := s'\<rparr>)))"

definition ib_device :: "('s \<Rightarrow> int) \<Rightarrow> 's device \<Rightarrow> 's instrumented device" where
  "ib_device now D =
     \<lparr>dev_size = dev_size D \<circ> ib_inner, dev_name = dev_name D \<circ> ib_inner,
      dev_characteristics = dev_characteristics D \<circ> ib_inner, dev_read = ib_read now D\<rparr>"

definition ib_stats :: "'s instrumented \<Rightarrow> block_io_stats" where
  "ib_stats st =
     \<lparr>io_read_calls = ib_read_calls st, io_bytes_requested = ib_bytes_requested st,
      io_failed_reads = ib_failed_reads st, io_largest_read = ib_largest_read st,
      io_small_read_calls = ib_small_read_calls st, io_read_time_ns = ib_read_time_ns st,
      io_max_in_flight = ib_max_in_flight st\<rparr>"

definition ib_reset_stats :: "'s instrumented \<Rightarrow> 's instrumented" where
  "ib_reset_stats st =
     st\<lparr>ib_read_calls := 0, ib_bytes_requested := 0, ib_failed_reads := 0, ib_largest_read := 0,
        ib_small_read_calls := 0, ib_read_time_ns := 0, ib_max_in_flight := ib_in_flight st\<rparr>"

section \<open>The wrapper keeps the contract\<close>

lemma ib_inner_simps [simp]:
  "ib_inner (ib_begin n st) = ib_inner st"
  "ib_inner (ib_finish e b st) = ib_inner st"
  "ib_inner (ib_reset_stats st) = ib_inner st"
  "ib_inner (instrumented s) = s"
  by (simp_all add: ib_begin_def ib_finish_def ib_reset_stats_def instrumented_def Let_def)

lemma ib_read_inner:
  "run_state (ib_read now D off n) st = (r, st') \<Longrightarrow>
   run_state (dev_read D off n) (ib_inner st) = (r, ib_inner st')"
  by (auto simp: ib_read_def Let_def split: prod.splits)

lemma ib_read_result:
  "fst (run_state (ib_read now D off n) st) = fst (run_state (dev_read D off n) (ib_inner st))"
  by (auto simp: ib_read_def Let_def split: prod.splits)

lemma ib_device_sels [simp]:
  "dev_size (ib_device now D) st = dev_size D (ib_inner st)"
  "dev_read (ib_device now D) = ib_read now D"
  by (simp_all add: ib_device_def)

lemma ib_block_device:
  assumes "block_device D ok img"
  shows "block_device (ib_device now D) (ok \<circ> ib_inner) (img \<circ> ib_inner)"
proof -
  note d = assms [unfolded block_device_def]
  from d show ?thesis
    unfolding block_device_def by (auto dest!: ib_read_inner)
qed

lemma ib_reliable_device:
  assumes "reliable_device D ok img"
  shows "reliable_device (ib_device now D) (ok \<circ> ib_inner) (img \<circ> ib_inner)"
proof -
  have D: "block_device D ok img" and total: "\<And>s off n. ok s \<Longrightarrow> in_image (img s) off n \<Longrightarrow>
      fst (run_state (dev_read D off n) s) \<noteq> None"
    using assms by (auto simp: reliable_device_def reliable_device_axioms_def)
  show ?thesis
  proof (rule reliable_device.intro)
    show "block_device (ib_device now D) (ok \<circ> ib_inner) (img \<circ> ib_inner)"
      by (rule ib_block_device) (rule D)
  qed (unfold_locales, simp add: ib_read_result total)
qed

end
