(* ===== verification/ReadAhead.thy ===== *)
theory ReadAhead
  imports BlockDevice
begin

text \<open>
  \<open>ReadAheadBlockDevice\<close> (\<open>include/ps2hdd/read_ahead_block_device.hpp\<close>): one window of
  prefetched bytes, filled when a large read continues exactly where the last one ended.
  Locks and atomics protect single steps; the model runs one read after the other.
\<close>

definition kTriggerBytes :: nat where "kTriggerBytes = 32 * 1024"
definition kLookAheadBytes :: nat where "kLookAheadBytes = 256 * 1024"

record read_ahead_stats =
  ra_window_hits :: u64
  ra_window_misses :: u64
  ra_prefetches :: u64
  ra_prefetched_bytes :: u64
  ra_bytes_served_from_window :: u64
  ra_wasted_bytes :: u64

definition zero_read_ahead_stats :: read_ahead_stats where
  "zero_read_ahead_stats =
     \<lparr>ra_window_hits = 0, ra_window_misses = 0, ra_prefetches = 0, ra_prefetched_bytes = 0,
      ra_bytes_served_from_window = 0, ra_wasted_bytes = 0\<rparr>"

record 's read_ahead =
  ra_inner :: 's
  ra_window :: "byte list"
  ra_window_start :: u64
  ra_window_served_bytes :: u64
  ra_has_last_request :: bool
  ra_last_request_end :: u64
  ra_counters :: read_ahead_stats

definition read_ahead :: "'s \<Rightarrow> 's read_ahead" where
  "read_ahead s =
     \<lparr>ra_inner = s, ra_window = [], ra_window_start = 0, ra_window_served_bytes = 0,
      ra_has_last_request = False, ra_last_request_end = 0, ra_counters = zero_read_ahead_stats\<rparr>"

definition observe_request :: "u64 \<Rightarrow> nat \<Rightarrow> 's read_ahead \<Rightarrow> 's read_ahead" where
  "observe_request off n st =
     st\<lparr>ra_has_last_request := True, ra_last_request_end := off + of_nat n\<rparr>"

definition reset_sequence :: "'s read_ahead \<Rightarrow> 's read_ahead" where
  "reset_sequence st = st\<lparr>ra_has_last_request := False, ra_last_request_end := 0\<rparr>"

definition account_old_window :: "'s read_ahead \<Rightarrow> 's read_ahead" where
  "account_old_window st =
     (if ra_window st = [] then st
      else let served = min (ra_window_served_bytes st) (of_nat (length (ra_window st)));
               wasted = of_nat (length (ra_window st)) - served;
               c = ra_counters st
           in st\<lparr>ra_counters := c\<lparr>ra_wasted_bytes := ra_wasted_bytes c + wasted\<rparr>\<rparr>)"

text \<open>The bytes of the window that answer a request, when it holds all of them.\<close>

definition window_lookup :: "u64 \<Rightarrow> nat \<Rightarrow> 's read_ahead \<Rightarrow> byte list option" where
  "window_lookup off n st =
     (if ra_window st \<noteq> [] \<and> ra_window_start st \<le> off then
        let relative = unat (off - ra_window_start st) in
        if relative \<le> length (ra_window st) \<and> n \<le> length (ra_window st) - relative
        then Some (sub_bytes relative n (ra_window st)) else None
      else None)"

definition window_hit :: "u64 \<Rightarrow> nat \<Rightarrow> 's read_ahead \<Rightarrow> 's read_ahead" where
  "window_hit off n st =
     (let c = ra_counters st in
      observe_request off n
        (st\<lparr>ra_counters := c\<lparr>ra_window_hits := ra_window_hits c + 1,
              ra_bytes_served_from_window := ra_bytes_served_from_window c + of_nat n\<rparr>,
            ra_window_served_bytes := ra_window_served_bytes st + of_nat n\<rparr>))"

definition count_miss :: "'s read_ahead \<Rightarrow> 's read_ahead" where
  "count_miss st =
     (let c = ra_counters st in st\<lparr>ra_counters := c\<lparr>ra_window_misses := ra_window_misses c + 1\<rparr>\<rparr>)"

text \<open>\<open>install_window\<close> is the bookkeeping after a successful prefetch.\<close>

definition install_window :: "u64 \<Rightarrow> nat \<Rightarrow> byte list \<Rightarrow> 's read_ahead \<Rightarrow> 's read_ahead" where
  "install_window off n loaded st =
     (let c = ra_counters st;
          st1 = st\<lparr>ra_counters := c\<lparr>ra_prefetches := ra_prefetches c + 1,
                     ra_prefetched_bytes := ra_prefetched_bytes c + of_nat (length loaded - n)\<rparr>\<rparr>;
          st2 = account_old_window st1
      in observe_request off n
           (st2\<lparr>ra_window_start := off, ra_window := loaded, ra_window_served_bytes := of_nat n\<rparr>))"

text \<open>An unmodified read of the inner device; \<open>after\<close> runs when it succeeded.\<close>

definition pass_through ::
  "'s device \<Rightarrow> u64 \<Rightarrow> nat \<Rightarrow> ('s read_ahead \<Rightarrow> 's read_ahead) \<Rightarrow> 's read_ahead \<Rightarrow>
   byte list option \<times> 's read_ahead" where
  "pass_through D off n after st =
     (let (r, s') = run_state (dev_read D off n) (ra_inner st);
          st' = st\<lparr>ra_inner := s'\<rparr>
      in (r, if r \<noteq> None then after st' else st'))"

definition prefetch ::
  "'s device \<Rightarrow> u64 \<Rightarrow> nat \<Rightarrow> u64 \<Rightarrow> 's read_ahead \<Rightarrow> byte list option \<times> 's read_ahead" where
  "prefetch D off n device_size st =
     (let available = unat (device_size - off);
          total = min available (n + kLookAheadBytes);
          (r, s') = run_state (dev_read D off total) (ra_inner st);
          st' = st\<lparr>ra_inner := s'\<rparr>
      in case r of
           None \<Rightarrow> (None, st')
         | Some loaded \<Rightarrow> (Some (take n loaded), install_window off n loaded st'))"

definition ra_read ::
  "'s device \<Rightarrow> u64 \<Rightarrow> nat \<Rightarrow> ('s read_ahead, byte list option) state" where
  "ra_read D off n = State (\<lambda>st.
     let device_size = dev_size D (ra_inner st) in
     if device_size < off \<or> unat (device_size - off) < n then (None, st)
     else if n = 0 then (Some [], st)
     else case window_lookup off n st of
       Some bytes \<Rightarrow> (Some bytes, window_hit off n st)
     | None \<Rightarrow>
         let st = count_miss st in
         if n < kTriggerBytes then pass_through D off n reset_sequence st
         else if ra_has_last_request st \<and> off = ra_last_request_end st
         then prefetch D off n device_size st
         else pass_through D off n (observe_request off n) st)"

definition ra_device :: "'s device \<Rightarrow> 's read_ahead device" where
  "ra_device D =
     \<lparr>dev_size = dev_size D \<circ> ra_inner, dev_name = dev_name D \<circ> ra_inner,
      dev_characteristics = dev_characteristics D \<circ> ra_inner, dev_read = ra_read D\<rparr>"

definition ra_stats :: "'s read_ahead \<Rightarrow> read_ahead_stats" where
  "ra_stats st = ra_counters st"

definition ra_reset_stats :: "'s read_ahead \<Rightarrow> 's read_ahead" where
  "ra_reset_stats st = st\<lparr>ra_counters := zero_read_ahead_stats\<rparr>"

definition ra_clear :: "'s read_ahead \<Rightarrow> 's read_ahead" where
  "ra_clear st =
     reset_sequence ((account_old_window st)
       \<lparr>ra_window := [], ra_window_start := 0, ra_window_served_bytes := 0\<rparr>)"

section \<open>The window always mirrors the disk\<close>

definition ra_ok :: "('s \<Rightarrow> bool) \<Rightarrow> ('s \<Rightarrow> image) \<Rightarrow> 's read_ahead \<Rightarrow> bool" where
  "ra_ok ok img st \<longleftrightarrow>
     ok (ra_inner st) \<and>
     in_image (img (ra_inner st)) (ra_window_start st) (length (ra_window st)) \<and>
     ra_window st = image_slice (img (ra_inner st)) (unat (ra_window_start st)) (length (ra_window st))"

lemmas ra_bookkeeping =
  observe_request_def reset_sequence_def account_old_window_def window_hit_def count_miss_def

lemma ra_bookkeeping_frame [simp]:
  "ra_inner (observe_request off n st) = ra_inner st"
  "ra_window (observe_request off n st) = ra_window st"
  "ra_window_start (observe_request off n st) = ra_window_start st"
  "ra_inner (reset_sequence st) = ra_inner st"
  "ra_window (reset_sequence st) = ra_window st"
  "ra_window_start (reset_sequence st) = ra_window_start st"
  "ra_inner (window_hit off n st) = ra_inner st"
  "ra_window (window_hit off n st) = ra_window st"
  "ra_window_start (window_hit off n st) = ra_window_start st"
  "ra_inner (count_miss st) = ra_inner st"
  "ra_window (count_miss st) = ra_window st"
  "ra_window_start (count_miss st) = ra_window_start st"
  "ra_inner (account_old_window st) = ra_inner st"
  "ra_inner (install_window off n loaded st) = ra_inner st"
  "ra_window (install_window off n loaded st) = loaded"
  "ra_window_start (install_window off n loaded st) = off"
  by (simp_all add: ra_bookkeeping install_window_def Let_def)

lemma ra_ok_frame:
  "\<lbrakk>ra_ok ok img st; ra_inner st' = ra_inner st; ra_window st' = ra_window st;
    ra_window_start st' = ra_window_start st\<rbrakk> \<Longrightarrow> ra_ok ok img st'"
  by (simp add: ra_ok_def)

lemma ra_ok_initial: "ok s \<Longrightarrow> ra_ok ok img (read_ahead s)"
  by (simp add: ra_ok_def read_ahead_def in_image_def image_slice_def)

lemma ra_ok_clear: "ra_ok ok img st \<Longrightarrow> ra_ok ok img (ra_clear st)"
  by (simp add: ra_ok_def ra_clear_def in_image_def image_slice_def)

lemma ra_ok_reset_stats: "ra_ok ok img st \<Longrightarrow> ra_ok ok img (ra_reset_stats st)"
  by (simp add: ra_ok_def ra_reset_stats_def)

lemma window_lookup_sound:
  assumes "ra_ok ok img st" "window_lookup off n st = Some bytes"
  shows "in_image (img (ra_inner st)) off n \<and> bytes = image_slice (img (ra_inner st)) (unat off) n"
proof -
  let ?im = "img (ra_inner st)" and ?w = "ra_window st" and ?start = "ra_window_start st"
  let ?rel = "unat (off - ?start)"
  from assms(2) have le: "?start \<le> off" and rel: "?rel + n \<le> length ?w"
    and bytes: "bytes = sub_bytes ?rel n ?w"
    by (auto simp: window_lookup_def Let_def split: if_splits)
  from le have off: "unat ?start + ?rel = unat off"
    by (simp add: unat_sub word_le_nat_alt)
  from assms(1) have w: "?w = image_slice ?im (unat ?start) (length ?w)"
    and fits: "unat ?start + length ?w \<le> unat (img_size ?im)"
    by (auto simp: ra_ok_def in_image_nat)
  have "bytes = image_slice ?im (unat ?start + ?rel) n"
    unfolding bytes by (subst w) (rule sub_bytes_image_slice [OF rel])
  moreover have "in_image ?im off n"
    using fits rel off by (simp add: in_image_nat)
  ultimately show ?thesis by (simp add: off)
qed

text \<open>One read keeps the window, and what it returns is on the disk.\<close>

context block_device
begin

lemma pass_through_sound:
  assumes st: "ra_ok ok img st" and run: "pass_through D off n after st = (r, st')"
    and frame: "\<And>t. ra_inner (after t) = ra_inner t" "\<And>t. ra_window (after t) = ra_window t"
      "\<And>t. ra_window_start (after t) = ra_window_start t"
  shows "ra_ok ok img st' \<and> img (ra_inner st') = img (ra_inner st) \<and>
    (\<forall>bs. r = Some bs \<longrightarrow> in_image (img (ra_inner st)) off n \<and> bs = image_slice (img (ra_inner st)) (unat off) n)"
proof -
  obtain s' where inner: "run_state (dev_read D off n) (ra_inner st) = (r, s')"
    and st': "ra_inner st' = s'" "ra_window st' = ra_window st" "ra_window_start st' = ra_window_start st"
    using run by (auto simp: pass_through_def frame Let_def split: prod.splits if_splits)
  from st have ok: "ok (ra_inner st)" by (simp add: ra_ok_def)
  from read_keeps [OF ok inner] read_sound [OF ok] inner st show ?thesis
    by (simp add: ra_ok_def st')
qed

lemma prefetch_sound:
  assumes st: "ra_ok ok img st" and run: "prefetch D off n (dev_size D (ra_inner st)) st = (r, st')"
    and n: "n \<le> unat (dev_size D (ra_inner st) - off)"
  shows "ra_ok ok img st' \<and> img (ra_inner st') = img (ra_inner st) \<and>
    (\<forall>bs. r = Some bs \<longrightarrow> in_image (img (ra_inner st)) off n \<and> bs = image_slice (img (ra_inner st)) (unat off) n)"
proof -
  let ?total = "min (unat (dev_size D (ra_inner st) - off)) (n + kLookAheadBytes)"
  obtain q s' where inner: "run_state (dev_read D off ?total) (ra_inner st) = (q, s')" by fastforce
  from st have ok: "ok (ra_inner st)" by (simp add: ra_ok_def)
  note keeps = read_keeps [OF ok inner]
  from n have total: "n \<le> ?total" by simp
  show ?thesis
  proof (cases q)
    case None
    with run inner keeps st show ?thesis by (auto simp: prefetch_def Let_def ra_ok_def)
  next
    case (Some loaded)
    with run inner have r: "r = Some (take n loaded)"
      and st': "st' = install_window off n loaded (st\<lparr>ra_inner := s'\<rparr>)"
      by (simp_all add: prefetch_def Let_def)
    from read_sound [OF ok] inner Some
    have sound: "in_image (img (ra_inner st)) off ?total"
      "loaded = image_slice (img (ra_inner st)) (unat off) ?total" by auto
    then have "length loaded = ?total" by simp
    with sound keeps have "ra_ok ok img st'" by (simp add: ra_ok_def st')
    moreover have "in_image (img (ra_inner st)) off n"
      using sound(1) total by (simp add: in_image_nat)
    moreover have "take n loaded = image_slice (img (ra_inner st)) (unat off) n"
      using sound(2) total by (simp add: take_image_slice)
    ultimately show ?thesis using r st' keeps by simp
  qed
qed

lemma ra_read_sound:
  assumes st: "ra_ok ok img st" and run: "run_state (ra_read D off n) st = (r, st')"
  shows "ra_ok ok img st' \<and> img (ra_inner st') = img (ra_inner st) \<and>
    (\<forall>bs. r = Some bs \<longrightarrow> in_image (img (ra_inner st)) off n \<and> bs = image_slice (img (ra_inner st)) (unat off) n)"
proof -
  let ?size = "dev_size D (ra_inner st)"
  from st have size: "?size = img_size (img (ra_inner st))" by (simp add: ra_ok_def size_law)
  have miss: "ra_ok ok img (count_miss st)" using st by (rule ra_ok_frame) simp_all
  consider "?size < off \<or> unat (?size - off) < n"
    | "\<not> (?size < off \<or> unat (?size - off) < n)" "n = 0"
    | bs where "\<not> (?size < off \<or> unat (?size - off) < n)" "n \<noteq> 0" "window_lookup off n st = Some bs"
    | "\<not> (?size < off \<or> unat (?size - off) < n)" "n \<noteq> 0" "window_lookup off n st = None"
    by (cases "window_lookup off n st") auto
  then show ?thesis
  proof cases
    case 1
    with run st show ?thesis by (auto simp: ra_read_def Let_def)
  next
    case 2
    with run have "r = Some []" "st' = st" by (simp_all add: ra_read_def Let_def)
    with 2 st size show ?thesis by (simp add: in_image_def image_slice_def not_less)
  next
    case (3 bs)
    with run have "r = Some bs" "st' = window_hit off n st"
      by (simp_all add: ra_read_def Let_def)
    moreover have "ra_ok ok img (window_hit off n st)" using st by (rule ra_ok_frame) simp_all
    ultimately show ?thesis using window_lookup_sound [OF st 3(3)] by simp
  next
    case 4
    then have n: "n \<le> unat (dev_size D (ra_inner (count_miss st)) - off)" by simp
    from 4 run have "pass_through D off n reset_sequence (count_miss st) = (r, st') \<or>
        prefetch D off n (dev_size D (ra_inner (count_miss st))) (count_miss st) = (r, st') \<or>
        pass_through D off n (observe_request off n) (count_miss st) = (r, st')"
      by (simp add: ra_read_def Let_def split: if_splits)
    then show ?thesis
      using pass_through_sound [OF miss, of off n reset_sequence r st']
        pass_through_sound [OF miss, of off n "observe_request off n" r st']
        prefetch_sound [OF miss _ n, of r st'] by auto
  qed
qed

lemma ra_block_device: "block_device (ra_device D) (ra_ok ok img) (img \<circ> ra_inner)"
proof (rule block_deviceI)
  fix s
  assume "ra_ok ok img s"
  then show "dev_size (ra_device D) s = img_size ((img \<circ> ra_inner) s)"
    by (simp add: ra_device_def ra_ok_def size_law)
next
  fix s off n r s'
  assume "ra_ok ok img s" "run_state (dev_read (ra_device D) off n) s = (r, s')"
  then show "ra_ok ok img s' \<and> (img \<circ> ra_inner) s' = (img \<circ> ra_inner) s \<and>
      (\<forall>bs. r = Some bs \<longrightarrow> in_image ((img \<circ> ra_inner) s) off n \<and>
        bs = image_slice ((img \<circ> ra_inner) s) (unat off) n)"
    by (simp add: ra_device_def ra_read_sound)
qed

end

text \<open>On a reliable device no read inside the disk fails, so the wrapper is as good as the
  device itself.\<close>

context reliable_device
begin

lemma ra_read_total:
  assumes st: "ra_ok ok img st" and inside: "in_image (img (ra_inner st)) off n"
  shows "fst (run_state (ra_read D off n) st) \<noteq> None"
proof -
  let ?size = "dev_size D (ra_inner st)"
  from st have ok: "ok (ra_inner st)" and size: "?size = img_size (img (ra_inner st))"
    by (simp_all add: ra_ok_def size_law)
  have total: "in_image (img (ra_inner st)) off (min (unat (?size - off)) (n + kLookAheadBytes))"
    using inside size by (simp add: in_image_def)
  have "fst (prefetch D off n ?size (count_miss st)) \<noteq> None"
    using read_total [OF ok total]
    by (auto simp: prefetch_def Let_def split: prod.splits option.splits)
  moreover have "fst (pass_through D off n after (count_miss st)) \<noteq> None" for after
    using read_total [OF ok inside] by (auto simp: pass_through_def Let_def split: prod.splits)
  moreover have "\<not> (?size < off \<or> unat (?size - off) < n)"
    using inside size by (auto simp: in_image_def)
  ultimately show ?thesis
    by (auto simp: ra_read_def Let_def split: option.splits)
qed

lemma ra_reliable_device: "reliable_device (ra_device D) (ra_ok ok img) (img \<circ> ra_inner)"
  by (rule reliable_deviceI [OF ra_block_device]) (use ra_read_total in \<open>simp add: ra_device_def\<close>)

end

end
