(* ===== verification/HashMap.thy ===== *)
theory HashMap
  imports Prelude "HOL-Library.AList"
begin

text \<open>
  \<open>std::unordered_map\<close> as the code uses it, and the bounded insertion that the session caches
  and the page cache share (\<open>bounded_store\<close> in \<open>src/host/drive_session.cpp\<close>).  A map is the
  list of its entries in iteration order, so \<open>begin()\<close> is the head of the list.  The standard
  leaves the position of a new entry open; it goes to the front here, and no lemma below
  depends on that choice.
\<close>

type_synonym ('k, 'v) umap = "('k \<times> 'v) list"

definition um_contains :: "('k, 'v) umap \<Rightarrow> 'k \<Rightarrow> bool" where
  "um_contains m k \<longleftrightarrow> map_of m k \<noteq> None"

definition um_insert_or_assign :: "'k \<Rightarrow> 'v \<Rightarrow> ('k, 'v) umap \<Rightarrow> ('k, 'v) umap" where
  "um_insert_or_assign k v m = (if um_contains m k then AList.update k v m else (k, v) # m)"

definition um_erase_begin :: "('k, 'v) umap \<Rightarrow> ('k, 'v) umap" where
  "um_erase_begin m = tl m"

text \<open>The new map and the number of evictions to add to the counter.\<close>

definition bounded_store :: "('k, 'v) umap \<Rightarrow> 'k \<Rightarrow> 'v \<Rightarrow> nat \<Rightarrow> ('k, 'v) umap \<times> u64" where
  "bounded_store m k v max_entries =
     (if \<not> um_contains m k \<and> max_entries \<le> length m \<and> m \<noteq> []
      then (um_insert_or_assign k v (um_erase_begin m), 1)
      else (um_insert_or_assign k v m, 0))"

definition um_ok :: "nat \<Rightarrow> ('k, 'v) umap \<Rightarrow> bool" where
  "um_ok max_entries m \<longleftrightarrow> distinct (map fst m) \<and> length m \<le> max_entries"

lemma um_contains_iff: "um_contains m k \<longleftrightarrow> k \<in> fst ` set m"
  by (simp add: um_contains_def map_of_eq_None_iff)

lemma um_ok_Nil [simp]: "um_ok n []"
  by (simp add: um_ok_def)

lemma map_of_insert_or_assign [simp]:
  "map_of (um_insert_or_assign k v m) = (map_of m)(k \<mapsto> v)"
  by (simp add: um_insert_or_assign_def update_conv')

lemma length_update_present:
  "k \<in> fst ` set m \<Longrightarrow> length (AList.update k v m) = length m"
  by (induction m) auto

lemma length_insert_or_assign:
  "length (um_insert_or_assign k v m) = (if um_contains m k then length m else Suc (length m))"
  by (simp add: um_insert_or_assign_def um_contains_iff length_update_present)

lemma distinct_insert_or_assign:
  "distinct (map fst m) \<Longrightarrow> distinct (map fst (um_insert_or_assign k v m))"
  by (auto simp: um_insert_or_assign_def um_contains_iff distinct_update)

lemma um_ok_bounded_store:
  assumes "um_ok n m" "0 < n"
  shows "um_ok n (fst (bounded_store m k v n))"
proof -
  have tl: "\<not> um_contains (tl m) k" if "\<not> um_contains m k"
    using that by (cases m) (auto simp: um_contains_iff)
  from assms show ?thesis
    by (auto simp: um_ok_def bounded_store_def um_erase_begin_def distinct_insert_or_assign
        length_insert_or_assign tl distinct_tl map_tl)
qed

lemma map_of_bounded_store_same: "map_of (fst (bounded_store m k v n)) k = Some v"
  by (simp add: bounded_store_def)

lemma map_of_tl: "distinct (map fst m) \<Longrightarrow> map_of (tl m) k = Some v \<Longrightarrow> map_of m k = Some v"
  by (cases m) (force dest: map_of_SomeD)+

lemma map_of_bounded_store_other:
  "distinct (map fst m) \<Longrightarrow> map_of (fst (bounded_store m k v n)) j = Some w \<Longrightarrow> j \<noteq> k \<Longrightarrow>
   map_of m j = Some w"
  using map_of_tl [of m j w] by (simp add: bounded_store_def um_erase_begin_def split: if_splits)

text \<open>The law every client of a bounded cache relies on: whatever held of all entries, and
  holds of the stored one, holds of all entries afterwards.\<close>

definition um_all :: "('k \<Rightarrow> 'v \<Rightarrow> bool) \<Rightarrow> ('k, 'v) umap \<Rightarrow> bool" where
  "um_all P m \<longleftrightarrow> (\<forall>(k, v) \<in> set m. P k v)"

lemma um_all_Nil [simp]: "um_all P []"
  by (simp add: um_all_def)

lemma um_allD: "um_all P m \<Longrightarrow> map_of m k = Some v \<Longrightarrow> P k v"
  by (auto simp: um_all_def dest: map_of_SomeD)

lemma set_update_sub: "set (AList.update k v m) \<subseteq> insert (k, v) (set m)"
  by (induction m) auto

lemma um_all_insert: "um_all P m \<Longrightarrow> P k v \<Longrightarrow> um_all P (um_insert_or_assign k v m)"
  using set_update_sub [of k v m] by (auto simp: um_all_def um_insert_or_assign_def)

lemma um_all_bounded_store: "um_all P m \<Longrightarrow> P k v \<Longrightarrow> um_all P (fst (bounded_store m k v n))"
proof -
  assume m: "um_all P m" and kv: "P k v"
  from m have "um_all P (tl m)" by (cases m) (auto simp: um_all_def)
  with m kv show ?thesis by (simp add: bounded_store_def um_erase_begin_def um_all_insert)
qed

end
