(* ===== verification/ReadCache.thy ===== *)
theory ReadCache
  imports BlockDevice HashMap
begin

text \<open>
  \<open>ReadCacheBlockDevice\<close> (\<open>include/ps2hdd/read_cache_block_device.hpp\<close>): a bounded map of
  4 KiB pages in front of a device.  Requests of 1 KiB or more, and requests that cross a page,
  go to the device unchanged.
\<close>

definition kPageSize :: nat where "kPageSize = 4096"
definition kDirectReadThreshold :: nat where "kDirectReadThreshold = 1024"
definition kMaxPages :: nat where "kMaxPages = 4096"

record page =
  page_bytes :: "byte list"
  page_valid :: nat

record read_cache_stats =
  rc_hits :: u64
  rc_misses :: u64
  rc_evictions :: u64
  rc_bypass_reads :: u64
  rc_bytes_served :: u64
  rc_fill_bytes :: u64

definition zero_read_cache_stats :: read_cache_stats where
  "zero_read_cache_stats =
     \<lparr>rc_hits = 0, rc_misses = 0, rc_evictions = 0, rc_bypass_reads = 0, rc_bytes_served = 0,
      rc_fill_bytes = 0\<rparr>"

record 's read_cache =
  rc_inner :: 's
  rc_pages :: "(u64, page) umap"
  rc_counters :: read_cache_stats

definition read_cache :: "'s \<Rightarrow> 's read_cache" where
  "read_cache s = \<lparr>rc_inner = s, rc_pages = [], rc_counters = zero_read_cache_stats\<rparr>"

definition page_start_of :: "u64 \<Rightarrow> u64" where
  "page_start_of off = off - (off mod of_nat kPageSize)"

text \<open>The read goes to the device: it is large, or its last byte lies in another page.\<close>

definition bypasses :: "u64 \<Rightarrow> nat \<Rightarrow> bool" where
  "bypasses off n \<longleftrightarrow>
     kDirectReadThreshold \<le> n \<or>
     (off + of_nat n - 1) div of_nat kPageSize \<noteq> page_start_of off div of_nat kPageSize"

definition page_lookup :: "u64 \<Rightarrow> nat \<Rightarrow> nat \<Rightarrow> (u64, page) umap \<Rightarrow> byte list option" where
  "page_lookup page_index in_page n pages =
     (case map_of pages page_index of
        Some p \<Rightarrow> if in_page + n \<le> page_valid p then Some (sub_bytes in_page n (page_bytes p)) else None
      | None \<Rightarrow> None)"

text \<open>Loading a page: a short last page is padded with the zeros of the page buffer.\<close>

definition load_page ::
  "'s device \<Rightarrow> u64 \<Rightarrow> u64 \<Rightarrow> 's \<Rightarrow> page option \<times> 's" where
  "load_page D dsz page_start s =
     (let valid = min kPageSize (unat (dsz - page_start));
          (r, s') = run_state (dev_read D page_start valid) s
      in (map_option (\<lambda>bs. \<lparr>page_bytes = bs @ replicate (kPageSize - valid) 0, page_valid = valid\<rparr>) r, s'))"

definition store_page :: "u64 \<Rightarrow> page \<Rightarrow> 's read_cache \<Rightarrow> 's read_cache" where
  "store_page page_index p st =
     (let (pages, evicted) = bounded_store (rc_pages st) page_index p kMaxPages;
          c = rc_counters st
      in st\<lparr>rc_pages := pages, rc_counters := c\<lparr>rc_evictions := rc_evictions c + evicted\<rparr>\<rparr>)"

definition rc_count_bypass :: "'s read_cache \<Rightarrow> 's read_cache" where
  "rc_count_bypass st =
     (let c = rc_counters st in st\<lparr>rc_counters := c\<lparr>rc_bypass_reads := rc_bypass_reads c + 1\<rparr>\<rparr>)"

definition rc_count_hit :: "nat \<Rightarrow> 's read_cache \<Rightarrow> 's read_cache" where
  "rc_count_hit n st =
     (let c = rc_counters st in
      st\<lparr>rc_counters := c\<lparr>rc_hits := rc_hits c + 1, rc_bytes_served := rc_bytes_served c + of_nat n\<rparr>\<rparr>)"

definition rc_count_miss :: "'s read_cache \<Rightarrow> 's read_cache" where
  "rc_count_miss st =
     (let c = rc_counters st in st\<lparr>rc_counters := c\<lparr>rc_misses := rc_misses c + 1\<rparr>\<rparr>)"

definition rc_count_fill :: "nat \<Rightarrow> 's read_cache \<Rightarrow> 's read_cache" where
  "rc_count_fill n st =
     (let c = rc_counters st in st\<lparr>rc_counters := c\<lparr>rc_fill_bytes := rc_fill_bytes c + of_nat n\<rparr>\<rparr>)"

definition rc_count_served :: "nat \<Rightarrow> 's read_cache \<Rightarrow> 's read_cache" where
  "rc_count_served n st =
     (let c = rc_counters st in st\<lparr>rc_counters := c\<lparr>rc_bytes_served := rc_bytes_served c + of_nat n\<rparr>\<rparr>)"

text \<open>The miss path: fill the page, answer from it, keep it.\<close>

definition rc_fill ::
  "'s device \<Rightarrow> u64 \<Rightarrow> nat \<Rightarrow> u64 \<Rightarrow> 's read_cache \<Rightarrow> byte list option \<times> 's read_cache" where
  "rc_fill D off n dsz st =
     (let page_start = page_start_of off;
          page_index = page_start div of_nat kPageSize;
          in_page = unat (off - page_start);
          st = rc_count_miss st;
          (loaded, s') = load_page D dsz page_start (rc_inner st);
          st = st\<lparr>rc_inner := s'\<rparr>
      in case loaded of
           None \<Rightarrow> (None, st)
         | Some p \<Rightarrow>
             let st = rc_count_fill (page_valid p) st in
             if page_valid p < in_page + n then (None, st)
             else (Some (sub_bytes in_page n (page_bytes p)), store_page page_index p (rc_count_served n st)))"

definition rc_read ::
  "'s device \<Rightarrow> u64 \<Rightarrow> nat \<Rightarrow> ('s read_cache, byte list option) state" where
  "rc_read D off n = State (\<lambda>st.
     let dsz = dev_size D (rc_inner st) in
     if dsz < off \<or> unat (dsz - off) < n then (None, st)
     else if n = 0 then (Some [], st)
     else if bypasses off n then
       let st = rc_count_bypass st;
           (r, s') = run_state (dev_read D off n) (rc_inner st)
       in (r, st\<lparr>rc_inner := s'\<rparr>)
     else
       let page_start = page_start_of off in
       case page_lookup (page_start div of_nat kPageSize) (unat (off - page_start)) n (rc_pages st) of
         Some bytes \<Rightarrow> (Some bytes, rc_count_hit n st)
       | None \<Rightarrow> rc_fill D off n dsz st)"

definition rc_device :: "'s device \<Rightarrow> 's read_cache device" where
  "rc_device D =
     \<lparr>dev_size = dev_size D \<circ> rc_inner, dev_name = dev_name D \<circ> rc_inner,
      dev_characteristics = dev_characteristics D \<circ> rc_inner, dev_read = rc_read D\<rparr>"

definition rc_stats :: "'s read_cache \<Rightarrow> read_cache_stats" where
  "rc_stats st = rc_counters st"

definition rc_reset_stats :: "'s read_cache \<Rightarrow> 's read_cache" where
  "rc_reset_stats st = st\<lparr>rc_counters := zero_read_cache_stats\<rparr>"

definition rc_clear :: "'s read_cache \<Rightarrow> 's read_cache" where
  "rc_clear st = st\<lparr>rc_pages := []\<rparr>"

section \<open>The pages always mirror the disk\<close>

definition page_ok :: "image \<Rightarrow> u64 \<Rightarrow> page \<Rightarrow> bool" where
  "page_ok im idx p \<longleftrightarrow>
     page_valid p \<le> kPageSize \<and>
     unat idx * kPageSize + page_valid p \<le> unat (img_size im) \<and>
     page_bytes p = image_slice im (unat idx * kPageSize) (page_valid p)
       @ replicate (kPageSize - page_valid p) 0"

definition rc_ok :: "('s \<Rightarrow> bool) \<Rightarrow> ('s \<Rightarrow> image) \<Rightarrow> 's read_cache \<Rightarrow> bool" where
  "rc_ok ok img st \<longleftrightarrow>
     ok (rc_inner st) \<and> um_ok kMaxPages (rc_pages st) \<and> um_all (page_ok (img (rc_inner st))) (rc_pages st)"

lemma rc_counting [simp]:
  "rc_inner (rc_count_bypass st) = rc_inner st" "rc_pages (rc_count_bypass st) = rc_pages st"
  "rc_inner (rc_count_hit n st) = rc_inner st" "rc_pages (rc_count_hit n st) = rc_pages st"
  "rc_inner (rc_count_miss st) = rc_inner st" "rc_pages (rc_count_miss st) = rc_pages st"
  "rc_inner (rc_count_fill n st) = rc_inner st" "rc_pages (rc_count_fill n st) = rc_pages st"
  "rc_inner (rc_count_served n st) = rc_inner st" "rc_pages (rc_count_served n st) = rc_pages st"
  by (simp_all add: rc_count_bypass_def rc_count_hit_def rc_count_miss_def rc_count_fill_def
      rc_count_served_def Let_def)

lemma rc_store_page [simp]:
  "rc_inner (store_page i p st) = rc_inner st"
  "rc_pages (store_page i p st) = fst (bounded_store (rc_pages st) i p kMaxPages)"
  by (simp_all add: store_page_def Let_def split: prod.splits)

lemma rc_ok_initial: "ok s \<Longrightarrow> rc_ok ok img (read_cache s)"
  by (simp add: rc_ok_def read_cache_def)

lemma rc_ok_clear: "rc_ok ok img st \<Longrightarrow> rc_ok ok img (rc_clear st)"
  by (simp add: rc_ok_def rc_clear_def)

lemma rc_ok_reset_stats: "rc_ok ok img st \<Longrightarrow> rc_ok ok img (rc_reset_stats st)"
  by (simp add: rc_ok_def rc_reset_stats_def)

lemma page_arith:
  "unat (page_start_of off) = unat off div kPageSize * kPageSize"
  "unat (page_start_of off div of_nat kPageSize) = unat off div kPageSize"
  "unat (off - page_start_of off) = unat off mod kPageSize"
proof -
  have m: "unat (off mod of_nat kPageSize) = unat off mod kPageSize"
    by (simp add: kPageSize_def unat_mod_distrib)
  have "off mod of_nat kPageSize \<le> off"
    by (simp add: word_le_nat_alt m)
  then have "unat (page_start_of off) = unat off - unat off mod kPageSize"
    unfolding page_start_of_def m [symmetric] by (rule unat_sub)
  then show start: "unat (page_start_of off) = unat off div kPageSize * kPageSize"
    by (simp add: minus_mod_eq_div_mult)
  show "unat (page_start_of off div of_nat kPageSize) = unat off div kPageSize"
    by (simp add: unat_div_distrib start) (simp add: kPageSize_def)
  show "unat (off - page_start_of off) = unat off mod kPageSize"
    by (simp add: page_start_of_def m)
qed

lemma page_slice:
  assumes p: "page_ok im idx p" and idx: "unat idx = unat off div kPageSize"
    and fits: "unat off mod kPageSize + n \<le> page_valid p"
  shows "in_image im off n \<and>
    sub_bytes (unat off mod kPageSize) n (page_bytes p) = image_slice im (unat off) n"
proof -
  let ?start = "unat off div kPageSize * kPageSize" and ?in = "unat off mod kPageSize"
  have off: "?start + ?in = unat off" by simp
  from p idx have "?start + page_valid p \<le> unat (img_size im)"
    and bytes: "page_bytes p = image_slice im ?start (page_valid p) @ replicate (kPageSize - page_valid p) 0"
    by (simp_all add: page_ok_def)
  then have "unat off + n \<le> unat (img_size im)" using fits off by linarith
  moreover have "sub_bytes ?in n (page_bytes p) = sub_bytes ?in n (image_slice im ?start (page_valid p))"
    using fits by (simp add: bytes sub_bytes_def)
  moreover have "\<dots> = image_slice im (unat off) n"
    using sub_bytes_image_slice [OF fits, of im ?start] off by simp
  ultimately show ?thesis by (simp add: in_image_nat)
qed

lemma page_lookup_sound:
  assumes "um_all (page_ok im) pages"
    and "page_lookup (page_start_of off div of_nat kPageSize) (unat (off - page_start_of off)) n pages = Some bs"
  shows "in_image im off n \<and> bs = image_slice im (unat off) n"
proof -
  from assms(2) obtain p where p: "map_of pages (page_start_of off div of_nat kPageSize) = Some p"
    and fits: "unat off mod kPageSize + n \<le> page_valid p"
    and bs: "bs = sub_bytes (unat off mod kPageSize) n (page_bytes p)"
    by (auto simp: page_lookup_def page_arith split: option.splits if_splits)
  from um_allD [OF assms(1) p] page_arith(2) fits bs show ?thesis
    by (auto dest: page_slice)
qed

context block_device
begin

lemma load_page_sound:
  assumes s: "ok s" and off: "off \<le> dev_size D s"
    and run: "load_page D (dev_size D s) (page_start_of off) s = (r, s')"
  shows "ok s' \<and> img s' = img s \<and>
    (\<forall>p. r = Some p \<longrightarrow> page_ok (img s) (page_start_of off div of_nat kPageSize) p \<and>
      page_valid p = min kPageSize (unat (dev_size D s - page_start_of off)))"
proof -
  let ?start = "page_start_of off"
  let ?valid = "min kPageSize (unat (dev_size D s - ?start))"
  obtain q t where inner: "run_state (dev_read D ?start ?valid) s = (q, t)" by fastforce
  with run have r: "r = map_option (\<lambda>bs. \<lparr>page_bytes = bs @ replicate (kPageSize - ?valid) 0, page_valid = ?valid\<rparr>) q"
    and t: "t = s'" by (auto simp: load_page_def Let_def)
  note keeps = read_keeps [OF s inner]
  have "page_ok (img s) (?start div of_nat kPageSize) p \<and> page_valid p = ?valid" if p: "r = Some p" for p
  proof -
    from p r obtain bs where q: "q = Some bs"
      and p: "p = \<lparr>page_bytes = bs @ replicate (kPageSize - ?valid) 0, page_valid = ?valid\<rparr>"
      by auto
    from read_sound [OF s] inner q
    have "in_image (img s) ?start ?valid" "bs = image_slice (img s) (unat ?start) ?valid" by auto
    then show ?thesis by (simp add: page_ok_def p in_image_nat page_arith)
  qed
  with keeps t show ?thesis by simp
qed

lemma rc_read_sound:
  assumes st: "rc_ok ok img st" and run: "run_state (rc_read D off n) st = (r, st')"
  shows "rc_ok ok img st' \<and> img (rc_inner st') = img (rc_inner st) \<and>
    (\<forall>bs. r = Some bs \<longrightarrow> in_image (img (rc_inner st)) off n \<and> bs = image_slice (img (rc_inner st)) (unat off) n)"
proof -
  let ?im = "img (rc_inner st)" and ?dsz = "dev_size D (rc_inner st)"
  let ?idx = "page_start_of off div of_nat kPageSize"
  from st have ok: "ok (rc_inner st)" and pages: "um_ok kMaxPages (rc_pages st)"
    "um_all (page_ok ?im) (rc_pages st)" and dsz: "?dsz = img_size ?im"
    by (simp_all add: rc_ok_def size_law)
  consider (out) "?dsz < off \<or> unat (?dsz - off) < n"
    | (empty) "\<not> (?dsz < off \<or> unat (?dsz - off) < n)" "n = 0"
    | (bypass) "\<not> (?dsz < off \<or> unat (?dsz - off) < n)" "n \<noteq> 0" "bypasses off n"
    | (hit) bs where "\<not> (?dsz < off \<or> unat (?dsz - off) < n)" "n \<noteq> 0" "\<not> bypasses off n"
        "page_lookup ?idx (unat (off - page_start_of off)) n (rc_pages st) = Some bs"
    | (miss) "\<not> (?dsz < off \<or> unat (?dsz - off) < n)" "n \<noteq> 0" "\<not> bypasses off n"
        "page_lookup ?idx (unat (off - page_start_of off)) n (rc_pages st) = None"
    by (meson option.exhaust)
  then show ?thesis
  proof cases
    case out
    with run st show ?thesis by (auto simp: rc_read_def Let_def)
  next
    case empty
    with run have "r = Some []" "st' = st" by (simp_all add: rc_read_def Let_def)
    with empty st dsz show ?thesis by (simp add: in_image_def image_slice_def not_less)
  next
    case bypass
    with run obtain s' where "run_state (dev_read D off n) (rc_inner st) = (r, s')"
      and "st' = (rc_count_bypass st)\<lparr>rc_inner := s'\<rparr>"
      by (auto simp: rc_read_def Let_def split: prod.splits)
    with read_keeps [OF ok] read_sound [OF ok] pages show ?thesis by (simp add: rc_ok_def)
  next
    case (hit bs)
    with run have "r = Some bs" "st' = rc_count_hit n st" by (simp_all add: rc_read_def Let_def)
    with page_lookup_sound [OF pages(2) hit(4)] st show ?thesis by (simp add: rc_ok_def)
  next
    case miss
    obtain loaded s' where load: "load_page D ?dsz (page_start_of off) (rc_inner st) = (loaded, s')"
      by fastforce
    from miss(1) have "off \<le> ?dsz" by (simp add: not_less)
    from load_page_sound [OF ok this load] have s': "ok s'" "img s' = ?im"
      and loaded: "\<And>p. loaded = Some p \<Longrightarrow> page_ok ?im ?idx p" by auto
    let ?st = "(rc_count_miss st)\<lparr>rc_inner := s'\<rparr>"
    from run miss have fill: "rc_fill D off n ?dsz st = (r, st')"
      by (simp add: rc_read_def Let_def)
    show ?thesis
    proof (cases loaded)
      case None
      with fill load have "r = None" "st' = ?st" by (simp_all add: rc_fill_def Let_def)
      with s' pages show ?thesis by (simp add: rc_ok_def)
    next
      case (Some p)
      note p = loaded [OF Some]
      let ?st1 = "rc_count_fill (page_valid p) ?st"
      from fill load Some have "(r, st') =
          (if page_valid p < unat (off - page_start_of off) + n then (None, ?st1)
           else (Some (sub_bytes (unat (off - page_start_of off)) n (page_bytes p)),
             store_page ?idx p (rc_count_served n ?st1)))"
        by (simp add: rc_fill_def Let_def)
      then show ?thesis
        using page_slice [OF p page_arith(2), of n] s' pages p
        by (auto simp: rc_ok_def um_ok_bounded_store um_all_bounded_store kMaxPages_def page_arith split: if_splits)
    qed
  qed
qed

lemma rc_block_device: "block_device (rc_device D) (rc_ok ok img) (img \<circ> rc_inner)"
proof (rule block_deviceI)
  fix s
  assume "rc_ok ok img s"
  then show "dev_size (rc_device D) s = img_size ((img \<circ> rc_inner) s)"
    by (simp add: rc_device_def rc_ok_def size_law)
next
  fix s off n r s'
  assume "rc_ok ok img s" "run_state (dev_read (rc_device D) off n) s = (r, s')"
  then show "rc_ok ok img s' \<and> (img \<circ> rc_inner) s' = (img \<circ> rc_inner) s \<and>
      (\<forall>bs. r = Some bs \<longrightarrow> in_image ((img \<circ> rc_inner) s) off n \<and>
        bs = image_slice ((img \<circ> rc_inner) s) (unat off) n)"
    by (simp add: rc_device_def rc_read_sound)
qed

end

lemma div_stays:
  assumes "(a + m) div k = a div k" "0 < (k::nat)"
  shows "a mod k + m < k"
proof -
  have "a div k * k + (a + m) mod k = a + m"
    using div_mult_mod_eq [of "a + m" k] assms(1) by simp
  then show ?thesis
    using mod_less_divisor [OF assms(2), of "a + m"] div_mult_mod_eq [of a k] by linarith
qed

text \<open>A request that does not bypass the cache fits in the page it starts in.\<close>

lemma not_bypass_fits:
  assumes "\<not> bypasses off n" "n \<noteq> 0" "unat off + n < 2 ^ 64"
  shows "unat off mod kPageSize + n \<le> kPageSize"
proof -
  from assms(1) have n: "n < 1024"
    and page: "(off + of_nat n - 1) div of_nat kPageSize = page_start_of off div of_nat kPageSize"
    by (simp_all add: bypasses_def kDirectReadThreshold_def not_le)
  have last: "off + of_nat n - 1 = off + of_nat (n - 1)" using assms(2) by (cases n) auto
  have "unat (off + of_nat n - 1) = unat off + (n - 1)"
    unfolding last using assms(3) n by (simp add: unat_word_ariths unat_of_nat)
  moreover have "unat ((off + of_nat n - 1) div of_nat kPageSize) = unat (off + of_nat n - 1) div kPageSize"
    by (simp add: kPageSize_def unat_div_distrib)
  ultimately have "(unat off + (n - 1)) div kPageSize = unat off div kPageSize"
    using page page_arith(2) [of off] by metis
  from div_stays [OF this] assms(2) show ?thesis by (simp add: kPageSize_def)
qed

context reliable_device
begin

lemma rc_read_total:
  assumes st: "rc_ok ok img st" and inside: "in_image (img (rc_inner st)) off n"
  shows "fst (run_state (rc_read D off n) st) \<noteq> None"
proof -
  let ?im = "img (rc_inner st)" and ?dsz = "dev_size D (rc_inner st)" and ?start = "page_start_of off"
  let ?valid = "min kPageSize (unat (?dsz - ?start))"
  from st have ok: "ok (rc_inner st)" and dsz: "?dsz = img_size ?im"
    by (simp_all add: rc_ok_def size_law)
  from inside dsz have range: "off \<le> ?dsz" "n \<le> unat (?dsz - off)"
    by (simp_all add: in_image_def)
  from inside dsz have range_nat: "unat off + n \<le> unat ?dsz" by (simp add: in_image_nat)
  have start: "unat ?start \<le> unat off" by (simp add: page_arith)
  with range(1) have "?start \<le> ?dsz" by (simp add: word_le_nat_alt)
  then have rest: "unat (?dsz - ?start) = unat ?dsz - unat ?start"
    by (simp add: unat_sub word_le_nat_alt)
  have "in_image ?im ?start ?valid"
    using dsz \<open>?start \<le> ?dsz\<close> rest by (simp add: in_image_nat word_le_nat_alt)
  from read_total [OF ok this] obtain bs s' where load: "run_state (dev_read D ?start ?valid) (rc_inner st) = (Some bs, s')"
    by (metis not_None_eq prod.collapse)
  have fill: "fst (rc_fill D off n ?dsz st) \<noteq> None" if "\<not> bypasses off n" "n \<noteq> 0"
  proof -
    have "unat off + n < 2 ^ 64" using range_nat unsigned_less [where 'a = nat, of ?dsz] by simp
    from not_bypass_fits [OF that this] have "\<not> ?valid < unat off mod kPageSize + n"
      using range_nat rest page_arith(1) [of off] div_mult_mod_eq [of "unat off" kPageSize]
      unfolding not_less min.bounded_iff by linarith
    with load show ?thesis by (simp add: rc_fill_def load_page_def page_arith Let_def)
  qed
  have "fst (run_state (dev_read D off n) (rc_inner st)) \<noteq> None"
    using read_total [OF ok inside] .
  with fill range show ?thesis
    by (auto simp: rc_read_def Let_def split: option.splits prod.splits)
qed

lemma rc_reliable_device: "reliable_device (rc_device D) (rc_ok ok img) (img \<circ> rc_inner)"
  by (rule reliable_deviceI [OF rc_block_device]) (use rc_read_total in \<open>simp add: rc_device_def\<close>)

end

end
