(* ===== verification/DriveSession.thy ===== *)
theory DriveSession
  imports PfsExport PartitionCatalog Instrumented ReadAhead ReadCache
begin

text \<open>
  \<open>DriveSession\<close> (\<open>src/host/drive_session.cpp\<close>, \<open>include/ps2hdd/drive_session.hpp\<close>): one opened
  source, the stack of devices over it, the validated APA scan and the four bounded result caches.
  The operations run one at a time here; the mutex of the code makes each cache access atomic.
\<close>

section \<open>Results and state\<close>

record session_entry =
  se_name :: string
  se_inode :: block_info
  se_mode :: u16
  se_size :: u64
  se_inode_readable :: bool

definition se_is_directory :: "session_entry \<Rightarrow> bool" where
  "se_is_directory e \<longleftrightarrow> mode_is_directory (se_mode e)"

definition se_is_regular :: "session_entry \<Rightarrow> bool" where
  "se_is_regular e \<longleftrightarrow> mode_is_regular (se_mode e)"

record browse_result =
  br_ok :: bool
  br_error :: string
  br_entries :: "session_entry list"

record stat_result =
  st_ok :: bool
  st_error :: string
  st_entry :: session_entry

text \<open>\<open>rr_bytes\<close> is what the read put into the caller's buffer, so \<open>bytes_read\<close> is its length.\<close>

record read_result =
  rr_ok :: bool
  rr_error :: string
  rr_bytes :: "byte list"

record session_counters =
  sc_apa_scans :: u64
  sc_browse_operations :: u64
  sc_stat_operations :: u64
  sc_read_operations :: u64
  sc_export_operations :: u64
  sc_scan_time_ns :: u64
  sc_browse_time_ns :: u64
  sc_stat_time_ns :: u64
  sc_read_time_ns :: u64
  sc_export_time_ns :: u64
  sc_probe_hits :: u64
  sc_probe_misses :: u64
  sc_browse_hits :: u64
  sc_browse_misses :: u64
  sc_stat_hits :: u64
  sc_stat_misses :: u64
  sc_node_hits :: u64
  sc_node_misses :: u64
  sc_evictions :: u64

definition zero_counters :: session_counters where
  "zero_counters =
     \<lparr>sc_apa_scans = 0, sc_browse_operations = 0, sc_stat_operations = 0, sc_read_operations = 0,
      sc_export_operations = 0, sc_scan_time_ns = 0, sc_browse_time_ns = 0, sc_stat_time_ns = 0,
      sc_read_time_ns = 0, sc_export_time_ns = 0, sc_probe_hits = 0, sc_probe_misses = 0,
      sc_browse_hits = 0, sc_browse_misses = 0, sc_stat_hits = 0, sc_stat_misses = 0,
      sc_node_hits = 0, sc_node_misses = 0, sc_evictions = 0\<rparr>"

type_synonym 's stack = "'s instrumented read_ahead read_cache"

record 's session =
  ss_stack :: "'s stack"
  ss_scan :: scan_result
  ss_last_error :: string
  ss_probe_cache :: "(string, probe_result) umap"
  ss_browse_cache :: "(string, browse_result) umap"
  ss_stat_cache :: "(string, stat_result) umap"
  ss_node_cache :: "(string, pfs_node) umap"
  ss_counters :: session_counters

definition kMaxProbeCacheEntries :: nat where "kMaxProbeCacheEntries = 256"
definition kMaxBrowseCacheEntries :: nat where "kMaxBrowseCacheEntries = 1024"
definition kMaxStatCacheEntries :: nat where "kMaxStatCacheEntries = 8192"
definition kMaxNodeCacheEntries :: nat where "kMaxNodeCacheEntries = 8192"

section \<open>The device stack\<close>

definition stack_device :: "('s \<Rightarrow> int) \<Rightarrow> 's device \<Rightarrow> 's stack device" where
  "stack_device now D = rc_device (ra_device (ib_device now D))"

definition new_stack :: "'s \<Rightarrow> 's stack" where
  "new_stack s = read_cache (read_ahead (instrumented s))"

definition stack_source :: "'s stack \<Rightarrow> 's" where
  "stack_source st = ib_inner (ra_inner (rc_inner st))"

definition clear_stack :: "'s stack \<Rightarrow> 's stack" where
  "clear_stack st = (rc_clear st)\<lparr>rc_inner := ra_clear (rc_inner (rc_clear st))\<rparr>"

definition reset_stack :: "'s stack \<Rightarrow> 's stack" where
  "reset_stack st =
     (let ra = rc_inner st;
          ra' = ra_reset_stats (ra\<lparr>ra_inner := ib_reset_stats (ra_inner ra)\<rparr>)
      in rc_reset_stats (st\<lparr>rc_inner := ra'\<rparr>))"

definition open_session :: "'s \<Rightarrow> 's session" where
  "open_session s =
     \<lparr>ss_stack = new_stack s, ss_scan = empty_scan, ss_last_error = '''', ss_probe_cache = [],
      ss_browse_cache = [], ss_stat_cache = [], ss_node_cache = [], ss_counters = zero_counters\<rparr>"

section \<open>Cache keys\<close>

text \<open>The loop of \<open>normalize_cache_path\<close>: the text so far and \<open>previous_slash\<close>.\<close>

definition normalize_step :: "string \<times> bool \<Rightarrow> char \<Rightarrow> string \<times> bool" where
  "normalize_step acc ch =
     (let (normalized, previous_slash) = acc;
          mapped = (if ch = CHR 0x5C then CHR ''/'' else ch)
      in if mapped = CHR ''/''
         then (if \<not> previous_slash then normalized @ ''/'' else normalized, True)
         else (normalized @ [mapped], False))"

definition normalize_cache_path :: "string \<Rightarrow> string" where
  "normalize_cache_path path =
     rev (dropWhile (\<lambda>c. c = CHR ''/'') (rev (fst (foldl normalize_step ('''', True) path))))"

definition make_cache_key :: "string \<Rightarrow> string \<Rightarrow> string" where
  "make_cache_key pid path = pid @ [CHR 0x1F] @ normalize_cache_path path"

definition child_path :: "string \<Rightarrow> string \<Rightarrow> string" where
  "child_path parent name =
     (let path = normalize_cache_path parent in (if path \<noteq> '''' then path @ ''/'' else path) @ name)"

definition stat_from_node :: "string \<Rightarrow> pfs_node \<Rightarrow> stat_result" where
  "stat_from_node path node =
     \<lparr>st_ok = True, st_error = '''',
      st_entry = \<lparr>se_name = path, se_inode = nd_location node,
        se_mode = i_mode (nd_inode node) AND kModeMask, se_size = i_size (nd_inode node),
        se_inode_readable = True\<rparr>\<rparr>"

section \<open>Operations on the session state\<close>

type_synonym ('s, 'a) session_op = "('s session, 'a) state"

definition on_stack :: "('s stack, 'a) state \<Rightarrow> ('s, 'a) session_op" where
  "on_stack m = State (\<lambda>ss. let (a, st) = run_state m (ss_stack ss) in (a, ss\<lparr>ss_stack := st\<rparr>))"

definition count :: "(session_counters \<Rightarrow> session_counters) \<Rightarrow> ('s, unit) session_op" where
  "count f = modify (\<lambda>ss. ss\<lparr>ss_counters := f (ss_counters ss)\<rparr>)"

text \<open>\<open>AtomicTimer\<close>: adds the positive time between its construction and the end of the operation.\<close>

definition timed ::
  "('s \<Rightarrow> int) \<Rightarrow> (u64 \<Rightarrow> session_counters \<Rightarrow> session_counters) \<Rightarrow> ('s, 'a) session_op \<Rightarrow> ('s, 'a) session_op" where
  "timed now add m = do {
     ss \<leftarrow> State_Monad.get;
     let started = now (stack_source (ss_stack ss));
     a \<leftarrow> m;
     ss' \<leftarrow> State_Monad.get;
     let elapsed = now (stack_source (ss_stack ss')) - started;
     _ \<leftarrow> (if 0 < elapsed then count (add (word_of_int elapsed)) else ret ());
     ret a
   }"

definition evicted :: "u64 \<Rightarrow> 's session \<Rightarrow> 's session" where
  "evicted n ss = ss\<lparr>ss_counters := (ss_counters ss)\<lparr>sc_evictions := sc_evictions (ss_counters ss) + n\<rparr>\<rparr>"

definition store_probe :: "string \<Rightarrow> probe_result \<Rightarrow> 's session \<Rightarrow> 's session" where
  "store_probe k v ss =
     (let (m, n) = bounded_store (ss_probe_cache ss) k v kMaxProbeCacheEntries
      in evicted n (ss\<lparr>ss_probe_cache := m\<rparr>))"

definition store_browse :: "string \<Rightarrow> browse_result \<Rightarrow> 's session \<Rightarrow> 's session" where
  "store_browse k v ss =
     (let (m, n) = bounded_store (ss_browse_cache ss) k v kMaxBrowseCacheEntries
      in evicted n (ss\<lparr>ss_browse_cache := m\<rparr>))"

definition store_stat :: "string \<Rightarrow> stat_result \<Rightarrow> 's session \<Rightarrow> 's session" where
  "store_stat k v ss =
     (let (m, n) = bounded_store (ss_stat_cache ss) k v kMaxStatCacheEntries
      in evicted n (ss\<lparr>ss_stat_cache := m\<rparr>))"

definition store_node :: "string \<Rightarrow> pfs_node \<Rightarrow> 's session \<Rightarrow> 's session" where
  "store_node k v ss =
     (let (m, n) = bounded_store (ss_node_cache ss) k v kMaxNodeCacheEntries
      in evicted n (ss\<lparr>ss_node_cache := m\<rparr>))"

definition clear_caches :: "'s session \<Rightarrow> 's session" where
  "clear_caches ss =
     ss\<lparr>ss_stack := clear_stack (ss_stack ss), ss_probe_cache := [], ss_browse_cache := [],
        ss_stat_cache := [], ss_node_cache := []\<rparr>"

definition session_reset_stats :: "'s session \<Rightarrow> 's session" where
  "session_reset_stats ss = ss\<lparr>ss_stack := reset_stack (ss_stack ss), ss_counters := zero_counters\<rparr>"

definition session_stats ::
  "'s session \<Rightarrow> block_io_stats \<times> read_ahead_stats \<times> read_cache_stats \<times> session_counters" where
  "session_stats ss =
     (let st = ss_stack ss
      in (ib_stats (ra_inner (rc_inner st)), ra_stats (rc_inner st), rc_stats st, ss_counters ss))"

section \<open>Scan and lookup\<close>

definition session_scan :: "('s \<Rightarrow> int) \<Rightarrow> 's device \<Rightarrow> ('s, bool) session_op" where
  "session_scan now D =
     timed now (\<lambda>t c. c\<lparr>sc_scan_time_ns := sc_scan_time_ns c + t\<rparr>) (do {
       _ \<leftarrow> modify clear_caches;
       _ \<leftarrow> modify (\<lambda>ss. ss\<lparr>ss_last_error := ''''\<rparr>);
       _ \<leftarrow> count (\<lambda>c. c\<lparr>sc_apa_scans := sc_apa_scans c + 1\<rparr>);
       r \<leftarrow> on_stack (scan (stack_device now D) default_max_headers);
       _ \<leftarrow> modify (\<lambda>ss. ss\<lparr>ss_scan := r\<rparr>);
       if \<not> mbr_valid r then do {
         _ \<leftarrow> modify (\<lambda>ss. ss\<lparr>ss_last_error := ''Source does not contain a valid PS2 APA MBR''\<rparr>);
         ret False
       }
       else if \<not> scan_ok r then do {
         _ \<leftarrow> modify (\<lambda>ss. ss\<lparr>ss_last_error := ''APA diagnostics contain fatal errors''\<rparr>);
         ret False
       }
       else ret True
     })"

definition find_partition :: "scan_result \<Rightarrow> string \<Rightarrow> partition option" where
  "find_partition sr wanted = find (\<lambda>p. \<not> is_sub p \<and> p_id p = wanted) (partitions sr)"

definition probe_for ::
  "('s \<Rightarrow> int) \<Rightarrow> 's device \<Rightarrow> string \<Rightarrow> apa_volume \<Rightarrow> ('s, probe_result) session_op" where
  "probe_for now D pid v = do {
     ss \<leftarrow> State_Monad.get;
     case map_of (ss_probe_cache ss) pid of
       Some r \<Rightarrow> do { _ \<leftarrow> count (\<lambda>c. c\<lparr>sc_probe_hits := sc_probe_hits c + 1\<rparr>); ret r }
     | None \<Rightarrow> do {
         _ \<leftarrow> count (\<lambda>c. c\<lparr>sc_probe_misses := sc_probe_misses c + 1\<rparr>);
         r \<leftarrow> on_stack (probe (stack_device now D) v);
         _ \<leftarrow> modify (store_probe pid r);
         ret r
       }
   }"

text \<open>The beginning that \<open>browse\<close>, \<open>stat\<close>, \<open>read_file\<close> and \<open>export_to_host\<close> share: the partition, its
  type, the probe and the reader over it.\<close>

definition probe_failure :: "probe_result \<Rightarrow> string" where
  "probe_failure pr = (case pr_errors pr of [] \<Rightarrow> ''PFS probe failed'' | e # _ \<Rightarrow> pfs_message e)"

definition open_partition ::
  "('s \<Rightarrow> int) \<Rightarrow> 's device \<Rightarrow> string \<Rightarrow> ('s, string + pfs_reader) session_op" where
  "open_partition now D pid = do {
     ss \<leftarrow> State_Monad.get;
     case find_partition (ss_scan ss) pid of
       None \<Rightarrow> failE (''Partition not found: '' @ pid)
     | Some p \<Rightarrow>
         if p_type p \<noteq> kTypePfs then failE (''Partition is not PFS: '' @ pid)
         else do {
           pr \<leftarrow> probe_for now D pid (apa_volume p);
           let rd = \<lparr>rd_volume = apa_volume p, rd_probe = pr\<rparr>;
           if \<not> reader_valid rd then failE (probe_failure pr) else okE rd
         }
   }"

definition pfs_op :: "('s stack, pfs_error + 'a) state \<Rightarrow> ('s, string + 'a) session_op" where
  "pfs_op m = do { r \<leftarrow> on_stack m; ret (map_sum pfs_message id r) }"

section \<open>Browse\<close>

text \<open>\<open>visible_entry\<close> is what the loop over the entries of a directory makes of one entry, with the node
  it found, if any.\<close>

definition visible_entry :: "directory_entry \<Rightarrow> pfs_node option \<Rightarrow> session_entry" where
  "visible_entry e child =
     (case child of
        None \<Rightarrow> \<lparr>se_name = de_name e, se_inode = de_inode e, se_mode = de_mode e, se_size = 0,
                 se_inode_readable = False\<rparr>
      | Some nd \<Rightarrow> \<lparr>se_name = de_name e, se_inode = de_inode e,
                 se_mode = i_mode (nd_inode nd) AND kModeMask, se_size = i_size (nd_inode nd),
                 se_inode_readable = True\<rparr>)"

fun read_children ::
  "'t device \<Rightarrow> pfs_reader \<Rightarrow> directory_entry list \<Rightarrow> ('t, (directory_entry \<times> pfs_node option) list) state" where
  "read_children D rd [] = ret []"
| "read_children D rd (e # es) = do {
     r \<leftarrow> read_inode D rd (de_inode e);
     rest \<leftarrow> read_children D rd es;
     ret ((e, case r of Inl _ \<Rightarrow> None | Inr nd \<Rightarrow> Some nd) # rest)
   }"

text \<open>Resolve, list and read the children: the device work of one browse.\<close>

definition browse_directory ::
  "'t device \<Rightarrow> pfs_reader \<Rightarrow> string \<Rightarrow>
   ('t, string + pfs_node \<times> (directory_entry \<times> pfs_node option) list) state" where
  "browse_directory D rd path = do {
     r \<leftarrow> resolve D rd path;
     case r of
       Inl e \<Rightarrow> failE (pfs_message e)
     | Inr node \<Rightarrow>
         if \<not> mode_is_directory (i_mode (nd_inode node)) then failE ''PFS path is not a directory''
         else do {
           listed \<leftarrow> list_directory D rd node False;
           case listed of
             Inl e \<Rightarrow> failE (pfs_message e)
           | Inr es \<Rightarrow> do { cs \<leftarrow> read_children D rd es; okE (node, cs) }
         }
   }"

text \<open>The nodes a browse leaves in the caches: the directory and every readable child.\<close>

definition browsed_nodes ::
  "string \<Rightarrow> string \<Rightarrow> pfs_node \<Rightarrow> (directory_entry \<times> pfs_node option) list \<Rightarrow> (string \<times> string \<times> pfs_node) list" where
  "browsed_nodes pid path node cs =
     (make_cache_key pid path, path, node) #
     concat (map (\<lambda>(e, c). case c of None \<Rightarrow> []
       | Some nd \<Rightarrow> [(make_cache_key pid (child_path path (de_name e)), child_path path (de_name e), nd)]) cs)"

definition store_nodes :: "(string \<times> string \<times> pfs_node) list \<Rightarrow> 's session \<Rightarrow> 's session" where
  "store_nodes ns ss = foldl (\<lambda>ss (k, path, nd). store_node k nd ss) ss ns"

definition store_stats :: "(string \<times> string \<times> pfs_node) list \<Rightarrow> 's session \<Rightarrow> 's session" where
  "store_stats ns ss = foldl (\<lambda>ss (k, path, nd). store_stat k (stat_from_node path nd) ss) ss ns"

definition browse :: "('s \<Rightarrow> int) \<Rightarrow> 's device \<Rightarrow> string \<Rightarrow> string \<Rightarrow> ('s, browse_result) session_op" where
  "browse now D pid path =
     timed now (\<lambda>t c. c\<lparr>sc_browse_time_ns := sc_browse_time_ns c + t\<rparr>) (do {
       _ \<leftarrow> count (\<lambda>c. c\<lparr>sc_browse_operations := sc_browse_operations c + 1\<rparr>);
       let normalized_path = normalize_cache_path path;
       let key = make_cache_key pid normalized_path;
       ss \<leftarrow> State_Monad.get;
       case map_of (ss_browse_cache ss) key of
         Some r \<Rightarrow> do { _ \<leftarrow> count (\<lambda>c. c\<lparr>sc_browse_hits := sc_browse_hits c + 1\<rparr>); ret r }
       | None \<Rightarrow> do {
           _ \<leftarrow> count (\<lambda>c. c\<lparr>sc_browse_misses := sc_browse_misses c + 1\<rparr>);
           r \<leftarrow> bindE (open_partition now D pid) (\<lambda>rd.
                 on_stack (browse_directory (stack_device now D) rd normalized_path));
           case r of
             Inl msg \<Rightarrow> ret \<lparr>br_ok = False, br_error = msg, br_entries = []\<rparr>
           | Inr (node, cs) \<Rightarrow> do {
               let result = \<lparr>br_ok = True, br_error = '''',
                 br_entries = map (\<lambda>(e, c). visible_entry e c) cs\<rparr>;
               let ns = browsed_nodes pid normalized_path node cs;
               _ \<leftarrow> modify (store_nodes ns);
               _ \<leftarrow> modify (store_stats ns);
               _ \<leftarrow> modify (store_browse key result);
               ret result
             }
         }
     })"

section \<open>Stat\<close>

definition failed_stat :: "string \<Rightarrow> stat_result" where
  "failed_stat msg =
     \<lparr>st_ok = False, st_error = msg,
      st_entry = \<lparr>se_name = '''', se_inode = empty_block_info, se_mode = 0, se_size = 0,
        se_inode_readable = False\<rparr>\<rparr>"

definition session_stat :: "('s \<Rightarrow> int) \<Rightarrow> 's device \<Rightarrow> string \<Rightarrow> string \<Rightarrow> ('s, stat_result) session_op" where
  "session_stat now D pid path =
     timed now (\<lambda>t c. c\<lparr>sc_stat_time_ns := sc_stat_time_ns c + t\<rparr>) (do {
       _ \<leftarrow> count (\<lambda>c. c\<lparr>sc_stat_operations := sc_stat_operations c + 1\<rparr>);
       let normalized_path = normalize_cache_path path;
       let key = make_cache_key pid normalized_path;
       ss \<leftarrow> State_Monad.get;
       case map_of (ss_stat_cache ss) key of
         Some r \<Rightarrow> do { _ \<leftarrow> count (\<lambda>c. c\<lparr>sc_stat_hits := sc_stat_hits c + 1\<rparr>); ret r }
       | None \<Rightarrow> do {
           _ \<leftarrow> count (\<lambda>c. c\<lparr>sc_stat_misses := sc_stat_misses c + 1\<rparr>);
           case map_of (ss_node_cache ss) key of
             Some nd \<Rightarrow> do {
               _ \<leftarrow> count (\<lambda>c. c\<lparr>sc_node_hits := sc_node_hits c + 1\<rparr>);
               let result = stat_from_node normalized_path nd;
               _ \<leftarrow> modify (store_stat key result);
               ret result
             }
           | None \<Rightarrow> do {
               _ \<leftarrow> count (\<lambda>c. c\<lparr>sc_node_misses := sc_node_misses c + 1\<rparr>);
               r \<leftarrow> bindE (open_partition now D pid) (\<lambda>rd.
                     pfs_op (resolve (stack_device now D) rd normalized_path));
               case r of
                 Inl msg \<Rightarrow> ret (failed_stat msg)
               | Inr node \<Rightarrow> do {
                   let result = stat_from_node normalized_path node;
                   _ \<leftarrow> modify (store_node key node);
                   _ \<leftarrow> modify (store_stat key result);
                   ret result
                 }
             }
         }
     })"

section \<open>Reading and exporting\<close>

text \<open>The node of a path, from the cache or resolved and cached.\<close>

definition cached_node ::
  "('s \<Rightarrow> int) \<Rightarrow> 's device \<Rightarrow> pfs_reader \<Rightarrow> string \<Rightarrow> string \<Rightarrow> ('s, string + pfs_node) session_op" where
  "cached_node now D rd key normalized_path = do {
     ss \<leftarrow> State_Monad.get;
     case map_of (ss_node_cache ss) key of
       Some nd \<Rightarrow> do { _ \<leftarrow> count (\<lambda>c. c\<lparr>sc_node_hits := sc_node_hits c + 1\<rparr>); okE nd }
     | None \<Rightarrow> do {
         _ \<leftarrow> count (\<lambda>c. c\<lparr>sc_node_misses := sc_node_misses c + 1\<rparr>);
         r \<leftarrow> pfs_op (resolve (stack_device now D) rd normalized_path);
         case r of
           Inl msg \<Rightarrow> failE msg
         | Inr nd \<Rightarrow> do {
             _ \<leftarrow> modify (store_node key nd);
             _ \<leftarrow> modify (store_stat key (stat_from_node normalized_path nd));
             okE nd
           }
       }
   }"

definition read_file ::
  "('s \<Rightarrow> int) \<Rightarrow> 's device \<Rightarrow> string \<Rightarrow> string \<Rightarrow> u64 \<Rightarrow> nat \<Rightarrow> ('s, read_result) session_op" where
  "read_file now D pid path offset n =
     timed now (\<lambda>t c. c\<lparr>sc_read_time_ns := sc_read_time_ns c + t\<rparr>) (do {
       _ \<leftarrow> count (\<lambda>c. c\<lparr>sc_read_operations := sc_read_operations c + 1\<rparr>);
       let normalized_path = normalize_cache_path path;
       let key = make_cache_key pid normalized_path;
       r \<leftarrow> bindE (open_partition now D pid) (\<lambda>rd.
             bindE (cached_node now D rd key normalized_path) (\<lambda>nd.
               let size = i_size (nd_inode nd)
               in if \<not> mode_is_regular (i_mode (nd_inode nd)) then failE ''PFS path is not a regular file''
               else if size \<le> offset \<or> n = 0 then okE []
               else
                 let take_bytes = unat (min (of_nat n) (size - offset))
                 in pfs_op (pfs_read (stack_device now D) rd nd offset take_bytes)));
       ret (case r of
         Inl msg \<Rightarrow> \<lparr>rr_ok = False, rr_error = msg, rr_bytes = []\<rparr>
       | Inr bs \<Rightarrow> \<lparr>rr_ok = True, rr_error = '''', rr_bytes = bs\<rparr>)
     })"

text \<open>An export of the session: whether it succeeded, and the export's own state with its statistics,
  warnings and host calls.\<close>

definition session_export ::
  "('s \<Rightarrow> int) \<Rightarrow> 's device \<Rightarrow> host \<Rightarrow> string \<Rightarrow> string \<Rightarrow> host_path \<Rightarrow>
   ('s, bool \<times> 's stack export_state) session_op" where
  "session_export now D host pid path destination =
     timed now (\<lambda>t c. c\<lparr>sc_export_time_ns := sc_export_time_ns c + t\<rparr>) (do {
       _ \<leftarrow> count (\<lambda>c. c\<lparr>sc_export_operations := sc_export_operations c + 1\<rparr>);
       r \<leftarrow> open_partition now D pid;
       ss \<leftarrow> State_Monad.get;
       case r of
         Inl msg \<Rightarrow> ret (False, (empty_export (ss_stack ss))\<lparr>ex_error := msg\<rparr>)
       | Inr rd \<Rightarrow> do {
           let (ok, x) = run_state (pfs_export_to_host (stack_device now D) host rd path destination)
             (empty_export (ss_stack ss));
           _ \<leftarrow> modify (\<lambda>ss. ss\<lparr>ss_stack := ex_device x\<rparr>);
           ret (ok, x)
         }
     })"

section \<open>The stack is transparent\<close>

definition stack_ok :: "('s \<Rightarrow> bool) \<Rightarrow> ('s \<Rightarrow> image) \<Rightarrow> 's stack \<Rightarrow> bool" where
  "stack_ok ok img = rc_ok (ra_ok (ok \<circ> ib_inner) (img \<circ> ib_inner)) (img \<circ> ib_inner \<circ> ra_inner)"

definition stack_img :: "('s \<Rightarrow> image) \<Rightarrow> 's stack \<Rightarrow> image" where
  "stack_img img = img \<circ> ib_inner \<circ> ra_inner \<circ> rc_inner"

lemma stack_reliable_device:
  assumes "reliable_device D ok img"
  shows "reliable_device (stack_device now D) (stack_ok ok img) (stack_img img)"
  unfolding stack_device_def stack_ok_def stack_img_def
  by (intro reliable_device.rc_reliable_device reliable_device.ra_reliable_device ib_reliable_device assms)

lemma new_stack_ok: "ok s \<Longrightarrow> stack_ok ok img (new_stack s)"
  by (simp add: stack_ok_def new_stack_def rc_ok_initial ra_ok_initial)

lemma new_stack_img: "stack_img img (new_stack s) = img s"
  by (simp add: stack_img_def new_stack_def read_cache_def read_ahead_def instrumented_def)

text \<open>C1: The whole stack of a session (metadata page cache over sequential read-ahead over the
  instrumentation) is transparent: over a reliable source every read returns what the source would
  return, after any earlier reads, and no read inside the image fails.\<close>

theorem stack_transparent:
  assumes "reliable_device D ok img" "stack_ok ok img st"
  shows "evalS (dev_read (stack_device now D) off n) st =
      (if in_image (stack_img img st) off n then Some (image_slice (stack_img img st) (unat off) n) else None) \<and>
    stack_ok ok img (snd (run_state (dev_read (stack_device now D) off n) st)) \<and>
    stack_img img (snd (run_state (dev_read (stack_device now D) off n) st)) = stack_img img st"
proof -
  note t = reliable_device.transparent_read [OF stack_reliable_device [OF assms(1)], of now off n]
  from transparent_eval [OF t assms(2)] t assms(2) show ?thesis
    by (simp add: transparent_def evalS_def run_image_read)
qed

theorem stack_transparent_witness:
  "evalS (dev_read (stack_device (\<lambda>_. 0) image_device) 2 3)
     (new_stack \<lparr>img_size = 8, img_byte = of_nat\<rparr>) = Some [2, 3, 4]"
  using stack_transparent [of image_device "\<lambda>_. True" "\<lambda>im. im" "new_stack \<lparr>img_size = 8, img_byte = of_nat\<rparr>"
      "\<lambda>_. 0" 2 3]
  by (simp add: image.reliable_device_axioms new_stack_ok new_stack_img in_image_nat image_slice_def)

lemma clear_stack_ok: "stack_ok ok img st \<Longrightarrow> stack_ok ok img (clear_stack st) \<and> stack_img img (clear_stack st) = stack_img img st"
  using ra_ok_clear [of "ok \<circ> ib_inner" "img \<circ> ib_inner" "rc_inner st"]
  by (simp add: stack_ok_def stack_img_def clear_stack_def rc_ok_def rc_clear_def ra_clear_def)

section \<open>Cache paths\<close>

definition join_components :: "string list \<Rightarrow> string" where
  "join_components cs = (case cs of [] \<Rightarrow> '''' | c # cs \<Rightarrow> c @ concat (map (\<lambda>c. CHR ''/'' # c) cs))"

lemma normalize_seps:
  "normalize_step (acc, True) c = (if is_separator c then (acc, True) else (acc @ [c], False))"
  "normalize_step (acc, False) c = (if is_separator c then (acc @ ''/'', True) else (acc @ [c], False))"
  by (auto simp: normalize_step_def is_separator_def)

lemma normalize_skip:
  "foldl normalize_step (acc, True) path = foldl normalize_step (acc, True) (dropWhile is_separator path)"
  by (induction path) (auto simp: normalize_seps)

lemma normalize_word:
  "\<forall>c \<in> set w. \<not> is_separator c \<Longrightarrow>
   foldl normalize_step (acc, b) w = (acc @ w, if w = [] then b else False)"
proof (induction w arbitrary: acc b)
  case (Cons c w)
  have "normalize_step (acc, b) c = (acc @ [c], False)"
    using Cons.prems by (cases b) (simp_all add: normalize_seps)
  then show ?case using Cons by simp
qed simp

lemma path_components_blank: "dropWhile is_separator p = [] \<Longrightarrow> path_components p = []"
  by (subst path_components.simps) (simp del: dropWhile_eq_Nil_conv)

lemma path_components_rest:
  "dropWhile is_separator p \<noteq> [] \<Longrightarrow>
   path_components p = takeWhile (\<lambda>c. \<not> is_separator c) (dropWhile is_separator p) #
     path_components (dropWhile (\<lambda>c. \<not> is_separator c) (dropWhile is_separator p))"
  by (subst path_components.simps) (simp add: Let_def del: dropWhile_eq_Nil_conv)

lemma path_components_parts:
  "c \<in> set (path_components path) \<Longrightarrow> c \<noteq> [] \<and> (\<forall>x \<in> set c. \<not> is_separator x)"
proof (induction path rule: path_components.induct)
  case (1 path)
  let ?rest = "dropWhile is_separator path"
  show ?case
  proof (cases "?rest = []")
    case True
    with 1(2) show ?thesis by (simp only: path_components_blank list.set empty_iff)
  next
    case False
    then have w: "takeWhile (\<lambda>c. \<not> is_separator c) ?rest \<noteq> []"
      by (metis hd_dropWhile takeWhile_eq_Nil_iff)
    from 1(2) consider "c = takeWhile (\<lambda>c. \<not> is_separator c) ?rest"
      | "c \<in> set (path_components (dropWhile (\<lambda>c. \<not> is_separator c) ?rest))"
      unfolding path_components_rest [OF False] by (metis set_ConsD)
    then show ?thesis
    proof cases
      case 1
      with w show ?thesis by (metis set_takeWhileD)
    next
      case 2
      from "1.IH" [OF refl False this] show ?thesis .
    qed
  qed
qed

lemma normalize_fold:
  "\<exists>t. fst (foldl normalize_step (acc, True) path) = acc @ join_components (path_components path) @ t \<and>
     set t \<subseteq> {CHR ''/''} \<and> (path_components path = [] \<longrightarrow> t = [])"
proof (induction path arbitrary: acc rule: path_components.induct)
  case (1 path)
  let ?rest = "dropWhile is_separator path"
  let ?w = "takeWhile (\<lambda>c. \<not> is_separator c) ?rest" and ?r = "dropWhile (\<lambda>c. \<not> is_separator c) ?rest"
  show ?case
  proof (cases "?rest = []")
    case True
    then show ?thesis
      by (subst normalize_skip)
        (simp add: path_components_blank join_components_def del: dropWhile_eq_Nil_conv)
  next
    case False
    then have w: "?w \<noteq> []" by (metis hd_dropWhile takeWhile_eq_Nil_iff)
    have cs: "path_components path = ?w # path_components ?r"
      by (rule path_components_rest [OF False])
    have "foldl normalize_step (acc, True) path = foldl normalize_step (foldl normalize_step (acc, True) ?w) ?r"
      by (subst normalize_skip, subst takeWhile_dropWhile_id [of "\<lambda>c. \<not> is_separator c", symmetric])
        (simp only: foldl_append)
    also have "foldl normalize_step (acc, True) ?w = (acc @ ?w, False)"
      using w by (subst normalize_word) (auto dest: set_takeWhileD)
    finally have fold: "foldl normalize_step (acc, True) path = foldl normalize_step (acc @ ?w, False) ?r" .
    show ?thesis
    proof (cases ?r)
      case Nil
      show ?thesis unfolding cs fold Nil
        by (simp add: join_components_def path_components_blank)
    next
      case (Cons c q)
      then have c: "is_separator c" by (metis hd_dropWhile list.sel(1) list.distinct(1))
      then have "foldl normalize_step (acc @ ?w, False) ?r = foldl normalize_step ((acc @ ?w) @ ''/'', True) ?r"
        by (simp add: Cons normalize_seps)
      with 1 [OF refl False, of "(acc @ ?w) @ ''/''"] obtain t where
        t: "fst (foldl normalize_step (acc, True) path) =
            ((acc @ ?w) @ ''/'') @ join_components (path_components ?r) @ t"
          "set t \<subseteq> {CHR ''/''}" "path_components ?r = [] \<longrightarrow> t = []"
        by (auto simp: fold)
      show ?thesis
      proof (cases "path_components ?r")
        case Nil
        with t show ?thesis unfolding cs by (intro exI [of _ "''/''"]) (simp add: join_components_def)
      next
        case (Cons d ds)
        with t(1,2) show ?thesis unfolding cs by (intro exI [of _ t]) (simp add: join_components_def)
      qed
    qed
  qed
qed

lemma join_last:
  assumes "cs \<noteq> []" "\<forall>c \<in> set cs. c \<noteq> [] \<and> (\<forall>x \<in> set c. \<not> is_separator x)"
  shows "join_components cs \<noteq> [] \<and> \<not> is_separator (last (join_components cs))"
proof (cases cs rule: rev_cases)
  case Nil
  with assms show ?thesis by simp
next
  case (snoc ds d)
  have "\<exists>p. join_components (ds @ [d]) = p @ d"
    by (cases ds) (simp_all add: join_components_def)
  with assms(2) snoc show ?thesis by auto
qed

lemma normalize_join: "normalize_cache_path path = join_components (path_components path)"
proof -
  let ?cs = "path_components path"
  from normalize_fold [of "''''" path] obtain t where
    t: "fst (foldl normalize_step ('''', True) path) = join_components ?cs @ t" "set t \<subseteq> {CHR ''/''}" by auto
  have drop_t: "dropWhile (\<lambda>c. c = CHR ''/'') (rev t @ xs) = dropWhile (\<lambda>c. c = CHR ''/'') xs" for xs
    using t(2) by (intro dropWhile_append2) auto
  show ?thesis
  proof (cases "?cs = []")
    case True
    then show ?thesis using drop_t [of "[]"] by (simp add: normalize_cache_path_def t(1) join_components_def)
  next
    case False
    have "\<forall>c \<in> set ?cs. c \<noteq> [] \<and> (\<forall>x \<in> set c. \<not> is_separator x)"
      using path_components_parts by blast
    from join_last [OF False this] have ne: "join_components ?cs \<noteq> []"
      and "last (join_components ?cs) \<noteq> CHR ''/''" by (auto simp: is_separator_def)
    then have "dropWhile (\<lambda>c. c = CHR ''/'') (rev (join_components ?cs)) = rev (join_components ?cs)"
      by (cases "join_components ?cs" rule: rev_cases) auto
    then show ?thesis by (simp add: normalize_cache_path_def t(1) drop_t)
  qed
qed

lemma components_word:
  assumes "c \<noteq> []" "\<forall>x \<in> set c. \<not> is_separator x"
  shows "path_components c = [c]"
proof -
  have "dropWhile is_separator c = c" using assms by (cases c) auto
  moreover have "takeWhile (\<lambda>x. \<not> is_separator x) c = c" "dropWhile (\<lambda>x. \<not> is_separator x) c = []"
    using assms by (simp_all add: takeWhile_eq_all_conv dropWhile_eq_Nil_conv)
  ultimately show ?thesis using assms(1)
    by (subst path_components.simps)
      (simp add: Let_def path_components.simps [of "[]"] del: dropWhile_eq_Nil_conv takeWhile_eq_all_conv)
qed

lemma components_join:
  assumes "\<forall>c \<in> set cs. c \<noteq> [] \<and> (\<forall>x \<in> set c. \<not> is_separator x)"
  shows "path_components (join_components cs) = cs"
proof (cases cs)
  case Nil
  then show ?thesis by (simp add: join_components_def path_components.simps [of "[]"])
next
  case (Cons c ds)
  have sep: "is_separator CHR ''/''" by (simp add: is_separator_def)
  have "path_components (p @ concat (map ((#) CHR ''/'') ds)) = path_components p @ ds"
    if "\<forall>d \<in> set ds. d \<noteq> [] \<and> (\<forall>x \<in> set d. \<not> is_separator x)" for p ds
    using that
  proof (induction ds arbitrary: p)
    case (Cons d ds)
    have "path_components (p @ CHR ''/'' # d @ concat (map ((#) CHR ''/'') ds)) =
        path_components p @ path_components (d @ concat (map ((#) CHR ''/'') ds))"
      by (rule path_components_append [OF sep])
    also have "path_components (d @ concat (map ((#) CHR ''/'') ds)) = path_components d @ ds"
      using Cons by simp
    also have "path_components d = [d]" using Cons.prems by (intro components_word) auto
    finally show ?case by simp
  qed simp
  with assms Cons show ?thesis by (simp add: join_components_def components_word)
qed

lemma path_components_normalize [simp]: "path_components (normalize_cache_path p) = path_components p"
proof -
  have "\<forall>c \<in> set (path_components p). c \<noteq> [] \<and> (\<forall>x \<in> set c. \<not> is_separator x)"
    using path_components_parts by blast
  then show ?thesis by (simp add: normalize_join components_join)
qed

lemma normalize_idem [simp]: "normalize_cache_path (normalize_cache_path p) = normalize_cache_path p"
  by (simp add: normalize_join [of "normalize_cache_path p"] normalize_join [of p, symmetric])

lemma normalize_eq_iff:
  "normalize_cache_path p = normalize_cache_path q \<longleftrightarrow> path_components p = path_components q"
  by (metis normalize_join path_components_normalize)

lemma resolve_normalize: "resolve D rd (normalize_cache_path p) = resolve D rd p"
  by (simp add: resolve_def resolve_from_components)

text \<open>C28: The normalized cache path is the canonical spelling of a path: it has the same components, so it
  resolves to the same node, two paths get the same spelling exactly when they have the same
  components, and normalizing twice changes nothing.\<close>

theorem normalize_canonical:
  "path_components (normalize_cache_path p) = path_components p \<and>
   (normalize_cache_path p = normalize_cache_path q \<longleftrightarrow> path_components p = path_components q) \<and>
   normalize_cache_path (normalize_cache_path p) = normalize_cache_path p \<and>
   resolve D rd (normalize_cache_path p) = resolve D rd p"
  by (simp add: normalize_eq_iff resolve_normalize)

end
