(* ===== verification/HdlEnrichment.thy ===== *)
theory HdlEnrichment
  imports PartitionCatalog
begin

text \<open>
  \<open>src/host/hdl_enrichment.cpp\<close>: how many HDL metadata reads may run at once, and the worker threads
  that run them.  The threads are an interleaving of atomic steps: a worker polls the stop token,
  claims the next index, reads its game, stores the result, counts it and reports it.
\<close>

section \<open>The policy\<close>

record enrichment_policy =
  max_in_flight :: nat
  physical_lba_order :: bool

definition choose_hdl_enrichment_policy ::
  "storage_characteristics \<Rightarrow> nat \<Rightarrow> nat \<Rightarrow> enrichment_policy" where
  "choose_hdl_enrichment_policy storage candidates max_in_flight_override =
     \<lparr>max_in_flight =
        (if candidates = 0 then 0
         else if max_in_flight_override \<noteq> 0 then min max_in_flight_override candidates
         else if media_class storage = Media_solid_state then min 4 candidates
         else 1),
      physical_lba_order = True\<rparr>"

text \<open>The number of concurrent reads never exceeds the number of games, is positive when there is a
  game, and without an explicit override it is 1 on rotational and unknown media and at most 4 on solid
  state.\<close>

theorem enrichment_policy_bounds:
  "max_in_flight (choose_hdl_enrichment_policy st n k) \<le> n \<and>
   (max_in_flight (choose_hdl_enrichment_policy st n k) = 0) = (n = 0) \<and>
   max_in_flight (choose_hdl_enrichment_policy st (Suc n) 0) =
     (if media_class st = Media_solid_state then min 4 (Suc n) else 1)"
  by (auto simp: choose_hdl_enrichment_policy_def)

section \<open>The workers\<close>

datatype worker =
    Polling
  | Claiming
  | Reading nat
  | Counting nat
  | Reporting nat nat
  | Finished

record 's enrichment =
  en_device :: 's
  en_stop :: bool
  en_next :: nat
  en_completed :: nat
  en_results :: "game_result option list"
  en_workers :: "worker list"
  en_log :: progress_log

definition start_enrichment :: "'s \<Rightarrow> nat \<Rightarrow> nat \<Rightarrow> 's enrichment" where
  "start_enrichment s n workers =
     \<lparr>en_device = s, en_stop = False, en_next = 0, en_completed = 0, en_results = replicate n None,
      en_workers = replicate workers Polling, en_log = []\<rparr>"

text \<open>\<open>request_stop\<close> is the environment's step; every other step is one of worker \<open>w\<close>.  Between its
  poll and its \<open>fetch_add\<close> a worker may miss a stop request.\<close>

definition set_worker :: "nat \<Rightarrow> worker \<Rightarrow> 's enrichment \<Rightarrow> 's enrichment" where
  "set_worker w st e = e\<lparr>en_workers := (en_workers e)[w := st]\<rparr>"

inductive enrichment_step ::
  "'s device \<Rightarrow> partition list \<Rightarrow> 's enrichment \<Rightarrow> 's enrichment \<Rightarrow> bool"
  for D :: "'s device" and ps :: "partition list" where
  request_stop: "enrichment_step D ps e (e\<lparr>en_stop := True\<rparr>)"
| poll: "\<lbrakk>w < length (en_workers e); en_workers e ! w = Polling\<rbrakk> \<Longrightarrow>
    enrichment_step D ps e (set_worker w (if en_stop e then Finished else Claiming) e)"
| claim: "\<lbrakk>w < length (en_workers e); en_workers e ! w = Claiming\<rbrakk> \<Longrightarrow>
    enrichment_step D ps e
      (set_worker w (if length ps \<le> en_next e then Finished else Reading (en_next e))
        (e\<lparr>en_next := en_next e + 1\<rparr>))"
| read: "\<lbrakk>w < length (en_workers e); en_workers e ! w = Reading i;
     run_state (read_game_info D (ps ! i)) (en_device e) = (r, s')\<rbrakk> \<Longrightarrow>
    enrichment_step D ps e
      (set_worker w (Counting i) (e\<lparr>en_device := s', en_results := (en_results e)[i := Some r]\<rparr>))"
| count: "\<lbrakk>w < length (en_workers e); en_workers e ! w = Counting i\<rbrakk> \<Longrightarrow>
    enrichment_step D ps e
      (set_worker w (Reporting i (en_completed e + 1)) (e\<lparr>en_completed := en_completed e + 1\<rparr>))"
| report: "\<lbrakk>w < length (en_workers e); en_workers e ! w = Reporting i k; en_results e ! i = Some r\<rbrakk> \<Longrightarrow>
    enrichment_step D ps e (set_worker w Polling (e\<lparr>en_log := en_log e @ [(k, length ps, r)]\<rparr>))"

inductive enrichment_reachable ::
  "'s device \<Rightarrow> partition list \<Rightarrow> 's enrichment \<Rightarrow> 's enrichment \<Rightarrow> bool"
  for D :: "'s device" and ps :: "partition list" and e0 :: "'s enrichment" where
  start: "enrichment_reachable D ps e0 e0"
| step: "\<lbrakk>enrichment_reachable D ps e0 e; enrichment_step D ps e e'\<rbrakk> \<Longrightarrow> enrichment_reachable D ps e0 e'"

inductive_cases enrichment_stepE: "enrichment_step D ps e e'"

text \<open>After the join: the results in index order.\<close>

definition collect_catalog :: "nat \<Rightarrow> game_result option list \<Rightarrow> catalog_result" where
  "collect_catalog n results =
     (let c = foldl (\<lambda>c r. case r of None \<Rightarrow> c | Some r \<Rightarrow> add_game r c) (empty_catalog n) results
      in c\<lparr>cat_cancelled := (length (cat_entries c) \<noteq> cat_total_candidates c)\<rparr>)"

definition all_finished :: "'s enrichment \<Rightarrow> bool" where
  "all_finished e \<longleftrightarrow> list_all (\<lambda>w. w = Finished) (en_workers e)"

section \<open>The result does not depend on the interleaving\<close>

text \<open>What holds between any two steps: the results are those of the claimed indices that nobody is
  still reading.\<close>

definition enrichment_inv ::
  "('s \<Rightarrow> bool) \<Rightarrow> ('s \<Rightarrow> image) \<Rightarrow> image \<Rightarrow> partition list \<Rightarrow> 's enrichment \<Rightarrow> bool" where
  "enrichment_inv ok img im ps e \<longleftrightarrow>
     ok (en_device e) \<and> img (en_device e) = im \<and> length (en_results e) = length ps \<and>
     (\<forall>i < length ps. en_results e ! i =
        (if i < en_next e \<and> Reading i \<notin> set (en_workers e) then Some (game_on im (ps ! i)) else None)) \<and>
     (\<forall>i. Reading i \<in> set (en_workers e) \<longrightarrow> i < en_next e \<and> i < length ps) \<and>
     (\<forall>v w i. v < length (en_workers e) \<longrightarrow> w < length (en_workers e) \<longrightarrow>
        en_workers e ! v = Reading i \<longrightarrow> en_workers e ! w = Reading i \<longrightarrow> v = w) \<and>
     (Finished \<in> set (en_workers e) \<longrightarrow> en_stop e \<or> length ps \<le> en_next e)"

lemma reading_update:
  "w < length ws \<Longrightarrow>
   Reading i \<in> set (ws[w := st]) \<longleftrightarrow> st = Reading i \<or> (\<exists>v < length ws. v \<noteq> w \<and> ws ! v = Reading i)"
  by (auto simp: in_set_conv_nth nth_list_update)

lemma reading_unchanged:
  "\<lbrakk>w < length ws; \<And>j. ws ! w \<noteq> Reading j; \<And>j. st \<noteq> Reading j\<rbrakk> \<Longrightarrow>
   Reading i \<in> set (ws[w := st]) \<longleftrightarrow> Reading i \<in> set ws"
  unfolding in_set_conv_nth [of _ ws] by (auto simp: reading_update)

text \<open>A step between states of a worker that reads nothing keeps the invariant, if the stop flag and the
  counter only grow and a worker finishes for a reason.\<close>

lemma inv_set_worker:
  assumes "enrichment_inv ok img im ps e" "w < length (en_workers e)"
    and "\<And>j. en_workers e ! w \<noteq> Reading j" "\<And>j. st \<noteq> Reading j"
    and "st = Finished \<Longrightarrow> en_stop e \<or> length ps \<le> en_next e"
  shows "enrichment_inv ok img im ps (set_worker w st e)"
proof -
  let ?ws = "en_workers e"
  have r: "Reading i \<in> set (?ws[w := st]) \<longleftrightarrow> Reading i \<in> set ?ws" for i
    by (rule reading_unchanged [OF assms(2,3,4)])
  have u: "(?ws[w := st]) ! v = Reading i \<longleftrightarrow> v \<noteq> w \<and> ?ws ! v = Reading i" if "v < length ?ws" for v i
    using assms(2-4) that by (auto simp: nth_list_update)
  have f: "Finished \<in> set (?ws[w := st]) \<Longrightarrow> en_stop e \<or> length ps \<le> en_next e"
    using assms(1,5) set_update_subset_insert [of ?ws w st] by (auto simp: enrichment_inv_def)
  show ?thesis
    using assms(1) f by (simp add: enrichment_inv_def set_worker_def r u)
qed

lemma inv_log: "enrichment_inv ok img im ps (e\<lparr>en_log := l\<rparr>) \<longleftrightarrow> enrichment_inv ok img im ps e"
  "enrichment_inv ok img im ps (e\<lparr>en_completed := k\<rparr>) \<longleftrightarrow> enrichment_inv ok img im ps e"
  by (simp_all add: enrichment_inv_def)

lemma inv_claim:
  assumes "enrichment_inv ok img im ps e" "w < length (en_workers e)" "en_workers e ! w = Claiming"
  shows "enrichment_inv ok img im ps
    (set_worker w (if length ps \<le> en_next e then Finished else Reading (en_next e)) (e\<lparr>en_next := en_next e + 1\<rparr>))"
proof (cases "length ps \<le> en_next e")
  case True
  have "enrichment_inv ok img im ps (e\<lparr>en_next := en_next e + 1\<rparr>)"
    using assms(1) True by (auto simp: enrichment_inv_def)
  then show ?thesis using True assms(2,3) by (simp add: inv_set_worker)
next
  case False
  let ?ws = "en_workers e" and ?n = "en_next e"
  have r: "Reading i \<in> set (?ws[w := Reading ?n]) \<longleftrightarrow> i = ?n \<or> Reading i \<in> set ?ws" for i
    unfolding reading_update [OF assms(2)] in_set_conv_nth [of _ ?ws] using assms(3) by auto
  have fresh: "Reading ?n \<notin> set ?ws" using assms(1) by (auto simp: enrichment_inv_def)
  then have no: "?ws ! v \<noteq> Reading ?n" if "v < length ?ws" for v using that by (metis nth_mem)
  have u: "(?ws[w := Reading ?n]) ! v = Reading i \<longleftrightarrow> (if v = w then i = ?n else ?ws ! v = Reading i)"
    if "v < length ?ws" for v i using that by (auto simp: nth_list_update)
  have f: "Finished \<in> set (?ws[w := Reading ?n]) \<Longrightarrow> Finished \<in> set ?ws"
    using set_update_subset_insert [of ?ws w "Reading ?n"] by auto
  have "(\<forall>i < length ps. en_results e ! i =
      (if i < ?n + 1 \<and> i \<noteq> ?n \<and> Reading i \<notin> set ?ws then Some (game_on im (ps ! i)) else None))"
    using assms(1) by (auto simp: enrichment_inv_def)
  then show ?thesis
    using assms(1,2) False f no by (auto simp: enrichment_inv_def set_worker_def r u)
qed

context reliable_device
begin

lemma inv_read:
  assumes inv: "enrichment_inv ok img im ps e" and w: "w < length (en_workers e)" "en_workers e ! w = Reading i"
    and run: "run_state (read_game_info D (ps ! i)) (en_device e) = (r, s')"
  shows "enrichment_inv ok img im ps
    (set_worker w (Counting i) (e\<lparr>en_device := s', en_results := (en_results e)[i := Some r]\<rparr>))"
proof -
  let ?ws = "en_workers e"
  have i: "i < en_next e" "i < length ps" using inv w by (auto simp: enrichment_inv_def in_set_conv_nth)
  have s: "ok (en_device e)" "img (en_device e) = im" using inv by (simp_all add: enrichment_inv_def)
  note t = transparentD [OF transparent_read_game_info s(1) run]
  have r: "r = game_on im (ps ! i)" using t(3) s(2) by (simp add: game_on_def evalS_def)
  have only: "?ws ! v = Reading i \<longleftrightarrow> v = w" if "v < length ?ws" for v
    using inv w that by (auto simp: enrichment_inv_def)
  have rd: "Reading j \<in> set (?ws[w := Counting i]) \<longleftrightarrow> j \<noteq> i \<and> Reading j \<in> set ?ws" for j
    unfolding reading_update [OF w(1)] in_set_conv_nth [of _ ?ws] using only w(2) by auto
  have u: "(?ws[w := Counting i]) ! v = Reading j \<longleftrightarrow> v \<noteq> w \<and> ?ws ! v = Reading j" if "v < length ?ws" for v j
    using that w(1) by (auto simp: nth_list_update)
  have f: "Finished \<in> set (?ws[w := Counting i]) \<Longrightarrow> Finished \<in> set ?ws"
    using set_update_subset_insert [of ?ws w "Counting i"] by auto
  show ?thesis
    using inv i t(1,2) s(2) f by (auto simp: enrichment_inv_def set_worker_def rd u r nth_list_update)
qed

lemma inv_step: "\<lbrakk>enrichment_step D ps e e'; enrichment_inv ok img im ps e\<rbrakk> \<Longrightarrow> enrichment_inv ok img im ps e'"
proof (erule enrichment_stepE, goal_cases)
  case 1
  then show ?case by (simp add: enrichment_inv_def)
next
  case (2 w)
  then show ?case by (auto intro!: inv_set_worker)
next
  case (3 w)
  then show ?case using inv_claim [of ok img im ps e w] by simp
next
  case (4 w i r s')
  then show ?case using inv_read [of im ps e w i r s'] by simp
next
  case (5 w i)
  then show ?case by (auto intro!: inv_set_worker simp: inv_log)
next
  case (6 w i k r)
  then show ?case by (auto intro!: inv_set_worker simp: inv_log)
qed

lemma inv_reachable:
  assumes "enrichment_reachable D ps (start_enrichment s (length ps) n) e" "ok s"
  shows "enrichment_inv ok img (img s) ps e"
  using assms(1)
proof induction
  case start
  show ?case using assms(2) by (auto simp: enrichment_inv_def start_enrichment_def)
next
  case (step e e')
  from inv_step [OF step(2) step(3)] show ?case .
qed

end

lemma workers_length:
  "enrichment_reachable D ps e0 e \<Longrightarrow> length (en_workers e) = length (en_workers e0)"
  by (induction rule: enrichment_reachable.induct) (auto elim!: enrichment_stepE simp: set_worker_def)

lemma collect_prefix:
  assumes "length rs + m = n"
  shows "collect_catalog n (map Some rs @ replicate m None) = catalog_of n rs"
proof -
  let ?f = "\<lambda>c r. case r of None \<Rightarrow> c | Some r \<Rightarrow> add_game r c"
  have "foldl ?f (empty_catalog n) (map Some rs) = (catalog_of n rs)\<lparr>cat_cancelled := False\<rparr>"
  proof (induction rs rule: rev_induct)
    case Nil
    show ?case by (simp add: empty_catalog_def catalog_of_def)
  next
    case (snoc r rs)
    then show ?case by (simp add: add_game_def catalog_of_def)
  qed
  moreover have "foldl ?f c (replicate m None) = c" for c by (induction m) simp_all
  ultimately show ?thesis
    using assms by (simp add: collect_catalog_def Let_def) (auto simp: catalog_of_def)
qed

lemma collected_result:
  assumes "reliable_device D ok img" "ok s" "0 < workers"
    and "enrichment_reachable D ps (start_enrichment s (length ps) workers) e" "all_finished e"
  shows "collect_catalog (length ps) (en_results e) =
      catalog_of (length ps) (map (game_on (img s)) (take (en_next e) ps)) \<and>
    (en_stop e \<or> length ps \<le> en_next e)"
proof -
  from reliable_device.inv_reachable [OF assms(1,4,2)]
  have inv: "enrichment_inv ok img (img s) ps e" .
  have ws: "length (en_workers e) = workers"
    using workers_length [OF assms(4)] by (simp add: start_enrichment_def)
  have fin: "\<forall>w \<in> set (en_workers e). w = Finished" using assms(5) by (simp add: all_finished_def list_all_iff)
  then have "Finished \<in> set (en_workers e)" using ws assms(3) by (metis length_0_conv list.set_sel(1) less_irrefl)
  moreover have no: "Reading i \<notin> set (en_workers e)" for i using fin by auto
  ultimately have "en_results e = map Some (map (game_on (img s)) (take (en_next e) ps)) @
      replicate (length ps - en_next e) None" and stop: "en_stop e \<or> length ps \<le> en_next e"
    using inv by (auto simp: enrichment_inv_def nth_append min_def intro!: nth_equalityI)
  then show ?thesis
    using collect_prefix [of "map (game_on (img s)) (take (en_next e) ps)" "length ps - en_next e" "length ps"]
    by simp
qed

text \<open>Whatever the interleaving of the workers and of a stop request, once all workers have finished
  the catalog is a prefix of the serial one, in the same order, with the counters of that prefix; if
  nobody asked to stop, it is the whole serial catalog.\<close>

theorem enrichment_result:
  assumes "reliable_device D ok img" "ok s" "0 < workers"
    and "enrichment_reachable D ps (start_enrichment s (length ps) workers) e" "all_finished e"
  shows "collect_catalog (length ps) (en_results e) =
      catalog_of (length ps) (map (game_on (img s)) (take (en_next e) ps)) \<and>
    (en_stop e \<or> length ps \<le> en_next e)"
  using assms by (rule collected_result)

section \<open>The scheduler\<close>

text \<open>\<open>enrich_hdl_catalog D sr k s stopped c s'\<close>: with the override \<open>k\<close> the call may return \<open>c\<close> and leave
  the device in \<open>s'\<close>; \<open>stopped\<close> says whether the stop token was triggered.\<close>

inductive enrich_hdl_catalog ::
  "'s device \<Rightarrow> scan_result \<Rightarrow> nat \<Rightarrow> 's \<Rightarrow> bool \<Rightarrow> catalog_result \<Rightarrow> 's \<Rightarrow> bool"
  for D :: "'s device" and sr :: scan_result and k :: nat where
  no_games: "hdl_mains_by_lba sr = [] \<Longrightarrow> enrich_hdl_catalog D sr k s stopped (empty_catalog 0) s"
| serial: "\<lbrakk>hdl_mains_by_lba sr \<noteq> [];
     max_in_flight (choose_hdl_enrichment_policy (dev_characteristics D s) (length (hdl_mains_by_lba sr)) k) \<le> 1;
     run_state (read_catalog D sr stop) s = ((c, log), s'); stopped = (\<exists>i. stop i)\<rbrakk> \<Longrightarrow>
   enrich_hdl_catalog D sr k s stopped c s'"
| concurrent: "\<lbrakk>hdl_mains_by_lba sr = ps; ps \<noteq> [];
     workers = max_in_flight (choose_hdl_enrichment_policy (dev_characteristics D s) (length ps) k); 1 < workers;
     enrichment_reachable D ps (start_enrichment s (length ps) (min workers (length ps))) e; all_finished e;
     stopped = en_stop e\<rbrakk> \<Longrightarrow>
   enrich_hdl_catalog D sr k s stopped (collect_catalog (length ps) (en_results e)) (en_device e)"

text \<open>C27: The schedule never shows in the catalog: with any override, on any medium, serially or with
  concurrent workers in any interleaving, an enrichment over a reliable source that nobody stops
  returns the catalog of all games of the image in ascending start LBA.\<close>

theorem enrichment_schedule_free:
  assumes "reliable_device D ok img" "ok s" "enrich_hdl_catalog D sr k s False c s'"
  shows "c = catalog_of (length (hdl_mains_by_lba sr)) (map (game_on (img s)) (hdl_mains_by_lba sr))"
  using assms(3)
proof cases
  case no_games
  then show ?thesis by (simp add: empty_catalog_def catalog_of_def)
next
  case (serial stop log)
  have "run_state (read_catalog image_device sr stop) (img s) = ((c, log), img s)"
    using transparentD(3) [OF reliable_device.transparent_read_catalog [OF assms(1)] assms(2) serial(3)] .
  moreover have "turns_before_stop stop 0 n = n" for n
    using serial(4) turns_before_stop_never [of 0 n] by (metis (full_types) ext)
  ultimately show ?thesis using run_read_catalog [of sr stop "img s"] by (simp add: evalS_def Let_def)
next
  case (concurrent ps workers e)
  have "0 < min workers (length ps)" using concurrent by simp
  from collected_result [OF assms(1,2) this concurrent(7,8)] concurrent show ?thesis by auto
qed

end
