(* ===== verification/Samples.thy ===== *)
theory Samples
  imports DriveSession HdlEnrichment HostNames
begin

text \<open>
  Concrete disks and inputs on which the properties of the library are applied: every hypothesis is
  discharged on data built from the format definitions, and the interesting values are computed.
\<close>

section \<open>Sparse disk images\<close>

text \<open>A disk of a given size that holds some byte strings at given offsets and zeros elsewhere.\<close>

fun region_byte :: "(nat \<times> byte list) list \<Rightarrow> nat \<Rightarrow> byte" where
  "region_byte [] i = 0"
| "region_byte ((o1, bs) # rs) i = (if o1 \<le> i \<and> i < o1 + length bs then bs ! (i - o1) else region_byte rs i)"

definition sparse_image :: "u64 \<Rightarrow> (nat \<times> byte list) list \<Rightarrow> image" where
  "sparse_image n rs = \<lparr>img_size = n, img_byte = region_byte rs\<rparr>"

lemma sparse_size [simp]: "img_size (sparse_image n rs) = n"
  by (simp add: sparse_image_def)

lemma sparse_here: "length bs = k \<Longrightarrow> image_slice (sparse_image n ((o1, bs) # rs)) o1 k = bs"
  by (rule nth_equalityI) (auto simp: sparse_image_def nth_image_slice)

lemma sparse_skip:
  "off + k \<le> o1 \<or> o1 + length bs \<le> off \<Longrightarrow>
   image_slice (sparse_image n ((o1, bs) # rs)) off k = image_slice (sparse_image n rs) off k"
  by (rule nth_equalityI) (auto simp: sparse_image_def nth_image_slice)

lemma sparse_within:
  "o1 \<le> off \<Longrightarrow> off + k \<le> o1 + length bs \<Longrightarrow>
   image_slice (sparse_image n ((o1, bs) # rs)) off k = sub_bytes (off - o1) k bs"
  by (rule nth_equalityI) (auto simp: sparse_image_def nth_image_slice nth_sub_bytes byte_simps)

section \<open>The formats\<close>

theorem header_roundtrip_witness:
  "encode_header (decode_header (replicate kHeaderSize 7)) = replicate kHeaderSize 7 \<and>
   (\<exists>h. header_wf h \<and> decode_header (encode_header h) = h)"
proof -
  have "header_wf (decode_header (replicate kHeaderSize 7))"
    by (simp add: header_wf_def mbr_wf_def decode_header_def decode_mbr_def decode_array_def
        byte_simps kHeaderSize_def kIdMax_def kPassMax_def kMaxSub_def)
  with header_roundtrip [of "replicate kHeaderSize 7" "decode_header (replicate kHeaderSize 7)"]
  show ?thesis by auto
qed

theorem pfs_metadata_roundtrip_witness:
  "encode_inode (decode_inode (replicate kMetadataSize 7)) = replicate kMetadataSize 7 \<and>
   (\<exists>i d. inode_wf i \<and> segment_wf d \<and> decode_inode (encode_inode i) = i \<and> decode_segment (encode_segment d) = d)"
  using pfs_metadata_roundtrip [of _ "replicate kMetadataSize 7" "decode_inode (replicate kMetadataSize 7)"
      "decode_segment (replicate kMetadataSize 7)"] decode_inode_wf decode_segment_wf
  by fastforce

lemma load_u32_zeros: "i + 4 \<le> n \<Longrightarrow> load_u32_le (replicate n 0) i = 0"
  by (simp add: load_u32_le_def)

lemma zero_block_checksum:
  "inode_checksum (decode_inode (replicate kMetadataSize 0)) = 0"
  "i_checksum (decode_inode (replicate kMetadataSize 0)) = 0"
proof -
  have "encode_inode (decode_inode (replicate kMetadataSize 0)) = replicate kMetadataSize 0"
    by (simp add: encode_decode_inode)
  then show "inode_checksum (decode_inode (replicate kMetadataSize 0)) = 0"
    by (simp add: inode_checksum_def metadata_checksum_sum load_u32_zeros kMetadataSize_def)
  show "i_checksum (decode_inode (replicate kMetadataSize 0)) = 0"
    by (simp add: decode_inode_def load_u32_zeros kMetadataSize_def)
qed

theorem metadata_word_corruption_detected_witness:
  "inode_checksum (decode_inode (patch_word 20 [0, 1, 0, 0] (replicate kMetadataSize 0))) \<noteq>
     i_checksum (decode_inode (patch_word 20 [0, 1, 0, 0] (replicate kMetadataSize 0)))"
proof -
  have "[0, 1, 0, 0] \<noteq> sub_bytes (4 * 20) 4 (replicate kMetadataSize 0 :: byte list)"
    by (simp add: sub_bytes_def kMetadataSize_def numeral_eq_Suc)
  with metadata_word_corruption_detected [of "replicate kMetadataSize 0" "[0, 1, 0, 0]" 20]
  show ?thesis by (simp add: zero_block_checksum)
qed

definition sample_partition :: "u16 \<Rightarrow> u32 \<Rightarrow> u32 \<Rightarrow> partition" where
  "sample_partition ty start len =
     \<lparr>p_id = ''__sample'', p_start_lba = start, p_length_sectors = len, p_total_sectors = ucast len,
      p_type = ty, p_flags = 0, p_main_lba = 0, p_number = 0, p_sub_count = 0,
      p_created = decode_time (replicate 8 0), p_sub_partitions = []\<rparr>"

theorem hdl_block_roundtrip_witness:
  "gr_ok (parse_game (sample_partition kTypeHdl 8192 8192) (initial_game (sample_partition kTypeHdl 8192 8192))
     (encode_block \<lparr>hb_title = ''Game'', hb_compat = 0, hb_dma = 4, hb_startup = ''SLUS_200.02'',
        hb_layer_break = 0, hb_media = 0x14, hb_parts = [(0, 8, 4096)]\<rparr>))"
  using hdl_block_roundtrip [of "\<lparr>hb_title = ''Game'', hb_compat = 0, hb_dma = 4, hb_startup = ''SLUS_200.02'',
      hb_layer_break = 0, hb_media = 0x14, hb_parts = [(0, 8, 4096)]\<rparr>" "sample_partition kTypeHdl 8192 8192"]
  by (simp add: block_ok_def)

theorem directory_roundtrip_witness:
  "parse_entries (concat (map encode_record
      [\<lparr>dr_inode = 9, dr_subpart = 0, dr_mode = 0x2000, dr_name = ''SAVE'', dr_alloc = 12\<rparr>,
       \<lparr>dr_inode = 0, dr_subpart = 0, dr_mode = 0, dr_name = '''', dr_alloc = 500\<rparr>])) False 0 =
   Inr [\<lparr>de_name = ''SAVE'', de_inode = \<lparr>bi_number = 9, bi_subpart = 0, bi_count = 1\<rparr>, de_mode = 0x2000\<rparr>]"
proof -
  let ?rs = "[\<lparr>dr_inode = 9, dr_subpart = 0, dr_mode = 0x2000, dr_name = ''SAVE'', dr_alloc = 12\<rparr>,
       \<lparr>dr_inode = 0, dr_subpart = 0, dr_mode = 0, dr_name = '''', dr_alloc = 500\<rparr>]"
  have "list_all record_ok ?rs" "records_fit 0 ?rs" by (simp_all add: record_ok_def kSectorSize_def)
  from directory_roundtrip [OF this, of False] show ?thesis
    by (simp add: record_listed_def record_entry_def)
qed

section \<open>Catalogs\<close>

definition twin_catalog :: partition_catalog where
  "twin_catalog = build_partition_catalog (empty_scan\<lparr>partitions :=
     [sample_partition kTypeHdl 8192 8192, sample_partition kTypeHdl 8192 4096]\<rparr>) True"

theorem duplicate_lba_stays_pending_witness:
  "row_state (mm_rows (apply_all [\<lparr>gr_ok = True, gr_error = '''',
       gr_game = initial_game (sample_partition kTypeHdl 8192 8192)\<rparr>] (management_model twin_catalog)) ! 1) = Pending"
proof -
  have "0 < (1::nat)" "1 < length (pc_entries twin_catalog)" "is_hdl_entry (pc_entries twin_catalog ! 0)"
    "is_hdl_entry (pc_entries twin_catalog ! 1)"
    "ce_start_lba (pc_entries twin_catalog ! 0) = ce_start_lba (pc_entries twin_catalog ! 1)"
    by code_simp+
  from duplicate_lba_stays_pending [OF this] show ?thesis by blast
qed

section \<open>A small PS2 disk\<close>

text \<open>
  A 12 MiB disk: the MBR at LBA 0, one PFS partition of 16384 sectors at LBA 8192.  Inside it, zones of
  8 KiB: the superblock and its backup at sectors 8192 and 8193, the root directory's inode in zone 520
  and its records in zone 521, the inode of the file \<open>SAVE\<close> in zone 522 and its bytes in zone 523.
\<close>

definition blank_header :: apa_header where
  "blank_header = decode_header (replicate kHeaderSize 0)"

definition seal_header :: "apa_header \<Rightarrow> apa_header" where
  "seal_header h = h\<lparr>h_magic := kMagic, h_checksum := checksum (h\<lparr>h_magic := kMagic\<rparr>)\<rparr>"

definition sample_mbr :: apa_header where
  "sample_mbr = seal_header (blank_header\<lparr>h_next := 8192, h_prev := 8192, h_length := 8192, h_type := kTypeMbr,
     h_mbr := (h_mbr blank_header)\<lparr>mbr_magic := map byte_of_char kSonyMbrMagic, mbr_version := 2\<rparr>\<rparr>)"

definition sample_pfs_header :: apa_header where
  "sample_pfs_header = seal_header (blank_header\<lparr>h_id := map byte_of_char ''__common'' @ replicate 24 0,
     h_start := 8192, h_length := 16384, h_type := kTypePfs\<rparr>)"

lemma checksum_field [simp]: "checksum (h\<lparr>h_checksum := x\<rparr>) = checksum h"
proof -
  have bytes: "length (encode_header (h\<lparr>h_checksum := x\<rparr>)) = length (encode_header h)"
    "1 \<le> i \<Longrightarrow> load_u32_le (encode_header (h\<lparr>h_checksum := x\<rparr>)) (4 * i) = load_u32_le (encode_header h) (4 * i)" for i
    by (simp_all add: encode_header_def load_u32_le_def store_u32_le_def nth_Cons' numeral_eq_Suc)
  then show ?thesis
    by (auto simp: checksum_def Let_def fold_plus_sum intro!: sum.cong)
qed

lemma blank_header_wf: "header_wf blank_header"
  by (simp add: blank_header_def header_wf_def mbr_wf_def decode_header_def decode_mbr_def decode_array_def
      byte_simps kHeaderSize_def kIdMax_def kPassMax_def kMaxSub_def)

lemma seal_header_sels [simp]:
  "h_magic (seal_header h) = kMagic" "checksum (seal_header h) = h_checksum (seal_header h)"
  "h_mbr (seal_header h) = h_mbr h" "h_start (seal_header h) = h_start h" "h_length (seal_header h) = h_length h"
  "h_next (seal_header h) = h_next h" "h_nsub (seal_header h) = h_nsub h" "h_subs (seal_header h) = h_subs h"
  "header_wf (seal_header h) = header_wf h"
  by (simp_all add: seal_header_def header_wf_def)

lemma sample_headers_wf: "header_wf sample_mbr" "header_wf sample_pfs_header"
  using blank_header_wf unfolding sample_mbr_def sample_pfs_header_def seal_header_sels
  by (simp_all add: header_wf_def mbr_wf_def kSonyMbrMagic_def kIdMax_def)

definition zone_ref :: "u32 \<Rightarrow> block_info" where
  "zone_ref z = \<lparr>bi_number = z, bi_subpart = 0, bi_count = 1\<rparr>"

definition sample_super :: super_block where
  "sample_super =
     \<lparr>sb_magic = kSuperMagic, sb_version = 3, sb_modver = 0, sb_fsck_stat = 0, sb_zone_size = 8192,
      sb_num_subs = 0, sb_log = zone_ref 513, sb_root = zone_ref 520\<rparr>"

definition blank_inode :: inode where
  "blank_inode = decode_inode (replicate kMetadataSize 0)"

definition sample_inode :: "u32 \<Rightarrow> u32 \<Rightarrow> u16 \<Rightarrow> u64 \<Rightarrow> inode" where
  "sample_inode self data mode n =
     (let i = blank_inode\<lparr>i_magic := kSegdMagic, i_inode_block := zone_ref self,
                i_data := (i_data blank_inode)[0 := zone_ref self, 1 := zone_ref data], i_mode := mode,
                i_size := n, i_number_data := 2\<rparr>
      in i\<lparr>i_checksum := inode_checksum i\<rparr>)"

definition sample_records :: "dir_record list" where
  "sample_records =
     [\<lparr>dr_inode = 520, dr_subpart = 0, dr_mode = 0x1000, dr_name = ''.'', dr_alloc = 12\<rparr>,
      \<lparr>dr_inode = 520, dr_subpart = 0, dr_mode = 0x1000, dr_name = ''..'', dr_alloc = 12\<rparr>,
      \<lparr>dr_inode = 522, dr_subpart = 0, dr_mode = 0x2000, dr_name = ''SAVE'', dr_alloc = 488\<rparr>]"

definition sample_disk :: image where
  "sample_disk = sparse_image 0xC00000
     [(0, encode_header sample_mbr),
      (0x400000, encode_header sample_pfs_header),
      (0x800000, encode_super sample_super @ replicate 472 0),
      (0x800200, encode_super sample_super @ replicate 472 0),
      (0x810000, encode_inode (sample_inode 520 521 0x1000 512)),
      (0x812000, concat (map encode_record sample_records)),
      (0x814000, encode_inode (sample_inode 522 523 0x2000 5)),
      (0x816000, map byte_of_char ''HELLO'')]"

lemma sample_records_ok: "list_all record_ok sample_records" "records_fit 0 sample_records"
  by (simp_all add: sample_records_def record_ok_def kSectorSize_def)

lemma sample_inode_wf: "inode_wf (sample_inode self data mode n)"
  using decode_inode_wf [of "replicate kMetadataSize 0"]
  by (simp add: sample_inode_def inode_wf_def blank_inode_def Let_def)

lemma sample_inode_sels [simp]:
  "i_magic (sample_inode s d m n) = kSegdMagic" "i_mode (sample_inode s d m n) = m"
  "i_size (sample_inode s d m n) = n" "i_number_data (sample_inode s d m n) = 2"
  by (simp_all add: sample_inode_def Let_def)

lemma sample_lengths:
  "length (encode_header sample_mbr) = 1024" "length (encode_header sample_pfs_header) = 1024"
  "length (encode_super sample_super) = 40" "length (encode_inode (sample_inode s d m n)) = 1024"
  "length (concat (map encode_record sample_records)) = 512"
  using sample_records_ok(1)
  by (simp_all add: length_encode_header sample_headers_wf kHeaderSize_def encode_super_def encode_block_info_def
      length_encode_inode sample_inode_wf kMetadataSize_def sample_records_def length_encode_record)

lemma inode_checksum_field [simp]: "inode_checksum (i\<lparr>i_checksum := x\<rparr>) = inode_checksum i"
proof -
  have "1 \<le> k \<Longrightarrow> load_u32_le (encode_inode (i\<lparr>i_checksum := x\<rparr>)) (4 * k) = load_u32_le (encode_inode i) (4 * k)" for k
    by (simp add: encode_inode_def load_u32_le_def store_u32_le_def nth_Cons' numeral_eq_Suc)
  then show ?thesis
    by (auto simp: inode_checksum_def metadata_checksum_sum intro!: sum.cong)
qed

lemma sample_inode_ok: "inode_error (sample_inode s d m n) = None"
  by (simp add: inode_error_def kInodeMaxBlocks_def) (simp add: sample_inode_def Let_def)

text \<open>What the disk holds at the places the readers look at.\<close>

lemma sample_slices:
  "image_slice sample_disk 0 1024 = encode_header sample_mbr"
  "image_slice sample_disk 0x400000 1024 = encode_header sample_pfs_header"
  "image_slice sample_disk 0x800000 512 = encode_super sample_super @ replicate 472 0"
  "image_slice sample_disk 0x800200 512 = encode_super sample_super @ replicate 472 0"
  "image_slice sample_disk 0x816000 5 = map byte_of_char ''HELLO''"
  "image_slice sample_disk 0x810000 1024 = encode_inode (sample_inode 520 521 0x1000 512)"
  "image_slice sample_disk 0x812000 512 = concat (map encode_record sample_records)"
  "image_slice sample_disk 0x814000 1024 = encode_inode (sample_inode 522 523 0x2000 5)"
  by (simp_all add: sample_disk_def sparse_here sparse_skip sample_lengths)

lemma sample_headers_at: "header_at sample_disk 0 = sample_mbr" "header_at sample_disk 8192 = sample_pfs_header"
  using sample_slices(1,2) sample_headers_wf
  by (simp_all add: header_at_def sector_offset_def kSectorSize_def kHeaderSize_def decode_encode_header)

lemma sample_size: "img_size sample_disk = 0xC00000"
  by (simp add: sample_disk_def)

lemma sample_fields:
  "h_next sample_mbr = 8192" "h_start sample_mbr = 0" "h_length sample_mbr = 8192" "h_nsub sample_mbr = 0"
  "h_next sample_pfs_header = 0" "h_start sample_pfs_header = 8192" "h_length sample_pfs_header = 16384"
  "h_nsub sample_pfs_header = 0" "h_flags sample_pfs_header = 0" "h_type sample_pfs_header = kTypePfs"
  "partition_id sample_pfs_header = ''__common''" "h_flags sample_mbr = 0" "h_type sample_mbr = kTypeMbr"
  "has_sony_mbr_magic sample_mbr" "checksum sample_mbr = h_checksum sample_mbr" "h_magic sample_mbr = kMagic"
  "h_prev sample_pfs_header = 0" "checksum sample_pfs_header = h_checksum sample_pfs_header" "h_magic sample_pfs_header = kMagic"
  by (simp_all add: sample_mbr_def sample_pfs_header_def blank_header_def decode_header_def load_u32_zeros
      kHeaderSize_def has_sony_mbr_magic_def)
    (simp_all add: seal_header_def load_u16_le_def partition_id_def byte_of_char_def char_of_byte_def,
      code_simp)

definition sample_pfs :: partition where
  "sample_pfs = partition_of sample_pfs_header"

lemma sample_pfs_sels [simp]:
  "p_start_lba sample_pfs = 8192" "p_length_sectors sample_pfs = 16384" "p_sub_partitions sample_pfs = []"
  "p_type sample_pfs = kTypePfs" "is_sub sample_pfs = False" "p_id sample_pfs = ''__common''"
  by (simp_all add: sample_pfs_def partition_of_def header_subs_def sample_fields is_sub_def)

lemma sample_scan:
  "run_state (scan image_device (Suc (Suc k))) sample_disk =
     (\<lparr>mbr_valid = True, apa_version = mbr_version (h_mbr sample_mbr),
       partitions = [partition_of sample_mbr, sample_pfs],
       issues = []\<rparr>, sample_disk)"
proof -
  have valid: "header_valid sample_disk 0" "header_valid sample_disk 8192"
    by (simp_all add: header_valid_def in_image_nat sample_size sample_headers_at sample_fields
        kHeaderSize_def kSectorSize_def)
  show ?thesis
    using valid
    by (simp add: scan_def run_read_header_image in_image_nat sample_size sample_headers_at sample_fields
        kHeaderSize_def kSectorSize_def run_turn_image del: scan_loop.simps)
      (simp add: header_issues_def sub_issues_def header_subs_def sample_fields sector_extent_fits_nat
        kSectorSize_def add_issues_def add_partition_def empty_scan_def sample_pfs_def)
qed

theorem scan_ok_partitions_fit_witness: "partition_fits 0xC00000 sample_pfs"
  using scan_ok_partitions_fit [OF image.block_device_axioms TrueI sample_scan [of 0], of sample_pfs]
  by (simp add: scan_ok_def sample_size image_device_def)

theorem read_sectors_total_witness:
  "evalS (read_sectors image_device (apa_volume sample_pfs) 0 8352 1 512) sample_disk =
     Some (image_slice sample_disk 0x814000 512)"
proof -
  have "partition_fits (dev_size image_device sample_disk) sample_pfs"
    by (simp add: partition_fits_def kSectorSize_def image_device_def sample_size)
  from read_sectors_total [OF image.reliable_device_axioms TrueI this, of 0 8352 1] show ?thesis
    by (simp add: extent_count_def apa_volume_def)
qed

section \<open>Reading the file\<close>

definition sample_reader :: pfs_reader where
  "sample_reader = evalS (open_reader image_device (apa_volume sample_pfs)) sample_disk"

lemma decode_super_front: "decode_super (encode_super s @ zs) = s"
  by (simp add: decode_super_def encode_super_def byte_simps)

lemma volume_sels [simp]:
  "vol_partition (apa_volume p) = p" "extent_count (apa_volume p) = Suc (length (p_sub_partitions p))"
  "vol_extents (apa_volume p) ! 0 = \<lparr>start_lba = p_start_lba p, length_sectors = p_length_sectors p\<rparr>"
  by (simp_all add: apa_volume_def extent_count_def)

lemma sample_sectors:
  "run_state (read_sectors image_device (apa_volume sample_pfs) 0 sector cnt n) sample_disk =
     (if unat sector + unat cnt \<le> 16384 \<and> n = unat cnt * 512
      then Some (image_slice sample_disk (0x400000 + unat sector * 512) n) else None, sample_disk)"
  by (auto simp: read_sectors_eq run_image_read in_image_nat unat_sector_addr sample_size
      apa_volume_def add_mult_distrib)

lemma sample_probe:
  "run_state (probe image_device (apa_volume sample_pfs)) sample_disk =
     (\<lparr>pr_valid = True, pr_backup_matches = True, pr_super = sample_super, pr_warnings = [], pr_errors = []\<rparr>,
      sample_disk)"
proof -
  have zone: "valid_zone_size 8192" by code_simp
  have super: "run_state (read_super image_device (apa_volume sample_pfs) kSuperSector) sample_disk = (Some sample_super, sample_disk)"
    "run_state (read_super image_device (apa_volume sample_pfs) kSuperBackupSector) sample_disk = (Some sample_super, sample_disk)"
    by (simp_all add: read_super_def kSuperSector_def kSuperBackupSector_def kSectorSize_def sample_sectors
        sample_slices decode_super_front)
  show ?thesis
    by (simp add: probe_def super Let_def check_backup_def zone
        sample_super_def kFormatVersion_def zone_ref_def empty_probe_def)
qed

lemma sample_reader_sels [simp]:
  "rd_volume sample_reader = apa_volume sample_pfs" "rd_super sample_reader = sample_super"
  "reader_valid sample_reader"
  by (simp_all add: sample_reader_def open_reader_def evalS_def sample_probe reader_valid_def)

lemma sample_reader_ok: "reader_ok sample_reader"
  unfolding sample_reader_def by (rule open_reader_ok)

definition sample_node :: "u32 \<Rightarrow> u32 \<Rightarrow> u16 \<Rightarrow> u64 \<Rightarrow> pfs_node" where
  "sample_node self data mode n = \<lparr>nd_location = zone_ref self, nd_inode = sample_inode self data mode n\<rparr>"

lemma blank_inode_data: "length (i_data blank_inode) = kInodeMaxBlocks"
  using decode_inode_wf [of "replicate kMetadataSize 0"] by (simp add: blank_inode_def inode_wf_def)

lemma sample_inode_block: "i_data (sample_inode s d m n) ! 1 = zone_ref d"
  by (simp add: sample_inode_def Let_def blank_inode_data kInodeMaxBlocks_def)

lemma sample_inode_no_chain: "i_number_segdesg (sample_inode s d m n) = 0"
  by (simp add: sample_inode_def Let_def blank_inode_def decode_inode_def decode_u32_def load_u32_zeros kMetadataSize_def)

text \<open>A file of one zone: any range inside it is read from that zone.\<close>

lemma sample_read:
  assumes "unat off + n \<le> unat len" "unat len \<le> 8192" "0 < n" "unat d < 1024"
  shows "evalS (pfs_read image_device sample_reader (sample_node s d m len) off n) sample_disk =
    Inr (image_slice sample_disk (0x400000 + unat d * 8192 + unat off) n)"
proof -
  let ?run = "\<lparr>run_block = zone_ref d, run_start = 0, run_bytes = 8192\<rparr>"
  have end_pos: "0 < off + of_nat n" "unat (off + of_nat n) = unat off + n"
  proof -
    show "unat (off + of_nat n) = unat off + n"
      using assms(1,2) by (simp add: unat_word_ariths unat_of_nat)
    with assms(3) show "0 < off + of_nat n" by (simp add: word_less_nat_alt)
  qed
  have "off < 8192" using assms(1-3) by (simp add: word_less_nat_alt)
  with end_pos(1) have "evalS (collect_runs add_block image_device sample_reader (sample_inode s d m len) off (off + of_nat n)
      (unat (i_number_data (sample_inode s d m len)) - 1) 1 0 None (i_next_segment (sample_inode s d m len)) 0 []) sample_disk
    = Inr ([?run], 0)"
    by (simp add: evalS_def kInodeMaxBlocks_def descriptor_block_def sample_inode_block [unfolded One_nat_def]
        zone_ref_def sample_super_def add_block_def Let_def)
  moreover have "serve_spec sample_disk sample_reader [?run] (unat off) n =
      Some (image_slice sample_disk (0x400000 + unat d * 8192 + unat off) n)"
  proof -
    have fit: "unat off + n \<le> 8192" "\<not> 8192 \<le> unat off" "min (8192 - unat off) n = n" using assms by linarith+
    have "sectors_upto (unat d * 8192 + unat off + n) \<le> 16384"
      using fit assms(4) by (simp add: sectors_upto_def)
    then have "block_bytes sample_disk sample_reader (zone_ref d) (unat off) n =
        Some (image_slice sample_disk (0x400000 + unat d * 8192 + unat off) n)"
      using fit assms(3)
      by (simp add: block_bytes_def subpart_missing_def zone_ref_def sample_super_def extent_bytes_def
          extent_readable_def sample_size add.assoc)
    then show ?thesis using fit assms(3) by (simp add: Let_def append_opt_def)
  qed
  ultimately have "read_accepts sample_disk sample_reader (sample_node s d m len) off n
      (image_slice sample_disk (0x400000 + unat d * 8192 + unat off) n)"
    using assms(1,3) by (simp add: read_accepts_def sample_node_def sample_inode_no_chain)
  then show ?thesis
    using read_with_image [OF sample_reader_ok, of add_run merge_all "sample_node s d m len" off n sample_disk]
    by (auto simp: pfs_read_def evalS_def)
qed

definition sample_file :: pfs_node where
  "sample_file = sample_node 522 523 0x2000 5"

theorem read_content_witness:
  "evalS (pfs_read image_device (evalS (open_reader image_device (apa_volume sample_pfs)) sample_disk) sample_file 1 3)
     sample_disk = Inr (map byte_of_char ''ELL'') \<and>
   file_byte sample_disk (evalS (open_reader image_device (apa_volume sample_pfs)) sample_disk)
     (file_extents sample_disk (evalS (open_reader image_device (apa_volume sample_pfs)) sample_disk) (nd_inode sample_file)) 2 =
       Some (byte_of_char (CHR ''L''))"
proof -
  have "image_slice sample_disk (0x816001) 3 = map byte_of_char ''ELL''"
    using sub_bytes_image_slice [where k = 1 and n = 3 and m = 5 and im = sample_disk and off = "0x816000"] by (simp add: sample_slices sub_bytes_def)
  then have read: "evalS (pfs_read image_device (evalS (open_reader image_device (apa_volume sample_pfs)) sample_disk)
      sample_file 1 3) sample_disk = Inr (map byte_of_char ''ELL'')"
    using sample_read [where off = 1 and n = 3 and len = 5 and d = 523 and s = 522 and m = "0x2000"] by (simp add: sample_reader_def sample_file_def)
  from read_content [OF this, THEN conjunct2, THEN conjunct2, rule_format, of 1] read
  show ?thesis by (simp add: numeral_2_eq_2)
qed

section \<open>Workers and exports\<close>

text \<open>One worker and one partition: it polls, claims, reads, counts, reports, polls, claims past the end
  and finishes.\<close>

lemma enrichment_run:
  assumes "run_state (read_game_info D p) s = (r, s')"
  shows "enrichment_reachable D [p] (start_enrichment s 1 1)
    \<lparr>en_device = s', en_stop = False, en_next = 2, en_completed = 1, en_results = [Some r],
     en_workers = [Finished], en_log = [(1, 1, r)]\<rparr>"
proof -
  define E where "E = (\<lambda>d nx c res w lg. \<lparr>en_device = d :: 'a, en_stop = False, en_next = nx, en_completed = c,
    en_results = res, en_workers = [w], en_log = lg\<rparr>)"
  have s1: "enrichment_step D [p] (E s 0 0 [None] Polling []) (E s 0 0 [None] Claiming [])"
    using enrichment_step.intros(2) [of 0 "E s 0 0 [None] Polling []" D "[p]"] by (simp add: E_def set_worker_def)
  have s2: "enrichment_step D [p] (E s 0 0 [None] Claiming []) (E s 1 0 [None] (Reading 0) [])"
    using enrichment_step.intros(3) [of 0 "E s 0 0 [None] Claiming []" D "[p]"] by (simp add: E_def set_worker_def)
  have s3: "enrichment_step D [p] (E s 1 0 [None] (Reading 0) []) (E s' 1 0 [Some r] (Counting 0) [])"
    using enrichment_step.intros(4) [of 0 "E s 1 0 [None] (Reading 0) []" 0 D "[p]" r s']  assms by (simp add: E_def set_worker_def)
  have s4: "enrichment_step D [p] (E s' 1 0 [Some r] (Counting 0) []) (E s' 1 1 [Some r] (Reporting 0 1) [])"
    using enrichment_step.intros(5) [of 0 "E s' 1 0 [Some r] (Counting 0) []" 0 D "[p]"] by (simp add: E_def set_worker_def)
  have s5: "enrichment_step D [p] (E s' 1 1 [Some r] (Reporting 0 1) []) (E s' 1 1 [Some r] Polling [(1, 1, r)])"
    using enrichment_step.intros(6) [of 0 "E s' 1 1 [Some r] (Reporting 0 1) []" 0 1 r D "[p]"] by (simp add: E_def set_worker_def)
  have s6: "enrichment_step D [p] (E s' 1 1 [Some r] Polling [(1, 1, r)]) (E s' 1 1 [Some r] Claiming [(1, 1, r)])"
    using enrichment_step.intros(2) [of 0 "E s' 1 1 [Some r] Polling [(1, 1, r)]" D "[p]"] by (simp add: E_def set_worker_def)
  have s7: "enrichment_step D [p] (E s' 1 1 [Some r] Claiming [(1, 1, r)]) (E s' 2 1 [Some r] Finished [(1, 1, r)])"
    using enrichment_step.intros(3) [of 0 "E s' 1 1 [Some r] Claiming [(1, 1, r)]" D "[p]"]
    by (simp add: E_def set_worker_def numeral_2_eq_2)
  note step = enrichment_reachable.step
  have "start_enrichment s 1 1 = E s 0 0 [None] Polling []"
    by (simp add: E_def start_enrichment_def)
  moreover have "enrichment_reachable D [p] (E s 0 0 [None] Polling []) (E s' 2 1 [Some r] Finished [(1, 1, r)])"
    by (rule step [OF step [OF step [OF step [OF step [OF step [OF step [OF enrichment_reachable.start s1] s2] s3] s4] s5] s6] s7])
  ultimately show ?thesis by (simp add: E_def)
qed

theorem enrichment_result_witness:
  "\<exists>e. enrichment_reachable image_device [sample_pfs] (start_enrichment sample_disk 1 1) e \<and> all_finished e \<and>
     collect_catalog 1 (en_results e) = catalog_of 1 [game_on sample_disk sample_pfs]"
proof -
  obtain r s' where "run_state (read_game_info image_device sample_pfs) sample_disk = (r, s')" by fastforce
  from enrichment_run [OF this] obtain e where
    e: "enrichment_reachable image_device [sample_pfs] (start_enrichment sample_disk (length [sample_pfs]) 1) e"
    and f: "all_finished e" and n: "en_next e = 2" by (auto simp: all_finished_def)
  from enrichment_result [OF image.reliable_device_axioms TrueI zero_less_one e f] e f n
  show ?thesis by auto
qed

end
