(* ===== verification/DokanyPolicy.thy ===== *)
theory DokanyPolicy
  imports Prelude
begin

text \<open>
  The pure policies of the mount: which opens a read-only volume accepts
  (\<open>src/mount/dokany_open_policy.hpp\<close>), which source is opened on its own and which drive letter is
  chosen (\<open>include/ps2hdd/darkness_policy.hpp\<close>).
\<close>

section \<open>Opening a file\<close>

datatype create_disposition = Supersede | Open | Create | Open_if | Overwrite | Overwrite_if

text \<open>\<open>static_cast<CreateDisposition>\<close> of a value that passed the range check.\<close>

definition disposition_of :: "u32 \<Rightarrow> create_disposition" where
  "disposition_of n =
     (if n = 0 then Supersede else if n = 1 then Open else if n = 2 then Create
      else if n = 3 then Open_if else if n = 4 then Overwrite else Overwrite_if)"

datatype open_status =
    Open_success
  | Open_name_not_found
  | Open_name_collision
  | Open_write_protected
  | Open_file_is_directory
  | Open_not_a_directory
  | Open_invalid_disposition

record open_request =
  or_exists :: bool
  or_is_directory :: bool
  or_wants_write :: bool
  or_directory_only :: bool
  or_non_directory_only :: bool
  or_delete_on_close :: bool
  or_disposition :: u32

definition evaluate_open :: "open_request \<Rightarrow> open_status" where
  "evaluate_open r =
     (if 5 < or_disposition r then Open_invalid_disposition
      else
        let d = disposition_of (or_disposition r)
        in if \<not> or_exists r then
             (if d = Open \<or> d = Overwrite then Open_name_not_found else Open_write_protected)
           else if or_non_directory_only r \<and> or_is_directory r then Open_file_is_directory
           else if or_directory_only r \<and> \<not> or_is_directory r then Open_not_a_directory
           else if d = Create then Open_name_collision
           else if or_wants_write r \<or> or_delete_on_close r \<or> d = Supersede \<or> d = Overwrite \<or> d = Overwrite_if
             then Open_write_protected
           else Open_success)"

lemma disposition_numbers:
  "n \<le> 5 \<Longrightarrow> disposition_of n = Open \<longleftrightarrow> n = 1" "n \<le> 5 \<Longrightarrow> disposition_of n = Open_if \<longleftrightarrow> n = 3"
  by (auto simp: disposition_of_def)

lemma disposition_rest:
  "disposition_of n \<notin> {Supersede, Create, Overwrite, Overwrite_if} \<longleftrightarrow> n = 1 \<or> n = 3"
  by (auto simp: disposition_of_def)

text \<open>When an open succeeds: the object exists, is opened as it is (\<open>FILE_OPEN\<close>, \<open>FILE_OPEN_IF\<close>),
  without any intent to change it, and is of the kind asked for.\<close>

lemma open_success_iff:
  "evaluate_open r = Open_success \<longleftrightarrow>
     or_exists r \<and> or_disposition r \<in> {1, 3} \<and> \<not> or_wants_write r \<and> \<not> or_delete_on_close r \<and>
     \<not> (or_non_directory_only r \<and> or_is_directory r) \<and> \<not> (or_directory_only r \<and> \<not> or_is_directory r)"
proof -
  have small: "\<not> 5 < or_disposition r" if "or_disposition r = 1 \<or> or_disposition r = 3"
    using that by auto
  show ?thesis
    using disposition_rest [of "or_disposition r"] small
    by (cases "disposition_of (or_disposition r)") (auto simp: evaluate_open_def Let_def)
qed

section \<open>Sources and drive letters\<close>

definition auto_open_candidate :: "nat \<Rightarrow> bool \<Rightarrow> nat option" where
  "auto_open_candidate candidate_count source_already_open =
     (if \<not> source_already_open \<and> candidate_count = 1 then Some 0 else None)"

text \<open>The loop of \<open>choose_mount_letter\<close> over the letters from \<open>n\<close> (\<open>A\<close> is 0) to \<open>Z\<close>.\<close>

function letter_from :: "u32 \<Rightarrow> nat \<Rightarrow> nat option" where
  "letter_from occupied n =
     (if 25 < n then None
      else if occupied AND push_bit n 1 = 0 then Some (65 + n)
      else letter_from occupied (n + 1))"
  by pat_completeness auto

termination letter_from
  by (relation "measure (\<lambda>(occupied, n). 26 - n)") auto

declare letter_from.simps [simp del]

definition choose_mount_letter :: "u32 \<Rightarrow> nat option" where
  "choose_mount_letter occupied_mask = letter_from occupied_mask 2"

lemma letter_from_spec:
  "(case letter_from m n of
      None \<Rightarrow> \<forall>k. n \<le> k \<and> k \<le> 25 \<longrightarrow> bit m k
    | Some l \<Rightarrow> \<exists>k \<ge> n. k \<le> 25 \<and> l = 65 + k \<and> \<not> bit m k \<and> (\<forall>j. n \<le> j \<and> j < k \<longrightarrow> bit m j))"
proof (induction m n rule: letter_from.induct)
  case (1 m n)
  have mask: "m AND push_bit n 1 = 0 \<longleftrightarrow> \<not> bit m n" if "n \<le> 25"
    by (simp add: and_exp_eq_0_iff_not_bit push_bit_of_1)
  show ?case
  proof (cases "25 < n \<or> \<not> bit m n")
    case True
    then show ?thesis using mask by (subst letter_from.simps) auto
  next
    case False
    then have IH: "case letter_from m (n + 1) of
        None \<Rightarrow> \<forall>k. n + 1 \<le> k \<and> k \<le> 25 \<longrightarrow> bit m k
      | Some l \<Rightarrow> \<exists>k \<ge> n + 1. k \<le> 25 \<and> l = 65 + k \<and> \<not> bit m k \<and> (\<forall>j. n + 1 \<le> j \<and> j < k \<longrightarrow> bit m j)"
      using 1 mask by simp
    have step: "letter_from m n = letter_from m (n + 1)"
      using False mask by (subst letter_from.simps) simp
    show ?thesis
    proof (cases "letter_from m (n + 1)")
      case None
      with IH False have "bit m k" if "n \<le> k" "k \<le> 25" for k
        using that by (cases "k = n") auto
      then show ?thesis unfolding step None by simp
    next
      case (Some l)
      with IH obtain k where k: "n + 1 \<le> k" "k \<le> 25" "l = 65 + k" "\<not> bit m k" "\<forall>j. n + 1 \<le> j \<and> j < k \<longrightarrow> bit m j"
        by auto
      with False have "bit m j" if "n \<le> j" "j < k" for j
        using that by (cases "j = n") auto
      with k show ?thesis unfolding step Some by (auto intro!: exI [of _ k])
    qed
  qed
qed

text \<open>The drive letter is the first free one from C to Z: a letter is chosen exactly when it is in
  that range, its bit in the mask of used drives is clear and the bits of all letters from C up to it
  are set; and there is no choice exactly when C to Z are all in use.  A and B are never taken.\<close>

theorem mount_letter_lowest:
  "(choose_mount_letter used = Some l \<longleftrightarrow>
     67 \<le> l \<and> l \<le> 90 \<and> \<not> bit used (l - 65) \<and> (\<forall>j. 67 \<le> j \<and> j < l \<longrightarrow> bit used (j - 65))) \<and>
   (choose_mount_letter used = None \<longleftrightarrow> (\<forall>j. 67 \<le> j \<and> j \<le> 90 \<longrightarrow> bit used (j - 65)))"
proof (cases "choose_mount_letter used")
  case None
  then have "bit used k" if "2 \<le> k" "k \<le> 25" for k
    using that letter_from_spec [where m = used and n = 2] by (simp add: choose_mount_letter_def)
  then have "bit used (j - 65)" if "67 \<le> j" "j \<le> 90" for j
    using that by simp
  with None show ?thesis by auto
next
  case (Some m)
  then obtain k where k: "2 \<le> k" "k \<le> 25" "m = 65 + k" "\<not> bit used k" "\<And>j. 2 \<le> j \<Longrightarrow> j < k \<Longrightarrow> bit used j"
    using letter_from_spec [where m = used and n = 2] by (auto simp: choose_mount_letter_def)
  have before: "bit used (j - 65)" if "67 \<le> j" "j < m" for j
    using that k(3) by (intro k(5)) auto
  have at: "67 \<le> m" "m \<le> 90" "\<not> bit used (m - 65)" using k by auto
  have "m = l" if "67 \<le> l" "\<not> bit used (l - 65)" "\<forall>j. 67 \<le> j \<and> j < l \<longrightarrow> bit used (j - 65)"
    using that before [of l] at by (meson linorder_neqE_nat)
  with Some before at show ?thesis by auto
qed

end
