(* ===== verification/MountView.thy ===== *)
theory MountView
  imports DriveSession HostNames
begin

text \<open>
  The read-only file system view of \<open>src/host/mount_view.cpp\<close> and \<open>include/ps2hdd/mount_view.hpp\<close>: a
  root, the directory \<open>Partitions\<close> and below it the PFS partitions of the scan, every name behind a
  Windows-safe alias.  Paths are looked up by browsing the session one component at a time.
\<close>

section \<open>Aliases\<close>

datatype mount_kind = Root_node | Namespace_directory | Pfs_directory | Pfs_file

record alias_entry =
  al_visible :: string
  al_backing :: string
  al_kind :: mount_kind
  al_size :: u64

record mount_entry =
  me_name :: string
  me_kind :: mount_kind
  me_size :: u64

record mount_lookup_result =
  ml_ok :: bool
  ml_error :: string
  ml_kind :: mount_kind
  ml_partition :: string
  ml_path :: string
  ml_size :: u64

record mount_list_result =
  mls_ok :: bool
  mls_error :: string
  mls_entries :: "mount_entry list"

text \<open>\<open>mr_bytes\<close> is what the read put into the caller's buffer, so \<open>bytes_read\<close> is its length.\<close>

record mount_read_result =
  mr_ok :: bool
  mr_error :: string
  mr_bytes :: "byte list"

definition me_is_directory :: "mount_entry \<Rightarrow> bool" where
  "me_is_directory e \<longleftrightarrow> me_kind e \<noteq> Pfs_file"

definition ml_is_directory :: "mount_lookup_result \<Rightarrow> bool" where
  "ml_is_directory r \<longleftrightarrow> ml_kind r \<noteq> Pfs_file"

definition equal_windows_name :: "string \<Rightarrow> string \<Rightarrow> bool" where
  "equal_windows_name left right \<longleftrightarrow> uppercase_ascii left = uppercase_ascii right"

definition join_pfs_path :: "string \<Rightarrow> string \<Rightarrow> string" where
  "join_pfs_path parent child = (if parent = '''' \<or> parent = ''/'' then child else parent @ ''/'' @ child)"

text \<open>The loop of \<open>make_entry_aliases\<close>; \<open>used\<close> holds the upper-case names given out so far.\<close>

fun entry_aliases :: "string list \<Rightarrow> session_entry list \<Rightarrow> alias_entry list" where
  "entry_aliases used [] = []"
| "entry_aliases used (e # es) =
     (if \<not> se_inode_readable e \<or> \<not> se_is_directory e \<and> \<not> se_is_regular e then entry_aliases used es
      else
        let visible = pick_alias used (se_name e)
        in \<lparr>al_visible = visible, al_backing = se_name e,
             al_kind = (if se_is_directory e then Pfs_directory else Pfs_file), al_size = se_size e\<rparr> #
           entry_aliases (uppercase_ascii visible # used) es)"

definition make_entry_aliases :: "session_entry list \<Rightarrow> alias_entry list" where
  "make_entry_aliases entries = entry_aliases [] entries"

fun partition_aliases :: "string list \<Rightarrow> partition list \<Rightarrow> alias_entry list" where
  "partition_aliases used [] = []"
| "partition_aliases used (p # ps) =
     (if is_sub p \<or> p_type p \<noteq> kTypePfs then partition_aliases used ps
      else
        let visible = pick_alias used (p_id p)
        in \<lparr>al_visible = visible, al_backing = p_id p, al_kind = Pfs_directory, al_size = 0\<rparr> #
           partition_aliases (uppercase_ascii visible # used) ps)"

definition make_partition_aliases :: "scan_result \<Rightarrow> alias_entry list" where
  "make_partition_aliases sr = partition_aliases [] (partitions sr)"

definition find_alias :: "alias_entry list \<Rightarrow> string \<Rightarrow> alias_entry option" where
  "find_alias aliases visible = find (\<lambda>e. equal_windows_name (al_visible e) visible) aliases"

definition forbidden_component :: "string \<Rightarrow> bool" where
  "forbidden_component component \<longleftrightarrow> component = ''.'' \<or> component = ''..''"

section \<open>Lookup\<close>

definition empty_lookup :: mount_lookup_result where
  "empty_lookup = \<lparr>ml_ok = False, ml_error = '''', ml_kind = Root_node, ml_partition = '''', ml_path = '''', ml_size = 0\<rparr>"

text \<open>The loop of \<open>lookup\<close> over the components inside the partition; \<open>look\<close> is the session's browse, and
  \<open>r\<close> the result so far.\<close>

primrec mount_walk ::
  "(string \<Rightarrow> string \<Rightarrow> ('x, browse_result) state) \<Rightarrow> mount_lookup_result \<Rightarrow> string \<Rightarrow> string list \<Rightarrow>
   ('x, mount_lookup_result) state" where
  "mount_walk look r backing_path [] = ret (r\<lparr>ml_path := backing_path, ml_ok := True\<rparr>)"
| "mount_walk look r backing_path (part # parts) = do {
     b \<leftarrow> look (ml_partition r) backing_path;
     if \<not> br_ok b then ret (r\<lparr>ml_error := br_error b\<rparr>)
     else case find_alias (make_entry_aliases (br_entries b)) part of
       None \<Rightarrow> ret (r\<lparr>ml_error := ''PFS path does not exist''\<rparr>)
     | Some entry \<Rightarrow>
         if parts \<noteq> [] \<and> al_kind entry \<noteq> Pfs_directory
         then ret (r\<lparr>ml_error := ''Mounted path traverses through a regular file''\<rparr>)
         else mount_walk look
           (if parts = [] then r\<lparr>ml_kind := al_kind entry, ml_size := al_size entry\<rparr> else r)
           (join_pfs_path backing_path (al_backing entry)) parts
   }"

text \<open>\<open>lookup\<close> over any session that can browse and knows a scan result.\<close>

definition lookup_parts ::
  "(string \<Rightarrow> string \<Rightarrow> ('x, browse_result) state) \<Rightarrow> scan_result \<Rightarrow> string list \<Rightarrow> ('x, mount_lookup_result) state" where
  "lookup_parts look sr parts =
     (case parts of
        [] \<Rightarrow> ret (empty_lookup\<lparr>ml_ok := True, ml_kind := Root_node\<rparr>)
      | first # below \<Rightarrow>
          if list_ex forbidden_component parts
          then ret (empty_lookup\<lparr>ml_error := ''Dot path components are not valid in the mounted namespace''\<rparr>)
          else if \<not> equal_windows_name first ''Partitions''
          then ret (empty_lookup\<lparr>ml_error := ''Mounted path does not exist''\<rparr>)
          else case below of
            [] \<Rightarrow> ret (empty_lookup\<lparr>ml_ok := True, ml_kind := Namespace_directory\<rparr>)
          | name # inside \<Rightarrow>
              case find_alias (make_partition_aliases sr) name of
                None \<Rightarrow> ret (empty_lookup\<lparr>ml_error := ''PFS partition does not exist''\<rparr>)
              | Some entry \<Rightarrow>
                  let r = empty_lookup\<lparr>ml_partition := al_backing entry, ml_kind := Pfs_directory\<rparr>
                  in if inside = [] then ret (r\<lparr>ml_ok := True\<rparr>) else mount_walk look r '''' inside)"

definition mount_lookup ::
  "('s \<Rightarrow> int) \<Rightarrow> 's device \<Rightarrow> string \<Rightarrow> ('s, mount_lookup_result) session_op" where
  "mount_lookup now D path = do {
     ss \<leftarrow> State_Monad.get;
     lookup_parts (browse now D) (ss_scan ss) (path_components path)
   }"

section \<open>Listing and reading\<close>

definition alias_listing :: "alias_entry list \<Rightarrow> mount_list_result" where
  "alias_listing aliases =
     \<lparr>mls_ok = True, mls_error = '''',
      mls_entries = map (\<lambda>a. \<lparr>me_name = al_visible a, me_kind = al_kind a, me_size = al_size a\<rparr>) aliases\<rparr>"

definition list_node ::
  "(string \<Rightarrow> string \<Rightarrow> ('x, browse_result) state) \<Rightarrow> scan_result \<Rightarrow> mount_lookup_result \<Rightarrow>
   ('x, mount_list_result) state" where
  "list_node look sr node =
     (if \<not> ml_ok node then ret \<lparr>mls_ok = False, mls_error = ml_error node, mls_entries = []\<rparr>
      else if \<not> ml_is_directory node
      then ret \<lparr>mls_ok = False, mls_error = ''Mounted path is not a directory'', mls_entries = []\<rparr>
      else if ml_kind node = Root_node
      then ret \<lparr>mls_ok = True, mls_error = '''',
        mls_entries = [\<lparr>me_name = ''Partitions'', me_kind = Namespace_directory, me_size = 0\<rparr>]\<rparr>
      else if ml_kind node = Namespace_directory
      then ret (alias_listing (map (\<lambda>a. a\<lparr>al_size := 0\<rparr>) (make_partition_aliases sr)))
      else do {
        b \<leftarrow> look (ml_partition node) (ml_path node);
        if \<not> br_ok b then ret \<lparr>mls_ok = False, mls_error = br_error b, mls_entries = []\<rparr>
        else ret (alias_listing (make_entry_aliases (br_entries b)))
      })"

definition mount_list ::
  "('s \<Rightarrow> int) \<Rightarrow> 's device \<Rightarrow> string \<Rightarrow> ('s, mount_list_result) session_op" where
  "mount_list now D path = do {
     node \<leftarrow> mount_lookup now D path;
     ss \<leftarrow> State_Monad.get;
     list_node (browse now D) (ss_scan ss) node
   }"

definition mount_read ::
  "('s \<Rightarrow> int) \<Rightarrow> 's device \<Rightarrow> string \<Rightarrow> u64 \<Rightarrow> nat \<Rightarrow> ('s, mount_read_result) session_op" where
  "mount_read now D path offset n = do {
     node \<leftarrow> mount_lookup now D path;
     if \<not> ml_ok node then ret \<lparr>mr_ok = False, mr_error = ml_error node, mr_bytes = []\<rparr>
     else if ml_kind node \<noteq> Pfs_file
     then ret \<lparr>mr_ok = False, mr_error = ''Mounted path is not a regular file'', mr_bytes = []\<rparr>
     else do {
       r \<leftarrow> read_file now D (ml_partition node) (ml_path node) offset n;
       ret \<lparr>mr_ok = rr_ok r, mr_error = rr_error r, mr_bytes = rr_bytes r\<rparr>
     }
   }"

section \<open>Case and dots\<close>

lemma find_alias_upper: "uppercase_ascii v = uppercase_ascii w \<Longrightarrow> find_alias as v = find_alias as w"
  by (simp add: find_alias_def equal_windows_name_def)

lemma upper_char_dot: "upper_char c = CHR ''.'' \<longleftrightarrow> c = CHR ''.''"
proof -
  have "char_of (char_code c - 32) \<noteq> CHR ''.''" if "97 \<le> char_code c" "char_code c \<le> 122"
  proof
    assume "char_of (char_code c - 32) = CHR ''.''"
    then have "of_char (char_of (char_code c - 32)) = (of_char CHR ''.'' :: nat)" by simp
    then have "(char_code c - 32) mod 256 = 46" by (simp only: of_char_of) simp
    with that show False by simp
  qed
  then show ?thesis by (auto simp: upper_char_def char_code_def)
qed

lemma forbidden_upper: "uppercase_ascii v = uppercase_ascii w \<Longrightarrow> forbidden_component v = forbidden_component w"
proof -
  have "forbidden_component v \<longleftrightarrow> uppercase_ascii v = ''.'' \<or> uppercase_ascii v = ''..''" for v
    by (auto simp: forbidden_component_def uppercase_ascii_def map_eq_Cons_conv upper_char_dot)
  then show "uppercase_ascii v = uppercase_ascii w \<Longrightarrow> forbidden_component v = forbidden_component w" by simp
qed

lemma mount_walk_upper:
  "map uppercase_ascii parts = map uppercase_ascii parts' \<Longrightarrow> mount_walk b r path parts = mount_walk b r path parts'"
proof (induction parts arbitrary: parts' r path)
  case (Cons v vs)
  then obtain w ws where ws: "parts' = w # ws" "uppercase_ascii v = uppercase_ascii w"
    "map uppercase_ascii vs = map uppercase_ascii ws" by (cases parts') auto
  have "(vs = []) = (ws = [])" using ws(3) by (metis map_is_Nil_conv)
  then show ?case unfolding ws(1) mount_walk.simps find_alias_upper [OF ws(2)] Cons.IH [OF ws(3)] by (simp only:)
qed simp

text \<open>The mounted namespace does not distinguish case or the spelling of separators: two paths whose
  components agree up to ASCII case have the same lookup, listing and reads, with the same effects.\<close>

theorem mount_case_insensitive:
  assumes "map uppercase_ascii (path_components p) = map uppercase_ascii (path_components q)"
  shows "mount_lookup now D p = mount_lookup now D q \<and> mount_list now D p = mount_list now D q \<and>
    mount_read now D p off n = mount_read now D q off n"
proof -
  have "lookup_parts b sr ps = lookup_parts b sr qs" if eq: "map uppercase_ascii ps = map uppercase_ascii qs" for b sr ps qs
  proof -
    have dots: "list_ex forbidden_component ps = list_ex forbidden_component qs"
      using eq by (induction ps qs rule: list_induct2') (auto dest: forbidden_upper)
    show ?thesis
    proof (cases ps)
      case (Cons v vs)
      with eq obtain w ws where q: "qs = w # ws" "uppercase_ascii v = uppercase_ascii w"
        "map uppercase_ascii vs = map uppercase_ascii ws" by (cases qs) auto
      have "equal_windows_name v ''Partitions'' = equal_windows_name w ''Partitions''"
        using q(2) by (simp add: equal_windows_name_def)
      note top = this
      show ?thesis
      proof (cases vs)
        case (Cons x xs)
        with q(3) obtain y ys where ws: "ws = y # ys" "uppercase_ascii x = uppercase_ascii y"
          "map uppercase_ascii xs = map uppercase_ascii ys" by (cases ws) auto
        have "(xs = []) = (ys = [])" using ws(3) by (metis map_is_Nil_conv)
        then show ?thesis
          unfolding lookup_parts_def dots unfolding \<open>ps = v # vs\<close> q(1) Cons ws(1) list.case top find_alias_upper [OF ws(2)]
            mount_walk_upper [OF ws(3)] by (simp only:)
      qed (use q(3) dots top in \<open>simp add: lookup_parts_def Cons q(1)\<close>)
    qed (use eq in simp)
  qed
  note parts = this [OF assms]
  have "mount_lookup now D p = mount_lookup now D q"
    unfolding mount_lookup_def parts ..
  then show ?thesis by (simp add: mount_list_def mount_read_def)
qed

end
