(* ===== verification/Dokany.thy ===== *)
theory Dokany
  imports DokanyPolicy MountView
begin

text \<open>
  The callbacks of the Dokany mount (\<open>src/mount/dokany_controller.cpp\<close>) over the mounted view.  What the
  Windows and Dokany headers define (flag values, conversions between UTF-16 and UTF-8, the size of a
  name buffer) is a parameter; status codes are named as the code names them.
\<close>

section \<open>The platform\<close>

datatype ntstatus =
    STATUS_SUCCESS
  | STATUS_OBJECT_NAME_NOT_FOUND
  | STATUS_OBJECT_PATH_NOT_FOUND
  | STATUS_OBJECT_NAME_COLLISION
  | STATUS_MEDIA_WRITE_PROTECTED
  | STATUS_FILE_IS_A_DIRECTORY
  | STATUS_NOT_A_DIRECTORY
  | STATUS_INVALID_PARAMETER

text \<open>A wide string, without its terminator.\<close>

type_synonym wide = "u16 list"

text \<open>\<open>win_to_utf8\<close> and \<open>win_to_wide\<close> are the strict conversions (\<open>WC_ERR_INVALID_CHARS\<close>, \<open>MB_ERR_INVALID_CHARS\<close>) of non-empty
  strings.\<close>

record windows =
  win_directory_file :: u32
  win_non_directory_file :: u32
  win_delete_on_close :: u32
  win_attribute_readonly :: u32
  win_attribute_directory :: u32
  win_name_capacity :: nat
  win_to_utf8 :: "wide \<Rightarrow> string option"
  win_to_wide :: "string \<Rightarrow> wide option"
  win_upper :: "u16 \<Rightarrow> u16"

text \<open>A null pointer is the empty string.\<close>

definition wide_to_utf8 :: "windows \<Rightarrow> wide option \<Rightarrow> string option" where
  "wide_to_utf8 W value =
     (case value of None \<Rightarrow> Some '''' | Some v \<Rightarrow> if v = [] then Some '''' else win_to_utf8 W v)"

definition utf8_to_wide :: "windows \<Rightarrow> string \<Rightarrow> wide" where
  "utf8_to_wide W value =
     (if value = '''' then []
      else case win_to_wide W value of
        Some w \<Rightarrow> w
      | None \<Rightarrow> map (\<lambda>c. of_nat (char_code c)) value)"

definition file_attributes :: "windows \<Rightarrow> bool \<Rightarrow> u32" where
  "file_attributes W directory = win_attribute_readonly W OR (if directory then win_attribute_directory W else 0)"

text \<open>\<open>FILE_WRITE_DATA\<close>, \<open>FILE_APPEND_DATA\<close>, \<open>FILE_WRITE_EA\<close>, \<open>FILE_WRITE_ATTRIBUTES\<close>, \<open>DELETE\<close>,
  \<open>WRITE_DAC\<close>, \<open>WRITE_OWNER\<close>, \<open>GENERIC_WRITE\<close> and \<open>GENERIC_ALL\<close>, by the values of \<open>winnt.h\<close>.\<close>

definition write_mask :: u32 where
  "write_mask = 0x2 OR 0x4 OR 0x10 OR 0x100 OR 0x10000 OR 0x40000 OR 0x80000 OR 0x40000000 OR 0x10000000"

definition has_write_access :: "u32 \<Rightarrow> bool" where
  "has_write_access access \<longleftrightarrow> access AND write_mask \<noteq> 0"

fun map_open_status :: "open_status \<Rightarrow> ntstatus" where
  "map_open_status Open_success = STATUS_SUCCESS"
| "map_open_status Open_name_not_found = STATUS_OBJECT_NAME_NOT_FOUND"
| "map_open_status Open_name_collision = STATUS_OBJECT_NAME_COLLISION"
| "map_open_status Open_write_protected = STATUS_MEDIA_WRITE_PROTECTED"
| "map_open_status Open_file_is_directory = STATUS_FILE_IS_A_DIRECTORY"
| "map_open_status Open_not_a_directory = STATUS_NOT_A_DIRECTORY"
| "map_open_status Open_invalid_disposition = STATUS_INVALID_PARAMETER"

section \<open>Callbacks\<close>

text \<open>\<open>context(info)\<close> may be null: the callbacks run on an optional session.\<close>

definition on_runtime :: "'a \<Rightarrow> ('s, 'a) session_op \<Rightarrow> ('s session option, 'a) state" where
  "on_runtime failed m = State (\<lambda>r. case r of
     None \<Rightarrow> (failed, None)
   | Some ss \<Rightarrow> let (a, ss') = run_state m ss in (a, Some ss'))"

text \<open>The status and what is stored into \<open>info->IsDirectory\<close>, if anything.\<close>

definition open_request_of :: "windows \<Rightarrow> mount_lookup_result \<Rightarrow> u32 \<Rightarrow> u32 \<Rightarrow> u32 \<Rightarrow> open_request" where
  "open_request_of W node access disposition options =
     \<lparr>or_exists = ml_ok node, or_is_directory = ml_ok node \<and> ml_is_directory node,
      or_wants_write = has_write_access access,
      or_directory_only = options AND win_directory_file W \<noteq> 0,
      or_non_directory_only = options AND win_non_directory_file W \<noteq> 0,
      or_delete_on_close = options AND win_delete_on_close W \<noteq> 0,
      or_disposition = disposition\<rparr>"

definition create_file ::
  "windows \<Rightarrow> ('s \<Rightarrow> int) \<Rightarrow> 's device \<Rightarrow> wide option \<Rightarrow> u32 \<Rightarrow> u32 \<Rightarrow> u32 \<Rightarrow>
   ('s session option, ntstatus \<times> bool option) state" where
  "create_file W now D file_name access disposition options =
     (case wide_to_utf8 W file_name of
        None \<Rightarrow> ret (STATUS_INVALID_PARAMETER, None)
      | Some path \<Rightarrow> on_runtime (STATUS_INVALID_PARAMETER, None) (do {
          node \<leftarrow> mount_lookup now D path;
          let status = map_open_status (evaluate_open (open_request_of W node access disposition options));
          ret (if status \<noteq> STATUS_SUCCESS then (status, None) else (STATUS_SUCCESS, Some (ml_is_directory node)))
        }))"

text \<open>The two pointers may be null; the result is the status and the bytes put into the buffer, whose
  number is \<open>*read_length\<close>.\<close>

definition dokan_read_file ::
  "windows \<Rightarrow> ('s \<Rightarrow> int) \<Rightarrow> 's device \<Rightarrow> wide option \<Rightarrow> bool \<Rightarrow> u32 \<Rightarrow> bool \<Rightarrow> 64 word \<Rightarrow>
   ('s session option, ntstatus \<times> byte list) state" where
  "dokan_read_file W now D file_name has_buffer buffer_length has_read_length offset =
     (if \<not> has_read_length \<or> sint offset < 0 \<or> buffer_length \<noteq> 0 \<and> \<not> has_buffer
      then ret (STATUS_INVALID_PARAMETER, [])
      else case wide_to_utf8 W file_name of
        None \<Rightarrow> ret (STATUS_INVALID_PARAMETER, [])
      | Some path \<Rightarrow> on_runtime (STATUS_INVALID_PARAMETER, []) (do {
          r \<leftarrow> mount_read now D path offset (unat buffer_length);
          if \<not> mr_ok r then do {
            node \<leftarrow> mount_lookup now D path;
            ret (if ml_ok node \<and> ml_is_directory node then STATUS_FILE_IS_A_DIRECTORY
                 else STATUS_OBJECT_NAME_NOT_FOUND, [])
          }
          else ret (STATUS_SUCCESS, mr_bytes r)
        }))"

record file_information =
  fi_attributes :: u32
  fi_links :: u32
  fi_size_high :: u32
  fi_size_low :: u32

definition get_file_information ::
  "windows \<Rightarrow> ('s \<Rightarrow> int) \<Rightarrow> 's device \<Rightarrow> wide option \<Rightarrow> bool \<Rightarrow>
   ('s session option, ntstatus \<times> file_information option) state" where
  "get_file_information W now D file_name has_buffer =
     (if \<not> has_buffer then ret (STATUS_INVALID_PARAMETER, None)
      else case wide_to_utf8 W file_name of
        None \<Rightarrow> ret (STATUS_INVALID_PARAMETER, None)
      | Some path \<Rightarrow> on_runtime (STATUS_INVALID_PARAMETER, None) (do {
          node \<leftarrow> mount_lookup now D path;
          ret (if \<not> ml_ok node then (STATUS_OBJECT_NAME_NOT_FOUND, None)
               else (STATUS_SUCCESS, Some
                 \<lparr>fi_attributes = file_attributes W (ml_is_directory node), fi_links = 1,
                  fi_size_high = ucast (drop_bit 32 (ml_size node)),
                  fi_size_low = ucast (ml_size node AND 0xFFFFFFFF)\<rparr>))
        }))"

record find_data =
  fd_attributes :: u32
  fd_size_high :: u32
  fd_size_low :: u32
  fd_name :: wide

text \<open>\<open>wcsncpy_s\<close> with \<open>_TRUNCATE\<close>: up to the terminator, and no more than fits.\<close>

definition truncated_copy :: "nat \<Rightarrow> wide \<Rightarrow> wide" where
  "truncated_copy capacity w = take (capacity - 1) (takeWhile (\<lambda>c. c \<noteq> 0) w)"

definition fill_find_data :: "windows \<Rightarrow> mount_entry \<Rightarrow> find_data" where
  "fill_find_data W e =
     \<lparr>fd_attributes = file_attributes W (me_is_directory e),
      fd_size_high = ucast (drop_bit 32 (me_size e)),
      fd_size_low = ucast (me_size e AND 0xFFFFFFFF),
      fd_name = truncated_copy (win_name_capacity W) (utf8_to_wide W (me_name e))\<rparr>"

text \<open>The entries handed to the callback of \<open>find_files\<close>; it ends the loop by a nonzero answer, which may
  depend on all it got so far.\<close>

fun deliver :: "(find_data list \<Rightarrow> bool) \<Rightarrow> find_data list \<Rightarrow> find_data list \<Rightarrow> find_data list" where
  "deliver full sent [] = sent"
| "deliver full sent (d # ds) = (if full (sent @ [d]) then sent @ [d] else deliver full (sent @ [d]) ds)"

definition find_files ::
  "windows \<Rightarrow> ('s \<Rightarrow> int) \<Rightarrow> 's device \<Rightarrow> wide option \<Rightarrow> (find_data list \<Rightarrow> bool) option \<Rightarrow>
   ('s session option, ntstatus \<times> find_data list) state" where
  "find_files W now D file_name fill =
     (case (wide_to_utf8 W file_name, fill) of
        (Some path, Some full) \<Rightarrow> on_runtime (STATUS_INVALID_PARAMETER, []) (do {
          r \<leftarrow> mount_list now D path;
          if \<not> mls_ok r then do {
            node \<leftarrow> mount_lookup now D path;
            ret (if ml_ok node then STATUS_NOT_A_DIRECTORY else STATUS_OBJECT_PATH_NOT_FOUND, [])
          }
          else ret (STATUS_SUCCESS, deliver full [] (map (fill_find_data W) (mls_entries r)))
        })
      | _ \<Rightarrow> ret (STATUS_INVALID_PARAMETER, []))"

text \<open>Total and free bytes; the free bytes of a read-only view are zero.\<close>

definition get_disk_free_space ::
  "('s \<Rightarrow> int) \<Rightarrow> 's device \<Rightarrow> bool \<Rightarrow> ('s session option, ntstatus \<times> (u64 \<times> u64 \<times> u64) option) state" where
  "get_disk_free_space now D has_pointers =
     (if \<not> has_pointers then ret (STATUS_INVALID_PARAMETER, None)
      else on_runtime (STATUS_INVALID_PARAMETER, None) (do {
        ss \<leftarrow> State_Monad.get;
        ret (STATUS_SUCCESS, Some (dev_size (stack_device now D) (ss_stack ss), 0, 0))
      }))"

text \<open>The callbacks that would change the volume.\<close>

datatype mutation =
    Write_file_call
  | Set_file_attributes_call
  | Set_file_time_call
  | Delete_file_call
  | Delete_directory_call
  | Move_file_call
  | Set_end_of_file_call
  | Set_allocation_size_call
  | Set_file_security_call

definition refuse_mutation :: "mutation \<Rightarrow> ('x, ntstatus) state" where
  "refuse_mutation c = ret STATUS_MEDIA_WRITE_PROTECTED"

section \<open>Mount points\<close>

definition colon :: u16 where "colon = 0x3A"
definition backslash :: u16 where "backslash = 0x5C"
definition quote :: u16 where "quote = 0x22"

definition normalize_mount_point :: "windows \<Rightarrow> wide \<Rightarrow> wide" where
  "normalize_mount_point W value =
     (let value = (if length value = 2 \<and> value ! 1 = colon then value @ [backslash] else value)
      in if length value = 3 \<and> value ! 1 = colon \<and> value ! 2 = backslash
         then value[0 := win_upper W (value ! 0)] else [])"

definition normalize_cli_mount_point :: "windows \<Rightarrow> wide \<Rightarrow> wide" where
  "normalize_cli_mount_point W value =
     normalize_mount_point W
       (if length value = 3 \<and> value ! 1 = colon \<and> value ! 2 = quote then take 2 value else value)"

text \<open>\<open>suggest_mount_point\<close>, for the answer of \<open>GetLogicalDrives\<close>.\<close>

definition suggest_mount_point :: "u32 \<Rightarrow> wide" where
  "suggest_mount_point drives =
     (case choose_mount_letter drives of None \<Rightarrow> [] | Some l \<Rightarrow> [of_nat l, colon, backslash])"

section \<open>Opening only for reading\<close>

text \<open>The bits of an access mask that stand for a right to change a file or its security: data (1, 2),
  extended attributes (4), attributes (8), deletion (16), the access list (18), the owner (19), and the
  generic rights to do all (28) and to write (30).\<close>

definition write_bits :: "nat set" where
  "write_bits = {1, 2, 4, 8, 16, 18, 19, 28, 30}"

lemma write_access_iff: "has_write_access access \<longleftrightarrow> (\<exists>b \<in> write_bits. bit access b)"
proof -
  have mask: "write_mask = 2 ^ 1 OR 2 ^ 2 OR 2 ^ 4 OR 2 ^ 8 OR 2 ^ 16 OR 2 ^ 18 OR 2 ^ 19 OR 2 ^ 30 OR 2 ^ 28"
    by (simp add: write_mask_def)
  have "access AND 2 ^ b = 0 \<longleftrightarrow> \<not> bit access b" for b
    by (rule and_exp_eq_0_iff_not_bit)
  then show ?thesis
    unfolding has_write_access_def mask by (auto simp only: bit.conj_disj_distrib or_eq_0_iff write_bits_def)
qed

lemma map_open_success: "map_open_status s = STATUS_SUCCESS \<longleftrightarrow> s = Open_success"
  by (cases s) simp_all

lemma run_on_runtime:
  "run_state (on_runtime failed m) None = (failed, None)"
  "run_state (on_runtime failed m) (Some ss) = (let (a, ss') = run_state m ss in (a, Some ss'))"
  by (simp_all add: on_runtime_def)

text \<open>C20: The mount opens files for reading only: \<open>ZwCreateFile\<close> succeeds exactly when the path decodes and
  names an existing node, the disposition is \<open>FILE_OPEN\<close> or \<open>FILE_OPEN_IF\<close>, the access mask has none of
  the nine rights to write, change or delete (bits 1, 2, 4, 8, 16, 18, 19, 28 and 30), the file is not to
  be deleted on close, and the node is of the kind asked for; then it says
  whether the node is a directory.  Without a runtime it never succeeds.\<close>

theorem create_file_read_only:
  "(fst (run_state (create_file W now D name access disposition options) (Some ss)) = (STATUS_SUCCESS, Some dir) \<longleftrightarrow>
     (\<exists>path node. wide_to_utf8 W name = Some path \<and> fst (run_state (mount_lookup now D path) ss) = node \<and>
        ml_ok node \<and> dir = ml_is_directory node \<and> disposition \<in> {1, 3} \<and>
        (\<forall>b \<in> write_bits. \<not> bit access b) \<and>
        options AND win_delete_on_close W = 0 \<and>
        (ml_is_directory node \<longrightarrow> options AND win_non_directory_file W = 0) \<and>
        (\<not> ml_is_directory node \<longrightarrow> options AND win_directory_file W = 0))) \<and>
   fst (run_state (create_file W now D name access disposition options) None) = (STATUS_INVALID_PARAMETER, None)"
proof (cases "wide_to_utf8 W name")
  case (Some path)
  obtain node ss' where node: "run_state (mount_lookup now D path) ss = (node, ss')" by fastforce
  show ?thesis
    using open_success_iff [of "open_request_of W node access disposition options"] write_access_iff [of access]
    by (auto simp: create_file_def Some run_on_runtime node Let_def map_open_success open_request_of_def)
qed (simp add: create_file_def)

end
