(* ===== verification/ExportSpec.thy ===== *)
theory ExportSpec
  imports PfsExport
begin

text \<open>
  The export seen through any reliable device: it makes the host calls, progress reports, warnings and
  statistics that the same export makes on the bare image.
\<close>

section \<open>Exports that mirror each other\<close>

text \<open>An export state over a device, seen as one over the image behind the device.\<close>

definition export_view :: "('s \<Rightarrow> image) \<Rightarrow> 's export_state \<Rightarrow> image export_state" where
  "export_view img x =
     \<lparr>ex_device = img (ex_device x), ex_calls = ex_calls x, ex_stats = ex_stats x, ex_error = ex_error x,
      ex_warnings = ex_warnings x, ex_active = ex_active x, ex_progress = ex_progress x\<rparr>"

definition mirrors ::
  "('s \<Rightarrow> bool) \<Rightarrow> ('s \<Rightarrow> image) \<Rightarrow> ('s export_state, 'a) state \<Rightarrow> (image export_state, 'a) state \<Rightarrow> bool" where
  "mirrors ok img m m0 \<longleftrightarrow>
     (\<forall>x. ok (ex_device x) \<longrightarrow>
        ok (ex_device (snd (run_state m x))) \<and> img (ex_device (snd (run_state m x))) = img (ex_device x) \<and>
        run_state m0 (export_view img x) = (fst (run_state m x), export_view img (snd (run_state m x))))"

lemma mirrorsD:
  fixes x :: "'s export_state"
  assumes "mirrors ok img m m0" "ok (ex_device x)" "run_state m x = (a, y)"
  shows "ok (ex_device y)" "img (ex_device y) = img (ex_device x)"
    "run_state m0 (export_view img x) = (a, export_view img y)"
  using assms unfolding mirrors_def by auto

lemma mirrors_ret: "mirrors ok img (ret a) (ret a)"
  by (simp add: mirrors_def)

lemma mirrors_bind:
  fixes m :: "('s export_state, 'a) state"
  assumes "mirrors ok img m m0" "\<And>a. mirrors ok img (f a) (f0 a)"
  shows "mirrors ok img (State_Monad.bind m f) (State_Monad.bind m0 f0)"
  unfolding mirrors_def
proof (intro allI impI)
  fix x :: "'s export_state"
  assume x: "ok (ex_device x)"
  obtain a y where m: "run_state m x = (a, y)" by fastforce
  obtain b z where f: "run_state (f a) y = (b, z)" by fastforce
  note m' = mirrorsD [OF assms(1) x m]
  note f' = mirrorsD [OF assms(2) m'(1) f]
  show "ok (ex_device (snd (run_state (State_Monad.bind m f) x))) \<and>
      img (ex_device (snd (run_state (State_Monad.bind m f) x))) = img (ex_device x) \<and>
      run_state (State_Monad.bind m0 f0) (export_view img x) =
        (fst (run_state (State_Monad.bind m f) x), export_view img (snd (run_state (State_Monad.bind m f) x)))"
    using m' f' by (simp add: m f)
qed

lemma mirrors_if:
  "(b \<Longrightarrow> mirrors ok img m m0) \<Longrightarrow> (\<not> b \<Longrightarrow> mirrors ok img n n0) \<Longrightarrow>
   mirrors ok img (if b then m else n) (if b then m0 else n0)"
  by simp

lemma mirrors_option:
  "mirrors ok img m m0 \<Longrightarrow> (\<And>a. mirrors ok img (f a) (f0 a)) \<Longrightarrow>
   mirrors ok img (case v of None \<Rightarrow> m | Some a \<Rightarrow> f a) (case v of None \<Rightarrow> m0 | Some a \<Rightarrow> f0 a)"
  by (cases v) auto

lemma mirrors_sum:
  "(\<And>a. mirrors ok img (f a) (f0 a)) \<Longrightarrow> (\<And>a. mirrors ok img (g a) (g0 a)) \<Longrightarrow>
   mirrors ok img (case v of Inl a \<Rightarrow> f a | Inr a \<Rightarrow> g a) (case v of Inl a \<Rightarrow> f0 a | Inr a \<Rightarrow> g0 a)"
  by (cases v) auto

text \<open>The active directories are the only part of the state the export looks at.\<close>

lemma mirrors_get:
  fixes f :: "'s export_state \<Rightarrow> ('s export_state, 'a) state"
  assumes "\<And>x. mirrors ok img (f x) (f0 (export_view img x))"
  shows "mirrors ok img (State_Monad.bind State_Monad.get f) (State_Monad.bind State_Monad.get f0)"
  unfolding mirrors_def
proof (intro allI impI)
  fix x :: "'s export_state"
  assume "ok (ex_device x)"
  with mirrorsD [OF assms [of x] this, of "fst (run_state (f x) x)" "snd (run_state (f x) x)"]
  show "ok (ex_device (snd (run_state (State_Monad.bind State_Monad.get f) x))) \<and>
      img (ex_device (snd (run_state (State_Monad.bind State_Monad.get f) x))) = img (ex_device x) \<and>
      run_state (State_Monad.bind State_Monad.get f0) (export_view img x) =
        (fst (run_state (State_Monad.bind State_Monad.get f) x),
         export_view img (snd (run_state (State_Monad.bind State_Monad.get f) x)))"
    by (simp add: State_Monad.get_def)
qed

lemma mirrors_modify:
  "(\<And>x. ex_device (f x) = ex_device x) \<Longrightarrow> (\<And>x. f0 (export_view img x) = export_view img (f x)) \<Longrightarrow>
   mirrors ok img (modify f) (modify f0)"
  by (simp add: mirrors_def modify_def State_Monad.get_def State_Monad.set_def)

lemma mirrors_on_device: "transparent ok img m m0 \<Longrightarrow> mirrors ok img (on_device m) (on_device m0)"
  by (auto simp: mirrors_def on_device_def export_view_def transparent_def State_Monad.get_def State_Monad.set_def
      split: prod.splits)

lemma mirrors_notes:
  "mirrors ok img (on_host host op) (on_host host op)" "mirrors ok img (export_failed msg) (export_failed msg)"
  "mirrors ok img (report_progress p) (report_progress p)" "mirrors ok img (skip_node w) (skip_node w)"
  unfolding export_failed_def report_progress_def skip_node_def
  by (simp add: mirrors_def on_host_def export_view_def State_Monad.get_def State_Monad.set_def)
    (intro mirrors_bind mirrors_ret mirrors_modify; simp add: export_view_def)+

lemmas mirrors_intros = mirrors_ret mirrors_bind mirrors_if mirrors_option mirrors_sum mirrors_modify mirrors_notes

section \<open>The export over a device and over the image\<close>

context reliable_device
begin

lemmas mirrors_reads = mirrors_on_device [OF transparent_pfs_read] mirrors_on_device [OF transparent_read_inode]
  mirrors_on_device [OF transparent_list_directory] mirrors_on_device [OF transparent_resolve]

lemma mirrors_chunks:
  "mirrors ok img (export_chunks D host rd node path dest off n) (export_chunks image_device host rd node path dest off n)"
proof (induction n arbitrary: off rule: less_induct)
  case (less n)
  have tail: "mirrors ok img
      (export_chunks D host rd node path dest (off + of_nat (min kChunkSize n)) (n - min kChunkSize n))
      (export_chunks image_device host rd node path dest (off + of_nat (min kChunkSize n)) (n - min kChunkSize n))"
    if "n \<noteq> 0"
    using that by (intro less.IH) (auto simp: kChunkSize_def)
  show ?case
    unfolding export_chunks.simps [of _ _ _ _ _ _ _ n] Let_def
    by (intro mirrors_intros mirrors_reads tail; simp add: export_view_def)
qed

lemma mirrors_file:
  "mirrors ok img (export_file D host rd node path dest) (export_file image_device host rd node path dest)"
  unfolding export_file_def by (intro mirrors_intros mirrors_chunks; simp add: export_view_def)

lemma mirrors_entries:
  assumes "\<And>node path dest. mirrors ok img (child node path dest) (child0 node path dest)"
  shows "mirrors ok img (export_entries child D rd path dest used entries)
    (export_entries child0 image_device rd path dest used entries)"
proof (induction entries arbitrary: used)
  case (Cons e es)
  show ?case
    unfolding export_entries.simps Let_def by (intro mirrors_intros mirrors_reads assms Cons.IH)
qed (simp add: mirrors_ret)

lemma mirrors_node:
  "mirrors ok img (export_node k D host rd node path dest) (export_node k image_device host rd node path dest)"
proof (induction k arbitrary: node path dest)
  case 0
  show ?case by (simp add: mirrors_notes)
next
  case (Suc k)
  have get: "mirrors ok img
      (State_Monad.bind State_Monad.get (\<lambda>x. if key \<in> ex_active x then m else n))
      (State_Monad.bind State_Monad.get (\<lambda>x. if key \<in> ex_active x then m0 else n0))"
    if "mirrors ok img m m0" "mirrors ok img n n0" for key :: u64 and m n m0 n0
    using that by (intro mirrors_get) (simp add: export_view_def)
  show ?case
    unfolding export_node.simps export_directory_def Let_def
    by (intro mirrors_intros get mirrors_reads mirrors_file mirrors_entries Suc.IH; simp add: export_view_def)
qed

lemma mirrors_export:
  "mirrors ok img (pfs_export_to_host D host rd src dest) (pfs_export_to_host image_device host rd src dest)"
  unfolding pfs_export_to_host_def by (intro mirrors_intros mirrors_reads mirrors_node)

end

end
