(* ===== verification/SessionSpec.thy ===== *)
theory SessionSpec
  imports DriveSession ExportSpec
begin

text \<open>
  What a drive session promises: its answers are those of the image, as if there were no cache at any
  level.  \<open>spec_*\<close> are the answers computed from the image and the scan result alone; \<open>coherent\<close> is the
  invariant that ties the four caches of \<open>src/host/drive_session.cpp\<close> to them.
\<close>

section \<open>The answers of the image\<close>

definition spec_reader :: "image \<Rightarrow> scan_result \<Rightarrow> string \<Rightarrow> string + pfs_reader" where
  "spec_reader im sr pid =
     (case find_partition sr pid of
        None \<Rightarrow> Inl (''Partition not found: '' @ pid)
      | Some p \<Rightarrow>
          if p_type p \<noteq> kTypePfs then Inl (''Partition is not PFS: '' @ pid)
          else
            let pr = evalS (probe image_device (apa_volume p)) im;
                rd = \<lparr>rd_volume = apa_volume p, rd_probe = pr\<rparr>
            in if reader_valid rd then Inr rd else Inl (probe_failure pr))"

definition spec_directory ::
  "image \<Rightarrow> scan_result \<Rightarrow> string \<Rightarrow> string \<Rightarrow> string + pfs_node \<times> (directory_entry \<times> pfs_node option) list" where
  "spec_directory im sr pid path =
     (case spec_reader im sr pid of
        Inl msg \<Rightarrow> Inl msg
      | Inr rd \<Rightarrow> evalS (browse_directory image_device rd (normalize_cache_path path)) im)"

definition spec_browse :: "image \<Rightarrow> scan_result \<Rightarrow> string \<Rightarrow> string \<Rightarrow> browse_result" where
  "spec_browse im sr pid path =
     (case spec_directory im sr pid path of
        Inl msg \<Rightarrow> \<lparr>br_ok = False, br_error = msg, br_entries = []\<rparr>
      | Inr (node, cs) \<Rightarrow>
          \<lparr>br_ok = True, br_error = '''', br_entries = map (\<lambda>(e, c). visible_entry e c) cs\<rparr>)"

definition spec_node :: "image \<Rightarrow> scan_result \<Rightarrow> string \<Rightarrow> string \<Rightarrow> string + pfs_node" where
  "spec_node im sr pid path =
     (case spec_reader im sr pid of
        Inl msg \<Rightarrow> Inl msg
      | Inr rd \<Rightarrow> map_sum pfs_message id (evalS (resolve image_device rd (normalize_cache_path path)) im))"

definition spec_stat :: "image \<Rightarrow> scan_result \<Rightarrow> string \<Rightarrow> string \<Rightarrow> stat_result" where
  "spec_stat im sr pid path =
     (case spec_node im sr pid path of
        Inl msg \<Rightarrow> failed_stat msg
      | Inr nd \<Rightarrow> stat_from_node (normalize_cache_path path) nd)"

definition spec_bytes ::
  "image \<Rightarrow> scan_result \<Rightarrow> string \<Rightarrow> string \<Rightarrow> u64 \<Rightarrow> nat \<Rightarrow> string + byte list" where
  "spec_bytes im sr pid path offset n =
     (case spec_reader im sr pid of
        Inl msg \<Rightarrow> Inl msg
      | Inr rd \<Rightarrow>
          case spec_node im sr pid path of
            Inl msg \<Rightarrow> Inl msg
          | Inr nd \<Rightarrow>
              if \<not> mode_is_regular (i_mode (nd_inode nd)) then Inl ''PFS path is not a regular file''
              else if i_size (nd_inode nd) \<le> offset \<or> n = 0 then Inr []
              else map_sum pfs_message id (evalS (pfs_read image_device rd nd offset
                (unat (min (of_nat n) (i_size (nd_inode nd) - offset)))) im))"

definition spec_read ::
  "image \<Rightarrow> scan_result \<Rightarrow> string \<Rightarrow> string \<Rightarrow> u64 \<Rightarrow> nat \<Rightarrow> read_result" where
  "spec_read im sr pid path offset n =
     (case spec_bytes im sr pid path offset n of
        Inl msg \<Rightarrow> \<lparr>rr_ok = False, rr_error = msg, rr_bytes = []\<rparr>
      | Inr bs \<Rightarrow> \<lparr>rr_ok = True, rr_error = '''', rr_bytes = bs\<rparr>)"

text \<open>The names the node and stat caches rely on: no directory lists a name twice or a name with a
  separator in it.  (PFS itself enforces neither on disk.)\<close>

definition plain_names :: "image \<Rightarrow> scan_result \<Rightarrow> bool" where
  "plain_names im sr \<longleftrightarrow>
     (\<forall>pid path node cs. spec_directory im sr pid path = Inr (node, cs) \<longrightarrow>
        distinct (map (de_name \<circ> fst) cs) \<and>
        (\<forall>(e, c) \<in> set cs. \<forall>x \<in> set (de_name e). \<not> is_separator x))"

text \<open>A partition name that cannot be confused with the rest of a cache key.\<close>

definition plain_id :: "string \<Rightarrow> bool" where
  "plain_id pid \<longleftrightarrow> CHR 0x1F \<notin> set pid"

section \<open>Pure computations on an image\<close>

context reliable_device
begin

lemma transparent_read_children [transparent_intros]:
  "transparent ok img (read_children D rd es) (read_children image_device rd es)"
proof (induction es)
  case Nil
  show ?case unfolding read_children.simps by (rule transparent_ret)
next
  case (Cons e es)
  show ?case unfolding read_children.simps by (intro transparent_intros Cons.IH)
qed

lemma transparent_browse_directory [transparent_intros]:
  "transparent ok img (browse_directory D rd path) (browse_directory image_device rd path)"
  unfolding browse_directory_def by (intro transparent_intros)

end

lemma image_pure:
  assumes "transparent (\<lambda>_. True) (\<lambda>im. im) m m"
  shows "run_state m im = (evalS m im, im)"
  using assms by (cases "run_state m im") (auto simp: transparent_def evalS_def dest!: spec [of _ im])

lemma image_eval_bindE:
  assumes "transparent (\<lambda>_. True) (\<lambda>im. im) m m"
  shows "evalS (bindE m f) im = (case evalS m im of Inl e \<Rightarrow> Inl e | Inr a \<Rightarrow> evalS (f a) im)"
  using image_pure [OF assms, of im] by (auto simp: evalS_def run_bindE split: sum.splits prod.splits)

lemma key_inject:
  assumes "plain_id p" "plain_id q"
  shows "make_cache_key p a = make_cache_key q b \<longleftrightarrow> p = q \<and> normalize_cache_path a = normalize_cache_path b"
proof -
  have "takeWhile (\<lambda>c. c \<noteq> CHR 0x1F) (make_cache_key r x) = r" if "plain_id r" for r x
    using that by (auto simp: make_cache_key_def plain_id_def takeWhile_append takeWhile_eq_all_conv)
  with assms show ?thesis by (metis append_same_eq make_cache_key_def append_Cons append_Nil list.inject same_append_eq)
qed

lemma spec_normalized:
  "normalize_cache_path a = normalize_cache_path b \<Longrightarrow>
   spec_browse im sr pid a = spec_browse im sr pid b \<and> spec_node im sr pid a = spec_node im sr pid b \<and>
   spec_stat im sr pid a = spec_stat im sr pid b"
  by (simp add: spec_browse_def spec_directory_def spec_node_def spec_stat_def cong: sum.case_cong)

section \<open>The children of a directory resolve by name\<close>

lemma parse_entries_dots:
  "parse_entries bytes False pos =
     map_sum id (filter (\<lambda>e. de_name e \<noteq> ''.'' \<and> de_name e \<noteq> ''..'')) (parse_entries bytes True pos)"
proof (induction bytes False pos rule: parse_entries.induct)
  case (1 bytes pos)
  show ?case
    by (subst (1 2) parse_entries.simps) (simp add: Let_def 1 split: sum.splits)
qed

text \<open>One turn of the parser: it skips to the next sector or reads a record and goes on behind it.\<close>

lemma parse_entries_turn:
  assumes "parse_entries bytes dots pos = Inr es" "pos < length bytes"
  obtains q e es' kept where "pos < q" "parse_entries bytes dots q = Inr es'"
    "es = (if kept then e # es' else es')" "kept \<Longrightarrow> de_name e \<noteq> []"
proof -
  let ?stop = "min (pos div kSectorSize * kSectorSize + kSectorSize) (length bytes)"
  let ?alloc = "unat (load_u16_le bytes (pos + 6) AND 0x0FFF)" and ?len = "unat (bytes ! (pos + 5))"
  have stop: "pos < ?stop" using assms(2) by (rule sector_end_after)
  show thesis
  proof (cases "?stop < pos + 8")
    case True
    then have "parse_entries bytes dots ?stop = Inr es"
      using assms by (subst (asm) parse_entries.simps) (simp add: Let_def)
    with stop that [of ?stop es False] show thesis by simp
  next
    case False
    define name where "name = map char_of_byte (sub_bytes (pos + 8) ?len bytes)"
    define kept where "kept \<longleftrightarrow> load_u32_le bytes pos \<noteq> 0 \<and> ?len \<noteq> 0 \<and> (dots \<or> name \<noteq> ''.'' \<and> name \<noteq> ''..'')"
    define e where "e = \<lparr>de_name = name,
      de_inode = \<lparr>bi_number = load_u32_le bytes pos, bi_subpart = ucast (bytes ! (pos + 4)), bi_count = 1\<rparr>,
      de_mode = load_u16_le bytes (pos + 6) AND kModeMask\<rparr>"
    have body: "parse_entries bytes dots pos =
        (if ?alloc < 8 \<or> ?alloc mod 4 \<noteq> 0 \<or> ?stop < pos + ?alloc then Inl Dir_allocation
         else if ?alloc - 8 < ?len then Inl Dir_name_length
         else case parse_entries bytes dots (pos + ?alloc) of
                Inl x \<Rightarrow> Inl x | Inr es \<Rightarrow> Inr (if kept then e # es else es))"
      using False assms(2)
      by (subst parse_entries.simps) (simp only: Let_def not_le [symmetric] if_False kept_def e_def name_def simp_thms)
    with assms(1) have alloc: "8 \<le> ?alloc" "pos + ?alloc \<le> ?stop" "?len \<le> ?alloc - 8"
      by (auto split: if_splits)
    with body assms(1) obtain es' where e: "parse_entries bytes dots (pos + ?alloc) = Inr es'"
      "es = (if kept then e # es' else es')"
      by (auto split: if_splits sum.splits)
    have "de_name e \<noteq> []" if kept
      using that alloc by (auto simp: kept_def e_def name_def sub_bytes_def)
    with that [of "pos + ?alloc" es' kept e] e(1,2) alloc(1) show thesis by simp
  qed
qed

lemma parse_entries_names:
  "parse_entries bytes dots pos = Inr es \<Longrightarrow> e \<in> set es \<Longrightarrow> de_name e \<noteq> []"
proof (induction "length bytes - pos" arbitrary: pos es rule: less_induct)
  case less
  show ?case
  proof (cases "pos < length bytes")
    case True
    from less.prems(1) True show ?thesis
    proof (rule parse_entries_turn)
      fix q d es' kept
      assume "pos < q" "parse_entries bytes dots q = Inr es'" "es = (if kept then d # es' else es')"
        "kept \<Longrightarrow> de_name d \<noteq> []"
      with less.hyps [of q es'] less.prems(2) True show ?thesis by (cases kept) (auto simp: diff_less_mono2)
    qed
  next
    case False
    with less.prems show ?thesis by (subst (asm) parse_entries.simps) simp
  qed
qed

lemma find_filter: "(\<And>x. x \<in> set xs \<Longrightarrow> P x \<Longrightarrow> Q x) \<Longrightarrow> find P xs = find P (filter Q xs)"
  by (induction xs) auto

lemma find_distinct: "distinct (map f xs) \<Longrightarrow> x \<in> set xs \<Longrightarrow> find (\<lambda>y. f y = f x) xs = Some x"
  by (induction xs) (auto intro: rev_image_eqI)

lemmas image_transparent = image.transparent_resolve image.transparent_list_directory image.transparent_read_inode
  image.transparent_pfs_read image.transparent_probe image.transparent_scan image.transparent_read_root
  image.transparent_resolve_components

lemma image_eval_bind:
  assumes "transparent (\<lambda>_. True) (\<lambda>im. im) m m"
  shows "evalS (State_Monad.bind m f) im = evalS (f (evalS m im)) im"
  using image_pure [OF assms, of im] by (cases "run_state m im") (simp add: evalS_def)

lemma eval_ret [simp]: "evalS (ret a) s = a" "evalS (okE a) s = Inr a" "evalS (failE e) s = Inl e"
  by (simp_all add: evalS_def)

text \<open>Listing without the dot entries filters the full listing.\<close>

lemma list_without_dots:
  "evalS (list_directory image_device rd nd False) im =
     map_sum id (filter (\<lambda>e. de_name e \<noteq> ''.'' \<and> de_name e \<noteq> ''..''))
       (evalS (list_directory image_device rd nd True) im)"
  by (auto simp: list_directory_def Let_def image_eval_bindE [OF image.transparent_pfs_read]
      parse_entries_dots [of _ 0] split: sum.splits)

lemma listed_names:
  assumes "evalS (list_directory image_device rd nd dots) im = Inr es" "e \<in> set es"
  shows "de_name e \<noteq> []"
  using assms parse_entries_names
  by (auto simp: list_directory_def Let_def image_eval_bindE [OF image.transparent_pfs_read]
      split: sum.splits if_splits)

lemma read_children_image:
  "evalS (read_children image_device rd es) im =
     map (\<lambda>e. (e, case evalS (read_inode image_device rd (de_inode e)) im of Inl _ \<Rightarrow> None | Inr nd \<Rightarrow> Some nd)) es"
  by (induction es) (simp_all add: image_eval_bind [OF image.transparent_read_inode]
      image_eval_bind [OF image.transparent_read_children])

lemma browse_directory_image:
  "evalS (browse_directory image_device rd path) im =
     (case evalS (resolve image_device rd path) im of
        Inl e \<Rightarrow> Inl (pfs_message e)
      | Inr node \<Rightarrow>
          if \<not> mode_is_directory (i_mode (nd_inode node)) then Inl ''PFS path is not a directory''
          else case evalS (list_directory image_device rd node False) im of
            Inl e \<Rightarrow> Inl (pfs_message e)
          | Inr es \<Rightarrow> Inr (node, evalS (read_children image_device rd es) im))"
  by (auto simp: browse_directory_def image_eval_bind [OF image.transparent_resolve]
      image_eval_bind [OF image.transparent_list_directory] image_eval_bind [OF image.transparent_read_children]
      split: sum.splits)

lemma resolve_step_image:
  "evalS (resolve_components image_device rd node [c]) im =
     (if c = ''.'' then Inr node
      else case evalS (list_directory image_device rd node True) im of
        Inl e \<Rightarrow> Inl e
      | Inr es \<Rightarrow> case find (\<lambda>e. de_name e = c) es of
          None \<Rightarrow> Inl (Path_not_found c)
        | Some e \<Rightarrow> evalS (read_inode image_device rd (de_inode e)) im)"
proof -
  have "resolve_components image_device rd node [c] = resolve_step image_device rd c node"
    by (rule state_eqI) (auto simp: run_bindE split: prod.splits sum.splits)
  then show ?thesis
    by (auto simp: resolve_step_def image_eval_bindE [OF image.transparent_list_directory]
        split: sum.splits option.splits)
qed

lemma resolve_snoc:
  assumes "path_components q = path_components p @ [c]"
  shows "evalS (resolve image_device rd q) im =
    (case evalS (resolve image_device rd p) im of
       Inl e \<Rightarrow> Inl e | Inr node \<Rightarrow> evalS (resolve_components image_device rd node [c]) im)"
proof -
  have "resolve image_device rd q = bindE (resolve image_device rd p) (\<lambda>node. resolve_components image_device rd node [c])"
    by (simp add: resolve_def resolve_from_components assms resolve_components_append bindE_assoc)
  then show ?thesis by (simp only: image_eval_bindE [OF image.transparent_resolve])
qed

lemma child_components:
  assumes "name \<noteq> []" "\<forall>x \<in> set name. \<not> is_separator x"
  shows "path_components (child_path p name) = path_components p @ [name]"
    and "normalize_cache_path (child_path p name) = child_path p name"
proof -
  have sep: "is_separator CHR ''/''" by (simp add: is_separator_def)
  let ?p = "normalize_cache_path p"
  have "path_components (?p @ CHR ''/'' # name) = path_components ?p @ path_components name"
    by (rule path_components_append [OF sep])
  moreover have "path_components p = []" if "?p = []"
    using that by (metis path_components_normalize path_components_blank dropWhile.simps(1))
  ultimately show c: "path_components (child_path p name) = path_components p @ [name]"
    by (auto simp: child_path_def Let_def components_word [OF assms])
  have "?p = join_components (path_components p)" by (rule normalize_join)
  moreover have "normalize_cache_path (child_path p name) = join_components (path_components p @ [name])"
    by (simp add: normalize_join c)
  ultimately show "normalize_cache_path (child_path p name) = child_path p name"
    using path_components_parts [of _ p]
    by (cases "path_components p") (auto simp: child_path_def Let_def join_components_def)
qed

text \<open>A listed child is what its path resolves to.\<close>

lemma child_resolves:
  assumes dir: "evalS (browse_directory image_device rd p) im = Inr (node, cs)"
    and plain: "distinct (map (de_name \<circ> fst) cs)" "\<forall>x \<in> set (de_name e). \<not> is_separator x"
    and child: "(e, Some nd) \<in> set cs"
  shows "evalS (resolve image_device rd (child_path p (de_name e))) im = Inr nd"
proof -
  let ?dots = "\<lambda>e. de_name e \<noteq> ''.'' \<and> de_name e \<noteq> ''..''"
  from dir obtain es where node: "evalS (resolve image_device rd p) im = Inr node"
    and es: "evalS (list_directory image_device rd node False) im = Inr es"
    and cs: "cs = evalS (read_children image_device rd es) im"
    by (auto simp: browse_directory_image split: sum.splits if_splits)
  from es obtain full where full: "evalS (list_directory image_device rd node True) im = Inr full"
    "es = filter ?dots full" unfolding list_without_dots
    by (cases "evalS (list_directory image_device rd node True) im") auto
  from child cs have e: "e \<in> set es" "evalS (read_inode image_device rd (de_inode e)) im = Inr nd"
    by (auto simp: read_children_image split: sum.splits)
  have "map (de_name \<circ> fst) cs = map de_name es" unfolding cs read_children_image by simp
  with plain(1) have "distinct (map de_name es)" by simp
  then have "find (\<lambda>d. de_name d = de_name e) es = Some e" using e(1) by (rule find_distinct)
  moreover have "find (\<lambda>d. de_name d = de_name e) full = find (\<lambda>d. de_name d = de_name e) es"
    unfolding full(2) using e(1) full(2) by (intro find_filter) auto
  ultimately have "evalS (resolve_components image_device rd node [de_name e]) im = Inr nd"
    using e full by (simp add: resolve_step_image del: resolve_components.simps)
  moreover have "path_components (child_path p (de_name e)) = path_components p @ [de_name e]"
    using listed_names [OF es e(1)] plain(2) by (rule child_components)
  ultimately show ?thesis by (simp add: resolve_snoc node del: resolve_components.simps)
qed

section \<open>Coherent caches\<close>

definition probe_fresh :: "image \<Rightarrow> scan_result \<Rightarrow> string \<Rightarrow> probe_result \<Rightarrow> bool" where
  "probe_fresh im sr pid pr \<longleftrightarrow>
     (\<forall>p. find_partition sr pid = Some p \<longrightarrow> pr = evalS (probe image_device (apa_volume p)) im)"

definition browse_fresh :: "image \<Rightarrow> scan_result \<Rightarrow> string \<Rightarrow> browse_result \<Rightarrow> bool" where
  "browse_fresh im sr key r \<longleftrightarrow>
     (\<forall>pid path. plain_id pid \<longrightarrow> key = make_cache_key pid path \<longrightarrow> r = spec_browse im sr pid path)"

definition stat_fresh :: "image \<Rightarrow> scan_result \<Rightarrow> string \<Rightarrow> stat_result \<Rightarrow> bool" where
  "stat_fresh im sr key r \<longleftrightarrow>
     (\<forall>pid path. plain_id pid \<longrightarrow> key = make_cache_key pid path \<longrightarrow> r = spec_stat im sr pid path)"

definition node_fresh :: "image \<Rightarrow> scan_result \<Rightarrow> string \<Rightarrow> pfs_node \<Rightarrow> bool" where
  "node_fresh im sr key nd \<longleftrightarrow>
     (\<forall>pid path. plain_id pid \<longrightarrow> key = make_cache_key pid path \<longrightarrow> spec_node im sr pid path = Inr nd)"

definition coherent ::
  "('s \<Rightarrow> bool) \<Rightarrow> ('s \<Rightarrow> image) \<Rightarrow> image \<Rightarrow> scan_result \<Rightarrow> 's session \<Rightarrow> bool" where
  "coherent ok img im sr ss \<longleftrightarrow>
     stack_ok ok img (ss_stack ss) \<and> stack_img img (ss_stack ss) = im \<and> ss_scan ss = sr \<and>
     um_ok kMaxProbeCacheEntries (ss_probe_cache ss) \<and> um_ok kMaxBrowseCacheEntries (ss_browse_cache ss) \<and>
     um_ok kMaxStatCacheEntries (ss_stat_cache ss) \<and> um_ok kMaxNodeCacheEntries (ss_node_cache ss) \<and>
     um_all (probe_fresh im sr) (ss_probe_cache ss) \<and> um_all (browse_fresh im sr) (ss_browse_cache ss) \<and>
     (plain_names im sr \<longrightarrow>
        um_all (stat_fresh im sr) (ss_stat_cache ss) \<and> um_all (node_fresh im sr) (ss_node_cache ss))"

lemma coherent_frame [simp]:
  "coherent ok img im sr (ss\<lparr>ss_counters := c\<rparr>) = coherent ok img im sr ss"
  "coherent ok img im sr (ss\<lparr>ss_last_error := e\<rparr>) = coherent ok img im sr ss"
  "coherent ok img im sr (evicted n ss) = coherent ok img im sr ss"
  by (simp_all add: coherent_def evicted_def)

lemmas cache_bounds = kMaxProbeCacheEntries_def kMaxBrowseCacheEntries_def kMaxStatCacheEntries_def
  kMaxNodeCacheEntries_def

lemma coherent_open: "ok s \<Longrightarrow> coherent ok img (img s) empty_scan (open_session s)"
  by (simp add: coherent_def open_session_def new_stack_ok new_stack_img)

lemma coherent_rescan:
  "coherent ok img im sr ss \<Longrightarrow> coherent ok img im r ((clear_caches ss)\<lparr>ss_scan := r\<rparr>)"
  using clear_stack_ok [of ok img "ss_stack ss"] by (simp add: coherent_def clear_caches_def)

lemma coherent_clear: "coherent ok img im sr ss \<Longrightarrow> coherent ok img im sr (clear_caches ss)"
  using clear_stack_ok [of ok img "ss_stack ss"] by (simp add: coherent_def clear_caches_def)

lemma coherent_store_probe:
  "coherent ok img im sr ss \<Longrightarrow> probe_fresh im sr k v \<Longrightarrow> coherent ok img im sr (store_probe k v ss)"
  by (auto simp: store_probe_def split_def Let_def coherent_def evicted_def um_ok_bounded_store um_all_bounded_store
      cache_bounds)

lemma coherent_store_browse:
  "coherent ok img im sr ss \<Longrightarrow> browse_fresh im sr k v \<Longrightarrow> coherent ok img im sr (store_browse k v ss)"
  by (auto simp: store_browse_def split_def Let_def coherent_def evicted_def um_ok_bounded_store um_all_bounded_store
      cache_bounds)

lemma coherent_store_stat:
  "coherent ok img im sr ss \<Longrightarrow> (plain_names im sr \<Longrightarrow> stat_fresh im sr k v) \<Longrightarrow>
   coherent ok img im sr (store_stat k v ss)"
  by (auto simp: store_stat_def split_def Let_def coherent_def evicted_def um_ok_bounded_store um_all_bounded_store
      cache_bounds)

lemma coherent_store_node:
  "coherent ok img im sr ss \<Longrightarrow> (plain_names im sr \<Longrightarrow> node_fresh im sr k v) \<Longrightarrow>
   coherent ok img im sr (store_node k v ss)"
  by (auto simp: store_node_def split_def Let_def coherent_def evicted_def um_ok_bounded_store um_all_bounded_store
      cache_bounds)

lemma coherent_store_nodes:
  "coherent ok img im sr ss \<Longrightarrow>
   (\<And>k p nd. plain_names im sr \<Longrightarrow> (k, p, nd) \<in> set ns \<Longrightarrow> node_fresh im sr k nd) \<Longrightarrow>
   coherent ok img im sr (store_nodes ns ss)"
proof (induction ns arbitrary: ss)
  case (Cons n ns)
  obtain k p nd where n: "n = (k, p, nd)" by (cases n)
  have "coherent ok img im sr (store_node k nd ss)"
    using Cons.prems(1) by (rule coherent_store_node) (use Cons.prems(2) n in auto)
  then have "coherent ok img im sr (store_nodes ns (store_node k nd ss))"
    by (rule Cons.IH) (use Cons.prems(2) in auto)
  then show ?case by (simp add: store_nodes_def n)
qed (simp add: store_nodes_def)

lemma coherent_store_stats:
  "coherent ok img im sr ss \<Longrightarrow>
   (\<And>k p nd. plain_names im sr \<Longrightarrow> (k, p, nd) \<in> set ns \<Longrightarrow> stat_fresh im sr k (stat_from_node p nd)) \<Longrightarrow>
   coherent ok img im sr (store_stats ns ss)"
proof (induction ns arbitrary: ss)
  case (Cons n ns)
  obtain k p nd where n: "n = (k, p, nd)" by (cases n)
  have "coherent ok img im sr (store_stat k (stat_from_node p nd) ss)"
    using Cons.prems(1) by (rule coherent_store_stat) (use Cons.prems(2) n in auto)
  then have "coherent ok img im sr (store_stats ns (store_stat k (stat_from_node p nd) ss))"
    by (rule Cons.IH) (use Cons.prems(2) in auto)
  then show ?case by (simp add: store_stats_def n)
qed (simp add: store_stats_def)

section \<open>Operations that answer\<close>

text \<open>From a state with the invariant \<open>I\<close>, \<open>m\<close> returns \<open>a\<close> and keeps \<open>I\<close>.\<close>

definition answers :: "('x \<Rightarrow> bool) \<Rightarrow> ('x, 'a) state \<Rightarrow> 'a \<Rightarrow> 'x \<Rightarrow> bool" where
  "answers I m a x \<longleftrightarrow> (I x \<longrightarrow> fst (run_state m x) = a \<and> I (snd (run_state m x)))"

lemma answers_ret: "answers I (ret a) a x" "answers I (okE b) (Inr b) x" "answers I (failE e) (Inl e) x"
  by (simp_all add: answers_def)

lemma answers_bind:
  assumes "answers I m a x" "\<And>y. I y \<Longrightarrow> answers I (f a) b y"
  shows "answers I (State_Monad.bind m f) b x"
proof -
  obtain c y where run: "run_state m x = (c, y)" by fastforce
  from assms(1) assms(2) [of y] show ?thesis by (simp add: answers_def run)
qed

lemma answers_bindE:
  assumes "answers I m a x" "\<And>v y. a = Inr v \<Longrightarrow> I y \<Longrightarrow> answers I (f v) (g v) y"
  shows "answers I (bindE m f) (case a of Inl e \<Rightarrow> Inl e | Inr v \<Rightarrow> g v) x"
proof -
  have "answers I (case a of Inl e \<Rightarrow> failE e | Inr v \<Rightarrow> f v) (case a of Inl e \<Rightarrow> Inl e | Inr v \<Rightarrow> g v) y" if "I y" for y
    using assms(2) that by (cases a) (simp_all add: answers_ret)
  then show ?thesis
    unfolding bindE_def by (rule answers_bind [OF assms(1)])
qed

lemma answers_if:
  "(b \<Longrightarrow> answers I m a x) \<Longrightarrow> (\<not> b \<Longrightarrow> answers I n a x) \<Longrightarrow> answers I (if b then m else n) a x"
  by simp

lemma answers_get: "(I x \<Longrightarrow> answers I (f x) b x) \<Longrightarrow> answers I (State_Monad.bind State_Monad.get f) b x"
  by (simp add: answers_def State_Monad.get_def)

lemma answers_modify: "(I x \<Longrightarrow> I (f x)) \<Longrightarrow> answers I (modify f) () x"
  by (simp add: answers_def modify_def State_Monad.get_def State_Monad.set_def)

lemma answers_then_modify:
  assumes "I x \<Longrightarrow> I (f x)" "\<And>y. I y \<Longrightarrow> answers I m b y"
  shows "answers I (State_Monad.bind (modify f) (\<lambda>_. m)) b x"
  by (rule answers_bind [OF answers_modify]) (fact assms)+

lemma answers_count: "answers (coherent ok img im sr) (count f) () ss"
  unfolding count_def by (rule answers_modify) simp

lemma answers_timed:
  assumes "answers (coherent ok img im sr) m a ss"
  shows "answers (coherent ok img im sr) (timed now add m) a ss"
  unfolding timed_def Let_def
  by (intro answers_get answers_bind [OF assms], rule answers_bind [where a = "()"])
    (intro answers_if answers_count answers_ret)+

lemma answers_on_stack:
  assumes "transparent (stack_ok ok img) (stack_img img) m m0"
  shows "answers (coherent ok img im sr) (on_stack m) (evalS m0 im) ss"
  unfolding answers_def
proof (intro impI)
  assume ss: "coherent ok img im sr ss"
  then have st: "stack_ok ok img (ss_stack ss)" "stack_img img (ss_stack ss) = im" by (simp_all add: coherent_def)
  obtain a t where run: "run_state m (ss_stack ss) = (a, t)" by fastforce
  from transparentD [OF assms st(1) run] st(2)
  have "stack_ok ok img t" "stack_img img t = im" "evalS m0 im = a" by (simp_all add: evalS_def)
  with ss show "fst (run_state (on_stack m) ss) = evalS m0 im \<and>
      coherent ok img im sr (snd (run_state (on_stack m) ss))"
    by (simp add: on_stack_def run coherent_def)
qed

lemma answers_count_then:
  assumes "\<And>y. coherent ok img im sr y \<Longrightarrow> answers (coherent ok img im sr) m b y"
  shows "answers (coherent ok img im sr) (State_Monad.bind (count f) (\<lambda>_. m)) b x"
  by (rule answers_bind [OF answers_count assms])

lemma answers_stack_then:
  assumes "transparent (stack_ok ok img) (stack_img img) m m0"
    and "\<And>y. coherent ok img im sr y \<Longrightarrow> answers (coherent ok img im sr) (f (evalS m0 im)) b y"
  shows "answers (coherent ok img im sr) (State_Monad.bind (on_stack m) f) b x"
  by (rule answers_bind [OF answers_on_stack [OF assms(1)]]) (rule assms(2))

lemmas answers_intros = answers_ret answers_count_then answers_then_modify

section \<open>Every operation answers from the image\<close>

lemma answers_probe_for:
  assumes D: "reliable_device D ok img" and p: "find_partition sr pid = Some p"
  shows "answers (coherent ok img im sr) (probe_for now D pid (apa_volume p))
    (evalS (probe image_device (apa_volume p)) im) ss"
  unfolding probe_for_def
proof (rule answers_get)
  assume coh: "coherent ok img im sr ss"
  let ?pr = "evalS (probe image_device (apa_volume p)) im"
  have fresh: "probe_fresh im sr pid ?pr" using p by (simp add: probe_fresh_def)
  show "answers (coherent ok img im sr) (case map_of (ss_probe_cache ss) pid of
      None \<Rightarrow> do {
         _ \<leftarrow> count (\<lambda>c. c\<lparr>sc_probe_misses := sc_probe_misses c + 1\<rparr>);
         r \<leftarrow> on_stack (probe (stack_device now D) (apa_volume p));
         _ \<leftarrow> modify (store_probe pid r);
         ret r }
    | Some r \<Rightarrow> do { _ \<leftarrow> count (\<lambda>c. c\<lparr>sc_probe_hits := sc_probe_hits c + 1\<rparr>); ret r }) ?pr ss"
  proof (cases "map_of (ss_probe_cache ss) pid")
    case None
    have t: "transparent (stack_ok ok img) (stack_img img) (probe (stack_device now D) (apa_volume p))
        (probe image_device (apa_volume p))"
      by (rule reliable_device.transparent_probe [OF stack_reliable_device [OF D]])
    show ?thesis unfolding None option.case
      by (intro answers_intros answers_stack_then [OF t] coherent_store_probe fresh)
  next
    case (Some r)
    with coh p have "r = ?pr" by (auto simp: coherent_def probe_fresh_def dest: um_allD)
    then show ?thesis unfolding Some option.case by (simp only:) (intro answers_intros)
  qed
qed

lemma answers_open_partition:
  assumes "reliable_device D ok img"
  shows "answers (coherent ok img im sr) (open_partition now D pid) (spec_reader im sr pid) ss"
  unfolding open_partition_def
proof (rule answers_get)
  assume coh: "coherent ok img im sr ss"
  then have sr: "ss_scan ss = sr" by (simp add: coherent_def)
  show "answers (coherent ok img im sr) (case find_partition (ss_scan ss) pid of
      None \<Rightarrow> failE (''Partition not found: '' @ pid)
    | Some p \<Rightarrow>
        if p_type p \<noteq> kTypePfs then failE (''Partition is not PFS: '' @ pid)
        else do {
          pr \<leftarrow> probe_for now D pid (apa_volume p);
          let rd = \<lparr>rd_volume = apa_volume p, rd_probe = pr\<rparr>;
          if \<not> reader_valid rd then failE (probe_failure pr) else okE rd
        }) (spec_reader im sr pid) ss"
    unfolding sr
  proof (cases "find_partition sr pid")
    case (Some p)
    then show "answers (coherent ok img im sr) (case find_partition sr pid of
        None \<Rightarrow> failE (''Partition not found: '' @ pid)
      | Some p \<Rightarrow>
          if p_type p \<noteq> kTypePfs then failE (''Partition is not PFS: '' @ pid)
          else do {
            pr \<leftarrow> probe_for now D pid (apa_volume p);
            let rd = \<lparr>rd_volume = apa_volume p, rd_probe = pr\<rparr>;
            if \<not> reader_valid rd then failE (probe_failure pr) else okE rd
          }) (spec_reader im sr pid) ss"
      by (auto simp: spec_reader_def Let_def intro!: answers_bind [OF answers_probe_for [OF assms Some]] answers_ret)
  qed (simp add: spec_reader_def answers_ret)
qed

lemma answers_pfs_op:
  assumes "transparent (stack_ok ok img) (stack_img img) m m0"
  shows "answers (coherent ok img im sr) (pfs_op m) (map_sum pfs_message id (evalS m0 im)) ss"
  unfolding pfs_op_def by (intro answers_bind [OF answers_on_stack [OF assms]] answers_ret)

text \<open>What an operation under a plain partition name may store.\<close>

lemma browse_fresh_spec:
  "plain_id pid \<Longrightarrow> browse_fresh im sr (make_cache_key pid path) (spec_browse im sr pid path)"
  unfolding browse_fresh_def by (metis key_inject spec_normalized)

lemma node_fresh_spec:
  "plain_id pid \<Longrightarrow> spec_node im sr pid path = Inr nd \<Longrightarrow> node_fresh im sr (make_cache_key pid path) nd"
  unfolding node_fresh_def by (metis key_inject spec_normalized)

lemma stat_fresh_spec:
  "plain_id pid \<Longrightarrow> spec_stat im sr pid path = r \<Longrightarrow> stat_fresh im sr (make_cache_key pid path) r"
  unfolding stat_fresh_def by (metis key_inject spec_normalized)

lemma spec_directory_node:
  assumes "spec_directory im sr pid path = Inr (node, cs)"
  shows "spec_node im sr pid path = Inr node"
  using assms by (auto simp: spec_directory_def spec_node_def browse_directory_image split: sum.splits if_splits)

lemma browsed_node_spec:
  assumes plain: "plain_names im sr"
    and dir: "spec_directory im sr pid path = Inr (node, cs)"
    and mem: "(k, p, nd) \<in> set (browsed_nodes pid (normalize_cache_path path) node cs)"
  shows "k = make_cache_key pid p \<and> normalize_cache_path p = p \<and> spec_node im sr pid p = Inr nd"
proof -
  let ?q = "normalize_cache_path path"
  from mem consider "k = make_cache_key pid ?q" "p = ?q" "nd = node"
    | e where "(e, Some nd) \<in> set cs" "p = child_path ?q (de_name e)" "k = make_cache_key pid p"
    by (auto simp: browsed_nodes_def split: option.splits)
  then show ?thesis
  proof cases
    case 1
    with spec_directory_node [OF dir] spec_normalized [of path ?q im sr pid] show ?thesis by simp
  next
    case 2
    from dir obtain rd where rd: "spec_reader im sr pid = Inr rd"
      "evalS (browse_directory image_device rd ?q) im = Inr (node, cs)"
      by (auto simp: spec_directory_def split: sum.splits)
    from plain dir 2(1) have names: "distinct (map (de_name \<circ> fst) cs)" "\<forall>x \<in> set (de_name e). \<not> is_separator x"
      unfolding plain_names_def by blast+
    from rd(2) 2(1) have "de_name e \<noteq> []"
      by (auto simp: browse_directory_image read_children_image listed_names split: sum.splits if_splits)
    then have "normalize_cache_path p = p" unfolding 2(2) using names(2) by (rule child_components)
    moreover have "evalS (resolve image_device rd p) im = Inr nd"
      unfolding 2(2) by (rule child_resolves [OF rd(2) names 2(1)])
    ultimately show ?thesis using 2(3) by (simp add: spec_node_def rd(1))
  qed
qed

lemma browsed_node_fresh:
  assumes "plain_id pid" "plain_names im sr" "spec_directory im sr pid path = Inr (node, cs)"
    and "(k, p, nd) \<in> set (browsed_nodes pid (normalize_cache_path path) node cs)"
  shows "node_fresh im sr k nd" "stat_fresh im sr k (stat_from_node p nd)"
proof -
  from browsed_node_spec [OF assms(2-4)] have k: "k = make_cache_key pid p" "normalize_cache_path p = p"
    and nd: "spec_node im sr pid p = Inr nd" by auto
  show "node_fresh im sr k nd" unfolding k(1) by (rule node_fresh_spec [OF assms(1) nd])
  show "stat_fresh im sr k (stat_from_node p nd)"
    unfolding k(1) by (rule stat_fresh_spec [OF assms(1)]) (simp add: spec_stat_def nd k(2))
qed

lemma answers_browse:
  assumes D: "reliable_device D ok img" and pid: "plain_id pid"
  shows "answers (coherent ok img im sr) (browse now D pid path) (spec_browse im sr pid path) ss"
proof -
  let ?q = "normalize_cache_path path" and ?I = "coherent ok img im sr"
  have key: "make_cache_key pid ?q = make_cache_key pid path" by (simp add: make_cache_key_def)
  let ?work = "bindE (open_partition now D pid) (\<lambda>rd. on_stack (browse_directory (stack_device now D) rd ?q))"
  let ?store = "\<lambda>node cs. do {
      _ \<leftarrow> modify (store_nodes (browsed_nodes pid ?q node cs));
      _ \<leftarrow> modify (store_stats (browsed_nodes pid ?q node cs));
      _ \<leftarrow> modify (store_browse (make_cache_key pid path)
        \<lparr>br_ok = True, br_error = '''', br_entries = map (\<lambda>(e, c). visible_entry e c) cs\<rparr>);
      ret \<lparr>br_ok = True, br_error = '''', br_entries = map (\<lambda>(e, c). visible_entry e c) cs\<rparr>
    }"
  have work: "answers ?I ?work (spec_directory im sr pid path) ss" for ss
    unfolding spec_directory_def
    by (intro answers_bindE answers_open_partition [OF D] answers_on_stack
        reliable_device.transparent_browse_directory [OF stack_reliable_device [OF D]])
  show ?thesis
    unfolding browse_def Let_def key
  proof (intro answers_timed answers_count_then answers_get)
    fix z assume z: "?I z"
    show "answers ?I (case map_of (ss_browse_cache z) (make_cache_key pid path) of
        None \<Rightarrow> do {
          _ \<leftarrow> count (\<lambda>c. c\<lparr>sc_browse_misses := sc_browse_misses c + 1\<rparr>);
          r \<leftarrow> ?work;
          case r of
            Inl msg \<Rightarrow> ret \<lparr>br_ok = False, br_error = msg, br_entries = []\<rparr>
          | Inr (node, cs) \<Rightarrow> ?store node cs
        }
      | Some r \<Rightarrow> do { _ \<leftarrow> count (\<lambda>c. c\<lparr>sc_browse_hits := sc_browse_hits c + 1\<rparr>); ret r })
      (spec_browse im sr pid path) z"
    proof (cases "map_of (ss_browse_cache z) (make_cache_key pid path)")
      case (Some r)
      with z pid have "r = spec_browse im sr pid path"
        by (auto simp: coherent_def browse_fresh_def dest: um_allD)
      then show ?thesis unfolding Some option.case by (simp only:) (intro answers_intros)
    next
      case None
      show ?thesis unfolding None option.case
      proof (rule answers_count_then, rule answers_bind [OF work])
        fix x assume "?I x"
        show "answers ?I (case spec_directory im sr pid path of
            Inl msg \<Rightarrow> ret \<lparr>br_ok = False, br_error = msg, br_entries = []\<rparr>
          | Inr (node, cs) \<Rightarrow> ?store node cs) (spec_browse im sr pid path) x"
        proof (cases "spec_directory im sr pid path")
          case (Inr r)
          obtain node cs where r: "r = (node, cs)" by (cases r)
          have spec: "spec_browse im sr pid path =
              \<lparr>br_ok = True, br_error = '''', br_entries = map (\<lambda>(e, c). visible_entry e c) cs\<rparr>"
            by (simp add: spec_browse_def Inr r)
          note dir = Inr [unfolded r]
          show ?thesis unfolding dir sum.case prod.case spec [symmetric]
            by (intro answers_intros coherent_store_nodes coherent_store_stats coherent_store_browse
                browse_fresh_spec [OF pid] browsed_node_fresh [OF pid _ dir])
        qed (simp add: spec_browse_def answers_ret)
      qed
    qed
  qed
qed

lemma key_normalized [simp]: "make_cache_key pid (normalize_cache_path path) = make_cache_key pid path"
  by (simp add: make_cache_key_def)

lemma stat_of_node: "spec_node im sr pid path = Inr nd \<Longrightarrow> spec_stat im sr pid path = stat_from_node (normalize_cache_path path) nd"
  by (simp add: spec_stat_def)

text \<open>Resolving a path that is in no cache.\<close>

lemma answers_resolve:
  assumes D: "reliable_device D ok img" and rd: "spec_reader im sr pid = Inr rd"
  shows "answers (coherent ok img im sr) (pfs_op (resolve (stack_device now D) rd (normalize_cache_path path)))
    (spec_node im sr pid path) ss"
  using answers_pfs_op [OF reliable_device.transparent_resolve [OF stack_reliable_device [OF D]]]
  by (simp add: spec_node_def rd)

lemma answers_open_resolve:
  assumes D: "reliable_device D ok img"
  shows "answers (coherent ok img im sr)
    (bindE (open_partition now D pid) (\<lambda>rd. pfs_op (resolve (stack_device now D) rd (normalize_cache_path path))))
    (spec_node im sr pid path) ss"
proof -
  have "spec_node im sr pid path = (case spec_reader im sr pid of Inl e \<Rightarrow> Inl e | Inr rd \<Rightarrow> spec_node im sr pid path)"
    by (cases "spec_reader im sr pid") (simp_all add: spec_node_def)
  moreover have "answers (coherent ok img im sr)
      (bindE (open_partition now D pid) (\<lambda>rd. pfs_op (resolve (stack_device now D) rd (normalize_cache_path path))))
      (case spec_reader im sr pid of Inl e \<Rightarrow> Inl e | Inr rd \<Rightarrow> spec_node im sr pid path) ss"
    by (rule answers_bindE [OF answers_open_partition [OF D]]) (rule answers_resolve [OF D])
  ultimately show ?thesis by simp
qed

lemma answers_stat:
  assumes D: "reliable_device D ok img" and pid: "plain_id pid" and names: "plain_names im sr"
  shows "answers (coherent ok img im sr) (session_stat now D pid path) (spec_stat im sr pid path) ss"
proof -
  let ?q = "normalize_cache_path path" and ?I = "coherent ok img im sr" and ?key = "make_cache_key pid path"
  let ?store = "\<lambda>node. do {
      _ \<leftarrow> modify (store_node ?key node);
      _ \<leftarrow> modify (store_stat ?key (stat_from_node ?q node));
      ret (stat_from_node ?q node)
    }"
  let ?work = "bindE (open_partition now D pid) (\<lambda>rd. pfs_op (resolve (stack_device now D) rd ?q))"
  show ?thesis
    unfolding session_stat_def Let_def key_normalized
  proof (intro answers_timed answers_count_then answers_get)
    fix z assume z: "?I z"
    show "answers ?I (case map_of (ss_stat_cache z) ?key of
        None \<Rightarrow> do {
          _ \<leftarrow> count (\<lambda>c. c\<lparr>sc_stat_misses := sc_stat_misses c + 1\<rparr>);
          case map_of (ss_node_cache z) ?key of
            None \<Rightarrow> do {
              _ \<leftarrow> count (\<lambda>c. c\<lparr>sc_node_misses := sc_node_misses c + 1\<rparr>);
              r \<leftarrow> ?work;
              case r of Inl msg \<Rightarrow> ret (failed_stat msg) | Inr node \<Rightarrow> ?store node
            }
          | Some nd \<Rightarrow> do {
              _ \<leftarrow> count (\<lambda>c. c\<lparr>sc_node_hits := sc_node_hits c + 1\<rparr>);
              _ \<leftarrow> modify (store_stat ?key (stat_from_node ?q nd));
              ret (stat_from_node ?q nd)
            }
        }
      | Some r \<Rightarrow> do { _ \<leftarrow> count (\<lambda>c. c\<lparr>sc_stat_hits := sc_stat_hits c + 1\<rparr>); ret r })
      (spec_stat im sr pid path) z"
    proof (cases "map_of (ss_stat_cache z) ?key")
      case (Some r)
      with z pid names have "r = spec_stat im sr pid path"
        by (auto simp: coherent_def stat_fresh_def dest: um_allD)
      then show ?thesis unfolding Some option.case by (simp only:) (intro answers_intros)
    next
      case miss: None
      show ?thesis
      proof (cases "map_of (ss_node_cache z) ?key")
        case (Some nd)
        with z pid names have "spec_node im sr pid path = Inr nd"
          by (auto simp: coherent_def node_fresh_def dest: um_allD)
        note nd = stat_of_node [OF this]
        show ?thesis unfolding miss Some option.case nd [symmetric]
          by (intro answers_intros coherent_store_stat stat_fresh_spec [OF pid] refl)
      next
        case None
        show ?thesis unfolding miss None option.case
        proof (intro answers_count_then, rule answers_bind [OF answers_open_resolve [OF D]])
          fix y assume "?I y"
          show "answers ?I (case spec_node im sr pid path of Inl msg \<Rightarrow> ret (failed_stat msg) | Inr node \<Rightarrow> ?store node)
              (spec_stat im sr pid path) y"
          proof (cases "spec_node im sr pid path")
            case (Inr nd)
            show ?thesis unfolding Inr sum.case stat_of_node [OF Inr, symmetric]
              by (intro answers_intros coherent_store_node coherent_store_stat node_fresh_spec [OF pid Inr]
                  stat_fresh_spec [OF pid] refl)
          qed (simp add: spec_stat_def answers_ret)
        qed
      qed
    qed
  qed
qed

lemma answers_cached_node:
  assumes D: "reliable_device D ok img" and pid: "plain_id pid" and names: "plain_names im sr"
    and rd: "spec_reader im sr pid = Inr rd"
  shows "answers (coherent ok img im sr)
    (cached_node now D rd (make_cache_key pid path) (normalize_cache_path path)) (spec_node im sr pid path) ss"
  unfolding cached_node_def
proof (rule answers_get)
  let ?q = "normalize_cache_path path" and ?I = "coherent ok img im sr" and ?key = "make_cache_key pid path"
  let ?store = "\<lambda>node. do {
      _ \<leftarrow> modify (store_node ?key node);
      _ \<leftarrow> modify (store_stat ?key (stat_from_node ?q node));
      okE node
    }"
  assume ss: "?I ss"
  show "answers ?I (case map_of (ss_node_cache ss) ?key of
      None \<Rightarrow> do {
        _ \<leftarrow> count (\<lambda>c. c\<lparr>sc_node_misses := sc_node_misses c + 1\<rparr>);
        r \<leftarrow> pfs_op (resolve (stack_device now D) rd ?q);
        case r of Inl msg \<Rightarrow> failE msg | Inr node \<Rightarrow> ?store node
      }
    | Some nd \<Rightarrow> do { _ \<leftarrow> count (\<lambda>c. c\<lparr>sc_node_hits := sc_node_hits c + 1\<rparr>); okE nd })
    (spec_node im sr pid path) ss"
  proof (cases "map_of (ss_node_cache ss) ?key")
    case (Some nd)
    with ss pid names have "spec_node im sr pid path = Inr nd"
      by (auto simp: coherent_def node_fresh_def dest: um_allD)
    then show ?thesis unfolding Some option.case by (simp only:) (intro answers_intros)
  next
    case None
    show ?thesis unfolding None option.case
    proof (intro answers_count_then, rule answers_bind [OF answers_resolve [OF D rd]])
      fix y assume "?I y"
      show "answers ?I (case spec_node im sr pid path of Inl msg \<Rightarrow> failE msg | Inr node \<Rightarrow> ?store node)
          (spec_node im sr pid path) y"
      proof (cases "spec_node im sr pid path")
        case (Inr nd)
        show ?thesis unfolding Inr sum.case
          by (intro answers_intros coherent_store_node coherent_store_stat node_fresh_spec [OF pid Inr]
              stat_fresh_spec [OF pid stat_of_node [OF Inr]])
      qed (simp add: answers_ret)
    qed
  qed
qed

lemma answers_read:
  assumes D: "reliable_device D ok img" and pid: "plain_id pid" and names: "plain_names im sr"
  shows "answers (coherent ok img im sr) (read_file now D pid path offset n) (spec_read im sr pid path offset n) ss"
proof -
  let ?len = "\<lambda>nd. unat (min (of_nat n) (i_size (nd_inode nd) - offset))"
  have body: "answers (coherent ok img im sr)
      (if \<not> mode_is_regular (i_mode (nd_inode nd)) then failE ''PFS path is not a regular file''
       else if i_size (nd_inode nd) \<le> offset \<or> n = 0 then okE []
       else pfs_op (pfs_read (stack_device now D) rd nd offset (?len nd)))
      (if \<not> mode_is_regular (i_mode (nd_inode nd)) then Inl ''PFS path is not a regular file''
       else if i_size (nd_inode nd) \<le> offset \<or> n = 0 then Inr []
       else map_sum pfs_message id (evalS (pfs_read image_device rd nd offset (?len nd)) im)) z" for rd nd z
    using answers_pfs_op [OF reliable_device.transparent_pfs_read [OF stack_reliable_device [OF D]]]
    by (simp add: answers_ret)
  have work: "answers (coherent ok img im sr)
      (bindE (open_partition now D pid) (\<lambda>rd.
         bindE (cached_node now D rd (make_cache_key pid path) (normalize_cache_path path)) (\<lambda>nd.
           if \<not> mode_is_regular (i_mode (nd_inode nd)) then failE ''PFS path is not a regular file''
           else if i_size (nd_inode nd) \<le> offset \<or> n = 0 then okE []
           else pfs_op (pfs_read (stack_device now D) rd nd offset (?len nd)))))
      (spec_bytes im sr pid path offset n) y" for y
    unfolding spec_bytes_def
    by (rule answers_bindE [OF answers_open_partition [OF D]], rule answers_bindE [OF answers_cached_node [OF D pid names]],
        assumption, rule body)
  show ?thesis
    unfolding read_file_def spec_read_def Let_def key_normalized
    by (intro answers_timed answers_count_then answers_bind [OF work] answers_ret)
qed

section \<open>Scans and exports\<close>

definition spec_scan :: "image \<Rightarrow> scan_result" where
  "spec_scan im = evalS (scan image_device default_max_headers) im"

text \<open>The state of the caches just after \<open>clear_caches\<close> fits any scan result.\<close>

definition cleared :: "('s \<Rightarrow> bool) \<Rightarrow> ('s \<Rightarrow> image) \<Rightarrow> image \<Rightarrow> 's session \<Rightarrow> bool" where
  "cleared ok img im ss \<longleftrightarrow>
     stack_ok ok img (ss_stack ss) \<and> stack_img img (ss_stack ss) = im \<and> ss_probe_cache ss = [] \<and>
     ss_browse_cache ss = [] \<and> ss_stat_cache ss = [] \<and> ss_node_cache ss = []"

lemma cleared_coherent: "cleared ok img im ss \<Longrightarrow> coherent ok img im sr (ss\<lparr>ss_scan := sr\<rparr>)"
  by (simp add: cleared_def coherent_def)

lemma coherent_cleared: "coherent ok img im sr ss \<Longrightarrow> cleared ok img im (clear_caches ss)"
  using clear_stack_ok [of ok img "ss_stack ss"] by (simp add: cleared_def coherent_def clear_caches_def)

lemma coherent_sessionD:
  "coherent ok img im sr ss \<Longrightarrow> stack_ok ok img (ss_stack ss) \<and> stack_img img (ss_stack ss) = im"
  by (simp add: coherent_def)

lemma run_session_scan:
  assumes D: "reliable_device D ok img" and ss: "coherent ok img im sr ss"
  shows "fst (run_state (session_scan now D) ss) = (mbr_valid (spec_scan im) \<and> scan_ok (spec_scan im)) \<and>
    coherent ok img im (spec_scan im) (snd (run_state (session_scan now D) ss))"
proof -
  have y: "cleared ok img im (clear_caches ss)" by (rule coherent_cleared [OF ss])
  then have st: "stack_ok ok img (ss_stack (clear_caches ss))" "stack_img img (ss_stack (clear_caches ss)) = im"
    by (simp_all only: cleared_def)
  obtain r st' where
    run: "run_state (scan (stack_device now D) default_max_headers) (ss_stack (clear_caches ss)) = (r, st')"
    by fastforce
  note t = transparentD [OF reliable_device.transparent_scan [OF stack_reliable_device [OF D]] st(1) run]
  have r: "r = spec_scan im" using t(3) st(2) by (simp add: spec_scan_def evalS_def)
  have "cleared ok img im ((clear_caches ss)\<lparr>ss_stack := st'\<rparr>)" using y t(1,2) st(2) by (simp add: cleared_def)
  then have z: "coherent ok img im (spec_scan im) ((clear_caches ss)\<lparr>ss_stack := st', ss_scan := spec_scan im\<rparr>)"
    by (rule cleared_coherent)
  show ?thesis
    using z run unfolding session_scan_def timed_def count_def modify_def on_stack_def
    by (simp add: State_Monad.get_def State_Monad.set_def Let_def r coherent_def)
qed

text \<open>What an export reports besides the device it leaves behind.\<close>

definition export_report ::
  "bool \<times> 's export_state \<Rightarrow>
   bool \<times> host_op list \<times> export_stats \<times> string \<times> string list \<times> (export_stats \<times> string) list" where
  "export_report r =
     (let (done, x) = r in (done, ex_calls x, ex_stats x, ex_error x, ex_warnings x, ex_progress x))"

definition spec_export :: "image \<Rightarrow> scan_result \<Rightarrow> host \<Rightarrow> string \<Rightarrow> string \<Rightarrow> host_path \<Rightarrow> bool \<times> image export_state" where
  "spec_export im sr host pid path dest =
     (case spec_reader im sr pid of
        Inl msg \<Rightarrow> (False, (empty_export im)\<lparr>ex_error := msg\<rparr>)
      | Inr rd \<Rightarrow> run_state (pfs_export_to_host image_device host rd path dest) (empty_export im))"

lemma export_report_view: "export_report (b, export_view img x) = export_report (b, x)"
  by (simp add: export_report_def export_view_def)

lemma export_view_empty: "export_view img (empty_export s) = empty_export (img s)"
  by (simp add: export_view_def empty_export_def)

lemma run_session_export:
  assumes D: "reliable_device D ok img" and ss: "coherent ok img im sr ss"
  shows "export_report (fst (run_state (session_export now D host pid path dest) ss)) =
      export_report (spec_export im sr host pid path dest) \<and>
    coherent ok img im sr (snd (run_state (session_export now D host pid path dest) ss))"
proof -
  let ?c = "ss\<lparr>ss_counters := (ss_counters ss)\<lparr>sc_export_operations := sc_export_operations (ss_counters ss) + 1\<rparr>\<rparr>"
  obtain r y where run: "run_state (open_partition now D pid) ?c = (r, y)" by fastforce
  have "coherent ok img im sr ?c" using ss by simp
  with answers_open_partition [OF D, of im sr now pid ?c] have r: "r = spec_reader im sr pid" and y: "coherent ok img im sr y"
    by (simp_all add: answers_def run)
  note unfold = session_export_def timed_def count_def modify_def
  show ?thesis
  proof (cases "spec_reader im sr pid")
    case (Inl msg)
    with y run show ?thesis unfolding unfold
      by (simp add: State_Monad.get_def State_Monad.set_def Let_def r spec_export_def export_report_def empty_export_def)
  next
    case (Inr rd)
    obtain b x where x: "run_state (pfs_export_to_host (stack_device now D) host rd path dest)
        (empty_export (ss_stack y)) = (b, x)" by fastforce
    have "stack_ok ok img (ex_device (empty_export (ss_stack y)))"
      using coherent_sessionD [OF y] by (simp add: empty_export_def)
    note m = mirrorsD [OF reliable_device.mirrors_export [OF stack_reliable_device [OF D]] this x]
    have "coherent ok img im sr (y\<lparr>ss_stack := ex_device x\<rparr>)"
      using y m(1,2) by (simp add: coherent_def empty_export_def)
    moreover have "export_report (spec_export im sr host pid path dest) = export_report (b, x)"
      using m(3) coherent_sessionD [OF y] by (simp add: spec_export_def Inr export_view_empty export_report_view)
    ultimately show ?thesis using run x unfolding unfold
      by (simp add: State_Monad.get_def State_Monad.set_def Let_def r Inr)
  qed
qed

section \<open>Sequences of requests\<close>

datatype request =
    Scan_request
  | Browse_request string string
  | Stat_request string string
  | Read_request string string u64 nat
  | Export_request host string string host_path
  | Clear_request
  | Reset_request

datatype answer =
    Scanned bool
  | Browsed browse_result
  | Stated stat_result
  | Was_read read_result
  | Exported "bool \<times> host_op list \<times> export_stats \<times> string \<times> string list \<times> (export_stats \<times> string) list"
  | Done

fun perform :: "('s \<Rightarrow> int) \<Rightarrow> 's device \<Rightarrow> request \<Rightarrow> 's session \<Rightarrow> answer \<times> 's session" where
  "perform now D Scan_request ss = map_prod Scanned id (run_state (session_scan now D) ss)"
| "perform now D (Browse_request pid path) ss = map_prod Browsed id (run_state (browse now D pid path) ss)"
| "perform now D (Stat_request pid path) ss = map_prod Stated id (run_state (session_stat now D pid path) ss)"
| "perform now D (Read_request pid path off n) ss =
     map_prod Was_read id (run_state (read_file now D pid path off n) ss)"
| "perform now D (Export_request host pid path dest) ss =
     map_prod (\<lambda>r. Exported (export_report r)) id (run_state (session_export now D host pid path dest) ss)"
| "perform now D Clear_request ss = (Done, clear_caches ss)"
| "perform now D Reset_request ss = (Done, session_reset_stats ss)"

text \<open>The abstract session remembers the result of the last scan and nothing else.\<close>

fun spec_perform :: "image \<Rightarrow> request \<Rightarrow> scan_result \<Rightarrow> answer \<times> scan_result" where
  "spec_perform im Scan_request sr = (Scanned (mbr_valid (spec_scan im) \<and> scan_ok (spec_scan im)), spec_scan im)"
| "spec_perform im (Browse_request pid path) sr = (Browsed (spec_browse im sr pid path), sr)"
| "spec_perform im (Stat_request pid path) sr = (Stated (spec_stat im sr pid path), sr)"
| "spec_perform im (Read_request pid path off n) sr = (Was_read (spec_read im sr pid path off n), sr)"
| "spec_perform im (Export_request host pid path dest) sr =
     (Exported (export_report (spec_export im sr host pid path dest)), sr)"
| "spec_perform im Clear_request sr = (Done, sr)"
| "spec_perform im Reset_request sr = (Done, sr)"

fun run_requests :: "('x \<Rightarrow> request \<Rightarrow> answer \<times> 'x) \<Rightarrow> request list \<Rightarrow> 'x \<Rightarrow> answer list \<times> 'x" where
  "run_requests step [] x = ([], x)"
| "run_requests step (r # rs) x =
     (let (a, y) = step x r; (as, z) = run_requests step rs y in (a # as, z))"

fun plain_request :: "request \<Rightarrow> bool" where
  "plain_request (Browse_request pid path) = plain_id pid"
| "plain_request (Stat_request pid path) = plain_id pid"
| "plain_request (Read_request pid path off n) = plain_id pid"
| "plain_request _ = True"

fun uses_nodes :: "request \<Rightarrow> bool" where
  "uses_nodes (Stat_request pid path) = True"
| "uses_nodes (Read_request pid path off n) = True"
| "uses_nodes _ = False"

lemma reset_stack_ok: "stack_ok ok img st \<Longrightarrow> stack_ok ok img (reset_stack st) \<and> stack_img img (reset_stack st) = stack_img img st"
  by (simp add: stack_ok_def stack_img_def reset_stack_def Let_def rc_ok_def ra_ok_def rc_reset_stats_def
      ra_reset_stats_def ib_reset_stats_def)

lemma coherent_reset: "coherent ok img im sr ss \<Longrightarrow> coherent ok img im sr (session_reset_stats ss)"
  using reset_stack_ok [of ok img "ss_stack ss"] by (simp add: coherent_def session_reset_stats_def)

lemma plain_names_empty: "plain_names im empty_scan"
  by (simp add: plain_names_def spec_directory_def spec_reader_def find_partition_def empty_scan_def)

text \<open>One request.  Only the caches of nodes need plain names.\<close>

lemma perform_step:
  assumes D: "reliable_device D ok img" and ss: "coherent ok img im sr ss" and r: "plain_request r"
    and names: "uses_nodes r \<Longrightarrow> plain_names im sr"
  shows "fst (perform now D r ss) = fst (spec_perform im r sr) \<and>
    coherent ok img im (snd (spec_perform im r sr)) (snd (perform now D r ss))"
proof (cases r)
  case Scan_request
  with run_session_scan [OF D ss] show ?thesis by simp
next
  case (Browse_request pid path)
  with r ss answers_browse [OF D, of pid im sr now path ss] show ?thesis by (simp add: answers_def)
next
  case (Stat_request pid path)
  with r names ss answers_stat [OF D, of pid im sr now path ss] show ?thesis by (simp add: answers_def)
next
  case (Read_request pid path off n)
  with r names ss answers_read [OF D, of pid im sr now path off n ss] show ?thesis by (simp add: answers_def)
next
  case (Export_request host pid path dest)
  with run_session_export [OF D ss] show ?thesis by simp
next
  case Clear_request
  with ss show ?thesis by (simp add: coherent_clear)
next
  case Reset_request
  with ss show ?thesis by (simp add: coherent_reset)
qed

lemma spec_perform_scan: "snd (spec_perform im r sr) = sr \<or> snd (spec_perform im r sr) = spec_scan im"
  by (cases r) simp_all

lemma run_coherent:
  assumes D: "reliable_device D ok img" and "coherent ok img im sr ss"
    and "list_all plain_request rs"
    and "\<And>r. r \<in> set rs \<Longrightarrow> uses_nodes r \<Longrightarrow> plain_names im sr \<and> plain_names im (spec_scan im)"
  shows "fst (run_requests (\<lambda>ss r. perform now D r ss) rs ss) = fst (run_requests (\<lambda>sr r. spec_perform im r sr) rs sr) \<and>
    coherent ok img im (snd (run_requests (\<lambda>sr r. spec_perform im r sr) rs sr))
      (snd (run_requests (\<lambda>ss r. perform now D r ss) rs ss))"
  using assms(2-)
proof (induction rs arbitrary: sr ss)
  case (Cons r rs)
  obtain a y where a: "perform now D r ss = (a, y)" by fastforce
  obtain b sr' where b: "spec_perform im r sr = (b, sr')" by fastforce
  have names: "plain_names im sr" if "uses_nodes r"
    using Cons.prems(3) [of r] that by simp
  have step: "a = b \<and> coherent ok img im sr' y"
    using perform_step [OF D Cons.prems(1) _ names, where now = now and r = r] Cons.prems(2) by (simp add: a b)
  have "sr' = sr \<or> sr' = spec_scan im" using spec_perform_scan [of im r sr] by (simp add: b)
  then have "fst (run_requests (\<lambda>ss r. perform now D r ss) rs y) = fst (run_requests (\<lambda>sr r. spec_perform im r sr) rs sr') \<and>
      coherent ok img im (snd (run_requests (\<lambda>sr r. spec_perform im r sr) rs sr'))
        (snd (run_requests (\<lambda>ss r. perform now D r ss) rs y))"
    using step Cons.prems(2,3) by (intro Cons.IH) auto
  with step show ?case by (simp add: a b split_def Let_def)
qed simp

text \<open>C2: A drive session answers like the image behind its source.  Over a reliable source, take any sequence of
  scans, browses, stats, reads, exports, cache clears and counter resets on a freshly opened session in
  which the browses, stats and reads name partitions without byte 0x1F (the separator of the cache keys);
  if there are stats or reads among them, let no directory that can be browsed on the image have two
  entries of the same name or a name with a separator.  Then the session returns, answer by answer, what an
  abstract session returns whose only state is the result of the last scan and which computes every
  answer from the image: the read caches never show.  Without these conditions it can answer otherwise.\<close>

theorem session_refines_image:
  assumes "reliable_device D ok img" "ok s" "list_all plain_request rs"
    and "\<And>r. r \<in> set rs \<Longrightarrow> uses_nodes r \<Longrightarrow> plain_names (img s) (spec_scan (img s))"
  shows "fst (run_requests (\<lambda>ss r. perform now D r ss) rs (open_session s)) =
    fst (run_requests (\<lambda>sr r. spec_perform (img s) r sr) rs empty_scan)"
  using run_coherent [OF assms(1) coherent_open [of ok s img] assms(3), of now] assms(2,4) plain_names_empty by blast

section \<open>The caches stay bounded\<close>

definition caches_bounded :: "'s session \<Rightarrow> bool" where
  "caches_bounded ss \<longleftrightarrow>
     um_ok kMaxProbeCacheEntries (ss_probe_cache ss) \<and> um_ok kMaxBrowseCacheEntries (ss_browse_cache ss) \<and>
     um_ok kMaxStatCacheEntries (ss_stat_cache ss) \<and> um_ok kMaxNodeCacheEntries (ss_node_cache ss)"

definition keeps_bounds :: "'s session \<Rightarrow> 's session \<Rightarrow> bool" where
  "keeps_bounds x y \<longleftrightarrow> (caches_bounded x \<longrightarrow> caches_bounded y)"

interpretation bounds: effect_preorder keeps_bounds
  by unfold_locales (auto simp: keeps_bounds_def)

lemma bounds_modify: "(\<And>x. caches_bounded x \<Longrightarrow> caches_bounded (f x)) \<Longrightarrow> effect keeps_bounds (modify f)"
  by (simp add: effect_def keeps_bounds_def modify_def State_Monad.get_def State_Monad.set_def)

lemma bounds_on_stack: "effect keeps_bounds (on_stack m)"
  by (simp add: effect_def keeps_bounds_def on_stack_def caches_bounded_def split_def Let_def)

lemma bounds_count: "effect keeps_bounds (count f)"
  unfolding count_def by (rule bounds_modify) (simp add: caches_bounded_def)

lemma bounded_stores:
  "caches_bounded ss \<Longrightarrow> caches_bounded (store_probe k p ss)"
  "caches_bounded ss \<Longrightarrow> caches_bounded (store_browse k b ss)"
  "caches_bounded ss \<Longrightarrow> caches_bounded (store_stat k s ss)"
  "caches_bounded ss \<Longrightarrow> caches_bounded (store_node k nd ss)"
  by (auto simp: store_probe_def store_browse_def store_stat_def store_node_def split_def Let_def caches_bounded_def
      evicted_def um_ok_bounded_store cache_bounds)

lemma bounded_store_lists:
  "caches_bounded ss \<Longrightarrow> caches_bounded (store_nodes ns ss)"
  "caches_bounded ss \<Longrightarrow> caches_bounded (store_stats ns ss)"
  by (induction ns arbitrary: ss) (auto simp: store_nodes_def store_stats_def bounded_stores)

lemma bounds_timed: "effect keeps_bounds m \<Longrightarrow> effect keeps_bounds (timed now add m)"
  unfolding timed_def Let_def by (intro bounds.effect_intros bounds_count)

lemmas bounds_intros = bounds.effect_intros bounds_timed bounds_on_stack bounds_count

lemma bounds_open_partition: "effect keeps_bounds (open_partition now D pid)"
  unfolding open_partition_def probe_for_def Let_def
  by (intro bounds_intros bounds_modify bounded_stores)

lemma bounds_perform: "keeps_bounds ss (snd (perform now D r ss))"
proof -
  have ops: "effect keeps_bounds (session_scan now D)" "effect keeps_bounds (browse now D pid path)"
    "effect keeps_bounds (session_stat now D pid path)" "effect keeps_bounds (read_file now D pid path off n)"
    "effect keeps_bounds (session_export now D host pid path dest)" for pid path off n host dest
    unfolding session_scan_def browse_def session_stat_def read_file_def session_export_def cached_node_def
      pfs_op_def Let_def bindE_def split_def
    by (intro bounds_intros bounds_open_partition bounds_modify bounded_stores bounded_store_lists;
      simp add: caches_bounded_def clear_caches_def)+
  show ?thesis
    using ops by (cases r) (simp_all add: effect_def keeps_bounds_def caches_bounded_def clear_caches_def session_reset_stats_def)
qed

lemma bounds_run: "caches_bounded ss \<Longrightarrow> caches_bounded (snd (run_requests (\<lambda>ss r. perform now D r ss) rs ss))"
proof (induction rs arbitrary: ss)
  case (Cons r rs)
  then have "caches_bounded (snd (run_requests (\<lambda>ss r. perform now D r ss) rs (snd (perform now D r ss))))"
    using bounds_perform [of ss now D r] by (simp add: keeps_bounds_def)
  then show ?case by (simp add: split_def Let_def)
qed simp

text \<open>C32: The semantic caches never exceed their limits: after any sequence of requests on any device,
  reliable or not, the probe, browse, stat and node caches hold each key once and at most 256, 1024, 8192
  and 8192 entries.\<close>

theorem session_caches_bounded:
  "let ss = snd (run_requests (\<lambda>ss r. perform now D r ss) rs (open_session s)) in
   distinct (map fst (ss_probe_cache ss)) \<and> length (ss_probe_cache ss) \<le> 256 \<and>
   distinct (map fst (ss_browse_cache ss)) \<and> length (ss_browse_cache ss) \<le> 1024 \<and>
   distinct (map fst (ss_stat_cache ss)) \<and> length (ss_stat_cache ss) \<le> 8192 \<and>
   distinct (map fst (ss_node_cache ss)) \<and> length (ss_node_cache ss) \<le> 8192"
proof -
  have "caches_bounded (open_session s)" by (simp add: caches_bounded_def open_session_def um_ok_def)
  from bounds_run [OF this, of now D rs] show ?thesis
    unfolding caches_bounded_def um_ok_def cache_bounds Let_def by blast
qed

end
