(* ===== verification/MountSpec.thy ===== *)
theory MountSpec
  imports MountView SessionSpec
begin

text \<open>
  What the mounted view shows, computed from the image: lookups, listings and reads of a mounted session
  are those of the image, and a directory listing names exactly what can be looked up below it.
\<close>

section \<open>The view of an image\<close>

definition image_look :: "image \<Rightarrow> scan_result \<Rightarrow> string \<Rightarrow> string \<Rightarrow> (unit, browse_result) state" where
  "image_look im sr pid path = ret (spec_browse im sr pid path)"

lemma image_look_bind [simp]: "State_Monad.bind (image_look im sr pid path) f = f (spec_browse im sr pid path)"
  by (simp add: image_look_def)

definition spec_lookup_parts :: "image \<Rightarrow> scan_result \<Rightarrow> string list \<Rightarrow> mount_lookup_result" where
  "spec_lookup_parts im sr parts = evalS (lookup_parts (image_look im sr) sr parts) ()"

definition spec_mount_lookup :: "image \<Rightarrow> scan_result \<Rightarrow> string \<Rightarrow> mount_lookup_result" where
  "spec_mount_lookup im sr path = spec_lookup_parts im sr (path_components path)"

definition spec_mount_list :: "image \<Rightarrow> scan_result \<Rightarrow> string \<Rightarrow> mount_list_result" where
  "spec_mount_list im sr path = evalS (list_node (image_look im sr) sr (spec_mount_lookup im sr path)) ()"

definition spec_mount_read :: "image \<Rightarrow> scan_result \<Rightarrow> string \<Rightarrow> u64 \<Rightarrow> nat \<Rightarrow> mount_read_result" where
  "spec_mount_read im sr path offset n =
     (let node = spec_mount_lookup im sr path in
      if \<not> ml_ok node then \<lparr>mr_ok = False, mr_error = ml_error node, mr_bytes = []\<rparr>
      else if ml_kind node \<noteq> Pfs_file
      then \<lparr>mr_ok = False, mr_error = ''Mounted path is not a regular file'', mr_bytes = []\<rparr>
      else
        let r = spec_read im sr (ml_partition node) (ml_path node) offset n
        in \<lparr>mr_ok = rr_ok r, mr_error = rr_error r, mr_bytes = rr_bytes r\<rparr>)"

definition plain_partitions :: "scan_result \<Rightarrow> bool" where
  "plain_partitions sr \<longleftrightarrow> (\<forall>p \<in> set (partitions sr). \<not> is_sub p \<and> p_type p = kTypePfs \<longrightarrow> plain_id (p_id p))"

section \<open>A mounted session shows the image\<close>

lemma partition_aliases_backing:
  "a \<in> set (partition_aliases used ps) \<Longrightarrow> \<exists>p \<in> set ps. \<not> is_sub p \<and> p_type p = kTypePfs \<and> al_backing a = p_id p"
  by (induction ps arbitrary: used) (auto simp: Let_def split: if_splits)

lemma find_alias_mem: "find_alias as v = Some a \<Longrightarrow> a \<in> set as \<and> equal_windows_name (al_visible a) v"
  by (auto simp: find_alias_def find_Some_iff in_set_conv_nth)

lemma backing_plain:
  "plain_partitions sr \<Longrightarrow> find_alias (make_partition_aliases sr) v = Some a \<Longrightarrow> plain_id (al_backing a)"
  using partition_aliases_backing [of a "[]" "partitions sr"] find_alias_mem [of "make_partition_aliases sr" v a]
  by (auto simp: plain_partitions_def make_partition_aliases_def)

lemma answers_walk:
  assumes "\<And>path y. answers I (look (ml_partition r) path) (spec_browse im sr (ml_partition r) path) y"
  shows "answers I (mount_walk look r path parts) (evalS (mount_walk (image_look im sr) r path parts) ()) ss"
  using assms
proof (induction parts arbitrary: r path ss)
  case (Cons part parts)
  let ?b = "spec_browse im sr (ml_partition r) path"
  show ?case
    unfolding mount_walk.simps image_look_bind
  proof (rule answers_bind [OF Cons.prems])
    fix y assume "I y"
    show "answers I
      (if \<not> br_ok ?b then ret (r\<lparr>ml_error := br_error ?b\<rparr>)
       else case find_alias (make_entry_aliases (br_entries ?b)) part of
         None \<Rightarrow> ret (r\<lparr>ml_error := ''PFS path does not exist''\<rparr>)
       | Some entry \<Rightarrow>
           if parts \<noteq> [] \<and> al_kind entry \<noteq> Pfs_directory
           then ret (r\<lparr>ml_error := ''Mounted path traverses through a regular file''\<rparr>)
           else mount_walk look (if parts = [] then r\<lparr>ml_kind := al_kind entry, ml_size := al_size entry\<rparr> else r)
             (join_pfs_path path (al_backing entry)) parts)
      (evalS (if \<not> br_ok ?b then ret (r\<lparr>ml_error := br_error ?b\<rparr>)
       else case find_alias (make_entry_aliases (br_entries ?b)) part of
         None \<Rightarrow> ret (r\<lparr>ml_error := ''PFS path does not exist''\<rparr>)
       | Some entry \<Rightarrow>
           if parts \<noteq> [] \<and> al_kind entry \<noteq> Pfs_directory
           then ret (r\<lparr>ml_error := ''Mounted path traverses through a regular file''\<rparr>)
           else mount_walk (image_look im sr) (if parts = [] then r\<lparr>ml_kind := al_kind entry, ml_size := al_size entry\<rparr> else r)
             (join_pfs_path path (al_backing entry)) parts) ()) y"
      by (cases "find_alias (make_entry_aliases (br_entries ?b)) part")
        (auto intro: answers_ret Cons.IH Cons.prems)
  qed
qed (simp add: answers_ret)

lemma answers_lookup_parts:
  assumes "\<And>pid path y. plain_id pid \<Longrightarrow> answers I (look pid path) (spec_browse im sr pid path) y" "plain_partitions sr"
  shows "answers I (lookup_parts look sr parts) (spec_lookup_parts im sr parts) ss"
proof -
  have "answers I (mount_walk look (empty_lookup\<lparr>ml_partition := al_backing a, ml_kind := Pfs_directory\<rparr>) path ps)
      (evalS (mount_walk (image_look im sr) (empty_lookup\<lparr>ml_partition := al_backing a, ml_kind := Pfs_directory\<rparr>) path ps) ()) ss"
    if "find_alias (make_partition_aliases sr) v = Some a" for a v path ps
    using backing_plain [OF assms(2) that] assms(1) by (intro answers_walk) simp
  then show ?thesis
    by (auto simp: spec_lookup_parts_def lookup_parts_def Let_def answers_ret split: list.split option.split)
qed

lemma answers_mount_lookup:
  assumes D: "reliable_device D ok img" and plain: "plain_partitions sr"
  shows "answers (coherent ok img im sr) (mount_lookup now D path) (spec_mount_lookup im sr path) ss"
  unfolding mount_lookup_def spec_mount_lookup_def
proof (rule answers_get)
  assume "coherent ok img im sr ss"
  then have sr: "ss_scan ss = sr" by (simp add: coherent_def)
  show "answers (coherent ok img im sr) (lookup_parts (browse now D) (ss_scan ss) (path_components path))
      (spec_lookup_parts im sr (path_components path)) ss"
    unfolding sr by (rule answers_lookup_parts [OF answers_browse [OF D] plain])
qed

lemma lookup_parts_partition:
  "ml_kind (evalS (lookup_parts look sr parts) s) \<notin> {Root_node, Namespace_directory} \<Longrightarrow>
   \<exists>v a. find_alias (make_partition_aliases sr) v = Some a \<and> ml_partition (evalS (lookup_parts look sr parts) s) = al_backing a"
proof -
  have walk: "ml_partition (evalS (mount_walk look r path ps) s) = ml_partition r" for r path ps s
    by (induction ps arbitrary: r path s) (auto simp: evalS_def split: prod.splits option.splits)
  assume "ml_kind (evalS (lookup_parts look sr parts) s) \<notin> {Root_node, Namespace_directory}"
  then show ?thesis
    by (auto simp: lookup_parts_def empty_lookup_def Let_def walk split: list.splits option.splits if_splits)
qed

lemma lookup_plain:
  assumes "plain_partitions sr" "ml_kind (spec_mount_lookup im sr path) \<notin> {Root_node, Namespace_directory}"
  shows "plain_id (ml_partition (spec_mount_lookup im sr path))"
  using lookup_parts_partition [OF assms(2) [unfolded spec_mount_lookup_def spec_lookup_parts_def]]
    backing_plain [OF assms(1)]
  by (auto simp: spec_mount_lookup_def spec_lookup_parts_def)

lemma answers_mount_list:
  assumes D: "reliable_device D ok img" and plain: "plain_partitions sr"
  shows "answers (coherent ok img im sr) (mount_list now D path) (spec_mount_list im sr path) ss"
  unfolding mount_list_def
proof (rule answers_bind [OF answers_mount_lookup [OF D plain]], rule answers_get)
  fix y assume y: "coherent ok img im sr y"
  let ?node = "spec_mount_lookup im sr path" and ?I = "coherent ok img im sr"
  let ?b = "spec_browse im sr (ml_partition ?node) (ml_path ?node)"
  have sr: "ss_scan y = sr" using y by (simp add: coherent_def)
  have browse: "answers ?I (do {
        b \<leftarrow> browse now D (ml_partition ?node) (ml_path ?node);
        if \<not> br_ok b then ret \<lparr>mls_ok = False, mls_error = br_error b, mls_entries = []\<rparr>
        else ret (alias_listing (make_entry_aliases (br_entries b)))
      }) (if \<not> br_ok ?b then \<lparr>mls_ok = False, mls_error = br_error ?b, mls_entries = []\<rparr>
          else alias_listing (make_entry_aliases (br_entries ?b))) y"
    if "ml_kind ?node \<notin> {Root_node, Namespace_directory}"
    by (rule answers_bind [OF answers_browse [OF D lookup_plain [OF plain that]]]) (simp add: answers_ret)
  show "answers ?I (list_node (browse now D) (ss_scan y) ?node) (spec_mount_list im sr path) y"
  proof (cases "ml_kind ?node \<in> {Root_node, Namespace_directory}")
    case False
    with browse [OF this] show ?thesis
      by (simp add: sr spec_mount_list_def list_node_def answers_ret if_distrib [of "\<lambda>m. evalS m ()"] cong: if_cong)
  qed (auto simp: sr spec_mount_list_def list_node_def answers_ret)
qed

lemma answers_mount_read:
  assumes D: "reliable_device D ok img" and plain: "plain_partitions sr" and names: "plain_names im sr"
  shows "answers (coherent ok img im sr) (mount_read now D path off n) (spec_mount_read im sr path off n) ss"
  unfolding mount_read_def
proof (rule answers_bind [OF answers_mount_lookup [OF D plain]])
  fix y assume y: "coherent ok img im sr y"
  let ?node = "spec_mount_lookup im sr path" and ?I = "coherent ok img im sr"
  let ?r = "spec_read im sr (ml_partition ?node) (ml_path ?node) off n"
  have read: "answers ?I (do {
        r \<leftarrow> read_file now D (ml_partition ?node) (ml_path ?node) off n;
        ret \<lparr>mr_ok = rr_ok r, mr_error = rr_error r, mr_bytes = rr_bytes r\<rparr>
      }) \<lparr>mr_ok = rr_ok ?r, mr_error = rr_error ?r, mr_bytes = rr_bytes ?r\<rparr> y"
    if "ml_kind ?node = Pfs_file"
    using that by (intro answers_bind [OF answers_read [OF D _ names]] lookup_plain [OF plain] answers_ret) simp
  show "answers ?I
      (if \<not> ml_ok ?node then ret \<lparr>mr_ok = False, mr_error = ml_error ?node, mr_bytes = []\<rparr>
       else if ml_kind ?node \<noteq> Pfs_file
       then ret \<lparr>mr_ok = False, mr_error = ''Mounted path is not a regular file'', mr_bytes = []\<rparr>
       else do {
         r \<leftarrow> read_file now D (ml_partition ?node) (ml_path ?node) off n;
         ret \<lparr>mr_ok = rr_ok r, mr_error = rr_error r, mr_bytes = rr_bytes r\<rparr>
       }) (spec_mount_read im sr path off n) y"
    using read by (simp add: spec_mount_read_def Let_def answers_ret)
qed

text \<open>C4: The mounted view refines the view of the image.  Over a reliable device, when no partition name
  contains byte 0x1F, and from any state of the session whose caches agree with the image, a lookup and a
  listing answer what is computed from the image and the scan alone and leave the caches in agreement; so
  does a read, when moreover no directory of the image has a duplicate name or a name with a separator.\<close>

theorem mount_refines_image:
  assumes "reliable_device D ok img" "coherent ok img im sr ss" "plain_partitions sr"
  shows "fst (run_state (mount_lookup now D path) ss) = spec_mount_lookup im sr path \<and>
    coherent ok img im sr (snd (run_state (mount_lookup now D path) ss)) \<and>
    fst (run_state (mount_list now D path) ss) = spec_mount_list im sr path \<and>
    coherent ok img im sr (snd (run_state (mount_list now D path) ss)) \<and>
    (plain_names im sr \<longrightarrow>
      fst (run_state (mount_read now D path off n) ss) = spec_mount_read im sr path off n \<and>
      coherent ok img im sr (snd (run_state (mount_read now D path off n) ss)))"
  using answers_mount_lookup [OF assms(1,3), of im now path ss] answers_mount_list [OF assms(1,3), of im now path ss]
    answers_mount_read [OF assms(1,3), of im now path off n ss] assms(2)
  by (simp add: answers_def)

section \<open>A listing names what can be looked up\<close>

text \<open>What the last component adds to the directory \<open>n\<close> it is looked up in.\<close>

definition found_below :: "image \<Rightarrow> scan_result \<Rightarrow> mount_lookup_result \<Rightarrow> string \<Rightarrow> mount_kind \<Rightarrow> u64 \<Rightarrow> bool" where
  "found_below im sr n c k z \<longleftrightarrow>
     ml_ok n \<and> ml_kind n = Pfs_directory \<and> br_ok (spec_browse im sr (ml_partition n) (ml_path n)) \<and>
     (\<exists>e. find_alias (make_entry_aliases (br_entries (spec_browse im sr (ml_partition n) (ml_path n)))) c = Some e \<and>
       al_kind e = k \<and> al_size e = z)"

lemma walk_snoc:
  assumes "\<not> ml_ok r" "ml_kind r = Pfs_directory"
  shows "(let n = evalS (mount_walk (image_look im sr) r path (ps @ [c])) () in ml_ok n \<and> ml_kind n = k \<and> ml_size n = z) \<longleftrightarrow>
    found_below im sr (evalS (mount_walk (image_look im sr) r path ps) ()) c k z"
proof (induction ps arbitrary: path)
  case Nil
  show ?case
    using assms by (auto simp: found_below_def Let_def split: option.splits)
next
  case (Cons p ps)
  let ?b = "spec_browse im sr (ml_partition r) path"
  show ?case
  proof (cases "br_ok ?b")
    case False
    with assms show ?thesis by (simp add: found_below_def)
  next
    case True
    show ?thesis
    proof (cases "find_alias (make_entry_aliases (br_entries ?b)) p")
      case None
      with True assms show ?thesis by (simp add: found_below_def)
    next
      case (Some e)
      with True assms Cons.IH [of "join_pfs_path path (al_backing e)"] show ?thesis
        by (cases "ps = []") (auto simp: found_below_def Let_def split: option.splits)
    qed
  qed
qed

lemma entry_aliases_spec:
  "(\<forall>a \<in> set (entry_aliases used es). host_safe (al_visible a) \<and> uppercase_ascii (al_visible a) \<notin> set used) \<and>
   distinct (map (uppercase_ascii \<circ> al_visible) (entry_aliases used es))"
proof (induction es arbitrary: used)
  case (Cons e es)
  let ?v = "pick_alias used (se_name e)"
  show ?case
    using Cons.IH [of used] Cons.IH [of "uppercase_ascii ?v # used"] pick_alias_safe [of used "se_name e"]
      pick_alias_fresh [of used "se_name e"]
    by (auto simp: Let_def)
qed simp

lemma partition_aliases_spec:
  "(\<forall>a \<in> set (partition_aliases used ps). host_safe (al_visible a) \<and> uppercase_ascii (al_visible a) \<notin> set used \<and>
      al_kind a = Pfs_directory \<and> al_size a = 0) \<and>
   distinct (map (uppercase_ascii \<circ> al_visible) (partition_aliases used ps))"
proof (induction ps arbitrary: used)
  case (Cons p ps)
  let ?v = "pick_alias used (p_id p)"
  show ?case
    using Cons.IH [of used] Cons.IH [of "uppercase_ascii ?v # used"] pick_alias_safe [of used "p_id p"]
      pick_alias_fresh [of used "p_id p"]
    by (auto simp: Let_def)
qed simp

lemma find_alias_iff:
  assumes "distinct (map (uppercase_ascii \<circ> al_visible) as)"
  shows "find_alias as v = Some a \<longleftrightarrow> a \<in> set as \<and> equal_windows_name (al_visible a) v"
  using assms by (induction as) (force simp: find_alias_def equal_windows_name_def)+

lemmas entry_alias_found = find_alias_iff [OF entry_aliases_spec [THEN conjunct2]]
lemmas partition_alias_found = find_alias_iff [OF partition_aliases_spec [THEN conjunct2]]

lemma safe_not_forbidden:
  assumes "host_safe v" "equal_windows_name v c"
  shows "\<not> forbidden_component c"
proof -
  have "\<not> forbidden_component v" using assms(1) by (auto simp: host_safe_def forbidden_component_def bad_tail_def)
  with forbidden_upper [of v c] assms(2) show ?thesis by (simp add: equal_windows_name_def)
qed

lemma entry_alias_kind: "a \<in> set (make_entry_aliases es) \<Longrightarrow> al_kind a \<in> {Pfs_directory, Pfs_file}"
proof -
  have "a \<in> set (entry_aliases used es) \<Longrightarrow> al_kind a \<in> {Pfs_directory, Pfs_file}" for used
    by (induction es arbitrary: used) (auto simp: Let_def split: if_splits)
  then show "a \<in> set (make_entry_aliases es) \<Longrightarrow> al_kind a \<in> {Pfs_directory, Pfs_file}"
    by (simp add: make_entry_aliases_def)
qed

lemma walk_kind:
  "ml_kind r \<in> {Pfs_directory, Pfs_file} \<Longrightarrow>
   ml_kind (evalS (mount_walk (image_look im sr) r path ps) ()) \<in> {Pfs_directory, Pfs_file}"
proof (induction ps arbitrary: r path)
  case (Cons p ps)
  let ?as = "make_entry_aliases (br_entries (spec_browse im sr (ml_partition r) path))"
  show ?case
  proof (cases "find_alias ?as p")
    case (Some e)
    with entry_alias_kind find_alias_mem have "al_kind e \<in> {Pfs_directory, Pfs_file}" by blast
    with Some Cons show ?thesis by simp
  qed (use Cons.prems in simp)
qed simp

lemma list_entries:
  "(\<exists>e \<in> set (mls_entries (alias_listing as)). equal_windows_name (me_name e) c \<and> me_kind e = k \<and> me_size e = z) \<longleftrightarrow>
   (\<exists>a \<in> set as. equal_windows_name (al_visible a) c \<and> al_kind a = k \<and> al_size a = z)"
  by (auto simp: alias_listing_def)

text \<open>The directory of a partition or below it.\<close>

lemma list_node_found:
  assumes "ml_kind n \<in> {Pfs_directory, Pfs_file}"
  shows "(let l = evalS (list_node (image_look im sr) sr n) () in
      mls_ok l \<and> (\<exists>e \<in> set (mls_entries l). equal_windows_name (me_name e) c \<and> me_kind e = k \<and> me_size e = z)) \<longleftrightarrow>
    found_below im sr n c k z"
proof -
  let ?b = "spec_browse im sr (ml_partition n) (ml_path n)"
  have "evalS (list_node (image_look im sr) sr n) () =
      (if \<not> ml_ok n then \<lparr>mls_ok = False, mls_error = ml_error n, mls_entries = []\<rparr>
       else if ml_kind n = Pfs_file then \<lparr>mls_ok = False, mls_error = ''Mounted path is not a directory'', mls_entries = []\<rparr>
       else if \<not> br_ok ?b then \<lparr>mls_ok = False, mls_error = br_error ?b, mls_entries = []\<rparr>
       else alias_listing (make_entry_aliases (br_entries ?b)))"
    using assms by (auto simp: list_node_def ml_is_directory_def)
  moreover have "mls_ok (alias_listing as)" for as by (simp add: alias_listing_def)
  ultimately show ?thesis
    using assms
    by (auto simp: Let_def found_below_def list_entries make_entry_aliases_def entry_alias_found)
qed

lemma alias_not_forbidden:
  "find_alias (make_partition_aliases sr) c = Some a \<Longrightarrow> \<not> forbidden_component c"
  "find_alias (make_entry_aliases es) c = Some a \<Longrightarrow> \<not> forbidden_component c"
  using partition_aliases_spec [of "[]" "partitions sr"] entry_aliases_spec [of "[]" es]
  by (auto simp: make_partition_aliases_def make_entry_aliases_def partition_alias_found entry_alias_found
      dest: safe_not_forbidden)

lemma found_not_forbidden: "found_below im sr n c k z \<Longrightarrow> \<not> forbidden_component c"
  unfolding found_below_def using alias_not_forbidden(2) by blast

lemma parts_below:
  assumes "list_all (\<lambda>p. \<not> forbidden_component p) (x # y # zs)" "equal_windows_name x ''Partitions''"
    and "find_alias (make_partition_aliases sr) y = Some a"
  shows "spec_lookup_parts im sr (x # y # zs) =
    evalS (mount_walk (image_look im sr) (empty_lookup\<lparr>ml_partition := al_backing a, ml_kind := Pfs_directory\<rparr>) '''' zs) ()"
proof -
  have "\<not> list_ex forbidden_component (x # y # zs)"
    using assms(1) by (auto simp: list_all_iff list_ex_iff)
  with assms(2,3) show ?thesis
    by (cases zs) (simp_all add: spec_lookup_parts_def lookup_parts_def Let_def empty_lookup_def)
qed

lemma parts_fail:
  assumes "list_ex forbidden_component ps \<or> ps \<noteq> [] \<and> \<not> equal_windows_name (hd ps) ''Partitions'' \<or>
    Suc 0 < length ps \<and> find_alias (make_partition_aliases sr) (ps ! 1) = None"
  shows "\<not> ml_ok (spec_lookup_parts im sr ps)"
  using assms
  by (auto simp: spec_lookup_parts_def lookup_parts_def empty_lookup_def split: list.splits)

text \<open>A lookup that found a node of kind \<open>k\<close> and size \<open>z\<close>, and a listing that has such an entry for the
  name \<open>c\<close>.\<close>

definition found_as :: "mount_lookup_result \<Rightarrow> mount_kind \<Rightarrow> u64 \<Rightarrow> bool" where
  "found_as r k z \<longleftrightarrow> ml_ok r \<and> ml_kind r = k \<and> ml_size r = z"

definition listed_as :: "mount_list_result \<Rightarrow> string \<Rightarrow> mount_kind \<Rightarrow> u64 \<Rightarrow> bool" where
  "listed_as l c k z \<longleftrightarrow>
     mls_ok l \<and> (\<exists>e \<in> set (mls_entries l). equal_windows_name (me_name e) c \<and> me_kind e = k \<and> me_size e = z)"

definition spec_list_parts :: "image \<Rightarrow> scan_result \<Rightarrow> string list \<Rightarrow> mount_list_result" where
  "spec_list_parts im sr ps = evalS (list_node (image_look im sr) sr (spec_lookup_parts im sr ps)) ()"

lemma listing_fails:
  assumes "list_ex forbidden_component ps \<or> ps \<noteq> [] \<and> \<not> equal_windows_name (hd ps) ''Partitions'' \<or>
    Suc 0 < length ps \<and> find_alias (make_partition_aliases sr) (ps ! 1) = None"
  shows "\<not> found_as (spec_lookup_parts im sr (ps @ [c])) k z \<and> \<not> listed_as (spec_list_parts im sr ps) c k z"
proof
  have "list_ex forbidden_component (ps @ [c]) \<or> ps @ [c] \<noteq> [] \<and> \<not> equal_windows_name (hd (ps @ [c])) ''Partitions'' \<or>
      Suc 0 < length (ps @ [c]) \<and> find_alias (make_partition_aliases sr) ((ps @ [c]) ! 1) = None"
    using assms by (auto simp: nth_append)
  from parts_fail [OF this, of im] show "\<not> found_as (spec_lookup_parts im sr (ps @ [c])) k z"
    by (simp add: found_as_def)
  show "\<not> listed_as (spec_list_parts im sr ps) c k z"
    using parts_fail [OF assms, of im] by (simp add: listed_as_def spec_list_parts_def list_node_def)
qed

lemma listing_root: "found_as (spec_lookup_parts im sr [c]) k z = listed_as (spec_list_parts im sr []) c k z"
proof -
  have "host_safe ''Partitions''" by code_simp
  then have "\<not> forbidden_component c" if "equal_windows_name ''Partitions'' c"
    using that by (rule safe_not_forbidden)
  then show ?thesis
    by (auto simp: found_as_def listed_as_def spec_list_parts_def spec_lookup_parts_def lookup_parts_def list_node_def
        ml_is_directory_def empty_lookup_def equal_windows_name_def)
qed

lemma listing_partitions:
  assumes "\<not> forbidden_component x" "equal_windows_name x ''Partitions''"
  shows "found_as (spec_lookup_parts im sr [x, c]) k z = listed_as (spec_list_parts im sr [x]) c k z"
proof -
  have "spec_lookup_parts im sr [x] = empty_lookup\<lparr>ml_ok := True, ml_kind := Namespace_directory\<rparr>"
    using assms by (simp add: spec_lookup_parts_def lookup_parts_def)
  then have listed: "listed_as (spec_list_parts im sr [x]) c k z \<longleftrightarrow>
      k = Pfs_directory \<and> z = 0 \<and> (\<exists>a. find_alias (make_partition_aliases sr) c = Some a)"
    using partition_aliases_spec [of "[]" "partitions sr"]
    by (auto simp: listed_as_def spec_list_parts_def list_node_def ml_is_directory_def make_partition_aliases_def
        partition_alias_found alias_listing_def)
  show ?thesis
  proof (cases "find_alias (make_partition_aliases sr) c")
    case None
    with listed parts_fail [of "[x, c]" sr im] show ?thesis by (simp add: found_as_def)
  next
    case (Some a)
    have "spec_lookup_parts im sr [x, c] =
        empty_lookup\<lparr>ml_partition := al_backing a, ml_kind := Pfs_directory, ml_ok := True\<rparr>"
      using parts_below [of x c "[]" sr a im] assms alias_not_forbidden(1) [OF Some] Some by (simp add: empty_lookup_def)
    with listed Some show ?thesis by (auto simp: found_as_def empty_lookup_def)
  qed
qed

lemma listing_inside:
  assumes "list_all (\<lambda>p. \<not> forbidden_component p) (x # y # zs)" "equal_windows_name x ''Partitions''"
    and "find_alias (make_partition_aliases sr) y = Some a"
  shows "found_as (spec_lookup_parts im sr (x # y # zs @ [c])) k z = listed_as (spec_list_parts im sr (x # y # zs)) c k z"
proof -
  let ?r = "empty_lookup\<lparr>ml_partition := al_backing a, ml_kind := Pfs_directory\<rparr>"
  note n = parts_below [OF assms, of im]
  have listed: "listed_as (spec_list_parts im sr (x # y # zs)) c k z \<longleftrightarrow>
      found_below im sr (spec_lookup_parts im sr (x # y # zs)) c k z"
    using list_node_found [of "spec_lookup_parts im sr (x # y # zs)" im sr c k z] walk_kind [of ?r im sr "''''" zs]
    by (simp add: n listed_as_def spec_list_parts_def Let_def)
  show ?thesis
  proof (cases "forbidden_component c")
    case True
    with listed found_not_forbidden parts_fail [of "x # y # zs @ [c]" sr im] show ?thesis
      by (auto simp: found_as_def)
  next
    case False
    then have "list_all (\<lambda>p. \<not> forbidden_component p) (x # y # zs @ [c])" using assms(1) by simp
    from parts_below [OF this assms(2,3), of im] walk_snoc [of ?r im sr "''''" zs c k z] listed show ?thesis
      by (simp add: n found_as_def Let_def empty_lookup_def)
  qed
qed

lemma listing_parts: "found_as (spec_lookup_parts im sr (ps @ [c])) k z = listed_as (spec_list_parts im sr ps) c k z"
proof (cases "list_ex forbidden_component ps \<or> ps \<noteq> [] \<and> \<not> equal_windows_name (hd ps) ''Partitions'' \<or>
    Suc 0 < length ps \<and> find_alias (make_partition_aliases sr) (ps ! 1) = None")
  case True
  from listing_fails [OF this, of im c k z] show ?thesis by blast
next
  case False
  then have all: "list_all (\<lambda>p. \<not> forbidden_component p) ps" by (auto simp: list_all_iff list_ex_iff)
  consider "ps = []" | x where "ps = [x]" | x y zs where "ps = x # y # zs" by (metis list.exhaust)
  then show ?thesis
  proof cases
    case (3 x y zs)
    with False obtain a where "find_alias (make_partition_aliases sr) y = Some a" by auto
    with listing_inside [of x y zs sr a im c k z] all False 3 show ?thesis by simp
  qed (use False listing_root listing_partitions in auto)
qed

text \<open>C3: A mounted directory lists exactly what can be looked up in it: for every name \<open>c\<close> without a
  separator, \<open>path/c\<close> is found with a kind and a size if and only if the listing of \<open>path\<close> succeeds and
  has an entry of that kind and size whose name is \<open>c\<close> up to ASCII case.  This includes the root, the
  directory of partitions and failing paths, and hostile names in PFS directories.\<close>

theorem mount_listing_lookup:
  assumes "c \<noteq> []" "\<forall>x \<in> set c. \<not> is_separator x"
  shows "found_as (spec_mount_lookup im sr (path @ ''/'' @ c)) k z \<longleftrightarrow> listed_as (spec_mount_list im sr path) c k z"
  using path_components_append [of "CHR ''/''" path c] components_word [OF assms]
    listing_parts [of im sr "path_components path" c k z]
  by (simp add: spec_mount_lookup_def spec_mount_list_def spec_list_parts_def is_separator_def)

lemma alias_listing_names:
  "list_all host_safe (map me_name (mls_entries (alias_listing (make_entry_aliases es)))) \<and>
   distinct (map (\<lambda>e. uppercase_ascii (me_name e)) (mls_entries (alias_listing (make_entry_aliases es))))"
  "list_all host_safe (map me_name (mls_entries (alias_listing (map (\<lambda>a. a\<lparr>al_size := 0\<rparr>) (make_partition_aliases sr))))) \<and>
   distinct (map (\<lambda>e. uppercase_ascii (me_name e)) (mls_entries (alias_listing (map (\<lambda>a. a\<lparr>al_size := 0\<rparr>) (make_partition_aliases sr)))))"
  using entry_aliases_spec [of "[]" es] partition_aliases_spec [of "[]" "partitions sr"]
  by (simp_all add: alias_listing_def make_entry_aliases_def make_partition_aliases_def list_all_iff o_def)

text \<open>The names of any listing the mount hands to the driver are host-safe and pairwise different
  without regard to case, over any device, in any state of the session and whatever names the disk
  holds.\<close>

theorem mount_listing_names:
  "let es = mls_entries (fst (run_state (mount_list now D path) ss)) in
   list_all host_safe (map me_name es) \<and> distinct (map (\<lambda>e. uppercase_ascii (me_name e)) es)"
proof -
  have safe: "host_safe ''Partitions''" by code_simp
  have "list_all host_safe (map me_name (mls_entries (fst (run_state (list_node look sr node) y)))) \<and>
      distinct (map (\<lambda>e. uppercase_ascii (me_name e)) (mls_entries (fst (run_state (list_node look sr node) y))))"
    for look sr node and y :: "'a session"
    unfolding list_node_def using safe alias_listing_names by (auto split: prod.splits)
  then show ?thesis by (auto simp: mount_list_def State_Monad.get_def Let_def split: prod.splits)
qed

end
