(* ===== verification/DokanySpec.thy ===== *)
theory DokanySpec
  imports Dokany MountSpec
begin

text \<open>
  What a program sees through the Dokany mount of a reliable source: the files a directory search names
  can be opened under those names and have the sizes it showed, except for names whose bytes are not
  UTF-8.
\<close>

text \<open>What is documented of the strict conversions: converting back gives the string, a string without
  the terminator has no terminator, and a separator between two valid parts converts on its own.\<close>

definition faithful_utf8 :: "windows \<Rightarrow> bool" where
  "faithful_utf8 W \<longleftrightarrow>
     (\<forall>s w. s \<noteq> [] \<longrightarrow> win_to_wide W s = Some w \<longrightarrow> w \<noteq> [] \<and> win_to_utf8 W w = Some s) \<and>
     (\<forall>s w. CHR 0x00 \<notin> set s \<longrightarrow> win_to_wide W s = Some w \<longrightarrow> 0 \<notin> set w) \<and>
     (\<forall>p q s t. p \<noteq> [] \<longrightarrow> q \<noteq> [] \<longrightarrow> win_to_utf8 W p = Some s \<longrightarrow> win_to_utf8 W q = Some t \<longrightarrow>
        win_to_utf8 W (p @ [backslash] @ q) = Some (s @ CHR 0x5C # t))"

text \<open>The path of an entry in a searched directory.\<close>

definition below :: "wide \<Rightarrow> wide \<Rightarrow> wide" where
  "below p name = p @ [backslash] @ name"

lemma deliver_all: "deliver (\<lambda>_. False) sent ds = sent @ ds"
  by (induction ds arbitrary: sent) simp_all

lemma lookup_below:
  assumes "c \<noteq> []" "\<forall>x \<in> set c. \<not> is_separator x"
  shows "spec_mount_lookup im sr (path @ CHR 0x5C # c) = spec_lookup_parts im sr (path_components path @ [c])"
proof -
  have "is_separator CHR 0x5C" by (simp add: is_separator_def)
  from path_components_append [OF this, of path c] components_word [OF assms]
  have "path_components (path @ CHR 0x5C # c) = path_components path @ [c]" by (simp only:)
  then show ?thesis by (simp only: spec_mount_lookup_def)
qed

lemma host_safe_chars:
  assumes "host_safe v"
  shows "v \<noteq> []" "\<forall>x \<in> set v. \<not> is_separator x" "CHR 0x00 \<notin> set v"
proof -
  have "forbidden_char (CHR 0x00)" by code_simp
  moreover have "is_separator x \<Longrightarrow> forbidden_char x" for x
    unfolding is_separator_def forbidden_char_def by blast
  ultimately show "v \<noteq> []" "\<forall>x \<in> set v. \<not> is_separator x" "CHR 0x00 \<notin> set v"
    using assms unfolding host_safe_def by blast+
qed

text \<open>The names of every listing of the view of an image are safe.\<close>

lemma spec_listing_names: "e \<in> set (mls_entries (spec_mount_list im sr path)) \<Longrightarrow> host_safe (me_name e)"
proof -
  have "host_safe ''Partitions''" by code_simp
  then show "e \<in> set (mls_entries (spec_mount_list im sr path)) \<Longrightarrow> host_safe (me_name e)"
    unfolding spec_mount_list_def list_node_def
    using entry_aliases_spec [of "[]"] partition_aliases_spec [of "[]" "partitions sr"]
    by (auto simp: alias_listing_def make_entry_aliases_def make_partition_aliases_def split: if_splits)
qed

text \<open>The answers of the callbacks that look up one path, in a session that agrees with the image.\<close>

lemma create_file_answer:
  assumes D: "reliable_device D ok img" "coherent ok img im sr ss" "plain_partitions sr"
    and path: "wide_to_utf8 W name = Some path"
  shows "fst (run_state (create_file W now D name access disposition options) (Some ss)) =
    (let node = spec_mount_lookup im sr path;
         status = map_open_status (evaluate_open (open_request_of W node access disposition options))
     in if status \<noteq> STATUS_SUCCESS then (status, None) else (STATUS_SUCCESS, Some (ml_is_directory node)))"
  using answers_mount_lookup [OF D(1,3), of im now path ss] D(2)
  by (auto simp: answers_def create_file_def path run_on_runtime Let_def split: prod.splits)

lemma file_information_answer:
  assumes D: "reliable_device D ok img" "coherent ok img im sr ss" "plain_partitions sr"
    and path: "wide_to_utf8 W name = Some path"
  shows "fst (run_state (get_file_information W now D name True) (Some ss)) =
    (let node = spec_mount_lookup im sr path
     in if \<not> ml_ok node then (STATUS_OBJECT_NAME_NOT_FOUND, None)
        else (STATUS_SUCCESS, Some
          \<lparr>fi_attributes = file_attributes W (ml_is_directory node), fi_links = 1,
           fi_size_high = ucast (drop_bit 32 (ml_size node)), fi_size_low = ucast (ml_size node AND 0xFFFFFFFF)\<rparr>))"
  using answers_mount_lookup [OF D(1,3), of im now path ss] D(2)
  by (auto simp: answers_def get_file_information_def path run_on_runtime Let_def split: prod.splits)

lemma find_files_answer:
  assumes D: "reliable_device D ok img" "coherent ok img im sr ss" "plain_partitions sr"
    and path: "wide_to_utf8 W name = Some path"
    and run: "run_state (find_files W now D name (Some full)) (Some ss) = ((status, ds), r)"
  shows "(status, ds) = (let l = spec_mount_list im sr path in
      if \<not> mls_ok l then (if ml_ok (spec_mount_lookup im sr path) then STATUS_NOT_A_DIRECTORY else STATUS_OBJECT_PATH_NOT_FOUND, [])
      else (STATUS_SUCCESS, deliver full [] (map (fill_find_data W) (mls_entries l))))"
    and "\<exists>ss'. r = Some ss' \<and> coherent ok img im sr ss'"
proof -
  let ?l = "spec_mount_list im sr path"
  have "answers (coherent ok img im sr) (do {
      r \<leftarrow> mount_list now D path;
      if \<not> mls_ok r then do {
        node \<leftarrow> mount_lookup now D path;
        ret (if ml_ok node then STATUS_NOT_A_DIRECTORY else STATUS_OBJECT_PATH_NOT_FOUND, [])
      }
      else ret (STATUS_SUCCESS, deliver full [] (map (fill_find_data W) (mls_entries r)))
    }) (if \<not> mls_ok ?l then (if ml_ok (spec_mount_lookup im sr path) then STATUS_NOT_A_DIRECTORY else STATUS_OBJECT_PATH_NOT_FOUND, [])
      else (STATUS_SUCCESS, deliver full [] (map (fill_find_data W) (mls_entries ?l)))) ss"
    by (rule answers_bind [OF answers_mount_list [OF D(1,3)]])
      (cases "mls_ok ?l"; simp add: answers_ret answers_bind [OF answers_mount_lookup [OF D(1,3)]])
  then show "(status, ds) = (let l = spec_mount_list im sr path in
      if \<not> mls_ok l then (if ml_ok (spec_mount_lookup im sr path) then STATUS_NOT_A_DIRECTORY else STATUS_OBJECT_PATH_NOT_FOUND, [])
      else (STATUS_SUCCESS, deliver full [] (map (fill_find_data W) (mls_entries l))))"
    and "\<exists>ss'. r = Some ss' \<and> coherent ok img im sr ss'"
    using D(2) run by (auto simp: answers_def find_files_def path run_on_runtime Let_def split: prod.splits)
qed

section \<open>Listed files open\<close>

lemma listed_lookup:
  assumes "mls_ok (spec_mount_list im sr path)" "e \<in> set (mls_entries (spec_mount_list im sr path))"
  shows "found_as (spec_mount_lookup im sr (path @ CHR 0x5C # me_name e)) (me_kind e) (me_size e)"
proof -
  note safe = host_safe_chars(1,2) [OF spec_listing_names [OF assms(2)]]
  have "listed_as (spec_list_parts im sr (path_components path)) (me_name e) (me_kind e) (me_size e)"
    using assms by (auto simp: listed_as_def spec_list_parts_def spec_mount_list_def spec_mount_lookup_def equal_windows_name_def)
  then show ?thesis unfolding lookup_below [OF safe] listing_parts .
qed

text \<open>C18: What a directory search shows can be opened: when \<open>FindFiles\<close> on a directory of a reliable source
  succeeds, every entry whose name is valid UTF-8 and fits the name buffer can be opened for reading under the name
  that was shown, is reported as a directory exactly when the search said so, and
  \<open>GetFileInformation\<close> gives the attributes and the size the search showed.\<close>

theorem listed_files_open:
  assumes "reliable_device D ok img" "coherent ok img im sr ss" "plain_partitions sr" "faithful_utf8 W"
    and "dir \<noteq> []" "win_to_utf8 W dir = Some path"
    and "run_state (find_files W now D (Some dir) (Some (\<lambda>_. False))) (Some ss) = ((STATUS_SUCCESS, ds), r)"
    and "e \<in> set (mls_entries (spec_mount_list im sr path))"
    and "win_to_wide W (me_name e) = Some w" "length w < win_name_capacity W"
  shows "fill_find_data W e \<in> set ds \<and> fd_name (fill_find_data W e) = w \<and>
    (\<forall>access. (\<forall>b \<in> write_bits. \<not> bit access b) \<longrightarrow>
      fst (run_state (create_file W now D (Some (below dir w)) access 1 0) r) =
        (STATUS_SUCCESS, Some (me_is_directory e))) \<and>
    fst (run_state (get_file_information W now D (Some (below dir w)) True) r) =
      (STATUS_SUCCESS, Some
        \<lparr>fi_attributes = fd_attributes (fill_find_data W e), fi_links = 1,
         fi_size_high = fd_size_high (fill_find_data W e), fi_size_low = fd_size_low (fill_find_data W e)\<rparr>)"
proof -
  let ?l = "spec_mount_list im sr path" and ?p = "path @ CHR 0x5C # me_name e"
  have dir: "wide_to_utf8 W (Some dir) = Some path" using assms(5,6) by (simp add: wide_to_utf8_def)
  note found = find_files_answer [OF assms(1-3) dir assms(7)]
  have ok: "mls_ok ?l" and ds: "ds = map (fill_find_data W) (mls_entries ?l)"
    using found(1) by (auto simp: Let_def deliver_all split: if_splits)
  obtain ss' where r: "r = Some ss'" and ss': "coherent ok img im sr ss'" using found(2) by blast
  note safe = host_safe_chars [OF spec_listing_names [OF assms(8)]]
  have w: "w \<noteq> []" "win_to_utf8 W w = Some (me_name e)" "0 \<notin> set w"
    using assms(4,9) safe(1,3) unfolding faithful_utf8_def by blast+
  have "win_to_utf8 W (below dir w) = Some ?p"
    using assms(4,5,6) w(1,2) unfolding faithful_utf8_def below_def by blast
  then have path: "wide_to_utf8 W (Some (below dir w)) = Some ?p" by (simp add: wide_to_utf8_def below_def)
  have node: "found_as (spec_mount_lookup im sr ?p) (me_kind e) (me_size e)"
    by (rule listed_lookup [OF ok assms(8)])
  have all: "takeWhile (\<lambda>c. c \<noteq> 0) w = w" using w(3) by (auto simp: takeWhile_eq_all_conv)
  have name: "fd_name (fill_find_data W e) = w"
    using assms(9,10) safe(1) by (simp add: fill_find_data_def truncated_copy_def utf8_to_wide_def all)
  have "evaluate_open (open_request_of W (spec_mount_lookup im sr ?p) access 1 0) = Open_success"
    if "\<forall>b \<in> write_bits. \<not> bit access b" for access
    using that node write_access_iff [of access] by (simp add: open_success_iff open_request_of_def found_as_def)
  then have "fst (run_state (create_file W now D (Some (below dir w)) access 1 0) r) = (STATUS_SUCCESS, Some (me_is_directory e))"
    if "\<forall>b \<in> write_bits. \<not> bit access b" for access
    using that node
    by (simp add: r create_file_answer [OF assms(1) ss' assms(3) path] found_as_def ml_is_directory_def me_is_directory_def)
  moreover have "fst (run_state (get_file_information W now D (Some (below dir w)) True) r) =
      (STATUS_SUCCESS, Some
        \<lparr>fi_attributes = fd_attributes (fill_find_data W e), fi_links = 1,
         fi_size_high = fd_size_high (fill_find_data W e), fi_size_low = fd_size_low (fill_find_data W e)\<rparr>)"
    using node
    by (simp add: r file_information_answer [OF assms(1) ss' assms(3) path] found_as_def ml_is_directory_def me_is_directory_def
        fill_find_data_def)
  ultimately show ?thesis using name assms(8) by (simp add: ds)
qed

end
