(* ===== verification/DokanyController.thy ===== *)
theory DokanyController
  imports DokanySpec
begin

text \<open>
  \<open>DokanyMountController\<close> (\<open>src/mount/dokany_controller.cpp\<close>): a mount that runs on a worker thread.  The
  owner starts, polls and waits; the worker runs Dokany, whose callbacks work on the session, and then
  publishes its result in four separate stores.  The controller is a step relation over both.
\<close>

section \<open>State\<close>

record 's mount_runtime =
  rt_session :: "'s session"
  rt_mount_point :: wide

text \<open>Where the worker is: inside \<open>DokanMain\<close>, or after it returned a result and before its next store.
  A thread is joinable from its start to its join.\<close>

datatype worker_place =
    No_worker
  | In_dokan
  | Store_status int
  | Store_mounted int
  | Store_running int
  | Store_error int
  | Worker_done int

record 's controller =
  ct_runtime :: "'s mount_runtime option"
  ct_worker :: worker_place
  ct_running :: bool
  ct_mounted :: bool
  ct_status :: int
  ct_error :: string

definition new_controller :: "int \<Rightarrow> 's controller" where
  "new_controller dokan_success =
     \<lparr>ct_runtime = None, ct_worker = No_worker, ct_running = False, ct_mounted = False,
      ct_status = dokan_success, ct_error = ''''\<rparr>"

section \<open>The owner's calls\<close>

definition start_mount ::
  "windows \<Rightarrow> int \<Rightarrow> ('s \<Rightarrow> int) \<Rightarrow> 's device \<Rightarrow> 's option \<Rightarrow> wide \<Rightarrow> 's controller \<Rightarrow> bool \<times> 's controller" where
  "start_mount W dokan_success now D source point c =
     (case source of
        None \<Rightarrow> (False, c\<lparr>ct_error := ''No source device was supplied''\<rparr>)
      | Some s \<Rightarrow>
          if ct_worker c \<noteq> No_worker \<or> ct_running c
          then (False, c\<lparr>ct_error := ''A Dokany mount is already active''\<rparr>)
          else
            let point = normalize_mount_point W point
            in if point = [] then (False, c\<lparr>ct_error := ''No free mount point is available''\<rparr>)
            else
              let (scanned, ss) = run_state (session_scan now D) (open_session s)
              in if \<not> scanned
                 then (False, c\<lparr>ct_error := ''PS2 APA scan failed: '' @ ss_last_error ss, ct_runtime := None\<rparr>)
                 else if \<not> mbr_valid (ss_scan ss)
                 then (False, c\<lparr>ct_error := ''The selected source does not contain a valid PS2 APA MBR'', ct_runtime := None\<rparr>)
                 else (True, c\<lparr>ct_runtime := Some \<lparr>rt_session = ss, rt_mount_point = point\<rparr>, ct_error := '''',
                   ct_status := dokan_success, ct_mounted := False, ct_running := True, ct_worker := In_dokan\<rparr>))"

text \<open>\<open>request_unmount\<close> asks Dokany to remove the mount point; \<open>remove\<close> is its answer.\<close>

definition request_unmount :: "(wide \<Rightarrow> bool) \<Rightarrow> 's controller \<Rightarrow> bool" where
  "request_unmount remove c =
     (case ct_runtime c of
        None \<Rightarrow> True
      | Some rt \<Rightarrow> if \<not> ct_running c then True else remove (rt_mount_point rt))"

text \<open>\<open>wait\<close> returns once the worker, if any, has ended.\<close>

definition wait_mount :: "'s controller \<Rightarrow> 's controller" where
  "wait_mount c = c\<lparr>ct_worker := No_worker, ct_runtime := (if ct_running c then ct_runtime c else None)\<rparr>"

definition remove_dokany_mount_point :: "windows \<Rightarrow> (wide \<Rightarrow> bool) \<Rightarrow> wide \<Rightarrow> bool" where
  "remove_dokany_mount_point W remove point =
     (let point = normalize_mount_point W point in if point = [] then False else remove point)"

section \<open>Callbacks of a running mount\<close>

datatype dokan_call =
    Create_call "wide option" u32 u32 u32
  | Read_call "wide option" bool u32 bool "64 word"
  | Information_call "wide option" bool
  | Find_call "wide option" "(find_data list \<Rightarrow> bool) option"
  | Free_space_call bool
  | Mutation_call mutation

text \<open>The session after a callback.\<close>

fun callback_session :: "windows \<Rightarrow> ('s \<Rightarrow> int) \<Rightarrow> 's device \<Rightarrow> dokan_call \<Rightarrow> 's session option \<Rightarrow> 's session option" where
  "callback_session W now D (Create_call name access disposition options) r =
     snd (run_state (create_file W now D name access disposition options) r)"
| "callback_session W now D (Read_call name has_buffer n has_length off) r =
     snd (run_state (dokan_read_file W now D name has_buffer n has_length off) r)"
| "callback_session W now D (Information_call name has_buffer) r =
     snd (run_state (get_file_information W now D name has_buffer) r)"
| "callback_session W now D (Find_call name fill) r = snd (run_state (find_files W now D name fill) r)"
| "callback_session W now D (Free_space_call has_pointers) r = snd (run_state (get_disk_free_space now D has_pointers) r)"
| "callback_session W now D (Mutation_call m) r = snd (run_state (refuse_mutation m) r)"

section \<open>Steps\<close>

text \<open>\<open>std::to_string(int)\<close>.\<close>

definition signed_decimal :: "int \<Rightarrow> string" where
  "signed_decimal n = (if n < 0 then CHR ''-'' # decimal (nat (- n)) else decimal (nat n))"

inductive worker_step ::
  "windows \<Rightarrow> int \<Rightarrow> ('s \<Rightarrow> int) \<Rightarrow> 's device \<Rightarrow> 's controller \<Rightarrow> 's controller \<Rightarrow> bool"
  for W dokan_success now D where
  mounted: "worker_step W dokan_success now D c (c\<lparr>ct_mounted := True\<rparr>)"
    if "ct_worker c = In_dokan"
| unmounted: "worker_step W dokan_success now D c (c\<lparr>ct_mounted := False\<rparr>)"
    if "ct_worker c = In_dokan"
| callback: "worker_step W dokan_success now D c (c\<lparr>ct_runtime := Some (rt\<lparr>rt_session := ss\<rparr>)\<rparr>)"
    if "ct_worker c = In_dokan" "ct_runtime c = Some rt" "callback_session W now D call (Some (rt_session rt)) = Some ss"
| returned: "worker_step W dokan_success now D c (c\<lparr>ct_worker := Store_status r\<rparr>)"
    if "ct_worker c = In_dokan"
| store_status: "worker_step W dokan_success now D c (c\<lparr>ct_status := r, ct_worker := Store_mounted r\<rparr>)"
    if "ct_worker c = Store_status r"
| store_mounted: "worker_step W dokan_success now D c (c\<lparr>ct_mounted := False, ct_worker := Store_running r\<rparr>)"
    if "ct_worker c = Store_mounted r"
| store_running: "worker_step W dokan_success now D c (c\<lparr>ct_running := False, ct_worker := Store_error r\<rparr>)"
    if "ct_worker c = Store_running r"
| store_error: "worker_step W dokan_success now D c
      (c\<lparr>ct_error := (if r \<noteq> dokan_success then ''Dokany mount failed with code '' @ signed_decimal r else ct_error c),
         ct_worker := Worker_done r\<rparr>)"
    if "ct_worker c = Store_error r"

inductive mount_step ::
  "windows \<Rightarrow> int \<Rightarrow> ('s \<Rightarrow> int) \<Rightarrow> 's device \<Rightarrow> 's \<Rightarrow> 's controller \<Rightarrow> 's controller \<Rightarrow> bool"
  for W dokan_success now D s where
  start: "mount_step W dokan_success now D s c (snd (start_mount W dokan_success now D source point c))"
    if "source = None \<or> source = Some s"
| wait: "mount_step W dokan_success now D s c (wait_mount c)"
    if "ct_worker c = No_worker \<or> ct_worker c = Worker_done r"
| worker: "mount_step W dokan_success now D s c c'"
    if "worker_step W dokan_success now D c c'"

inductive mount_reachable ::
  "windows \<Rightarrow> int \<Rightarrow> ('s \<Rightarrow> int) \<Rightarrow> 's device \<Rightarrow> 's \<Rightarrow> 's controller \<Rightarrow> bool"
  for W dokan_success now D s where
  new: "mount_reachable W dokan_success now D s (new_controller dokan_success)"
| step: "mount_reachable W dokan_success now D s c \<Longrightarrow> mount_step W dokan_success now D s c c' \<Longrightarrow>
    mount_reachable W dokan_success now D s c'"

section \<open>The life of a mount\<close>

definition keeps_coherent ::
  "('s \<Rightarrow> bool) \<Rightarrow> ('s \<Rightarrow> image) \<Rightarrow> image \<Rightarrow> scan_result \<Rightarrow> 's session \<Rightarrow> 's session \<Rightarrow> bool" where
  "keeps_coherent ok img im sr x y \<longleftrightarrow> (coherent ok img im sr x \<longrightarrow> coherent ok img im sr y)"

interpretation coherence: effect_preorder "keeps_coherent ok img im sr" for ok img im sr
  by unfold_locales (auto simp: keeps_coherent_def)

lemma answers_keep: "(\<And>ss. answers (coherent ok img im sr) m a ss) \<Longrightarrow> effect (keeps_coherent ok img im sr) m"
  by (simp add: effect_def keeps_coherent_def answers_def)

lemma on_runtime_keeps:
  assumes "effect (keeps_coherent ok img im sr) m" "coherent ok img im sr ss"
    and "snd (run_state (on_runtime failed m) (Some ss)) = Some ss'"
  shows "coherent ok img im sr ss'"
  using assms by (auto simp: effect_def keeps_coherent_def run_on_runtime split: prod.splits)

lemma callback_coherent:
  assumes D: "reliable_device D ok img" and plain: "plain_partitions sr" "plain_names im sr"
    and ss: "coherent ok img im sr ss" and run: "callback_session W now D call (Some ss) = Some ss'"
  shows "coherent ok img im sr ss'"
proof -
  note views = answers_keep [OF answers_mount_lookup [OF D plain(1)]] answers_keep [OF answers_mount_list [OF D plain(1)]]
    answers_keep [OF answers_mount_read [OF D plain]]
  have keeps: "coherent ok img im sr ss'"
    if "effect (keeps_coherent ok img im sr) m" "snd (run_state (on_runtime failed m) (Some ss)) = Some ss'" for m failed
    using on_runtime_keeps [OF that(1) ss that(2)] .
  note intros = coherence.effect_intros views
  show ?thesis
    using run ss
    by (cases call)
      (auto simp: create_file_def dokan_read_file_def get_file_information_def find_files_def get_disk_free_space_def
        refuse_mutation_def Let_def split: option.splits if_splits elim!: keeps [rotated] intro!: intros)
qed

text \<open>What holds in every state of a controller: how the flags, the result and the place of the worker fit
  together, and that the runtime, while there is one, is a scanned session in agreement with the image.\<close>

definition worker_flags :: "int \<Rightarrow> 's controller \<Rightarrow> bool" where
  "worker_flags dokan_success c \<longleftrightarrow>
     (case ct_worker c of
        No_worker \<Rightarrow> \<not> ct_running c \<and> \<not> ct_mounted c \<and> ct_runtime c = None
      | In_dokan \<Rightarrow> ct_running c \<and> ct_runtime c \<noteq> None \<and> ct_status c = dokan_success
      | Store_status r \<Rightarrow> ct_running c \<and> ct_runtime c \<noteq> None \<and> ct_status c = dokan_success
      | Store_mounted r \<Rightarrow> ct_running c \<and> ct_runtime c \<noteq> None \<and> ct_status c = r
      | Store_running r \<Rightarrow> ct_running c \<and> ct_runtime c \<noteq> None \<and> \<not> ct_mounted c \<and> ct_status c = r
      | Store_error r \<Rightarrow> \<not> ct_running c \<and> ct_runtime c \<noteq> None \<and> \<not> ct_mounted c \<and> ct_status c = r
      | Worker_done r \<Rightarrow> \<not> ct_running c \<and> ct_runtime c \<noteq> None \<and> \<not> ct_mounted c \<and> ct_status c = r \<and>
          (r \<noteq> dokan_success \<longrightarrow> ct_error c \<noteq> ''''))"

definition runtime_coherent :: "('s \<Rightarrow> bool) \<Rightarrow> ('s \<Rightarrow> image) \<Rightarrow> image \<Rightarrow> 's controller \<Rightarrow> bool" where
  "runtime_coherent ok img im c \<longleftrightarrow>
     (\<forall>rt. ct_runtime c = Some rt \<longrightarrow>
        coherent ok img im (spec_scan im) (rt_session rt) \<and> mbr_valid (spec_scan im) \<and> scan_ok (spec_scan im) \<and>
        (\<exists>letter. rt_mount_point rt = [letter, colon, backslash]))"

lemma mount_point_shape:
  "normalize_mount_point W point \<noteq> [] \<Longrightarrow> \<exists>letter. normalize_mount_point W point = [letter, colon, backslash]"
proof -
  assume ne: "normalize_mount_point W point \<noteq> []"
  define v where "v = (if length point = 2 \<and> point ! 1 = colon then point @ [backslash] else point)"
  have norm: "normalize_mount_point W point = (if length v = 3 \<and> v ! 1 = colon \<and> v ! 2 = backslash then v[0 := win_upper W (v ! 0)] else [])"
    by (simp add: normalize_mount_point_def v_def Let_def)
  with ne have v: "length v = 3" "v ! 1 = colon" "v ! 2 = backslash" by (auto split: if_splits)
  then have "v = [v ! 0, colon, backslash]"
    by (intro nth_equalityI) (auto simp: less_Suc_eq numeral_3_eq_3 numeral_2_eq_2)
  with v norm show ?thesis by (metis list_update_code(2))
qed

lemma start_mount_cases:
  assumes D: "reliable_device D ok img" and "ok s" "source = None \<or> source = Some s"
    and "worker_flags dokan_success c" "runtime_coherent ok img (img s) c"
  shows "worker_flags dokan_success (snd (start_mount W dokan_success now D source point c)) \<and>
    runtime_coherent ok img (img s) (snd (start_mount W dokan_success now D source point c))"
proof -
  note scan = run_session_scan [OF D coherent_open [where ok = ok and img = img, OF assms(2)], of now]
  obtain b ss where run: "run_state (session_scan now D) (open_session s) = (b, ss)" by fastforce
  with scan have b: "b = (mbr_valid (spec_scan (img s)) \<and> scan_ok (spec_scan (img s)))"
    and ss: "coherent ok img (img s) (spec_scan (img s)) ss" by simp_all
  then have sr: "ss_scan ss = spec_scan (img s)" by (simp add: coherent_def)
  show ?thesis
    using assms(3-5) mount_point_shape [of W point] b ss sr
    by (auto simp: start_mount_def run Let_def worker_flags_def runtime_coherent_def split: option.splits worker_place.splits)
qed

lemma worker_step_flags:
  "worker_step W dokan_success now D c c' \<Longrightarrow> worker_flags dokan_success c \<Longrightarrow> worker_flags dokan_success c'"
  by (induction rule: worker_step.cases) (auto simp: worker_flags_def)

lemma worker_step_keeps:
  assumes step: "worker_step W dokan_success now D c c'" and D: "reliable_device D ok img"
    and plain: "plain_partitions (spec_scan im)" "plain_names im (spec_scan im)"
    and inv: "worker_flags dokan_success c" "runtime_coherent ok img im c"
  shows "worker_flags dokan_success c' \<and> runtime_coherent ok img im c'"
  using step
proof cases
  case (callback rt call ss)
  have "coherent ok img im (spec_scan im) (rt_session rt)"
    using inv(2) callback(3) by (simp add: runtime_coherent_def)
  from callback_coherent [OF D plain this callback(4)] inv callback show ?thesis
    by (auto simp: worker_flags_def runtime_coherent_def)
qed (use inv in \<open>auto simp: worker_flags_def runtime_coherent_def\<close>)

lemma mount_step_keeps:
  assumes step: "mount_step W dokan_success now D s c c'"
    and D: "reliable_device D ok img" "ok s" and plain: "plain_partitions (spec_scan (img s))" "plain_names (img s) (spec_scan (img s))"
    and inv: "worker_flags dokan_success c" "runtime_coherent ok img (img s) c"
  shows "worker_flags dokan_success c' \<and> runtime_coherent ok img (img s) c'"
  using step
proof cases
  case (start source point)
  with start_mount_cases [OF D _ inv] show ?thesis by simp
next
  case worker
  then show ?thesis using worker_step_keeps [OF _ D(1) plain inv] by blast
qed (use inv in \<open>auto simp: worker_flags_def runtime_coherent_def wait_mount_def\<close>)

text \<open>C19: The life of a mount of a reliable source, on an image whose PFS partitions have no byte 0x1F in their
  names and whose directories have no duplicate names and no names with a separator.  In every state that
  starts, waits, Dokany's callbacks and the worker's separate stores
  can reach, the controller says it is mounted only while it runs, the runtime exists exactly as long as the worker has
  not been joined, and it is a session over the scanned image whose caches agree with the image, mounted
  at a drive root.  When the worker has ended, the status is the result of Dokany and a failure has left
  an error message.\<close>

theorem mount_lifecycle:
  assumes "mount_reachable W dokan_success now D s c" "reliable_device D ok img" "ok s"
    and "plain_partitions (spec_scan (img s))" "plain_names (img s) (spec_scan (img s))"
  shows "(ct_mounted c \<longrightarrow> ct_running c) \<and> (ct_runtime c \<noteq> None \<longleftrightarrow> ct_worker c \<noteq> No_worker) \<and>
    (ct_running c \<longrightarrow> ct_worker c \<noteq> No_worker) \<and>
    (\<forall>rt. ct_runtime c = Some rt \<longrightarrow>
      coherent ok img (img s) (spec_scan (img s)) (rt_session rt) \<and> scan_ok (spec_scan (img s)) \<and>
      (\<exists>letter. rt_mount_point rt = [letter, colon, backslash])) \<and>
    (\<forall>r. ct_worker c = Worker_done r \<longrightarrow>
      \<not> ct_running c \<and> ct_status c = r \<and> (r \<noteq> dokan_success \<longrightarrow> ct_error c \<noteq> ''''))"
proof -
  have "worker_flags dokan_success c \<and> runtime_coherent ok img (img s) c"
    using assms(1)
  proof induction
    case new
    show ?case by (simp add: new_controller_def worker_flags_def runtime_coherent_def)
  next
    case (step c c')
    then show ?case using mount_step_keeps [OF step.hyps(2) assms(2-)] by blast
  qed
  then show ?thesis by (auto simp: worker_flags_def runtime_coherent_def split: worker_place.splits)
qed

text \<open>C31: A failed mount can be observed without its message: from every state in which Dokany runs and no
  earlier message is left, the worker can publish any failure and clear the running flag before it
  stores the message, so a poll of the flags at that moment finds a stopped mount, its failing status
  and an empty error.\<close>

theorem mount_failure_before_message:
  assumes "mount_reachable W dokan_success now D s c" "ct_worker c = In_dokan" "ct_error c = ''''"
  shows "\<exists>c'. mount_reachable W dokan_success now D s c' \<and> \<not> ct_running c' \<and> ct_status c' = r \<and> ct_error c' = ''''"
proof -
  let ?c1 = "c\<lparr>ct_worker := Store_status r\<rparr>"
  let ?c2 = "?c1\<lparr>ct_status := r, ct_worker := Store_mounted r\<rparr>"
  let ?c3 = "?c2\<lparr>ct_mounted := False, ct_worker := Store_running r\<rparr>"
  let ?c4 = "?c3\<lparr>ct_running := False, ct_worker := Store_error r\<rparr>"
  note step = mount_reachable.step [OF _ mount_step.worker]
  have "mount_reachable W dokan_success now D s ?c1"
    by (rule step [OF assms(1) worker_step.returned [OF assms(2)]])
  then have "mount_reachable W dokan_success now D s ?c2"
    by (rule step) (rule worker_step.store_status, simp)
  then have "mount_reachable W dokan_success now D s ?c3"
    by (rule step) (rule worker_step.store_mounted, simp)
  then have "mount_reachable W dokan_success now D s ?c4"
    by (rule step) (rule worker_step.store_running, simp)
  then show ?thesis using assms(3) by (intro exI [of _ ?c4]) simp
qed

end
