(* ===== verification/SessionSamples.thy ===== *)
theory SessionSamples
  imports Samples DokanyController
begin

text \<open>
  The sample disk seen through the operations of a session: its directory tree, and the properties of
  sessions, mounts and exports applied to it.
\<close>

section \<open>The nodes of the sample disk\<close>

definition sample_root :: pfs_node where
  "sample_root = sample_node 520 521 0x1000 512"

lemma decode_sample_inode: "decode_inode (encode_inode (sample_inode s d m n)) = sample_inode s d m n"
  using sample_inode_wf decode_encode_inode by blast

lemma sample_metadata:
  "metadata_bytes sample_disk sample_reader (zone_ref 520) = Some (encode_inode (sample_inode 520 521 0x1000 512))"
  "metadata_bytes sample_disk sample_reader (zone_ref 522) = Some (encode_inode (sample_inode 522 523 0x2000 5))"
  using sample_slices(6,8)
  by (simp_all add: metadata_bytes_def zone_ref_def subpart_missing_def sample_super_def extent_bytes_def
      extent_readable_def sample_size kMetadataSize_def sectors_upto_def)

lemma sample_read_inode:
  "evalS (read_inode image_device sample_reader (zone_ref 520)) sample_disk = Inr sample_root"
  "evalS (read_inode image_device sample_reader (zone_ref 522)) sample_disk = Inr sample_file"
  using read_inode_image [OF sample_reader_ok, of "zone_ref 520" sample_disk]
    read_inode_image [OF sample_reader_ok, of "zone_ref 522" sample_disk]
  by (auto simp: sample_metadata decode_sample_inode sample_inode_ok sample_root_def sample_file_def sample_node_def
      evalS_def)

lemma sample_read_root: "evalS (read_root image_device sample_reader) sample_disk = Inr sample_root"
  by (simp add: read_root_def sample_read_inode sample_super_def)

definition sample_entry :: "string \<Rightarrow> u32 \<Rightarrow> u16 \<Rightarrow> directory_entry" where
  "sample_entry name z mode = \<lparr>de_name = name, de_inode = zone_ref z, de_mode = mode\<rparr>"

lemma sample_list:
  "evalS (list_directory image_device sample_reader sample_root dots) sample_disk =
     Inr ((if dots then [sample_entry ''.'' 520 0x1000, sample_entry ''..'' 520 0x1000] else []) @
       [sample_entry ''SAVE'' 522 0x2000])"
proof -
  have bytes: "evalS (pfs_read image_device sample_reader (sample_node 520 521 0x1000 512) 0 512) sample_disk =
      Inr (concat (map encode_record sample_records))"
    using sample_read [where off = 0 and n = 512 and len = 512 and d = 521 and s = 520 and m = "0x1000"]
    by (simp add: sample_slices)
  have "parse_entries (concat (map encode_record sample_records)) dots 0 =
      Inr (map record_entry (filter (record_listed dots) sample_records))"
    using parse_encoded [of sample_records "[]" dots] sample_records_ok by simp
  with bytes show ?thesis
    by (cases dots) (simp_all add: list_directory_def Let_def sample_root_def image_eval_bindE [OF image.transparent_pfs_read]
        sample_records_def record_listed_def record_entry_def sample_entry_def zone_ref_def sample_node_def
        mode_is_directory_def kModeMask_def kModeDirectory_def)
qed

lemma sample_list_file:
  "evalS (list_directory image_device sample_reader sample_file dots) sample_disk = Inl Dir_not_directory"
  by (simp add: list_directory_def sample_file_def sample_node_def mode_is_directory_def kModeMask_def kModeDirectory_def)

lemma sample_step:
  "evalS (resolve_components image_device sample_reader sample_root [c]) sample_disk =
     (if c = ''.'' \<or> c = ''..'' then Inr sample_root
      else if c = ''SAVE'' then Inr sample_file else Inl (Path_not_found c))"
  "evalS (resolve_components image_device sample_reader sample_file [c]) sample_disk =
     (if c = ''.'' then Inr sample_file else Inl Dir_not_directory)"
  unfolding resolve_step_image sample_list sample_list_file
  by (auto simp: sample_entry_def sample_read_inode)

lemma sample_components:
  "nd \<in> {sample_root, sample_file} \<Longrightarrow>
   evalS (resolve_components image_device sample_reader nd cs) sample_disk = Inr nd' \<Longrightarrow>
   nd' \<in> {sample_root, sample_file}"
proof (induction cs arbitrary: nd)
  case (Cons c cs)
  have "resolve_components image_device sample_reader nd (c # cs) =
      bindE (resolve_components image_device sample_reader nd [c]) (\<lambda>nd. resolve_components image_device sample_reader nd cs)"
    using resolve_components_append [of image_device sample_reader nd "[c]" cs] by simp
  then obtain nd1 where nd1: "evalS (resolve_components image_device sample_reader nd [c]) sample_disk = Inr nd1"
    "evalS (resolve_components image_device sample_reader nd1 cs) sample_disk = Inr nd'"
    using Cons.prems(2) by (auto simp: image_eval_bindE [OF image.transparent_resolve_components]
        simp del: resolve_components.simps split: sum.splits)
  have "nd1 \<in> {sample_root, sample_file}"
    using nd1(1) Cons.prems(1) by (auto simp only: insert_iff empty_iff sample_step split: if_splits)
  from Cons.IH [OF this nd1(2)] show ?case .
qed (simp add: evalS_def)

lemma sample_resolve_nodes:
  "evalS (resolve image_device sample_reader path) sample_disk = Inr nd \<Longrightarrow> nd \<in> {sample_root, sample_file}"
  by (auto simp: resolve_def resolve_from_components image_eval_bindE [OF image.transparent_read_root] sample_read_root
      dest: sample_components [rotated])

lemma sample_browse:
  "evalS (browse_directory image_device sample_reader path) sample_disk = Inr (node, cs) \<Longrightarrow>
   cs = [(sample_entry ''SAVE'' 522 0x2000, Some sample_file)]"
  unfolding browse_directory_image
  by (auto split: sum.splits if_splits dest!: sample_resolve_nodes
      simp: sample_list sample_list_file read_children_image sample_read_inode sample_entry_def)

lemma sample_spec_scan:
  "spec_scan sample_disk = \<lparr>mbr_valid = True, apa_version = mbr_version (h_mbr sample_mbr),
     partitions = [partition_of sample_mbr, sample_pfs], issues = []\<rparr>"
  using sample_scan [of 65534] by (simp add: spec_scan_def evalS_def default_max_headers_def)

lemma sample_spec_reader:
  "spec_reader sample_disk (spec_scan sample_disk) pid =
     (if pid \<noteq> p_id (partition_of sample_mbr) \<and> pid = ''__common'' then Inr sample_reader
      else if pid = p_id (partition_of sample_mbr) then Inl (''Partition is not PFS: '' @ pid)
      else Inl (''Partition not found: '' @ pid))"
proof -
  have mbr: "\<not> is_sub (partition_of sample_mbr)" "p_type (partition_of sample_mbr) \<noteq> kTypePfs"
    by (simp_all add: is_sub_def partition_of_def sample_fields kTypeMbr_def kTypePfs_def)
  have "\<lparr>rd_volume = apa_volume sample_pfs, rd_probe = evalS (probe image_device (apa_volume sample_pfs)) sample_disk\<rparr>
      = sample_reader"
    by (simp add: sample_reader_def open_reader_def evalS_def sample_probe)
  with mbr show ?thesis
    by (auto simp: spec_reader_def sample_spec_scan find_partition_def Let_def)
qed

lemma sample_plain_names: "plain_names sample_disk (spec_scan sample_disk)"
  unfolding plain_names_def spec_directory_def
  by (auto simp: sample_spec_reader sample_entry_def is_separator_def dest!: sample_browse split: sum.splits if_splits)

lemma sample_mbr_id: "p_id (partition_of sample_mbr) = []"
  by (simp add: partition_of_def partition_id_def sample_mbr_def seal_header_def blank_header_def decode_header_def
      byte_simps kHeaderSize_def kIdMax_def sub_bytes_def)

lemma sample_opened: "spec_reader sample_disk (spec_scan sample_disk) ''__common'' = Inr sample_reader"
  by (simp add: sample_spec_reader sample_mbr_id)

lemma sample_paths:
  "normalize_cache_path ''SAVE'' = ''SAVE''" "normalize_cache_path ''/SAVE'' = ''SAVE''" "normalize_cache_path '''' = ''''"
  "path_components ''SAVE'' = [''SAVE'']" "path_components '''' = []"
  by code_simp+

lemma sample_resolve:
  "evalS (resolve image_device sample_reader ''SAVE'') sample_disk = Inr sample_file"
  "evalS (resolve image_device sample_reader '''') sample_disk = Inr sample_root"
  by (simp_all add: resolve_def resolve_from_components image_eval_bindE [OF image.transparent_read_root] sample_read_root
      sample_paths sample_step del: resolve_components.simps(2))

lemma sample_answers:
  "spec_stat sample_disk (spec_scan sample_disk) ''__common'' ''SAVE'' = stat_from_node ''SAVE'' sample_file"
  "spec_stat sample_disk (spec_scan sample_disk) ''__common'' ''/SAVE'' = stat_from_node ''SAVE'' sample_file"
  "spec_browse sample_disk (spec_scan sample_disk) ''__common'' '''' =
     \<lparr>br_ok = True, br_error = '''', br_entries = [visible_entry (sample_entry ''SAVE'' 522 0x2000) (Some sample_file)]\<rparr>"
  by (simp_all add: spec_stat_def spec_node_def spec_browse_def spec_directory_def sample_opened sample_paths sample_resolve
      browse_directory_image sample_list read_children_image sample_read_inode sample_entry_def del: read_children.simps)
    (simp add: sample_root_def sample_node_def mode_is_directory_def kModeMask_def kModeDirectory_def)

theorem session_refines_image_witness:
  "fst (run_requests (\<lambda>ss r. perform (\<lambda>_. 0) image_device r ss)
      [Scan_request, Stat_request ''__common'' ''SAVE'', Stat_request ''__common'' ''/SAVE'', Browse_request ''__common'' '''']
      (open_session sample_disk)) =
    [Scanned True, Stated (stat_from_node ''SAVE'' sample_file), Stated (stat_from_node ''SAVE'' sample_file),
     Browsed \<lparr>br_ok = True, br_error = '''', br_entries = [visible_entry (sample_entry ''SAVE'' 522 0x2000) (Some sample_file)]\<rparr>]"
proof -
  let ?rs = "[Scan_request, Stat_request ''__common'' ''SAVE'', Stat_request ''__common'' ''/SAVE'', Browse_request ''__common'' '''']"
  have "list_all plain_request ?rs" by (simp add: plain_id_def)
  from session_refines_image [of image_device "\<lambda>_. True" "\<lambda>im. im" sample_disk, OF image.reliable_device_axioms TrueI this
      sample_plain_names]
  show ?thesis by (simp add: sample_answers) (simp add: sample_spec_scan scan_ok_def)
qed

section \<open>The sample disk mounted\<close>

definition mounted_sample :: "image session" where
  "mounted_sample = (open_session sample_disk)\<lparr>ss_scan := spec_scan sample_disk\<rparr>"

lemma mounted_coherent: "coherent (\<lambda>_. True) (\<lambda>im. im) sample_disk (spec_scan sample_disk) mounted_sample"
  unfolding mounted_sample_def
  by (rule cleared_coherent) (simp add: cleared_def open_session_def new_stack_ok new_stack_img)

lemma sample_partition_aliases:
  "make_partition_aliases (spec_scan sample_disk) =
     [\<lparr>al_visible = ''__common'', al_backing = ''__common'', al_kind = Pfs_directory, al_size = 0\<rparr>]"
proof -
  have "p_type (partition_of sample_mbr) \<noteq> kTypePfs"
    by (simp add: partition_of_def sample_fields kTypeMbr_def kTypePfs_def)
  moreover have "pick_alias [] ''__common'' = ''__common''" by code_simp
  ultimately show ?thesis by (simp add: make_partition_aliases_def sample_spec_scan)
qed

lemma sample_plain_partitions: "plain_partitions (spec_scan sample_disk)"
proof -
  have "p_type (partition_of sample_mbr) \<noteq> kTypePfs"
    by (simp add: partition_of_def sample_fields kTypeMbr_def kTypePfs_def)
  then show ?thesis by (simp add: plain_partitions_def sample_spec_scan plain_id_def)
qed

lemma sample_entry_aliases:
  "make_entry_aliases [visible_entry (sample_entry ''SAVE'' 522 0x2000) (Some sample_file)] =
     [\<lparr>al_visible = ''SAVE'', al_backing = ''SAVE'', al_kind = Pfs_file, al_size = 5\<rparr>]"
proof -
  have "pick_alias [] ''SAVE'' = ''SAVE''" by code_simp
  then show ?thesis
    by (simp add: make_entry_aliases_def visible_entry_def sample_entry_def sample_file_def sample_node_def
        se_is_directory_def se_is_regular_def mode_is_directory_def mode_is_regular_def kModeMask_def
        kModeDirectory_def kModeRegular_def)
qed

lemma sample_mounted_file:
  "spec_mount_lookup sample_disk (spec_scan sample_disk) ''Partitions/__COMMON/save'' =
     \<lparr>ml_ok = True, ml_error = '''', ml_kind = Pfs_file, ml_partition = ''__common'', ml_path = ''SAVE'', ml_size = 5\<rparr>"
proof -
  have "path_components ''Partitions/__COMMON/save'' = [''Partitions'', ''__COMMON'', ''save'']" by code_simp
  moreover have "equal_windows_name ''__common'' ''__COMMON''" "equal_windows_name ''SAVE'' ''save''"
    "equal_windows_name ''Partitions'' ''Partitions''" by code_simp+
  ultimately show ?thesis
    by (simp add: spec_mount_lookup_def spec_lookup_parts_def lookup_parts_def sample_partition_aliases find_alias_def
        forbidden_component_def sample_answers sample_entry_aliases empty_lookup_def join_pfs_path_def)
qed

theorem mount_refines_image_witness:
  "fst (run_state (mount_lookup (\<lambda>_. 0) image_device ''Partitions/__COMMON/save'') mounted_sample) =
     \<lparr>ml_ok = True, ml_error = '''', ml_kind = Pfs_file, ml_partition = ''__common'', ml_path = ''SAVE'', ml_size = 5\<rparr>"
  using mount_refines_image [OF image.reliable_device_axioms mounted_coherent sample_plain_partitions] sample_mounted_file
  by metis

theorem mount_case_insensitive_witness:
  "mount_lookup (\<lambda>_. 0) image_device ''PARTITIONS//__common'' = mount_lookup (\<lambda>_. 0) image_device ''/partitions/__Common/''"
proof -
  have "map uppercase_ascii (path_components ''PARTITIONS//__common'') =
      map uppercase_ascii (path_components ''/partitions/__Common/'')" by code_simp
  from mount_case_insensitive [OF this, of "\<lambda>_. 0" image_device] show ?thesis by blast
qed

theorem mount_listing_lookup_witness:
  "found_as (spec_mount_lookup sample_disk (spec_scan sample_disk) (''Partitions'' @ ''/'' @ ''__Common'')) Pfs_directory 0 \<and>
   listed_as (spec_mount_list sample_disk (spec_scan sample_disk) ''Partitions'') ''__Common'' Pfs_directory 0"
proof -
  have parts: "path_components ''Partitions'' = [''Partitions'']" by code_simp
  moreover have "equal_windows_name ''__common'' ''__Common''" "equal_windows_name ''Partitions'' ''Partitions''" by code_simp+
  ultimately have "listed_as (spec_mount_list sample_disk (spec_scan sample_disk) ''Partitions'') ''__Common'' Pfs_directory 0"
    by (simp add: spec_mount_list_def spec_mount_lookup_def spec_lookup_parts_def lookup_parts_def list_node_def
        forbidden_component_def empty_lookup_def ml_is_directory_def sample_partition_aliases alias_listing_def listed_as_def)
  with mount_listing_lookup [of "''__Common''" sample_disk "spec_scan sample_disk" "''Partitions''" Pfs_directory 0]
  show ?thesis by (simp add: is_separator_def)
qed

section \<open>The sample disk under Dokany\<close>

text \<open>A platform whose names are single bytes, for which the strict conversions are easy to write down.\<close>

definition wide_of :: "string \<Rightarrow> wide" where
  "wide_of = map (\<lambda>c. of_nat (char_code c))"

definition byte_windows :: windows where
  "byte_windows =
     \<lparr>win_directory_file = 0x1,
      win_non_directory_file = 0x40, win_delete_on_close = 0x1000, win_attribute_readonly = 0x1,
      win_attribute_directory = 0x10, win_name_capacity = 260,
      win_to_utf8 = (\<lambda>w. if list_all (\<lambda>c. c < 256) w then Some (map (\<lambda>c. char_of (unat c)) w) else None),
      win_to_wide = (\<lambda>s. Some (wide_of s)), win_upper = (\<lambda>c. if 97 \<le> c \<and> c \<le> 122 then c - 32 else c)\<rparr>"

lemma wide_code: "unat (of_nat (char_code c) :: u16) = char_code c" "(of_nat (char_code c) :: u16) < 256"
proof -
  show u: "unat (of_nat (char_code c) :: u16) = char_code c"
    using code_small [of c] by (simp add: unat_of_nat)
  then show "(of_nat (char_code c) :: u16) < 256" using code_small [of c] by (simp add: word_less_nat_alt)
qed

lemma wide_back: "win_to_utf8 byte_windows (wide_of s) = Some s"
  by (simp add: byte_windows_def wide_of_def list_all_iff wide_code o_def) (simp add: char_code_def)

lemma byte_windows_faithful: "faithful_utf8 byte_windows"
proof -
  have conv: "win_to_wide byte_windows s = Some w \<longleftrightarrow> w = wide_of s" for s w
    by (auto simp: byte_windows_def)
  have zero: "0 \<notin> set (wide_of s)" if "CHR 0x00 \<notin> set s" for s
  proof
    assume "0 \<in> set (wide_of s)"
    then obtain c where "c \<in> set s" "(of_nat (char_code c) :: u16) = 0" by (auto simp: wide_of_def)
    then have "char_code c = 0" using wide_code(1) [of c] by simp
    moreover have "char_of (char_code c) = c" "char_of (0::nat) = CHR 0x00" by (simp_all add: char_code_def) code_simp
    ultimately have "c = CHR 0x00" by simp
    with \<open>c \<in> set s\<close> that show False by simp
  qed
  have cat: "win_to_utf8 byte_windows (p @ [backslash] @ q) = Some (s @ CHR 0x5C # t)"
    if "win_to_utf8 byte_windows p = Some s" "win_to_utf8 byte_windows q = Some t" for p q s t
    using that by (auto simp: byte_windows_def backslash_def split: if_splits) code_simp
  show ?thesis
    unfolding faithful_utf8_def conv using wide_back zero cat by (auto simp: wide_of_def)
qed

definition sample_search :: wide where
  "sample_search = wide_of (CHR 0x5C # ''Partitions'' @ CHR 0x5C # ''__common'')"

lemma sample_search_path:
  "path_components (CHR 0x5C # ''Partitions'' @ CHR 0x5C # ''__common'') = [''Partitions'', ''__common'']"
  by code_simp

lemma sample_search_list:
  "spec_mount_list sample_disk (spec_scan sample_disk) (CHR 0x5C # ''Partitions'' @ CHR 0x5C # ''__common'') =
     \<lparr>mls_ok = True, mls_error = '''', mls_entries = [\<lparr>me_name = ''SAVE'', me_kind = Pfs_file, me_size = 5\<rparr>]\<rparr>"
proof -
  have "equal_windows_name ''__common'' ''__common''" "equal_windows_name ''Partitions'' ''Partitions''" by code_simp+
  then show ?thesis
    unfolding spec_mount_list_def spec_mount_lookup_def sample_search_path
    by (simp add: spec_lookup_parts_def lookup_parts_def list_node_def
        forbidden_component_def empty_lookup_def ml_is_directory_def sample_partition_aliases find_alias_def
        sample_answers sample_entry_aliases alias_listing_def)
qed

theorem listed_files_open_witness:
  "\<exists>r. fst (run_state (create_file byte_windows (\<lambda>_. 0) image_device (Some (below sample_search (wide_of ''SAVE''))) 1 1 0) r) =
     (STATUS_SUCCESS, Some False)"
proof -
  let ?path = "CHR 0x5C # ''Partitions'' @ CHR 0x5C # ''__common''"
  obtain status ds r where run: "run_state (find_files byte_windows (\<lambda>_. 0) image_device (Some sample_search) (Some (\<lambda>_. False)))
      (Some mounted_sample) = ((status, ds), r)" by (metis surj_pair)
  have dir: "sample_search \<noteq> []" "win_to_utf8 byte_windows sample_search = Some ?path"
    unfolding sample_search_def by (simp add: wide_of_def, rule wide_back)
  then have "wide_to_utf8 byte_windows (Some sample_search) = Some ?path" by (simp add: wide_to_utf8_def)
  from find_files_answer(1) [OF image.reliable_device_axioms mounted_coherent sample_plain_partitions this run]
  have status: "status = STATUS_SUCCESS" unfolding sample_search_list by (simp add: Let_def)
  have wide: "win_to_wide byte_windows (me_name \<lparr>me_name = ''SAVE'', me_kind = Pfs_file, me_size = 5\<rparr>) = Some (wide_of ''SAVE'')"
    "length (wide_of ''SAVE'') < win_name_capacity byte_windows" by (simp_all add: byte_windows_def wide_of_def)
  note opens = listed_files_open [OF image.reliable_device_axioms mounted_coherent sample_plain_partitions byte_windows_faithful
      dir run [unfolded status] _ wide]
  have "\<lparr>me_name = ''SAVE'', me_kind = Pfs_file, me_size = 5\<rparr> \<in>
      set (mls_entries (spec_mount_list sample_disk (spec_scan sample_disk) ?path))"
    unfolding sample_search_list by simp
  from opens [OF this] have "fst (run_state (create_file byte_windows (\<lambda>_. 0) image_device
      (Some (below sample_search (wide_of ''SAVE''))) 1 1 0) r) = (STATUS_SUCCESS, Some False)"
    by (simp add: byte_windows_def me_is_directory_def write_bits_def bit_numeral_rec)
  then show ?thesis by blast
qed


theorem create_file_read_only_witness:
  "fst (run_state (create_file byte_windows (\<lambda>_. 0) image_device None 1 3 0) (Some mounted_sample)) = (STATUS_SUCCESS, Some True)"
proof -
  have root: "fst (run_state (mount_lookup (\<lambda>_. 0) image_device '''') mounted_sample) = empty_lookup\<lparr>ml_ok := True\<rparr>"
    by (simp add: mount_lookup_def lookup_parts_def State_Monad.get_def path_components.simps [of "[]"] empty_lookup_def)
  show ?thesis
    using create_file_read_only [THEN conjunct1, THEN iffD2, of byte_windows None "\<lambda>_. 0" image_device mounted_sample True 3 1 0]
    by (simp add: root wide_to_utf8_def ml_is_directory_def empty_lookup_def byte_windows_def write_bits_def)
qed

theorem mount_letter_lowest_witness: "choose_mount_letter 0x0000000D = Some 69"
proof -
  have "bit (0x0000000D :: u32) (j - 65)" if "67 \<le> j" "j < 69" for j :: nat
  proof -
    from that have "j = 67 \<or> j = 68" by auto
    then show ?thesis by (auto simp: bit_numeral_rec)
  qed
  then show ?thesis using mount_letter_lowest [of "0x0000000D" 69] by (simp add: bit_numeral_rec)
qed

section \<open>A mount of the sample disk\<close>

definition sample_mounting :: "image controller" where
  "sample_mounting = snd (start_mount byte_windows 0 (\<lambda>_. 0) image_device (Some sample_disk) [0x70, colon]
     (new_controller 0))"

lemma sample_mounting_reachable: "mount_reachable byte_windows 0 (\<lambda>_. 0) image_device sample_disk sample_mounting"
  unfolding sample_mounting_def
  by (rule mount_reachable.step [OF mount_reachable.new mount_step.start]) simp

lemma sample_mounting_state:
  "ct_worker sample_mounting = In_dokan" "ct_error sample_mounting = ''''"
  "\<exists>ss. ct_runtime sample_mounting = Some \<lparr>rt_session = ss, rt_mount_point = [0x50, colon, backslash]\<rparr>"
proof -
  obtain b ss where run: "run_state (session_scan (\<lambda>_. 0) image_device) (open_session sample_disk) = (b, ss)" by fastforce
  have "coherent (\<lambda>_. True) (\<lambda>im. im) sample_disk empty_scan (open_session sample_disk)"
    using coherent_open [of "\<lambda>_. True" sample_disk "\<lambda>im. im"] by simp
  from run_session_scan [OF image.reliable_device_axioms this, of "\<lambda>_. 0"] run
  have scan: "b" "coherent (\<lambda>_. True) (\<lambda>im. im) sample_disk (spec_scan sample_disk) ss"
    by (simp_all add: sample_spec_scan scan_ok_def)
  then have "mbr_valid (ss_scan ss)" by (simp add: coherent_def sample_spec_scan)
  with scan run show "ct_worker sample_mounting = In_dokan" "ct_error sample_mounting = ''''"
    "\<exists>ss. ct_runtime sample_mounting = Some \<lparr>rt_session = ss, rt_mount_point = [0x50, colon, backslash]\<rparr>"
    by (simp_all add: sample_mounting_def start_mount_def new_controller_def normalize_mount_point_def colon_def backslash_def
        byte_windows_def)
qed

theorem mount_failure_before_message_witness:
  "\<exists>c. mount_reachable byte_windows 0 (\<lambda>_. 0) image_device sample_disk c \<and> \<not> ct_running c \<and> ct_status c = - 3 \<and> ct_error c = ''''"
  by (rule mount_failure_before_message [OF sample_mounting_reachable sample_mounting_state(1,2)])

theorem mount_lifecycle_witness:
  "ct_runtime sample_mounting \<noteq> None \<and> scan_ok (spec_scan sample_disk)"
  using mount_lifecycle [OF sample_mounting_reachable image.reliable_device_axioms TrueI sample_plain_partitions sample_plain_names]
    sample_mounting_state(1,3) by auto

end
