(* ===== verification/HostBackends.thy ===== *)
theory HostBackends
  imports HostNames Apa
begin

text \<open>
  The devices at the bottom of the stack: \<open>FileBlockDevice\<close> (\<open>src/core/file_block_device.cpp\<close>, both
  platforms) and \<open>PhysicalDrive\<close> (\<open>src/platform/windows/physical_drive.cpp\<close>).  The calls of the operating
  system are parameters over its state \<open>'o\<close>.
\<close>

section \<open>The transfer loop\<close>

text \<open>One request to the system: \<open>None\<close> is a failure, \<open>Some bs\<close> the bytes it transferred, perhaps fewer than
  asked for.\<close>

type_synonym 'o transfer = "u64 \<Rightarrow> nat \<Rightarrow> ('o, byte list option) state"

text \<open>The loop that both \<open>read\<close> functions share: requests of at most \<open>limit\<close> bytes until \<open>remaining\<close> is
  zero; no address may satisfy \<open>guard\<close>.\<close>

function read_loop ::
  "nat \<Rightarrow> (u64 \<Rightarrow> bool) \<Rightarrow> 'o transfer \<Rightarrow> u64 \<Rightarrow> nat \<Rightarrow> 'o \<Rightarrow> byte list option \<times> 'o" where
  "read_loop limit guard transfer absolute remaining s =
     (if remaining = 0 then (Some [], s)
      else if guard absolute then (None, s)
      else case run_state (transfer absolute (min remaining limit)) s of
        (None, s') \<Rightarrow> (None, s')
      | (Some bs, s') \<Rightarrow>
          if bs = [] then (None, s')
          else case read_loop limit guard transfer (absolute + of_nat (length bs)) (remaining - length bs) s' of
            (None, s'') \<Rightarrow> (None, s'')
          | (Some rest, s'') \<Rightarrow> (Some (bs @ rest), s''))"
  by pat_completeness auto

termination read_loop
  by (relation "measure (\<lambda>(limit, guard, transfer, absolute, remaining, s). remaining)") auto

declare read_loop.simps [simp del]

section \<open>Files on POSIX\<close>

text \<open>\<open>px_fstat\<close> gives the size field of the file, or nothing when it fails; \<open>px_pread\<close> gives \<open>None\<close> for a
  negative result.\<close>

record 'o posix =
  px_open :: "string \<Rightarrow> 'o \<Rightarrow> bool \<times> 'o"
  px_fstat :: "'o \<Rightarrow> int option \<times> 'o"
  px_close :: "'o \<Rightarrow> 'o"
  px_pread :: "'o transfer"
  px_off_max :: u64
  px_ssize_max :: nat

record 'o file_device =
  fd_os :: 'o
  fd_open :: bool
  fd_size :: u64
  fd_path :: string

definition posix_open :: "'o posix \<Rightarrow> string \<Rightarrow> 'o \<Rightarrow> 'o file_device" where
  "posix_open P path s =
     (let (opened, s1) = px_open P path s in
      if \<not> opened then \<lparr>fd_os = s1, fd_open = False, fd_size = 0, fd_path = path\<rparr>
      else case px_fstat P s1 of
        (None, s2) \<Rightarrow> \<lparr>fd_os = px_close P s2, fd_open = False, fd_size = 0, fd_path = path\<rparr>
      | (Some len, s2) \<Rightarrow>
          if len < 0 then \<lparr>fd_os = px_close P s2, fd_open = False, fd_size = 0, fd_path = path\<rparr>
          else \<lparr>fd_os = s2, fd_open = True, fd_size = word_of_int len, fd_path = path\<rparr>)"

definition posix_read :: "'o posix \<Rightarrow> u64 \<Rightarrow> nat \<Rightarrow> ('o file_device, byte list option) state" where
  "posix_read P off n = State (\<lambda>d.
     if \<not> fd_open d \<or> fd_size d < off \<or> unat (fd_size d - off) < n then (None, d)
     else if n = 0 then (Some [], d)
     else if px_off_max P < off then (None, d)
     else
       let (r, s') = read_loop (px_ssize_max P) (\<lambda>a. px_off_max P < a) (px_pread P) off n (fd_os d)
       in (r, d\<lparr>fd_os := s'\<rparr>))"

definition posix_device :: "'o posix \<Rightarrow> 'o file_device device" where
  "posix_device P =
     \<lparr>dev_size = fd_size, dev_name = fd_path, dev_characteristics = (\<lambda>_. default_characteristics),
      dev_read = posix_read P\<rparr>"

section \<open>Overlapped reads on Windows\<close>

text \<open>\<open>ov_read_file\<close> starts a read at the two halves of an offset and says whether it was started at once;
  \<open>ov_pending\<close> says whether the last error is \<open>ERROR_IO_PENDING\<close>; \<open>ov_result\<close> is \<open>GetOverlappedResult\<close> with
  waiting.\<close>

record 'o overlapped =
  ov_create_event :: "'o \<Rightarrow> bool \<times> 'o"
  ov_reset_event :: "'o \<Rightarrow> bool \<times> 'o"
  ov_read_file :: "u32 \<times> u32 \<Rightarrow> nat \<Rightarrow> 'o \<Rightarrow> bool \<times> 'o"
  ov_pending :: "'o \<Rightarrow> bool"
  ov_result :: "'o \<Rightarrow> byte list option \<times> 'o"

definition set_overlapped_offset :: "u64 \<Rightarrow> u32 \<times> u32" where
  "set_overlapped_offset off = (ucast (off AND 0xFFFFFFFF), ucast (drop_bit 32 off))"

text \<open>\<open>pending\<close> asks whether the last error is \<open>ERROR_IO_PENDING\<close>, \<open>result\<close> is \<open>GetOverlappedResult\<close>.\<close>

definition finish_overlapped ::
  "('o \<Rightarrow> bool) \<Rightarrow> ('o \<Rightarrow> 'r option \<times> 'o) \<Rightarrow> bool \<Rightarrow> 'o \<Rightarrow> 'r option \<times> 'o" where
  "finish_overlapped pending result started s =
     (if \<not> started \<and> \<not> pending s then (None, s) else result s)"

definition overlapped_transfer :: "('o, 'x) overlapped_scheme \<Rightarrow> 'o transfer" where
  "overlapped_transfer W off n = State (\<lambda>s.
     let (was_reset, s1) = ov_reset_event W s in
     if \<not> was_reset then (None, s1)
     else
       let (started, s2) = ov_read_file W (set_overlapped_offset off) n s1
       in finish_overlapped (ov_pending W) (ov_result W) started s2)"

text \<open>What \<open>FileBlockDevice::read\<close> and \<open>PhysicalDrive::read\<close> do with an open handle.\<close>

definition overlapped_read :: "('o, 'x) overlapped_scheme \<Rightarrow> u64 \<Rightarrow> nat \<Rightarrow> 'o \<Rightarrow> byte list option \<times> 'o" where
  "overlapped_read W off n s =
     (let (valid, s1) = ov_create_event W s in
      if \<not> valid then (None, s1)
      else read_loop 0xFFFFFFFF (\<lambda>_. False) (overlapped_transfer W) off n s1)"

text \<open>\<open>open\<close> is \<open>CreateFileW\<close>, \<open>size\<close> is \<open>GetFileSizeEx\<close>, \<open>close\<close> is \<open>CloseHandle\<close>.\<close>

definition windows_file_open ::
  "(string \<Rightarrow> 'o \<Rightarrow> bool \<times> 'o) \<Rightarrow> ('o \<Rightarrow> int option \<times> 'o) \<Rightarrow> ('o \<Rightarrow> 'o) \<Rightarrow> string \<Rightarrow> 'o \<Rightarrow> 'o file_device" where
  "windows_file_open open_file file_size close_handle path s =
     (let (opened, s1) = open_file path s in
      if \<not> opened then \<lparr>fd_os = s1, fd_open = False, fd_size = 0, fd_path = path\<rparr>
      else case file_size s1 of
        (None, s2) \<Rightarrow> \<lparr>fd_os = close_handle s2, fd_open = False, fd_size = 0, fd_path = path\<rparr>
      | (Some len, s2) \<Rightarrow>
          if len < 0 then \<lparr>fd_os = close_handle s2, fd_open = False, fd_size = 0, fd_path = path\<rparr>
          else \<lparr>fd_os = s2, fd_open = True, fd_size = word_of_int len, fd_path = path\<rparr>)"

definition windows_file_read :: "('o, 'x) overlapped_scheme \<Rightarrow> u64 \<Rightarrow> nat \<Rightarrow> ('o file_device, byte list option) state" where
  "windows_file_read W off n = State (\<lambda>d.
     if \<not> fd_open d \<or> fd_size d < off \<or> unat (fd_size d - off) < n then (None, d)
     else if n = 0 then (Some [], d)
     else let (r, s') = overlapped_read W off n (fd_os d) in (r, d\<lparr>fd_os := s'\<rparr>))"

definition windows_file_device :: "('o, 'x) overlapped_scheme \<Rightarrow> 'o file_device device" where
  "windows_file_device W =
     \<lparr>dev_size = fd_size, dev_name = fd_path, dev_characteristics = (\<lambda>_. default_characteristics),
      dev_read = windows_file_read W\<rparr>"

section \<open>Physical drives\<close>

datatype storage_property = Seek_penalty_property | Trim_property | Adapter_property

text \<open>The \<open>DeviceIoControl\<close> requests of a drive and their results: the bytes a property query returned
  with the one field the code reads of its descriptor, the identify sector, the length in bytes.\<close>

record 'o drive_system = "'o overlapped" +
  ds_query :: "storage_property \<Rightarrow> 'o \<Rightarrow> bool \<times> 'o"
  ds_query_result :: "'o \<Rightarrow> (nat \<times> u32) option \<times> 'o"
  ds_descriptor_size :: "storage_property \<Rightarrow> nat"
  ds_identify :: "'o \<Rightarrow> bool \<times> 'o"
  ds_identify_result :: "'o \<Rightarrow> byte list option \<times> 'o"
  ds_length :: "'o \<Rightarrow> bool \<times> 'o"
  ds_length_result :: "'o \<Rightarrow> int option \<times> 'o"
  ds_last_error :: "'o \<Rightarrow> u32"
  ds_create_file :: "string \<Rightarrow> 'o \<Rightarrow> bool \<times> 'o"
  ds_bus_ata :: u32
  ds_bus_sata :: u32
  ds_bus_usb :: u32

definition query_storage_property ::
  "('o, 'x) drive_system_scheme \<Rightarrow> storage_property \<Rightarrow> 'o \<Rightarrow> u32 option \<times> 'o" where
  "query_storage_property W property s =
     (let (valid, s1) = ov_create_event W s in
      if \<not> valid then (None, s1)
      else
        let (started, s2) = ds_query W property s1;
            (r, s3) = finish_overlapped (ov_pending W) (ds_query_result W) started s2
        in (case r of
              None \<Rightarrow> None
            | Some (returned, v) \<Rightarrow> if ds_descriptor_size W property \<le> returned then Some v else None, s3))"

definition rotation_rate_of :: "byte list \<Rightarrow> u16 option" where
  "rotation_rate_of identify =
     (let value = load_u16_le identify (217 * 2)
      in if value = 1 \<or> 0x0401 \<le> value \<and> value \<le> 0xFFFE then Some value else None)"

definition query_ata_rotation_rate :: "('o, 'x) drive_system_scheme \<Rightarrow> 'o \<Rightarrow> u16 option \<times> 'o" where
  "query_ata_rotation_rate W s =
     (let (valid, s1) = ov_create_event W s in
      if \<not> valid then (None, s1)
      else
        let (started, s2) = ds_identify W s1;
            (r, s3) = finish_overlapped (ov_pending W) (ds_identify_result W) started s2
        in (Option.bind r rotation_rate_of, s3))"

definition note_seek_penalty :: "u32 option \<Rightarrow> storage_characteristics \<Rightarrow> storage_characteristics" where
  "note_seek_penalty answer c =
     (case answer of
        None \<Rightarrow> c
      | Some v \<Rightarrow> c\<lparr>seek_penalty_known := True, incurs_seek_penalty := (v \<noteq> 0),
          media_class := (if v \<noteq> 0 then Media_rotational else Media_solid_state)\<rparr>)"

definition note_trim :: "u32 option \<Rightarrow> storage_characteristics \<Rightarrow> storage_characteristics" where
  "note_trim answer c =
     (case answer of None \<Rightarrow> c | Some v \<Rightarrow> c\<lparr>trim_known := True, trim_enabled := (v \<noteq> 0)\<rparr>)"

definition note_adapter :: "u32 option \<Rightarrow> storage_characteristics \<Rightarrow> storage_characteristics" where
  "note_adapter answer c = (case answer of None \<Rightarrow> c | Some v \<Rightarrow> c\<lparr>bus_type_known := True, bus_type := v\<rparr>)"

definition ata_like :: "('o, 'x) drive_system_scheme \<Rightarrow> storage_characteristics \<Rightarrow> bool" where
  "ata_like W c \<longleftrightarrow> \<not> bus_type_known c \<or> bus_type c = ds_bus_ata W \<or> bus_type c = ds_bus_sata W \<or>
     bus_type c = ds_bus_usb W"

definition note_rotation_rate :: "u16 option \<Rightarrow> storage_characteristics \<Rightarrow> storage_characteristics" where
  "note_rotation_rate answer c =
     (case answer of
        None \<Rightarrow> c
      | Some rate \<Rightarrow>
          let c' = c\<lparr>nominal_rotation_rate_known := True, nominal_rotation_rate := rate\<rparr>
          in if media_class c' = Media_unknown
             then c'\<lparr>media_class := (if rate = 1 then Media_solid_state else Media_rotational)\<rparr>
             else c')"

definition query_characteristics ::
  "('o, 'x) drive_system_scheme \<Rightarrow> 'o \<Rightarrow> storage_characteristics \<times> 'o" where
  "query_characteristics W s =
     (let (seek, s1) = query_storage_property W Seek_penalty_property s;
          c1 = note_seek_penalty seek default_characteristics;
          (trim, s2) = query_storage_property W Trim_property s1;
          c2 = note_trim trim c1;
          (adapter, s3) = query_storage_property W Adapter_property s2;
          c3 = note_adapter adapter c2
      in if ata_like W c3
         then let (rate, s4) = query_ata_rotation_rate W s3 in (note_rotation_rate rate c3, s4)
         else (c3, s3))"

record 'o physical_drive =
  pd_os :: 'o
  pd_handle :: bool
  pd_size :: u64
  pd_index :: nat
  pd_open_error :: u32
  pd_characteristics :: storage_characteristics

definition drive_path :: "nat \<Rightarrow> string" where
  "drive_path index = [CHR 0x5C, CHR 0x5C, CHR ''.'', CHR 0x5C] @ ''PhysicalDrive'' @ decimal index"

definition drive_open :: "('o, 'x) drive_system_scheme \<Rightarrow> nat \<Rightarrow> 'o \<Rightarrow> 'o physical_drive" where
  "drive_open W index s =
     (let drive = \<lparr>pd_os = s, pd_handle = False, pd_size = 0, pd_index = index, pd_open_error = 0,
                   pd_characteristics = default_characteristics\<rparr>;
          (opened, s1) = ds_create_file W (drive_path index) s
      in if \<not> opened then drive\<lparr>pd_os := s1, pd_open_error := ds_last_error W s1\<rparr>
         else
           let (valid, s2) = ov_create_event W s1
           in if \<not> valid then drive\<lparr>pd_os := s2, pd_handle := True, pd_open_error := ds_last_error W s2\<rparr>
              else
                let (started, s3) = ds_length W s2;
                    (r, s4) = finish_overlapped (ov_pending W) (ds_length_result W) started s3
                in case r of
                     None \<Rightarrow> drive\<lparr>pd_os := s4, pd_handle := True, pd_open_error := ds_last_error W s4\<rparr>
                   | Some len \<Rightarrow>
                       let (c, s5) = query_characteristics W s4
                       in drive\<lparr>pd_os := s5, pd_handle := True, pd_size := word_of_int len,
                            pd_open_error := 0, pd_characteristics := c\<rparr>)"

definition drive_is_open :: "'o physical_drive \<Rightarrow> bool" where
  "drive_is_open d \<longleftrightarrow> pd_handle d \<and> pd_size d \<noteq> 0"

definition drive_read ::
  "('o, 'x) overlapped_scheme \<Rightarrow> u64 \<Rightarrow> nat \<Rightarrow> ('o physical_drive, byte list option) state" where
  "drive_read W off n = State (\<lambda>d.
     if \<not> drive_is_open d \<or> pd_size d < off \<or> unat (pd_size d - off) < n then (None, d)
     else if n = 0 then (Some [], d)
     else let (r, s') = overlapped_read W off n (pd_os d) in (r, d\<lparr>pd_os := s'\<rparr>))"

definition drive_device :: "('o, 'x) overlapped_scheme \<Rightarrow> 'o physical_drive device" where
  "drive_device W =
     \<lparr>dev_size = pd_size, dev_name = (\<lambda>d. drive_path (pd_index d)), dev_characteristics = pd_characteristics,
      dev_read = drive_read W\<rparr>"

section \<open>What the system promises\<close>

text \<open>
  \<open>sound_transfer\<close>: a request inside the image transfers a prefix of the bytes asked for, or fails; the
  image never changes.  \<open>prompt_transfer u limit\<close>: a request of at most \<open>limit\<close> bytes that starts and ends at
  multiples of \<open>u\<close> (1 for a file, the sector size for a raw drive) transfers some of them, whole multiples
  of \<open>u\<close> again.
\<close>

definition sound_transfer :: "('o \<Rightarrow> bool) \<Rightarrow> ('o \<Rightarrow> image) \<Rightarrow> 'o transfer \<Rightarrow> bool" where
  "sound_transfer ok img T \<longleftrightarrow>
     (\<forall>s off n r s'. ok s \<longrightarrow> unat off + n \<le> unat (img_size (img s)) \<longrightarrow> run_state (T off n) s = (r, s') \<longrightarrow>
        ok s' \<and> img s' = img s \<and>
        (\<forall>bs. r = Some bs \<longrightarrow> length bs \<le> n \<and> bs = image_slice (img s) (unat off) (length bs)))"

definition prompt_transfer :: "('o \<Rightarrow> bool) \<Rightarrow> ('o \<Rightarrow> image) \<Rightarrow> nat \<Rightarrow> nat \<Rightarrow> 'o transfer \<Rightarrow> bool" where
  "prompt_transfer ok img u limit T \<longleftrightarrow>
     (\<forall>s off n. ok s \<longrightarrow> 0 < n \<longrightarrow> n \<le> limit \<longrightarrow> u dvd unat off \<longrightarrow> u dvd n \<longrightarrow>
        unat off + n \<le> unat (img_size (img s)) \<longrightarrow>
        (\<exists>bs. fst (run_state (T off n) s) = Some bs \<and> bs \<noteq> [] \<and> u dvd length bs))"

lemma sound_transferD:
  assumes "sound_transfer ok img T" "ok s" "unat off + n \<le> unat (img_size (img s))"
    and "run_state (T off n) s = (r, s')"
  shows "ok s'" "img s' = img s"
    and "r = Some bs \<Longrightarrow> length bs \<le> n \<and> bs = image_slice (img s) (unat off) (length bs)"
  using assms unfolding sound_transfer_def by blast+

lemma unat_add_inside:
  assumes "unat (a :: u64) + k \<le> unat (m :: u64)"
  shows "unat (a + of_nat k) = unat a + k"
proof -
  have "unat a + k < 2 ^ 64" using assms unsigned_less [where 'a = nat, of m] by simp
  then show ?thesis by (simp add: unat_word_ariths(1) unat_of_nat)
qed

lemma read_loop_step:
  "read_loop limit guard T a n s =
     (if n = 0 then (Some [], s)
      else if guard a then (None, s)
      else case run_state (T a (min n limit)) s of
        (None, s') \<Rightarrow> (None, s')
      | (Some bs, s') \<Rightarrow>
          if bs = [] then (None, s')
          else apfst (map_option ((@) bs)) (read_loop limit guard T (a + of_nat (length bs)) (n - length bs) s'))"
  by (subst read_loop.simps) (auto split: prod.splits option.splits)

lemma read_loop_sound:
  assumes T: "sound_transfer ok img T"
  shows "\<lbrakk>ok s; unat a + n \<le> unat (img_size (img s)); read_loop limit guard T a n s = (r, s')\<rbrakk> \<Longrightarrow>
    ok s' \<and> img s' = img s \<and> (\<forall>bs. r = Some bs \<longrightarrow> bs = image_slice (img s) (unat a) n)"
proof (induction n arbitrary: a s r rule: less_induct)
  case (less n)
  note inside = less.prems(2) and run = less.prems(3)
  show ?case
  proof (cases "n = 0 \<or> guard a")
    case True
    then show ?thesis using run less.prems(1) by (subst (asm) read_loop_step) (auto simp: image_slice_def split: if_splits)
  next
    case False
    obtain t s1 where t: "run_state (T a (min n limit)) s = (t, s1)" by fastforce
    have in': "unat a + min n limit \<le> unat (img_size (img s))" using inside by simp
    note d = sound_transferD [OF T less.prems(1) in' t]
    show ?thesis
    proof (cases "t = None \<or> t = Some []")
      case True
      then show ?thesis using run False t d by (subst (asm) read_loop_step) (auto split: option.splits)
    next
      case filled: False
      then obtain bs where bs: "t = Some bs" "bs \<noteq> []" by auto
      have len: "length bs \<le> min n limit" "bs = image_slice (img s) (unat a) (length bs)" using d(3) bs by auto
      have a': "unat (a + of_nat (length bs)) = unat a + length bs"
        by (rule unat_add_inside [of _ _ "img_size (img s)"]) (use inside len in simp)
      obtain r2 where rest: "read_loop limit guard T (a + of_nat (length bs)) (n - length bs) s1 = (r2, s')"
        and r: "r = map_option ((@) bs) r2"
        using run False t bs by (subst (asm) read_loop_step) (cases "read_loop limit guard T (a + of_nat (length bs)) (n - length bs) s1", auto)
      have *: "ok s' \<and> img s' = img s1 \<and> (\<forall>bs'. r2 = Some bs' \<longrightarrow>
          bs' = image_slice (img s1) (unat (a + of_nat (length bs))) (n - length bs))"
        by (rule less.IH [OF _ _ _ rest]) (use bs False d a' inside len in \<open>auto simp: d(2)\<close>)
      have whole: "image_slice (img s) (unat a) n = bs @ image_slice (img s) (unat a + length bs) (n - length bs)"
        using image_slice_append [of "img s" "unat a" "length bs" "n - length bs"] len by simp
      show ?thesis using * r whole d a' by auto
    qed
  qed
qed

lemma read_loop_total:
  assumes T: "sound_transfer ok img T" and P: "prompt_transfer ok img u limit T" and limit: "0 < limit"
  shows "\<lbrakk>ok s; unat a + n \<le> unat (img_size (img s)); u dvd unat a; u dvd n; n \<le> limit \<or> u dvd limit;
    \<And>b. unat b < unat (img_size (img s)) \<Longrightarrow> \<not> guard b\<rbrakk> \<Longrightarrow>
    fst (read_loop limit guard T a n s) \<noteq> None"
proof (induction n arbitrary: a s rule: less_induct)
  case (less n)
  show ?case
  proof (cases "n = 0")
    case True
    then show ?thesis by (subst read_loop_step) simp
  next
    case False
    have g: "\<not> guard a" using less.prems(2,6) False by simp
    obtain t s1 where t: "run_state (T a (min n limit)) s = (t, s1)" by fastforce
    have in': "unat a + min n limit \<le> unat (img_size (img s))" using less.prems by simp
    have u: "u dvd min n limit" using less.prems by (auto simp: min_def)
    note d = sound_transferD [OF T less.prems(1) in' t]
    obtain bs where bs: "t = Some bs" "bs \<noteq> []" "u dvd length bs"
      using P less.prems(1,3) in' u limit False t unfolding prompt_transfer_def
      by (metis fst_conv min.cobounded2 min_less_iff_conj neq0_conv)
    have len: "length bs \<le> min n limit" using d(3) bs by auto
    have a': "unat (a + of_nat (length bs)) = unat a + length bs"
      by (rule unat_add_inside [of _ _ "img_size (img s)"]) (use less.prems len in simp)
    have "fst (read_loop limit guard T (a + of_nat (length bs)) (n - length bs) s1) \<noteq> None"
      by (rule less.IH) (use bs d a' less.prems len False in \<open>auto simp: d(2)\<close>)
    then show ?thesis using False g t bs by (subst read_loop_step) simp
  qed
qed

text \<open>The two halves of an offset.\<close>

definition offset_of :: "u32 \<times> u32 \<Rightarrow> nat" where
  "offset_of h = unat (fst h) + 2 ^ 32 * unat (snd h)"

lemma offset_of_set_overlapped_offset: "offset_of (set_overlapped_offset off) = unat off"
proof -
  have lo: "off AND 0xFFFFFFFF = take_bit 32 off"
    by (simp add: take_bit_eq_mask mask_numeral)
  have "unat (ucast (take_bit 32 off) :: u32) = unat off mod 2 ^ 32"
    by (simp add: unsigned_ucast_eq unsigned_take_bit_eq) (simp add: take_bit_eq_mod)
  moreover have "unat (ucast (drop_bit 32 off) :: u32) = unat off div 2 ^ 32"
    using unat_u64_less [of off]
    by (simp add: unsigned_ucast_eq unsigned_drop_bit_eq) (simp add: drop_bit_eq_div take_bit_eq_mod)
  ultimately show ?thesis by (simp add: offset_of_def set_overlapped_offset_def lo)
qed

definition sound_overlapped :: "('o \<Rightarrow> bool) \<Rightarrow> ('o \<Rightarrow> image) \<Rightarrow> ('o, 'x) overlapped_scheme \<Rightarrow> bool" where
  "sound_overlapped ok img W \<longleftrightarrow>
     (\<forall>s v s'. ok s \<longrightarrow> ov_create_event W s = (v, s') \<longrightarrow> ok s' \<and> img s' = img s) \<and>
     (\<forall>s v s'. ok s \<longrightarrow> ov_reset_event W s = (v, s') \<longrightarrow> ok s' \<and> img s' = img s) \<and>
     (\<forall>s h n started s1. ok s \<longrightarrow> offset_of h + n \<le> unat (img_size (img s)) \<longrightarrow>
        ov_read_file W h n s = (started, s1) \<longrightarrow> ok s1 \<and> img s1 = img s \<and>
        (\<forall>r s2. started \<or> ov_pending W s1 \<longrightarrow> ov_result W s1 = (r, s2) \<longrightarrow> ok s2 \<and> img s2 = img s \<and>
           (\<forall>bs. r = Some bs \<longrightarrow> length bs \<le> n \<and> bs = image_slice (img s) (offset_of h) (length bs))))"

definition prompt_overlapped :: "('o \<Rightarrow> bool) \<Rightarrow> ('o \<Rightarrow> image) \<Rightarrow> nat \<Rightarrow> ('o, 'x) overlapped_scheme \<Rightarrow> bool" where
  "prompt_overlapped ok img u W \<longleftrightarrow>
     (\<forall>s. ok s \<longrightarrow> fst (ov_create_event W s) \<and> fst (ov_reset_event W s)) \<and>
     (\<forall>s h n started s1. ok s \<longrightarrow> 0 < n \<longrightarrow> u dvd offset_of h \<longrightarrow> u dvd n \<longrightarrow>
        offset_of h + n \<le> unat (img_size (img s)) \<longrightarrow> ov_read_file W h n s = (started, s1) \<longrightarrow>
        (started \<or> ov_pending W s1) \<and>
        (\<exists>bs. fst (ov_result W s1) = Some bs \<and> bs \<noteq> [] \<and> u dvd length bs))"

lemma overlapped_transfer_sound:
  assumes "sound_overlapped ok img W"
  shows "sound_transfer ok img (overlapped_transfer W)"
  unfolding sound_transfer_def
proof (intro allI impI)
  fix s and off :: u64 and n r s'
  assume ok: "ok s" and inside: "unat off + n \<le> unat (img_size (img s))"
    and run: "run_state (overlapped_transfer W off n) s = (r, s')"
  let ?h = "set_overlapped_offset off"
  obtain v s1 where reset: "ov_reset_event W s = (v, s1)" by fastforce
  obtain started s2 where started: "ov_read_file W ?h n s1 = (started, s2)" by fastforce
  obtain r2 s3 where result: "ov_result W s2 = (r2, s3)" by fastforce
  have 1: "ok s1 \<and> img s1 = img s" using assms ok reset unfolding sound_overlapped_def by blast
  have h: "offset_of ?h + n \<le> unat (img_size (img s1))"
    using inside 1 by (simp add: offset_of_set_overlapped_offset)
  have 2: "ok s2 \<and> img s2 = img s1" using assms 1 h started unfolding sound_overlapped_def by blast
  have 3: "started \<or> ov_pending W s2 \<Longrightarrow> ok s3 \<and> img s3 = img s1 \<and>
      (\<forall>bs. r2 = Some bs \<longrightarrow> length bs \<le> n \<and> bs = image_slice (img s1) (offset_of ?h) (length bs))"
    using assms 1 h started result unfolding sound_overlapped_def by blast
  show "ok s' \<and> img s' = img s \<and>
      (\<forall>bs. r = Some bs \<longrightarrow> length bs \<le> n \<and> bs = image_slice (img s) (unat off) (length bs))"
    using run 1 2 3 reset started result
    by (auto simp: overlapped_transfer_def finish_overlapped_def offset_of_set_overlapped_offset split: if_splits)
qed

lemma overlapped_transfer_prompt:
  assumes S: "sound_overlapped ok img W" and P: "prompt_overlapped ok img u W"
  shows "prompt_transfer ok img u limit (overlapped_transfer W)"
  unfolding prompt_transfer_def
proof (intro allI impI)
  fix s and off :: u64 and n
  assume ok: "ok s" and n: "0 < n" "n \<le> limit" "u dvd unat off" "u dvd n"
    and inside: "unat off + n \<le> unat (img_size (img s))"
  let ?h = "set_overlapped_offset off"
  obtain v s1 where reset: "ov_reset_event W s = (v, s1)" by fastforce
  obtain started s2 where started: "ov_read_file W ?h n s1 = (started, s2)" by fastforce
  have 1: "ok s1 \<and> img s1 = img s" using S ok reset unfolding sound_overlapped_def by blast
  have v: "v" using P ok reset unfolding prompt_overlapped_def by (metis fst_conv)
  have h: "offset_of ?h + n \<le> unat (img_size (img s1))" "u dvd offset_of ?h"
    using inside n 1 by (simp_all add: offset_of_set_overlapped_offset)
  have "(started \<or> ov_pending W s2) \<and> (\<exists>bs. fst (ov_result W s2) = Some bs \<and> bs \<noteq> [] \<and> u dvd length bs)"
    using P 1 n h started unfolding prompt_overlapped_def by blast
  then show "\<exists>bs. fst (run_state (overlapped_transfer W off n) s) = Some bs \<and> bs \<noteq> [] \<and> u dvd length bs"
    using reset v started by (auto simp: overlapped_transfer_def finish_overlapped_def)
qed

lemma overlapped_read_sound:
  assumes S: "sound_overlapped ok img W" and ok: "ok s" and inside: "unat off + n \<le> unat (img_size (img s))"
    and run: "overlapped_read W off n s = (r, s')"
  shows "ok s' \<and> img s' = img s \<and> (\<forall>bs. r = Some bs \<longrightarrow> bs = image_slice (img s) (unat off) n)"
proof -
  obtain v s1 where create: "ov_create_event W s = (v, s1)" by fastforce
  have 1: "ok s1 \<and> img s1 = img s" using S ok create unfolding sound_overlapped_def by blast
  have "read_loop 0xFFFFFFFF (\<lambda>_. False) (overlapped_transfer W) off n s1 = (r, s') \<Longrightarrow>
      ok s' \<and> img s' = img s1 \<and> (\<forall>bs. r = Some bs \<longrightarrow> bs = image_slice (img s1) (unat off) n)"
    by (rule read_loop_sound [OF overlapped_transfer_sound [OF S]]) (use 1 inside in auto)
  then show ?thesis using run create 1 by (auto simp: overlapped_read_def split: if_splits)
qed

lemma overlapped_read_total:
  assumes S: "sound_overlapped ok img W" and P: "prompt_overlapped ok img u W" and ok: "ok s"
    and inside: "unat off + n \<le> unat (img_size (img s))" and u: "u dvd unat off" "u dvd n"
    and n: "n \<le> 0xFFFFFFFF \<or> u dvd 0xFFFFFFFF"
  shows "fst (overlapped_read W off n s) \<noteq> None"
proof -
  obtain v s1 where create: "ov_create_event W s = (v, s1)" by fastforce
  have 1: "ok s1 \<and> img s1 = img s" using S ok create unfolding sound_overlapped_def by blast
  have v: "v" using P ok create unfolding prompt_overlapped_def by (metis fst_conv)
  have "fst (read_loop 0xFFFFFFFF (\<lambda>_. False) (overlapped_transfer W) off n s1) \<noteq> None"
    by (rule read_loop_total [OF overlapped_transfer_sound [OF S] overlapped_transfer_prompt [OF S P]])
      (use 1 inside u n in auto)
  then show ?thesis using create v by (simp add: overlapped_read_def)
qed

section \<open>The devices keep the contract\<close>

definition file_ok :: "('o \<Rightarrow> bool) \<Rightarrow> ('o \<Rightarrow> image) \<Rightarrow> u64 \<Rightarrow> 'o file_device \<Rightarrow> bool" where
  "file_ok ok img off_max d \<longleftrightarrow>
     fd_open d \<and> ok (fd_os d) \<and> fd_size d = img_size (img (fd_os d)) \<and> fd_size d \<le> off_max"

definition drive_ok :: "('o \<Rightarrow> bool) \<Rightarrow> ('o \<Rightarrow> image) \<Rightarrow> 'o physical_drive \<Rightarrow> bool" where
  "drive_ok ok img d \<longleftrightarrow> pd_handle d \<and> ok (pd_os d) \<and> pd_size d = img_size (img (pd_os d))"

lemma in_range_nat: "\<not> (m < off \<or> unat (m - off) < n) \<longleftrightarrow> unat off + n \<le> unat (m :: u64)"
  by (auto simp: word_less_nat_alt unat_sub_if_size not_less)

lemma posix_read_inside:
  assumes "fd_open d" "fd_size d \<le> px_off_max P" "unat off + n \<le> unat (fd_size d)"
  shows "run_state (posix_read P off n) d =
    (if n = 0 then (Some [], d)
     else let (r, s') = read_loop (px_ssize_max P) (\<lambda>a. px_off_max P < a) (px_pread P) off n (fd_os d)
          in (r, d\<lparr>fd_os := s'\<rparr>))"
proof -
  have "\<not> px_off_max P < off" using assms by (auto simp: word_less_nat_alt word_le_nat_alt)
  then show ?thesis using assms(1,3) in_range_nat [of "fd_size d" off n] by (simp add: posix_read_def)
qed

lemma posix_device_sound:
  assumes T: "sound_transfer ok img (px_pread P)"
  shows "block_device (posix_device P) (file_ok ok img (px_off_max P)) (\<lambda>d. img (fd_os d))"
proof (rule block_deviceI)
  fix d off n r d'
  assume d: "file_ok ok img (px_off_max P) d" and "run_state (dev_read (posix_device P) off n) d = (r, d')"
  then have run: "run_state (posix_read P off n) d = (r, d')" by (simp add: posix_device_def)
  note ok = d [unfolded file_ok_def]
  show "file_ok ok img (px_off_max P) d' \<and> img (fd_os d') = img (fd_os d) \<and>
    (\<forall>bs. r = Some bs \<longrightarrow> in_image (img (fd_os d)) off n \<and> bs = image_slice (img (fd_os d)) (unat off) n)"
  proof (cases "unat off + n \<le> unat (fd_size d)")
    case False
    then show ?thesis using run d in_range_nat [of "fd_size d" off n] by (auto simp: posix_read_def)
  next
    case True
    obtain r' s' where loop:
      "read_loop (px_ssize_max P) (\<lambda>a. px_off_max P < a) (px_pread P) off n (fd_os d) = (r', s')" by fastforce
    have sound: "ok s' \<and> img s' = img (fd_os d) \<and> (\<forall>bs. r' = Some bs \<longrightarrow> bs = image_slice (img (fd_os d)) (unat off) n)"
      by (rule read_loop_sound [OF T _ _ loop]) (use ok True in auto)
    show ?thesis
      using run posix_read_inside [of d P off n] ok True loop sound
      by (cases "n = 0") (auto simp: file_ok_def in_image_nat image_slice_def)
  qed
qed (simp add: posix_device_def file_ok_def)

lemma posix_device_reliable:
  assumes T: "sound_transfer ok img (px_pread P)" and P: "prompt_transfer ok img 1 (px_ssize_max P) (px_pread P)"
    and limit: "0 < px_ssize_max P"
  shows "reliable_device (posix_device P) (file_ok ok img (px_off_max P)) (\<lambda>d. img (fd_os d))"
proof (rule reliable_deviceI [OF posix_device_sound [OF T]])
  fix d off n
  assume d: "file_ok ok img (px_off_max P) d" and "in_image (img (fd_os d)) off n"
  then have in': "unat off + n \<le> unat (fd_size d)" by (simp add: in_image_nat file_ok_def)
  note ok = d [unfolded file_ok_def]
  have guard: "\<not> px_off_max P < b" if "unat b < unat (img_size (img (fd_os d)))" for b
    using that ok by (auto simp: word_less_nat_alt word_le_nat_alt)
  have "fst (read_loop (px_ssize_max P) (\<lambda>a. px_off_max P < a) (px_pread P) off n (fd_os d)) \<noteq> None"
    by (rule read_loop_total [OF T P limit]) (use ok in' guard in auto)
  then show "fst (run_state (dev_read (posix_device P) off n) d) \<noteq> None"
    using posix_read_inside [of d P off n] ok in' by (auto simp: posix_device_def split: prod.splits)
qed

lemma windows_file_device_sound:
  assumes S: "sound_overlapped ok img W"
  shows "block_device (windows_file_device W) (file_ok ok img m) (\<lambda>d. img (fd_os d))"
proof (rule block_deviceI)
  fix d off n r d'
  assume d: "file_ok ok img m d" and "run_state (dev_read (windows_file_device W) off n) d = (r, d')"
  then have run: "run_state (windows_file_read W off n) d = (r, d')" by (simp add: windows_file_device_def)
  obtain r' s' where o': "overlapped_read W off n (fd_os d) = (r', s')" by fastforce
  have "unat off + n \<le> unat (fd_size d) \<Longrightarrow> ok s' \<and> img s' = img (fd_os d) \<and>
      (\<forall>bs. r' = Some bs \<longrightarrow> bs = image_slice (img (fd_os d)) (unat off) n)"
    by (rule overlapped_read_sound [OF S _ _ o']) (use d in \<open>auto simp: file_ok_def\<close>)
  then show "file_ok ok img m d' \<and> img (fd_os d') = img (fd_os d) \<and>
    (\<forall>bs. r = Some bs \<longrightarrow> in_image (img (fd_os d)) off n \<and> bs = image_slice (img (fd_os d)) (unat off) n)"
    using run d o' in_range_nat [of "fd_size d" off n]
    by (auto simp: windows_file_read_def file_ok_def in_image_nat image_slice_def split: if_splits)
qed (simp add: windows_file_device_def file_ok_def)

lemma windows_file_device_reliable:
  assumes S: "sound_overlapped ok img W" and P: "prompt_overlapped ok img 1 W"
  shows "reliable_device (windows_file_device W) (file_ok ok img m) (\<lambda>d. img (fd_os d))"
proof (rule reliable_deviceI [OF windows_file_device_sound [OF S]])
  fix d off n
  assume d: "file_ok ok img m d" and "in_image (img (fd_os d)) off n"
  then have in': "unat off + n \<le> unat (fd_size d)" by (simp add: in_image_nat file_ok_def)
  have "fst (overlapped_read W off n (fd_os d)) \<noteq> None"
    by (rule overlapped_read_total [OF S P]) (use d in' in \<open>auto simp: file_ok_def\<close>)
  then show "fst (run_state (dev_read (windows_file_device W) off n) d) \<noteq> None"
    using d in' in_range_nat [of "fd_size d" off n]
    by (auto simp: windows_file_device_def windows_file_read_def file_ok_def split: prod.splits)
qed

lemma drive_device_sound:
  assumes S: "sound_overlapped ok img W"
  shows "block_device (drive_device W) (drive_ok ok img) (\<lambda>d. img (pd_os d))"
proof (rule block_deviceI)
  fix d off n r d'
  assume d: "drive_ok ok img d" and "run_state (dev_read (drive_device W) off n) d = (r, d')"
  then have run: "run_state (drive_read W off n) d = (r, d')" by (simp add: drive_device_def)
  obtain r' s' where o': "overlapped_read W off n (pd_os d) = (r', s')" by fastforce
  have "unat off + n \<le> unat (pd_size d) \<Longrightarrow> ok s' \<and> img s' = img (pd_os d) \<and>
      (\<forall>bs. r' = Some bs \<longrightarrow> bs = image_slice (img (pd_os d)) (unat off) n)"
    by (rule overlapped_read_sound [OF S _ _ o']) (use d in \<open>auto simp: drive_ok_def\<close>)
  then show "drive_ok ok img d' \<and> img (pd_os d') = img (pd_os d) \<and>
    (\<forall>bs. r = Some bs \<longrightarrow> in_image (img (pd_os d)) off n \<and> bs = image_slice (img (pd_os d)) (unat off) n)"
    using run d o' in_range_nat [of "pd_size d" off n]
    by (auto simp: drive_read_def drive_ok_def in_image_nat image_slice_def split: if_splits)
qed (simp add: drive_device_def drive_ok_def)

lemma drive_read_total:
  assumes S: "sound_overlapped ok img W" and P: "prompt_overlapped ok img u W"
    and d: "drive_ok ok img d" "drive_is_open d" and inside: "in_image (img (pd_os d)) off n"
    and u: "u dvd unat off" "u dvd n" and n: "n \<le> 0xFFFFFFFF"
  shows "fst (run_state (drive_read W off n) d) \<noteq> None"
proof -
  have in': "unat off + n \<le> unat (pd_size d)" using inside d(1) by (simp add: in_image_nat drive_ok_def)
  have "fst (overlapped_read W off n (pd_os d)) \<noteq> None"
    by (rule overlapped_read_total [OF S P]) (use d in' u n in \<open>auto simp: drive_ok_def\<close>)
  then show ?thesis
    using d in' in_range_nat [of "pd_size d" off n]
    by (auto simp: drive_read_def split: prod.splits)
qed

text \<open>A failed constructor leaves a device that answers no read: \<open>is_open\<close> is false.\<close>

lemma closed_file_reads_nothing:
  "\<not> fd_open d \<Longrightarrow> fst (run_state (dev_read (posix_device P) off n) d) = None"
  "\<not> fd_open d \<Longrightarrow> fst (run_state (dev_read (windows_file_device W) off n) d) = None"
  by (simp_all add: posix_device_def posix_read_def windows_file_device_def windows_file_read_def)

lemma posix_open_ok:
  assumes "\<And>s v s'. ok0 s \<Longrightarrow> px_open P path s = (v, s') \<Longrightarrow> v \<Longrightarrow> ok s'"
    and "\<And>s r s'. ok s \<Longrightarrow> px_fstat P s = (r, s') \<Longrightarrow> ok s' \<and>
      (\<forall>len. r = Some len \<longrightarrow> 0 \<le> len \<longrightarrow> len = uint (img_size (img s')) \<and> len \<le> uint (px_off_max P))"
    and "ok0 s" "fd_open (posix_open P path s)"
  shows "file_ok ok img (px_off_max P) (posix_open P path s)"
proof -
  obtain v s1 where o: "px_open P path s = (v, s1)" by fastforce
  with assms(4) have v: "v" by (auto simp: posix_open_def split: if_splits)
  have s1: "ok s1" using assms(1) [OF assms(3) o v] .
  obtain r s2 where f: "px_fstat P s1 = (r, s2)" by fastforce
  with o v assms(4) obtain len where len: "r = Some len" "0 \<le> len"
    by (auto simp: posix_open_def split: option.splits if_splits)
  with assms(2) [OF s1 f] o v f show ?thesis
    by (simp add: posix_open_def file_ok_def word_le_def)
qed

end
