(* ===== verification/SectorReads.thy ===== *)
theory SectorReads
  imports SessionSpec HostBackends
begin

text \<open>
  The sector discipline of the stack: a raw drive refuses a read that does not start and end on a
  sector, and this theory shows that the session never makes one.  It compares every operation over
  a device with the same operation over the device that refuses such reads.
\<close>

section \<open>Devices that refuse unaligned reads\<close>

text \<open>What the parsers ask of their source: whole sectors, at most 64 KiB at once.\<close>

definition aligned_request :: "u64 \<Rightarrow> nat \<Rightarrow> bool" where
  "aligned_request off n \<longleftrightarrow> 512 dvd unat off \<and> 512 dvd n \<and> n \<le> 65536"

definition sector_device :: "'s device \<Rightarrow> 's device" where
  "sector_device D = D\<lparr>dev_read := \<lambda>off n. if aligned_request off n then dev_read D off n else ret None\<rparr>"

text \<open>What the wrappers ask of theirs: at most \<open>limit\<close> bytes, starting on a sector and ending on a sector or at the
  end of the device.  A device that ends inside a sector gets requests for its partial last sector, which a
  raw drive would refuse; a raw drive consists of whole sectors, and there every bounded request is one for whole
  sectors.\<close>

definition bounded_request :: "nat \<Rightarrow> u64 \<Rightarrow> u64 \<Rightarrow> nat \<Rightarrow> bool" where
  "bounded_request limit len off n \<longleftrightarrow>
     512 dvd unat off \<and> n \<le> limit \<and> (512 dvd n \<or> unat off + n = unat len)"

definition bounded_device :: "nat \<Rightarrow> 's device \<Rightarrow> 's device" where
  "bounded_device limit D = D\<lparr>dev_read := \<lambda>off n. State (\<lambda>s.
     if bounded_request limit (dev_size D s) off n then run_state (dev_read D off n) s else (None, s))\<rparr>"

named_theorems sector_simps

lemma aligned_bounded: "aligned_request off n \<Longrightarrow> bounded_request 65536 len off n"
  by (simp add: aligned_request_def bounded_request_def)

lemma sector_device_read:
  "dev_read (sector_device D) off n = (if aligned_request off n then dev_read D off n else ret None)"
  by (simp add: sector_device_def)

lemma sector_device_size [simp]: "dev_size (sector_device D) = dev_size D"
  by (simp add: sector_device_def)

lemma sector_size_bytes [sector_simps]: "size_bytes (sector_device D) = size_bytes D"
  by (simp add: size_bytes_def)

lemma bounded_device_size [simp]: "dev_size (bounded_device limit D) = dev_size D"
  by (simp add: bounded_device_def)

lemma bounded_device_read:
  "bounded_request limit (dev_size D s) off n \<Longrightarrow>
   run_state (dev_read (bounded_device limit D) off n) s = run_state (dev_read D off n) s"
  by (simp add: bounded_device_def)

lemma sector_deviceI:
  assumes "dev_size D = dev_size E" "dev_name D = dev_name E" "dev_characteristics D = dev_characteristics E"
    and "\<And>off n. aligned_request off n \<Longrightarrow> dev_read D off n = dev_read E off n"
  shows "sector_device D = sector_device E"
  using assms by (intro device.equality ext) (auto simp: sector_device_def)

lemma bounded_deviceI:
  assumes "dev_size D = dev_size E" "dev_name D = dev_name E" "dev_characteristics D = dev_characteristics E"
    and "\<And>s off n. bounded_request limit (dev_size E s) off n \<Longrightarrow>
      run_state (dev_read D off n) s = run_state (dev_read E off n) s"
  shows "bounded_device limit D = bounded_device limit E"
  using assms by (intro device.equality ext) (auto simp: bounded_device_def)

lemma sector_of_bounded: "sector_device (bounded_device 65536 D) = sector_device D"
proof (rule sector_deviceI)
  fix off :: u64 and n
  assume "aligned_request off n"
  then have "bounded_request 65536 (dev_size D s) off n" for s by (rule aligned_bounded)
  then show "dev_read (bounded_device 65536 D) off n = dev_read D off n"
    by (simp add: bounded_device_def)
qed (simp_all add: bounded_device_def)

section \<open>The stack keeps requests on sectors\<close>

lemma bounded_ib: "bounded_device limit (ib_device now (bounded_device limit D)) = bounded_device limit (ib_device now D)"
  by (rule bounded_deviceI) (auto simp: ib_device_def ib_read_def ib_begin_def bounded_device_read Let_def
      bounded_device_def split: prod.splits)

lemma ra_bounded:
  "bounded_device 65536 (ra_device (bounded_device 0xFFFFFFFF D)) = bounded_device 65536 (ra_device D)"
proof (rule bounded_deviceI)
  fix st off n
  assume "bounded_request 65536 (dev_size (ra_device D) st) off n"
  then have r: "bounded_request 65536 (dev_size D (ra_inner st)) off n" by (simp add: ra_device_def)
  then have pass: "bounded_request 0xFFFFFFFF (dev_size D (ra_inner (count_miss st))) off n"
    by (simp add: bounded_request_def ra_bookkeeping Let_def)
  have pre: "bounded_request 0xFFFFFFFF (dev_size D (ra_inner (count_miss st))) off
      (min (unat (dev_size D (ra_inner st) - off)) (n + kLookAheadBytes))" if "\<not> dev_size D (ra_inner st) < off"
  proof -
    have "unat (dev_size D (ra_inner st) - off) = unat (dev_size D (ra_inner st)) - unat off"
      "unat off \<le> unat (dev_size D (ra_inner st))"
      using that by (simp_all add: unat_sub word_le_nat_alt not_less)
    with r show ?thesis
      by (auto simp: bounded_request_def ra_bookkeeping Let_def kLookAheadBytes_def min_def)
  qed
  show "run_state (dev_read (ra_device (bounded_device 0xFFFFFFFF D)) off n) st =
      run_state (dev_read (ra_device D) off n) st"
    using bounded_device_read [OF pass] bounded_device_read [OF pre]
    by (auto simp: ra_device_def ra_read_def pass_through_def prefetch_def Let_def split: option.splits)
qed (simp_all add: ra_device_def bounded_device_def)

lemma rc_bounded: "sector_device (rc_device (bounded_device 65536 D)) = sector_device (rc_device D)"
proof (rule sector_deviceI)
  fix off :: u64 and n
  assume a: "aligned_request off n"
  have page: "bounded_request 65536 (dev_size D s) (page_start_of off)
      (min kPageSize (unat (dev_size D s - page_start_of off)))" if "\<not> dev_size D s < off" for s
  proof -
    have le: "page_start_of off \<le> off" "512 dvd unat (page_start_of off)"
      by (simp_all add: word_le_nat_alt page_arith kPageSize_def dvd_mult)
    then have "page_start_of off \<le> dev_size D s" using that by simp
    then have "unat (dev_size D s - page_start_of off) = unat (dev_size D s) - unat (page_start_of off)"
      "unat (page_start_of off) \<le> unat (dev_size D s)"
      by (simp_all add: unat_sub word_le_nat_alt)
    with le show ?thesis by (auto simp: bounded_request_def kPageSize_def min_def)
  qed
  show "dev_read (rc_device (bounded_device 65536 D)) off n = dev_read (rc_device D) off n"
    using bounded_device_read [OF aligned_bounded [OF a], where D = D] bounded_device_read [OF page]
    by (auto simp: rc_device_def rc_read_def rc_fill_def load_page_def rc_count_bypass_def rc_count_miss_def Let_def
        intro!: ext split: option.splits)
qed (simp_all add: rc_device_def bounded_device_def)

text \<open>On aligned requests, the stack over a device that refuses unaligned reads is the stack over the
  device.\<close>

lemma sector_stack: "sector_device (stack_device now (bounded_device 0xFFFFFFFF D)) = sector_device (stack_device now D)"
proof -
  have "bounded_device 65536 (ra_device (ib_device now (bounded_device 0xFFFFFFFF D))) =
      bounded_device 65536 (ra_device (ib_device now D))"
    by (metis bounded_ib ra_bounded)
  then show ?thesis by (metis rc_bounded stack_device_def)
qed

section \<open>The parsers read whole sectors\<close>

text \<open>The one read of the APA scanner: a header.\<close>

lemma aligned_header: "aligned_request (sector_offset lba) kHeaderSize"
  by (simp add: aligned_request_def kHeaderSize_def kSectorSize_def)

lemma sector_read_header [sector_simps]: "read_header (sector_device D) lba = read_header D lba"
  by (simp add: read_header_def sector_simps sector_device_read aligned_header cong: if_cong)

lemma sector_load_linked_header [sector_simps]: "load_linked_header (sector_device D) lba = load_linked_header D lba"
  by (simp add: load_linked_header_def sector_simps Let_def cong: if_cong option.case_cong)

lemma sector_scan_loop [sector_simps]:
  "scan_loop (sector_device D) k first visited lba prev h r = scan_loop D k first visited lba prev h r"
  by (induction k arbitrary: first visited lba prev h r) (simp_all add: sector_simps Let_def cong: if_cong)

lemma sector_scan [sector_simps]: "scan (sector_device D) m = scan D m"
  by (simp add: scan_def sector_simps Let_def cong: if_cong option.case_cong)

text \<open>The one read of the volumes: at most 128 sectors.\<close>

lemma sector_read_sectors:
  assumes "unat cnt \<le> 128"
  shows "read_sectors (sector_device D) v sub sector cnt n = read_sectors D v sub sector cnt n"
proof -
  have "aligned_request (sector_addr e sector) (unat cnt * 512)" for e
    using assms by (simp add: aligned_request_def unat_sector_addr)
  then show ?thesis by (simp add: read_sectors_eq sector_device_read)
qed

lemma sector_read_super [sector_simps]: "read_super (sector_device D) v sector = read_super D v sector"
  by (simp add: read_super_def sector_read_sectors)

lemma sector_probe [sector_simps]: "probe (sector_device D) v = probe D v"
  by (simp add: probe_def check_backup_def sector_simps Let_def cong: if_cong option.case_cong)

lemma sector_read_metadata [sector_simps]:
  "read_metadata (sector_device D) rd loc a b c = read_metadata D rd loc a b c"
  by (simp add: read_metadata_def sector_read_sectors kMetadataSize_def kSectorSize_def Let_def cong: if_cong option.case_cong)

lemma sector_read_inode [sector_simps]: "read_inode (sector_device D) rd loc = read_inode D rd loc"
  by (simp add: read_inode_def sector_simps Let_def cong: if_cong option.case_cong)

lemma sector_read_root [sector_simps]: "read_root (sector_device D) rd = read_root D rd"
  by (simp add: read_root_def sector_simps Let_def cong: if_cong option.case_cong)

lemma sector_read_segment_descriptor [sector_simps]:
  "read_segment_descriptor (sector_device D) rd loc = read_segment_descriptor D rd loc"
  by (simp add: read_segment_descriptor_def sector_simps Let_def cong: if_cong option.case_cong)

lemma unat_batch: "unat (of_nat (min k 128) :: u32) \<le> 128"
  by (simp add: unat_of_nat min_def)

lemma sector_zone_loop [sector_simps]:
  "zone_loop (sector_device D) rd sub base pos n = zone_loop D rd sub base pos n"
proof (induction D rd sub base pos n rule: zone_loop.induct)
  case (1 D rd sub base pos n)
  show ?case
    by (subst (1 2) zone_loop.simps)
      (use 1 in \<open>simp add: sector_read_sectors [OF unat_batch] sector_read_sectors Let_def cong: if_cong\<close>)
qed

lemma sector_read_zone_bytes [sector_simps]:
  "read_zone_bytes (sector_device D) rd block off n = read_zone_bytes D rd block off n"
  by (simp add: read_zone_bytes_def sector_simps Let_def cong: if_cong option.case_cong)

lemma sector_collect_runs [sector_simps]:
  "collect_runs add (sector_device D) rd i off re k g l ind nx sl runs = collect_runs add D rd i off re k g l ind nx sl runs"
  by (induction k arbitrary: g l ind nx sl runs)
    (simp_all add: sector_simps Let_def cong: if_cong option.case_cong)

lemma sector_serve_runs [sector_simps]: "serve_runs (sector_device D) rd runs pos left = serve_runs D rd runs pos left"
  by (induction runs arbitrary: pos left) (simp_all add: sector_simps Let_def cong: if_cong)

lemma sector_pfs_read [sector_simps]: "pfs_read (sector_device D) rd node off n = pfs_read D rd node off n"
  by (simp add: pfs_read_def read_with_def sector_simps Let_def cong: if_cong)

lemma sector_list_directory [sector_simps]: "list_directory (sector_device D) rd node dots = list_directory D rd node dots"
  by (simp add: list_directory_def sector_simps Let_def cong: if_cong option.case_cong)

lemma sector_resolve_from [sector_simps]: "resolve_from (sector_device D) rd node path = resolve_from D rd node path"
proof (induction D rd node path rule: resolve_from.induct)
  case (1 D rd node path)
  show ?case
    by (subst (1 2) resolve_from.simps) (use 1 in \<open>simp add: sector_simps Let_def cong: if_cong option.case_cong\<close>)
qed

lemma sector_resolve [sector_simps]: "resolve (sector_device D) rd path = resolve D rd path"
  by (simp add: resolve_def sector_simps)

lemma sector_read_children [sector_simps]: "read_children (sector_device D) rd es = read_children D rd es"
  by (induction es) (simp_all add: sector_simps)

lemma sector_browse_directory [sector_simps]: "browse_directory (sector_device D) rd path = browse_directory D rd path"
  by (simp add: browse_directory_def sector_simps cong: if_cong sum.case_cong)

section \<open>The export and the session\<close>

lemma sector_export_chunks [sector_simps]:
  "export_chunks (sector_device D) host rd node path dst off n = export_chunks D host rd node path dst off n"
proof (induction D host rd node path dst off n rule: export_chunks.induct)
  case (1 D host rd node path dst off n)
  show ?case
    by (subst (1 2) export_chunks.simps) (use 1 in \<open>simp add: sector_simps Let_def cong: if_cong sum.case_cong option.case_cong\<close>)
qed

lemma sector_export_file [sector_simps]:
  "export_file (sector_device D) host rd node path dst = export_file D host rd node path dst"
  by (simp add: export_file_def sector_simps cong: if_cong option.case_cong)

lemma sector_export_entries [sector_simps]:
  "export_entries child (sector_device D) rd path dst used es = export_entries child D rd path dst used es"
  by (induction es arbitrary: used) (simp_all add: sector_simps Let_def cong: if_cong sum.case_cong)

lemma sector_export_directory [sector_simps]:
  "export_directory child (sector_device D) host rd node path dst = export_directory child D host rd node path dst"
  by (simp add: export_directory_def sector_simps Let_def cong: option.case_cong sum.case_cong)

lemma sector_export_node [sector_simps]:
  "export_node k (sector_device D) host rd node path dst = export_node k D host rd node path dst"
proof (induction k arbitrary: node path dst)
  case (Suc k)
  then have "export_node k (sector_device D) host rd = export_node k D host rd" by (intro ext)
  then show ?case by (simp add: sector_simps Let_def cong: if_cong)
qed simp

lemma sector_pfs_export_to_host [sector_simps]:
  "pfs_export_to_host (sector_device D) host rd src dst = pfs_export_to_host D host rd src dst"
  by (simp add: pfs_export_to_host_def sector_simps cong: sum.case_cong)

text \<open>An operation that only makes aligned requests cannot tell the stack over a device from the stack
  over its bounded version.\<close>

lemma over_stack:
  fixes f :: "'s stack device \<Rightarrow> 'a"
  assumes "\<And>S. f (sector_device S) = f S"
  shows "f (stack_device now (bounded_device 0xFFFFFFFF D)) = f (stack_device now D)"
  by (metis assms sector_stack)

lemmas stack_simps =
  over_stack [where f = "\<lambda>S. scan S m" for m, OF sector_scan]
  over_stack [where f = "\<lambda>S. probe S v" for v, OF sector_probe]
  over_stack [where f = "\<lambda>S. resolve S rd path" for rd path, OF sector_resolve]
  over_stack [where f = "\<lambda>S. browse_directory S rd path" for rd path, OF sector_browse_directory]
  over_stack [where f = "\<lambda>S. pfs_read S rd node off n" for rd node off n, OF sector_pfs_read]
  over_stack [where f = "\<lambda>S. pfs_export_to_host S host rd src dst" for host rd src dst, OF sector_pfs_export_to_host]

abbreviation raw :: "'s device \<Rightarrow> 's device" where
  "raw \<equiv> bounded_device 0xFFFFFFFF"

lemma bounded_open_partition: "open_partition now (raw D) pid = open_partition now D pid"
  by (simp add: open_partition_def probe_for_def stack_simps cong: if_cong option.case_cong)

lemma bounded_cached_node: "cached_node now (raw D) rd key path = cached_node now D rd key path"
  by (simp add: cached_node_def stack_simps cong: option.case_cong)

lemma bounded_perform: "perform now (raw D) r ss = perform now D r ss"
proof (cases r)
  case Scan_request
  then show ?thesis by (simp add: session_scan_def stack_simps)
next
  case (Browse_request pid path)
  then show ?thesis by (simp add: browse_def stack_simps bounded_open_partition Let_def cong: option.case_cong)
next
  case (Stat_request pid path)
  then show ?thesis by (simp add: session_stat_def stack_simps bounded_open_partition Let_def cong: option.case_cong)
next
  case (Read_request pid path off n)
  then show ?thesis
    by (simp add: read_file_def stack_simps bounded_open_partition bounded_cached_node Let_def cong: if_cong)
next
  case (Export_request host pid path dest)
  then show ?thesis
    by (simp add: session_export_def stack_simps bounded_open_partition Let_def cong: sum.case_cong)
qed simp_all

section \<open>Sessions over the host's devices\<close>

text \<open>The device that refuses every request but those for whole sectors, as a raw drive does.\<close>

definition whole_device :: "nat \<Rightarrow> 's device \<Rightarrow> 's device" where
  "whole_device limit D = D\<lparr>dev_read := \<lambda>off n.
     if 512 dvd unat off \<and> 512 dvd n \<and> n \<le> limit then dev_read D off n else ret None\<rparr>"

lemma whole_device_bounded:
  assumes "\<And>s. 512 dvd unat (dev_size D s)"
  shows "whole_device limit D = bounded_device limit D"
proof -
  have "bounded_request limit (dev_size D s) off n \<longleftrightarrow> 512 dvd unat off \<and> 512 dvd n \<and> n \<le> limit" for s off n
    using assms [of s] dvd_add_right_iff [of 512 "unat off" n] by (auto simp: bounded_request_def)
  then have "(if 512 dvd unat off \<and> 512 dvd n \<and> n \<le> limit then dev_read D off n else ret None) =
      State (\<lambda>s. if bounded_request limit (dev_size D s) off n then run_state (dev_read D off n) s else (None, s))" for off n
    by (cases "512 dvd unat off \<and> 512 dvd n \<and> n \<le> limit"; cases "dev_read D off n")
      (auto simp: State_Monad.return_def fun_eq_iff)
  then show ?thesis by (simp add: whole_device_def bounded_device_def)
qed

text \<open>C6: The session never makes a read that a raw drive would refuse.  Over any device, every scan, browse,
  stat, read and export returns what it returns over the device itself, and leaves the same session
  behind, when the device fails every
  read that does not start on a sector, ends neither on a sector nor at the end of the device, or is longer
  than a 32-bit count.  On a device that consists of whole sectors the same holds when it fails every read that does
  not start and end on a sector or is longer than a 32-bit count.\<close>

theorem session_reads_whole_sectors:
  "perform now (bounded_device 0xFFFFFFFF D) r ss = perform now D r ss \<and>
   ((\<forall>s. 512 dvd unat (dev_size D s)) \<longrightarrow>
      perform now (whole_device 0xFFFFFFFF D) r ss = perform now D r ss)"
  using whole_device_bounded [of D] bounded_perform [of now D r ss] by simp

text \<open>A device that answers every bounded request, completed to one that answers every request.\<close>

definition completed :: "('s \<Rightarrow> image) \<Rightarrow> 's device \<Rightarrow> 's device" where
  "completed img D = D\<lparr>dev_read := \<lambda>off n. State (\<lambda>s.
     if bounded_request 0xFFFFFFFF (dev_size D s) off n then run_state (dev_read D off n) s
     else (if in_image (img s) off n then Some (image_slice (img s) (unat off) n) else None, s))\<rparr>"

lemma bounded_completed: "raw (completed img D) = raw D"
  by (rule bounded_deviceI) (simp_all add: completed_def)

lemma completed_reliable:
  assumes D: "block_device D ok img"
    and total: "\<And>s off n. \<lbrakk>ok s; in_image (img s) off n; bounded_request 0xFFFFFFFF (dev_size D s) off n\<rbrakk> \<Longrightarrow>
      fst (run_state (dev_read D off n) s) \<noteq> None"
  shows "reliable_device (completed img D) ok img"
proof -
  note read_keeps = block_device.read_keeps [OF D] and read_sound = block_device.read_sound [OF D]
    and size_law = block_device.size_law [OF D]
  show ?thesis
  proof (rule reliable_deviceI, rule block_deviceI)
    fix s off n r s'
    assume "ok s" "run_state (dev_read (completed img D) off n) s = (r, s')"
    then show "ok s' \<and> img s' = img s \<and>
        (\<forall>bs. r = Some bs \<longrightarrow> in_image (img s) off n \<and> bs = image_slice (img s) (unat off) n)"
      using read_keeps [of s off n] read_sound [of s off n]
      by (auto simp: completed_def split: if_splits)
  next
    fix s off n
    assume "ok s" "in_image (img s) off n"
    then show "fst (run_state (dev_read (completed img D) off n) s) \<noteq> None"
      using total by (auto simp: completed_def)
  qed (simp add: completed_def size_law)
qed

lemma session_over_bounded:
  assumes D: "block_device D ok img"
    and total: "\<And>s off n. \<lbrakk>ok s; in_image (img s) off n; bounded_request 0xFFFFFFFF (dev_size D s) off n\<rbrakk> \<Longrightarrow>
      fst (run_state (dev_read D off n) s) \<noteq> None"
    and s: "ok s" and rs: "list_all plain_request rs"
    and names: "\<And>r. r \<in> set rs \<Longrightarrow> uses_nodes r \<Longrightarrow> plain_names (img s) (spec_scan (img s))"
  shows "fst (run_requests (\<lambda>ss r. perform now D r ss) rs (open_session s)) =
    fst (run_requests (\<lambda>sr r. spec_perform (img s) r sr) rs empty_scan)"
proof -
  have "perform now D r ss = perform now (completed img D) r ss" for r ss
    by (metis bounded_perform bounded_completed)
  then show ?thesis
    using run_coherent [OF completed_reliable [OF D total] coherent_open [of ok s img] rs, of now] s names plain_names_empty
    by simp
qed

definition drive_ready :: "('o \<Rightarrow> bool) \<Rightarrow> ('o \<Rightarrow> image) \<Rightarrow> 'o physical_drive \<Rightarrow> bool" where
  "drive_ready ok img d \<longleftrightarrow> drive_ok ok img d \<and> drive_is_open d \<and> 512 dvd unat (pd_size d)"

lemma drive_ready_device:
  assumes S: "sound_overlapped ok img W"
  shows "block_device (drive_device W) (drive_ready ok img) (\<lambda>d. img (pd_os d))"
proof -
  note D = drive_device_sound [OF S]
  note read_keeps = block_device.read_keeps [OF D] and read_sound = block_device.read_sound [OF D]
    and size_law = block_device.size_law [OF D]
  show ?thesis
  proof (rule block_deviceI)
    fix d off n r d'
    assume d: "drive_ready ok img d" and run: "run_state (dev_read (drive_device W) off n) d = (r, d')"
    have "pd_size d' = pd_size d \<and> pd_handle d' = pd_handle d"
      using run by (auto simp: drive_device_def drive_read_def split: if_splits prod.splits)
    then show "drive_ready ok img d' \<and> img (pd_os d') = img (pd_os d) \<and>
        (\<forall>bs. r = Some bs \<longrightarrow> in_image (img (pd_os d)) off n \<and> bs = image_slice (img (pd_os d)) (unat off) n)"
      using d run read_keeps [of d off n r d'] read_sound [of d off n _ d']
      by (auto simp: drive_ready_def drive_is_open_def)
  qed (simp add: size_law drive_ready_def)
qed

text \<open>C5: A session over a raw drive answers like the image on the drive.  The system's contract is the
  documented one: \<open>ReadFile\<close> at the two halves of an offset transfers a prefix of the bytes there, at
  once or pending, and it promises to transfer any only for requests that start and end on a 512-byte
  sector.  As for every session, browses, stats and reads name partitions without byte 0x1F, and if there are
  stats or reads, no directory of the image has two entries of the same name or a name with a separator.\<close>

theorem physical_drive_session:
  assumes "sound_overlapped ok img W" "prompt_overlapped ok img 512 W" "drive_ready ok img d"
    and "list_all plain_request rs"
    and "\<And>r. r \<in> set rs \<Longrightarrow> uses_nodes r \<Longrightarrow> plain_names (img (pd_os d)) (spec_scan (img (pd_os d)))"
  shows "fst (run_requests (\<lambda>ss r. perform now (drive_device W) r ss) rs (open_session d)) =
    fst (run_requests (\<lambda>sr r. spec_perform (img (pd_os d)) r sr) rs empty_scan)"
proof (rule session_over_bounded [OF drive_ready_device [OF assms(1)] _ assms(3-5)])
  fix d off n
  assume d: "drive_ready ok img d" and inside: "in_image (img (pd_os d)) off n"
    and "bounded_request 0xFFFFFFFF (dev_size (drive_device W) d) off n"
  then have b: "512 dvd unat off" "n \<le> 0xFFFFFFFF" "512 dvd n \<or> unat off + n = unat (pd_size d)"
    by (auto simp: bounded_request_def drive_device_def)
  moreover have "512 dvd n"
    using b(1,3) d dvd_add_right_iff [of 512 "unat off" n] by (auto simp: drive_ready_def)
  ultimately show "fst (run_state (dev_read (drive_device W) off n) d) \<noteq> None"
    using drive_read_total [OF assms(1,2), of d off n] d inside by (simp add: drive_ready_def drive_device_def)
qed

text \<open>A session over an image file on POSIX answers like the bytes of the file.  The system may
  transfer fewer bytes than asked for in every call of \<open>pread\<close>, as long as it transfers some.\<close>

theorem posix_file_session:
  assumes "\<And>s v s'. ok0 s \<Longrightarrow> px_open P path s = (v, s') \<Longrightarrow> v \<Longrightarrow> ok s'"
    and "\<And>s r s'. ok s \<Longrightarrow> px_fstat P s = (r, s') \<Longrightarrow> ok s' \<and>
      (\<forall>len. r = Some len \<longrightarrow> 0 \<le> len \<longrightarrow> len = uint (img_size (img s')) \<and> len \<le> uint (px_off_max P))"
    and "sound_transfer ok img (px_pread P)" "prompt_transfer ok img 1 (px_ssize_max P) (px_pread P)"
    and "0 < px_ssize_max P" "ok0 s" "fd_open (posix_open P path s)"
    and "im = img (fd_os (posix_open P path s))" "list_all plain_request rs"
    and "\<And>r. r \<in> set rs \<Longrightarrow> uses_nodes r \<Longrightarrow> plain_names im (spec_scan im)"
  shows "fst (run_requests (\<lambda>ss r. perform now (posix_device P) r ss) rs (open_session (posix_open P path s))) =
    fst (run_requests (\<lambda>sr r. spec_perform im r sr) rs empty_scan)"
proof -
  have "file_ok ok img (px_off_max P) (posix_open P path s)"
    by (rule posix_open_ok [of ok0]) (use assms in blast)+
  note ok = this
  show ?thesis
    using run_coherent [OF posix_device_reliable [OF assms(3-5)]
        coherent_open [of "file_ok ok img (px_off_max P)" "posix_open P path s" "\<lambda>d. img (fd_os d)"] assms(9), of now]
      ok assms(8,10) plain_names_empty by simp
qed

end
