(* ===== verification/Console.thy ===== *)
theory Console
  imports HostNames
begin

text \<open>
  What the command line programs share: the text of counts, sizes and times as the C++ streams write it
  (\<open>format_bytes\<close>, \<open>format_time\<close>, \<open>std::setw\<close>), and the numbers they read (\<open>std::stoul\<close>).  A \<open>double\<close>
  is a natural number of its 53-bit precision, or a scaled one.
\<close>

section \<open>Text\<close>

datatype printed = Out string | Err string

definition newline :: string where "newline = [CHR 0x0A]"

text \<open>\<open>std::left << std::setw(n)\<close>: padded on the right, never cut.\<close>

definition setw_left :: "nat \<Rightarrow> string \<Rightarrow> string" where
  "setw_left n s = s @ replicate (n - length s) CHR '' ''"

lemma length_setw_left [simp]: "length (setw_left n s) = max n (length s)"
  by (simp add: setw_left_def)

section \<open>Doubles\<close>

text \<open>The integer nearest to \<open>n / d\<close>, the even one of two.\<close>

definition round_half_even :: "nat \<Rightarrow> nat \<Rightarrow> nat" where
  "round_half_even n d =
     (let q = n div d; r = n mod d in if d < 2 * r \<or> 2 * r = d \<and> odd q then q + 1 else q)"

fun bit_length :: "nat \<Rightarrow> nat" where
  "bit_length n = (if n = 0 then 0 else Suc (bit_length (n div 2)))"

declare bit_length.simps [simp del]

text \<open>\<open>static_cast<double>\<close> of an integer.\<close>

definition double_of :: "nat \<Rightarrow> nat" where
  "double_of n =
     (if bit_length n \<le> 53 then n else let k = 2 ^ (bit_length n - 53) in round_half_even n k * k)"

text \<open>The quotient of two doubles that are positive integers, as mantissa, numerator and denominator of
  its scale: \<open>m * a / b\<close>.\<close>

definition double_quotient :: "nat \<Rightarrow> nat \<Rightarrow> nat \<times> nat \<times> nat" where
  "double_quotient n d =
     (let e = int (bit_length n) - int (bit_length d) - 53;
          e' = (if (if 0 \<le> e then n div (d * 2 ^ nat e) else n * 2 ^ nat (- e) div d) < 2 ^ 53 then e else e + 1);
          a = 2 ^ nat e'; b = 2 ^ nat (- e')
      in (round_half_even (n * b) (d * a), a, b))"

text \<open>\<open>std::fixed << std::setprecision(k)\<close> of \<open>n / d\<close>.\<close>

definition fixed :: "nat \<Rightarrow> nat \<Rightarrow> nat \<Rightarrow> string" where
  "fixed k n d =
     (let v = round_half_even (n * 10 ^ k) d;
          digits = decimal (v mod 10 ^ k)
      in if k = 0 then decimal v
         else decimal (v div 10 ^ k) @ ''.'' @ replicate (k - length digits) CHR ''0'' @ digits)"

section \<open>Sizes and times\<close>

text \<open>The loop of \<open>format_bytes\<close>: the unit, starting with \<open>unit\<close> for a value of \<open>n / 1024 ^ unit\<close>; dividing by
  1024 is exact.\<close>

fun unit_loop :: "nat \<Rightarrow> nat \<Rightarrow> nat \<Rightarrow> nat" where
  "unit_loop 0 n u = u"
| "unit_loop (Suc k) n u = (if 1024 * 1024 ^ u \<le> n then unit_loop k n (u + 1) else u)"

definition units :: "string list" where
  "units = [''B'', ''KiB'', ''MiB'', ''GiB'', ''TiB'']"

definition format_bytes :: "u64 \<Rightarrow> string" where
  "format_bytes bytes =
     (let n = double_of (unat bytes);
          u = unit_loop (length units - 1) n 0
      in fixed (if u = 0 then 0 else 2) n (1024 ^ u) @ '' '' @ units ! u)"

text \<open>A quotient of doubles with three decimals.\<close>

definition fixed_quotient :: "nat \<Rightarrow> nat \<Rightarrow> string" where
  "fixed_quotient n d =
     (if n = 0 then fixed 3 0 1 else let (m, a, b) = double_quotient (double_of n) d in fixed 3 (m * a) b)"

definition format_time :: "u64 \<Rightarrow> string" where
  "format_time nanoseconds =
     (let n = unat nanoseconds
      in if 1000000000 \<le> n then fixed_quotient n 1000000000 @ '' s''
         else if 1000000 \<le> n then fixed_quotient n 1000000 @ '' ms''
         else if 1000 \<le> n then fixed_quotient n 1000 @ '' us''
         else decimal n @ '' ns'')"

section \<open>Numbers on the command line\<close>

text \<open>\<open>std::stoul\<close> over character codes: blanks, a sign, the longest run of digits; anything may follow.
  \<open>None\<close> is an exception: no digits, or a value above \<open>limit\<close>, the largest \<open>unsigned long\<close>.  A minus sign
  negates modulo \<open>limit + 1\<close>.\<close>

definition stoul :: "(nat \<Rightarrow> bool) \<Rightarrow> nat \<Rightarrow> nat list \<Rightarrow> nat option" where
  "stoul blank limit s =
     (let s1 = dropWhile blank s;
          negative = (s1 \<noteq> [] \<and> hd s1 = 45);
          s2 = (if s1 \<noteq> [] \<and> (hd s1 = 45 \<or> hd s1 = 43) then tl s1 else s1);
          ds = takeWhile (\<lambda>c. 48 \<le> c \<and> c \<le> 57) s2;
          v = foldl (\<lambda>v c. 10 * v + (c - 48)) 0 ds
      in if ds = [] then None
         else if limit < v then None
         else Some (if negative \<and> v \<noteq> 0 then limit + 1 - v else v))"

text \<open>\<open>static_cast<unsigned>\<close> of the result, for the characters of a narrow string.\<close>

definition ascii_blank :: "nat \<Rightarrow> bool" where
  "ascii_blank c \<longleftrightarrow> c = 32 \<or> 9 \<le> c \<and> c \<le> 13"

definition stoul_unsigned :: "nat \<Rightarrow> string \<Rightarrow> u32 option" where
  "stoul_unsigned limit s = map_option of_nat (stoul ascii_blank limit (map char_code s))"

section \<open>The shown size is the size\<close>

lemma round_half_even_near:
  assumes "0 < d"
  shows "2 * \<bar>int (round_half_even n d) * int d - int n\<bar> \<le> int d"
proof -
  have n: "int n = int (n div d) * int d + int (n mod d)" by (simp flip: of_nat_mult of_nat_add)
  have r: "int (n mod d) < int d" using assms by simp
  show ?thesis
    using r unfolding round_half_even_def Let_def n by (auto simp: algebra_simps)
qed

lemma bit_length_le: "n < 2 ^ k \<Longrightarrow> bit_length n \<le> k"
proof (induction n arbitrary: k rule: bit_length.induct)
  case (1 n)
  show ?case
  proof (cases "n = 0")
    case False
    then obtain j where k: "k = Suc j" using 1(2) by (cases k) auto
    then have "n div 2 < 2 ^ j" using 1(2) by auto
    with 1(1) False k show ?thesis by (subst bit_length.simps) simp
  qed (simp add: bit_length.simps)
qed

lemma unit_loop_bounds:
  "u \<le> unit_loop k n u \<and> unit_loop k n u \<le> u + k \<and>
   (unit_loop k n u = u \<or> 1024 ^ unit_loop k n u \<le> n) \<and>
   (unit_loop k n u = u + k \<or> n < 1024 ^ (unit_loop k n u + 1))"
proof (induction k arbitrary: u)
  case (Suc k)
  show ?case using Suc [of "u + 1"] by (auto simp: not_le)
qed simp

lemma units_length: "length units - 1 = 4"
  by (simp add: units_def)

text \<open>C36: The size that \<open>format_bytes\<close> shows for fewer than 2^53 bytes (8 PiB) is the size: in the largest
  unit of which there is at least one (bytes below 1 KiB, TiB above the last), exact in bytes and
  otherwise with two decimals and an error of at most half a hundredth of the unit.\<close>

theorem format_bytes_accurate:
  assumes "unat b < 2 ^ 53"
  shows "\<exists>u v. u < 5 \<and> (u = 0 \<or> 1024 ^ u \<le> unat b) \<and> (u = 4 \<or> unat b < 1024 ^ (u + 1)) \<and>
    (if u = 0 then v = unat b \<and> format_bytes b = decimal v @ '' B''
     else 2 * \<bar>int v * 1024 ^ u - 100 * int (unat b)\<bar> \<le> 1024 ^ u \<and>
       format_bytes b = decimal (v div 100) @ ''.'' @ replicate (2 - length (decimal (v mod 100))) CHR ''0'' @
         decimal (v mod 100) @ '' '' @ units ! u)"
proof -
  define n where "n = unat b"
  define u where "u = unit_loop 4 n 0"
  have d: "double_of n = n" using bit_length_le [OF assms] by (simp add: double_of_def n_def)
  have bounds: "u \<le> 4" "u = 0 \<or> 1024 ^ u \<le> n" "u = 4 \<or> n < 1024 ^ (u + 1)"
    using unit_loop_bounds [of 0 4 n] by (simp_all add: u_def)
  have format: "format_bytes b = fixed (if u = 0 then 0 else 2) n (1024 ^ u) @ '' '' @ units ! u"
    unfolding format_bytes_def units_length by (simp add: Let_def d u_def del: unit_loop.simps flip: n_def)
  show ?thesis
  proof (cases "u = 0")
    case True
    have "format_bytes b = decimal n @ '' B''"
      unfolding format True by (simp add: fixed_def round_half_even_def units_def)
    then show ?thesis using True bounds by (intro exI [of _ 0] exI [of _ n]) (simp add: n_def)
  next
    case False
    let ?v = "round_half_even (n * 10 ^ 2) (1024 ^ u)"
    have near: "2 * \<bar>int ?v * 1024 ^ u - 100 * int n\<bar> \<le> 1024 ^ u"
      using round_half_even_near [of "1024 ^ u" "n * 10 ^ 2"] by (simp add: mult.commute)
    have "format_bytes b = decimal (?v div 100) @ ''.'' @ replicate (2 - length (decimal (?v mod 100))) CHR ''0'' @
        decimal (?v mod 100) @ '' '' @ units ! u"
      unfolding format by (simp add: False fixed_def Let_def)
    then show ?thesis using False bounds near by (intro exI [of _ u] exI [of _ ?v]) (simp add: n_def)
  qed
qed

end
