(* ===== verification/PhysicalDiscovery.thy ===== *)
theory PhysicalDiscovery
  imports HostBackends Dokany
begin

text \<open>
  \<open>discover_physical_drives\<close> (\<open>src/platform/windows/physical_discovery.cpp\<close>): the disk interfaces that
  SetupAPI enumerates, each mapped to its drive number and probed once.  SetupAPI and the storage requests
  are parameters over the state \<open>'o\<close> that the drives of \<open>HostBackends\<close> use.
\<close>

section \<open>The system\<close>

datatype enumerated = Enumerated | No_more_items | Enum_failed

text \<open>The calls on the interface enumerated last; a device number is its type and its number.\<close>

record 'o setup_api =
  sa_class_devs :: "'o \<Rightarrow> bool \<times> 'o"
  sa_enum :: "u32 \<Rightarrow> 'o \<Rightarrow> enumerated \<times> 'o"
  sa_detail_size :: "'o \<Rightarrow> u32 \<times> 'o"
  sa_detail_struct :: u32
  sa_detail :: "u32 \<Rightarrow> 'o \<Rightarrow> bool \<times> 'o"
  sa_open_interface :: "'o \<Rightarrow> bool \<times> 'o"
  sa_device_number :: "'o \<Rightarrow> (u32 \<times> u32) option \<times> 'o"
  sa_close_interface :: "'o \<Rightarrow> 'o"
  sa_friendly_name :: "'o \<Rightarrow> wide option \<times> 'o"
  sa_description :: "'o \<Rightarrow> wide option \<times> 'o"
  sa_destroy :: "'o \<Rightarrow> 'o"
  sa_close_drive :: "'o \<Rightarrow> 'o"
  sa_disk_type :: u32
  sa_access_denied :: u32

record physical_drive_probe =
  pp_index :: nat
  pp_friendly_name :: string
  pp_opened :: bool
  pp_access_denied :: bool
  pp_apa_detected :: bool
  pp_apa_clean :: bool
  pp_size_bytes :: u64
  pp_apa_version :: u32
  pp_partition_count :: nat
  pp_main_partition_count :: nat
  pp_storage :: storage_characteristics
  pp_note :: string

text \<open>The text up to its terminator.\<close>

definition utf8_from_wide :: "windows \<Rightarrow> wide \<Rightarrow> string" where
  "utf8_from_wide W text =
     (let w = takeWhile (\<lambda>u. u \<noteq> 0) text
      in if w = [] then '''' else case win_to_utf8 W w of Some s \<Rightarrow> s | None \<Rightarrow> '''')"

definition device_name :: "windows \<Rightarrow> 'o setup_api \<Rightarrow> 'o \<Rightarrow> string \<times> 'o" where
  "device_name W A s =
     (case sa_friendly_name A s of
        (Some w, s1) \<Rightarrow> (utf8_from_wide W w, s1)
      | (None, s1) \<Rightarrow>
          (case sa_description A s1 of
             (Some w, s2) \<Rightarrow> (utf8_from_wide W w, s2)
           | (None, s2) \<Rightarrow> ('''', s2)))"

section \<open>One interface\<close>

text \<open>The drive number behind the interface; \<open>None\<close> is one of the \<open>continue\<close>s before \<open>seen\<close> is asked.\<close>

definition interface_index :: "'o setup_api \<Rightarrow> u32 \<Rightarrow> 'o \<Rightarrow> u32 option \<times> 'o" where
  "interface_index A max_index s =
     (let (required, s1) = sa_detail_size A s
      in if required < sa_detail_struct A then (None, s1)
         else
           let (detailed, s2) = sa_detail A required s1
           in if \<not> detailed then (None, s2)
              else
                let (opened, s3) = sa_open_interface A s2
                in if \<not> opened then (None, s3)
                   else
                     let (number, s4) = sa_device_number A s3;
                         s5 = sa_close_interface A s4
                     in case number of
                          None \<Rightarrow> (None, s5)
                        | Some (device_type, device_number) \<Rightarrow>
                            if device_type \<noteq> sa_disk_type A \<or> max_index \<le> device_number then (None, s5)
                            else (Some device_number, s5))"

definition blank_probe :: physical_drive_probe where
  "blank_probe =
     \<lparr>pp_index = 0, pp_friendly_name = '''', pp_opened = False, pp_access_denied = False,
      pp_apa_detected = False, pp_apa_clean = False, pp_size_bytes = 0, pp_apa_version = 0,
      pp_partition_count = 0, pp_main_partition_count = 0, pp_storage = default_characteristics, pp_note = ''''\<rparr>"

text \<open>What a scan says of the drive.\<close>

definition note_scan :: "scan_result \<Rightarrow> physical_drive_probe \<Rightarrow> physical_drive_probe" where
  "note_scan r p =
     p\<lparr>pp_apa_detected := mbr_valid r, pp_apa_clean := scan_ok r, pp_apa_version := apa_version r,
       pp_partition_count := length (partitions r),
       pp_main_partition_count := length (filter (\<lambda>q. \<not> is_sub q) (partitions r)),
       pp_note := (if \<not> mbr_valid r then ''not a PS2 APA disk''
         else if \<not> scan_ok r then ''APA detected with fatal diagnostics''
         else ''PS2 APA disk'')\<rparr>"

definition probe_drive ::
  "('o, 'x) drive_system_scheme \<Rightarrow> windows \<Rightarrow> 'o setup_api \<Rightarrow> u32 \<Rightarrow> 'o \<Rightarrow> physical_drive_probe \<times> 'o" where
  "probe_drive D W A index s =
     (let (name, s1) = device_name W A s;
          p = blank_probe\<lparr>pp_index := unat index, pp_friendly_name := name\<rparr>;
          drive = drive_open D (unat index) s1
      in if \<not> drive_is_open drive
         then
           let denied = (pd_open_error drive = sa_access_denied A)
           in (p\<lparr>pp_access_denied := denied,
                 pp_note := (if denied then ''raw read access denied'' else ''could not open raw disk read-only'')\<rparr>,
               if pd_handle drive then sa_close_drive A (pd_os drive) else pd_os drive)
         else
           let (r, drive') = run_state (scan (drive_device D) default_max_headers) drive
           in (note_scan r (p\<lparr>pp_opened := True, pp_size_bytes := pd_size drive, pp_storage := pd_characteristics drive\<rparr>),
               sa_close_drive A (pd_os drive')))"

section \<open>The loop\<close>

text \<open>One turn: the end of the list, one of the \<open>continue\<close>s, or a drive not seen before.  A failed
  enumeration that is not the end of the list goes on with the next ordinal.\<close>

datatype turn = Stop | Skip | Found (found_index: u32)

definition discover_turn :: "'o setup_api \<Rightarrow> u32 \<Rightarrow> u32 \<Rightarrow> u32 set \<Rightarrow> 'o \<Rightarrow> turn \<times> 'o" where
  "discover_turn A max_index ordinal seen s =
     (case sa_enum A ordinal s of
        (No_more_items, s1) \<Rightarrow> (Stop, s1)
      | (Enum_failed, s1) \<Rightarrow> (Skip, s1)
      | (Enumerated, s1) \<Rightarrow>
          (case interface_index A max_index s1 of
             (None, s2) \<Rightarrow> (Skip, s2)
           | (Some index, s2) \<Rightarrow> (if index \<in> seen then Skip else Found index, s2)))"

text \<open>The loop has no bound of its own; \<open>None\<close> is the loop that never ends.\<close>

partial_function (option) discover_loop ::
  "('o, 'x) drive_system_scheme \<Rightarrow> windows \<Rightarrow> 'o setup_api \<Rightarrow> u32 \<Rightarrow> u32 \<Rightarrow> u32 set \<Rightarrow> 'o \<Rightarrow>
   (physical_drive_probe list \<times> 'o) option" where
  "discover_loop D W A max_index ordinal seen s =
     (let (t, s1) = discover_turn A max_index ordinal seen s
      in if t = Stop then Some ([], s1)
         else if t = Skip then discover_loop D W A max_index (ordinal + 1) seen s1
         else
           let (p, s2) = probe_drive D W A (found_index t) s1
           in Option.bind (discover_loop D W A max_index (ordinal + 1) (insert (found_index t) seen) s2)
                (\<lambda>(ps, s3). Some (p # ps, s3)))"

definition discover_physical_drives ::
  "('o, 'x) drive_system_scheme \<Rightarrow> windows \<Rightarrow> 'o setup_api \<Rightarrow> u32 \<Rightarrow> 'o \<Rightarrow> (physical_drive_probe list \<times> 'o) option" where
  "discover_physical_drives D W A max_index s =
     (let (valid, s1) = sa_class_devs A s
      in if \<not> valid then Some ([], s1)
         else map_option (\<lambda>(ps, s2). (ps, sa_destroy A s2)) (discover_loop D W A max_index 0 {} s1))"

section \<open>What a discovery reports\<close>

lemma probe_drive_index: "pp_index (fst (probe_drive D W A index s)) = unat index"
  by (simp add: probe_drive_def note_scan_def blank_probe_def Let_def split: prod.splits)

lemma interface_index_below:
  "interface_index A max_index s = (Some index, s') \<Longrightarrow> index < max_index"
  by (auto simp: interface_index_def Let_def not_le split: if_splits prod.splits option.splits)

lemma discover_turn_found:
  "discover_turn A max_index ordinal seen s = (Found index, s') \<Longrightarrow> index < max_index \<and> index \<notin> seen"
  using interface_index_below
  by (fastforce simp: discover_turn_def split: prod.splits enumerated.splits option.splits if_splits)

definition probes_fresh :: "u32 \<Rightarrow> u32 set \<Rightarrow> physical_drive_probe list \<Rightarrow> bool" where
  "probes_fresh max_index seen ps \<longleftrightarrow>
     distinct (map pp_index ps) \<and> (\<forall>p \<in> set ps. pp_index p < unat max_index \<and> pp_index p \<notin> unat ` seen)"

lemma discover_loop_fresh:
  assumes "discover_loop D W A max_index ordinal seen s = Some r"
  shows "probes_fresh max_index seen (fst r)"
proof (rule discover_loop.raw_induct [where P = "\<lambda>D W A max_index ordinal seen s r. probes_fresh max_index seen (fst r)",
      OF _ assms])
  fix loop D W A max_index ordinal seen s r
  assume IH: "\<And>D W A max_index ordinal seen s r. loop D W A max_index ordinal seen s = Some r \<Longrightarrow>
      probes_fresh max_index seen (fst r)"
    and step: "(let (t, s1) = discover_turn A max_index ordinal seen s
      in if t = Stop then Some ([], s1)
         else if t = Skip then loop D W A max_index (ordinal + 1) seen s1
         else let (p, s2) = probe_drive D W A (found_index t) s1
              in Option.bind (loop D W A max_index (ordinal + 1) (insert (found_index t) seen) s2)
                   (\<lambda>(ps, s3). Some (p # ps, s3))) = Some r"
  obtain t s1 where turn: "discover_turn A max_index ordinal seen s = (t, s1)" by fastforce
  show "probes_fresh max_index seen (fst r)"
  proof (cases t)
    case Stop
    then show ?thesis using step turn by (auto simp: probes_fresh_def)
  next
    case Skip
    then have "loop D W A max_index (ordinal + 1) seen s1 = Some r" using step turn by simp
    then show ?thesis by (rule IH)
  next
    case (Found index)
    obtain p s2 where p: "probe_drive D W A index s1 = (p, s2)" by fastforce
    have step': "Option.bind (loop D W A max_index (ordinal + 1) (insert index seen) s2) (\<lambda>(ps, s3). Some (p # ps, s3)) = Some r"
      using step turn Found p by simp
    then obtain ps s3 where rest: "loop D W A max_index (ordinal + 1) (insert index seen) s2 = Some (ps, s3)" "r = (p # ps, s3)"
      by (cases "loop D W A max_index (ordinal + 1) (insert index seen) s2") auto
    have "probes_fresh max_index (insert index seen) ps" using IH [OF rest(1)] by simp
    moreover have "pp_index p = unat index" using probe_drive_index [of D W A index s1] p by simp
    moreover have "unat index < unat max_index \<and> unat index \<notin> unat ` seen"
      using discover_turn_found [of A max_index ordinal seen s index s1] turn Found
      by (auto simp: word_less_nat_alt dest: word_unat_eq_iff [THEN iffD2])
    ultimately show ?thesis unfolding rest(2) probes_fresh_def by force
  qed
qed

text \<open>Every turn before the end of the list adds one probe at most, and the list ends.\<close>

lemma discover_loop_ends:
  assumes ends: "\<And>s. fst (sa_enum A (of_nat n) s) = No_more_items"
  shows "k \<le> n \<Longrightarrow> \<exists>ps s'. discover_loop D W A max_index (of_nat k) seen s = Some (ps, s') \<and> length ps \<le> n - k"
proof (induction "n - k" arbitrary: k seen s rule: less_induct)
  case less
  obtain t s1 where turn: "discover_turn A max_index (of_nat k) seen s = (t, s1)" by fastforce
  show ?case
  proof (cases "t = Stop")
    case True
    then show ?thesis using turn by (subst discover_loop.simps) simp
  next
    case False
    have "k \<noteq> n"
      using False turn ends [of s] by (auto simp: discover_turn_def split: prod.splits)
    then have k: "Suc k \<le> n" "n - Suc k < n - k" using less.prems by auto
    note rest = less.hyps [OF k(2,1)]
    show ?thesis
    proof (cases t)
      case Skip
      obtain ps s' where r: "discover_loop D W A max_index (of_nat (Suc k)) seen s1 = Some (ps, s')"
        "length ps \<le> n - Suc k" using rest by blast
      then show ?thesis using turn Skip k by (subst discover_loop.simps) (simp add: add.commute)
    next
      case (Found index)
      obtain p s2 where p: "probe_drive D W A index s1 = (p, s2)" by fastforce
      obtain ps s' where r: "discover_loop D W A max_index (of_nat (Suc k)) (insert index seen) s2 = Some (ps, s')"
        "length ps \<le> n - Suc k" using rest by blast
      then show ?thesis using turn Found p k by (subst discover_loop.simps) (simp add: add.commute)
    qed (use False in simp)
  qed
qed

text \<open>A discovery that returns reports every disk once and only disks below the limit, in whatever way
  SetupAPI repeats its interfaces.\<close>

theorem discovery_reports_once:
  assumes "discover_physical_drives D W A max_index s = Some (ps, s')"
  shows "distinct (map pp_index ps) \<and> list_all (\<lambda>p. pp_index p < unat max_index) ps"
  using assms discover_loop_fresh [of D W A max_index 0 "{}"]
  by (fastforce simp: discover_physical_drives_def probes_fresh_def list_all_iff split: if_splits prod.splits)

text \<open>C37: A discovery returns, with one probe for each interface at most, when SetupAPI reports the end of
  its list at some ordinal: turns that fail in any other way only move on.\<close>

theorem discovery_returns:
  assumes "\<And>s. fst (sa_enum A (of_nat n) s) = No_more_items"
  shows "\<exists>ps s'. discover_physical_drives D W A max_index s = Some (ps, s') \<and> length ps \<le> n"
  using discover_loop_ends [where n = n and k = 0 and seen = "{}" and s = "snd (sa_class_devs A s)", OF assms, of D W max_index]
  by (auto simp: discover_physical_drives_def split: prod.splits)

text \<open>A list that never ends this way, as when every enumeration fails with another error, is never left.\<close>

lemma discovery_hangs:
  assumes "\<And>ordinal s. fst (sa_enum A ordinal s) = Enum_failed"
  shows "discover_loop D W A max_index ordinal seen s = None"
proof (rule ccontr)
  assume "discover_loop D W A max_index ordinal seen s \<noteq> None"
  then obtain r where r: "discover_loop D W A max_index ordinal seen s = Some r" by auto
  have "A \<noteq> A"
  proof (rule discover_loop.raw_induct [where P = "\<lambda>D W A' max_index ordinal seen s r. A' \<noteq> A", OF _ r])
    fix loop D W A' max_index ordinal seen s r
    assume IH: "\<And>D W A' max_index ordinal seen s r. loop D W A' max_index ordinal seen s = Some r \<Longrightarrow> A' \<noteq> A"
      and step: "(let (t, s1) = discover_turn A' max_index ordinal seen s
        in if t = Stop then Some ([], s1)
           else if t = Skip then loop D W A' max_index (ordinal + 1) seen s1
           else let (p, s2) = probe_drive D W A' (found_index t) s1
                in Option.bind (loop D W A' max_index (ordinal + 1) (insert (found_index t) seen) s2)
                     (\<lambda>(ps, s3). Some (p # ps, s3))) = Some r"
    have "fst (discover_turn A max_index ordinal seen s) = Skip"
      using assms [of ordinal s] by (cases "sa_enum A ordinal s") (simp add: discover_turn_def)
    then have "loop D W A max_index (ordinal + 1) seen (snd (discover_turn A max_index ordinal seen s)) = Some r"
      if "A' = A" using step that by (cases "discover_turn A max_index ordinal seen s") simp
    then show "A' \<noteq> A" using IH by blast
  qed
  then show False by simp
qed

end
