(* ===== verification/Inspect.thy ===== *)
theory Inspect
  imports Console SessionSpec PhysicalDiscovery
begin

text \<open>
  \<open>ps2-driveforge-inspect\<close> (\<open>src/cli/main.cpp\<close>): its arguments, what it prints and its exit code.  The
  sources are opened by a parameter over the devices of \<open>HostBackends\<close>; the work is a \<open>DriveSession\<close>.
\<close>

section \<open>What the build fixes\<close>

text \<open>\<open>env_windows\<close> is \<open>PS2DF_HAS_WINDOWS_PHYSICAL_DRIVE\<close>, \<open>env_path\<close> the components of a
  \<open>std::filesystem::path\<close>.\<close>

record cli_env =
  env_version :: string
  env_codename :: string
  env_windows :: bool
  env_ulong_max :: nat
  env_path :: "string \<Rightarrow> host_path"

datatype source = Image_file string | Drive_index u32

abbreviation line :: "string \<Rightarrow> printed" where
  "line s \<equiv> Out (s @ newline)"

abbreviation err_line :: "string \<Rightarrow> printed" where
  "err_line s \<equiv> Err (s @ newline)"

abbreviation number :: "'a :: len word \<Rightarrow> string" where
  "number w \<equiv> decimal (unat w)"

definition inspect_usage :: "cli_env \<Rightarrow> printed list" where
  "inspect_usage E =
     [line (''PS2 DriveForge '' @ env_version E @ ''-dev '' @ [CHR 0x22] @ env_codename E @ [CHR 0x22] @
        '' - APA/PFS inspector''),
      line '''',
      line ''Usage:'',
      line ''  ps2-driveforge-inspect [--stats] <disk-image>'',
      line ''  ps2-driveforge-inspect [--stats] <disk-image> --browse <partition> [path]'',
      line ''  ps2-driveforge-inspect [--stats] <disk-image> --extract <partition> <pfs-path> <output>''] @
     (if env_windows E then
        [line ''  ps2-driveforge-inspect [--stats] --physical <index>'',
         line ''  ps2-driveforge-inspect [--stats] --physical <index> --browse <partition> [path]'',
         line ''  ps2-driveforge-inspect [--stats] --physical <index> --extract <partition> <pfs-path> <output>'',
         line ''  ps2-driveforge-inspect --detect-physical [max-index]'']
      else []) @
     [line ''  ps2-driveforge-inspect --version'',
      line '''',
      line ''Examples:'',
      line ''  ps2-driveforge-inspect --stats ps2.img --browse +OPL''] @
     (if env_windows E then
        [line ''  ps2-driveforge-inspect --detect-physical'',
         line ''  ps2-driveforge-inspect --stats --physical 3 --browse +OPL CFG'',
         line ''  ps2-driveforge-inspect --stats --physical 3 --extract +OPL / exported-OPL'']
      else []) @
     [line '''',
      line ''Source access is read-only. --extract may recursively create host files/directories.'']"

section \<open>Reports\<close>

definition stats_text ::
  "block_io_stats \<times> read_ahead_stats \<times> read_cache_stats \<times> session_counters \<Rightarrow> printed list" where
  "stats_text stats =
     (let (io, _, _, c) = stats;
          average_size = (if io_read_calls io = 0 then 0 else io_bytes_requested io div io_read_calls io);
          average_latency = (if io_read_calls io = 0 then 0 else io_read_time_ns io div io_read_calls io)
      in
     [line '''',
      line ''Emilia I/O statistics:'',
      line (''  APA scans:                '' @ number (sc_apa_scans c)),
      line (''  PFS browse operations:    '' @ number (sc_browse_operations c)),
      line (''  PFS stat operations:      '' @ number (sc_stat_operations c)),
      line (''  PFS read operations:      '' @ number (sc_read_operations c)),
      line (''  PFS export operations:    '' @ number (sc_export_operations c)),
      line '''',
      line ''Operation wall time:'',
      line (''  APA scan time:            '' @ format_time (sc_scan_time_ns c)),
      line (''  Browse time:              '' @ format_time (sc_browse_time_ns c)),
      line (''  Stat time:                '' @ format_time (sc_stat_time_ns c)),
      line (''  Read time:                '' @ format_time (sc_read_time_ns c)),
      line (''  Export time:              '' @ format_time (sc_export_time_ns c)),
      line '''',
      line ''Backing BlockDevice:'',
      line (''  Read calls:               '' @ number (io_read_calls io)),
      line (''  Small reads (<=4 KiB):    '' @ number (io_small_read_calls io)),
      line (''  Bytes requested:          '' @ format_bytes (io_bytes_requested io)),
      line (''  Average read size:        '' @ format_bytes average_size),
      line (''  Largest read:             '' @ format_bytes (io_largest_read io)),
      line (''  Failed reads:             '' @ number (io_failed_reads io)),
      line (''  Backend service time:     '' @ format_time (io_read_time_ns io)),
      line (''  Average read latency:     '' @ format_time average_latency),
      line (''  Maximum reads in flight:  '' @ number (io_max_in_flight io)),
      line '''',
      line ''Immutable session caches:'',
      line (''  PFS probe hits/misses:    '' @ number (sc_probe_hits c) @ '' / '' @ number (sc_probe_misses c)),
      line (''  Directory hits/misses:    '' @ number (sc_browse_hits c) @ '' / '' @ number (sc_browse_misses c)),
      line (''  Stat hits/misses:         '' @ number (sc_stat_hits c) @ '' / '' @ number (sc_stat_misses c)),
      line (''  Node hits/misses:         '' @ number (sc_node_hits c) @ '' / '' @ number (sc_node_misses c)),
      line (''  Cache evictions:          '' @ number (sc_evictions c))])"

definition probe_line :: "physical_drive_probe \<Rightarrow> printed" where
  "probe_line p = line
     (setw_left 18 (''PhysicalDrive'' @ decimal (pp_index p)) @
      setw_left 14 (format_bytes (pp_size_bytes p)) @
      setw_left 16 (if pp_apa_detected p then (if pp_apa_clean p then ''PS2 APA'' else ''APA/errors'') else ''not APA'') @
      setw_left 10 (if pp_apa_detected p then number (pp_apa_version p) else ''-'') @
      setw_left 12 (decimal (pp_partition_count p)) @
      pp_note p)"

definition detect_physical :: "u32 \<Rightarrow> physical_drive_probe list \<Rightarrow> printed list \<times> int" where
  "detect_physical max_index probes =
     (let candidates = length (filter pp_apa_detected probes) in
      ([line (''Read-only Windows SetupAPI disk discovery'' @
          (if max_index = - 1 then '''' else '' (compatibility index filter active)'')),
        line '''',
        line (setw_left 18 ''Drive'' @ setw_left 14 ''Size'' @ setw_left 16 ''APA'' @ setw_left 10 ''Version'' @
          setw_left 12 ''Headers'' @ ''Status''),
        line (replicate 82 CHR ''-'')] @
       map probe_line probes @
       [line '''',
        line (''Enumerated disk interfaces: '' @ decimal (length probes) @ '', PS2 APA candidates: '' @
          decimal candidates),
        line ''Discovery requests GENERIC_READ only; it never enables source writes.''],
       if candidates = 0 then 1 else 0))"

fun pfs_warning_text :: "pfs_warning \<Rightarrow> string" where
  "pfs_warning_text Unregistered_subs = ''APA has additional sub-partitions not registered by this PFS superblock''"
| "pfs_warning_text Backup_unreadable = ''Could not read PFS backup superblock at sector 8193''"
| "pfs_warning_text Backup_differs = ''Primary and backup PFS superblocks differ''"
| "pfs_warning_text Fsck_write_error = ''PFS fsck status contains WRITE_ERROR''"
| "pfs_warning_text Fsck_errors_fixed = ''PFS fsck status reports previously fixed errors''"

text \<open>The lines under a main PFS partition, from its probe.\<close>

definition probe_lines :: "probe_result \<Rightarrow> printed list" where
  "probe_lines pr =
     (if pr_valid pr then
        line (''    PFS v'' @ number (sb_version (pr_super pr)) @ '', zone '' @
          format_bytes (ucast (sb_zone_size (pr_super pr))) @ '', filesystem subs '' @
          number (sb_num_subs (pr_super pr)) @ '', backup '' @
          (if pr_backup_matches pr then ''matches'' else ''differs/unreadable'')) #
        map (\<lambda>w. line (''      [PFS WARN] '' @ pfs_warning_text w)) (pr_warnings pr)
      else map (\<lambda>e. line (''      [PFS ERROR] '' @ pfs_message e)) (pr_errors pr))"

definition partition_line :: "partition \<Rightarrow> printed" where
  "partition_line p = line
     (setw_left 34 (if p_id p = '''' then ''<unnamed>'' else p_id p) @
      setw_left 12 (type_name (p_type p)) @
      setw_left 16 (number (p_start_lba p)) @
      setw_left 16 (format_bytes (ucast (p_length_sectors p) * of_nat kSectorSize)) @
      setw_left 12 (number (p_sub_count p)) @
      format_bytes (partition_size_bytes p) @
      (if is_sub p then ''  [SUB]'' else ''''))"

definition issue_line :: "issue \<Rightarrow> printed" where
  "issue_line i = line
     (''  ['' @ (if i_severity i = Error then ''ERROR'' else ''WARN'') @ ''] LBA '' @ number (i_lba i) @ '': '' @
      i_message i)"

text \<open>The loop over the partitions probes every main PFS partition through the device stack, not through
  the probe cache of the session.\<close>

fun partition_lines :: "'t device \<Rightarrow> partition list \<Rightarrow> ('t, printed list) state" where
  "partition_lines D [] = ret []"
| "partition_lines D (p # ps) = do {
     below \<leftarrow> (if p_type p = kTypePfs \<and> \<not> is_sub p
       then do { pr \<leftarrow> probe D (apa_volume p); ret (probe_lines pr) } else ret []);
     rest \<leftarrow> partition_lines D ps;
     ret (partition_line p # below @ rest)
   }"

definition print_overview :: "('s \<Rightarrow> int) \<Rightarrow> 's device \<Rightarrow> ('s, printed list) session_op" where
  "print_overview now D = do {
     ss \<leftarrow> State_Monad.get;
     let r = ss_scan ss;
     let name = dev_name (stack_device now D) (ss_stack ss);
     let device_size = dev_size (stack_device now D) (ss_stack ss);
     let top =
       [line (''Source: '' @ name),
        line (''Size:   '' @ format_bytes device_size),
        line (''APA:    '' @ (if mbr_valid r then ''detected'' else ''not detected''))];
     if \<not> mbr_valid r then ret top
     else do {
       rows \<leftarrow> on_stack (partition_lines (stack_device now D) (partitions r));
       ret (top @
         [line (''Version: '' @ number (apa_version r)), line '''',
          line (setw_left 34 ''Partition'' @ setw_left 12 ''Type'' @ setw_left 16 ''Start LBA'' @
            setw_left 16 ''Main size'' @ setw_left 12 ''Subs'' @ ''Total''),
          line (replicate 102 CHR ''-'')] @
         rows @
         (if issues r \<noteq> [] then line '''' # line ''Diagnostics:'' # map issue_line (issues r) else []))
     }
   }"

section \<open>Browse and extract\<close>

definition entry_line :: "session_entry \<Rightarrow> printed" where
  "entry_line e = line
     (setw_left 8 (if se_is_directory e then ''DIR'' else if se_is_regular e then ''FILE'' else ''OTHER'') @
      setw_left 14 (if se_inode_readable e then format_bytes (se_size e) else ''?'') @
      setw_left 10 (number (bi_subpart (se_inode e))) @
      setw_left 14 (number (bi_number (se_inode e))) @
      se_name e)"

definition browse_report :: "string \<Rightarrow> string \<Rightarrow> browse_result \<Rightarrow> bool \<times> printed list" where
  "browse_report pid path r =
     (if \<not> br_ok r then (False, [err_line (''PFS browse failed: '' @ br_error r)])
      else
        (True,
         [line '''', line (''PFS browse: '' @ pid @ '':/'' @ path),
          line (setw_left 8 ''Type'' @ setw_left 14 ''Size'' @ setw_left 10 ''Sub'' @ setw_left 14 ''Inode'' @ ''Name''),
          line (replicate 78 CHR ''-'')] @
         map entry_line (br_entries r) @
         [line (decimal (length (br_entries r)) @ '' entr'' @ (if length (br_entries r) = 1 then ''y'' else ''ies''))]))"

text \<open>The progress callback with \<open>last_reported\<close>: a line for every further 64 MiB.\<close>

fun progress_lines :: "u64 \<Rightarrow> (export_stats \<times> string) list \<Rightarrow> printed list" where
  "progress_lines last_reported [] = []"
| "progress_lines last_reported ((stats, current) # calls) =
     (if last_reported + 64 * 1024 * 1024 \<le> xs_bytes stats
      then line (''  '' @ format_bytes (xs_bytes stats) @ '' exported; current: '' @ current) #
        progress_lines (xs_bytes stats) calls
      else progress_lines last_reported calls)"

definition extract_report ::
  "string \<Rightarrow> string \<Rightarrow> string \<Rightarrow>
   bool \<times> host_op list \<times> export_stats \<times> string \<times> string list \<times> (export_stats \<times> string) list \<Rightarrow>
   bool \<times> printed list" where
  "extract_report pid path destination result =
     (let (ok, calls, stats, error, warnings, progress) = result
      in if \<not> ok then (False, progress_lines 0 progress @ [err_line (''PFS export failed: '' @ error)])
         else
           (True,
            progress_lines 0 progress @
            [line '''', line (''Exported '' @ pid @ '':/'' @ path @ '' -> '' @ destination),
             line (''Files: '' @ number (xs_files stats) @ '', directories: '' @ number (xs_directories stats) @
               '', bytes: '' @ format_bytes (xs_bytes stats) @ '', skipped: '' @ number (xs_skipped stats))] @
            map (\<lambda>w. line (''  [EXPORT WARN] '' @ w)) warnings))"

section \<open>The command\<close>

datatype cli_command =
    Overview
  | Browse_partition string string
  | Extract_node string string string

definition command_of :: "string list \<Rightarrow> cli_command option" where
  "command_of args =
     (case args of
        [] \<Rightarrow> Some Overview
      | command # rest \<Rightarrow>
          if command = ''--browse'' then
            (case rest of
               [pid] \<Rightarrow> Some (Browse_partition pid '''')
             | [pid, path] \<Rightarrow> Some (Browse_partition pid path)
             | _ \<Rightarrow> None)
          else if command = ''--extract'' then
            (case rest of [pid, path, destination] \<Rightarrow> Some (Extract_node pid path destination) | _ \<Rightarrow> None)
          else None)"

text \<open>What the command does with the scanned session: success, printed lines and the calls on the host.\<close>

definition run_command ::
  "cli_env \<Rightarrow> ('s \<Rightarrow> int) \<Rightarrow> 's device \<Rightarrow> host \<Rightarrow> cli_command \<Rightarrow> ('s, bool option \<times> printed list \<times> host_op list) session_op" where
  "run_command E now D host command =
     (case command of
        Overview \<Rightarrow> ret (None, [], [])
      | Browse_partition pid path \<Rightarrow> do {
          r \<leftarrow> browse now D pid path;
          let (ok, printed) = browse_report pid path r;
          ret (Some ok, printed, [])
        }
      | Extract_node pid path destination \<Rightarrow> do {
          r \<leftarrow> session_export now D host pid path (env_path E destination);
          let (ok, printed) = extract_report pid path destination (export_report r);
          ret (Some ok, printed, fst (snd (export_report r)))
        })"

text \<open>What follows the overview: the command, unless the scan refuses it, the statistics and the exit code.\<close>

definition inspect_finish ::
  "cli_env \<Rightarrow> ('s \<Rightarrow> int) \<Rightarrow> 's device \<Rightarrow> host \<Rightarrow> bool \<Rightarrow> cli_command \<Rightarrow> bool \<Rightarrow> printed list \<Rightarrow>
   ('s, printed list \<times> int \<times> host_op list) session_op" where
  "inspect_finish E now D host show_stats command clean_scan overview = do {
     ss \<leftarrow> State_Monad.get;
     let exit_code = (if scan_ok (ss_scan ss) then 0 else 1);
     (finished, printed, calls) \<leftarrow>
       (if \<not> clean_scan \<and> command \<noteq> Overview
        then ret (None, [err_line ''Refusing PFS operation because APA diagnostics contain fatal errors.''], [])
        else run_command E now D host command);
     ss' \<leftarrow> State_Monad.get;
     ret (overview @ printed @ (if show_stats then stats_text (session_stats ss') else []),
       (case finished of None \<Rightarrow> exit_code | Some ok \<Rightarrow> if ok then 0 else 1),
       calls)
   }"

definition inspect_session ::
  "cli_env \<Rightarrow> ('s \<Rightarrow> int) \<Rightarrow> 's device \<Rightarrow> host \<Rightarrow> bool \<Rightarrow> cli_command \<Rightarrow> ('s, printed list \<times> int \<times> host_op list) session_op" where
  "inspect_session E now D host show_stats command = do {
     clean_scan \<leftarrow> session_scan now D;
     overview \<leftarrow> print_overview now D;
     inspect_finish E now D host show_stats command clean_scan overview
   }"

section \<open>The arguments\<close>

text \<open>The device of the arguments and what follows it, or the printed lines and the exit code.  \<open>opened\<close>
  is \<open>None\<close> for a source that is not open.\<close>

definition select_source ::
  "cli_env \<Rightarrow> (source \<Rightarrow> 's option) \<Rightarrow> string list \<Rightarrow> (printed list \<times> int) + ('s \<times> string list)" where
  "select_source E opened args =
     (if env_windows E \<and> hd args = ''--physical'' then
        (case tl args of
           [] \<Rightarrow> Inl (inspect_usage E, 2)
         | index # rest \<Rightarrow>
             (case stoul_unsigned (env_ulong_max E) index of
                None \<Rightarrow> Inl ([err_line ''Invalid physical drive index.''], 2)
              | Some i \<Rightarrow>
                  (case opened (Drive_index i) of
                     None \<Rightarrow> Inl ([err_line
                       ''Could not open physical drive for read-only access. Run elevated if required.''], 1)
                   | Some s \<Rightarrow> Inr (s, rest))))
      else
        (case opened (Image_file (hd args)) of
           None \<Rightarrow> Inl ([err_line (''Could not open image: '' @ hd args)], 1)
         | Some s \<Rightarrow> Inr (s, tl args)))"

text \<open>\<open>main\<close> after \<open>--stats\<close>; \<open>discover\<close> is \<open>discover_physical_drives\<close>.  The result also has the calls on
  the host.\<close>

definition inspect_with ::
  "cli_env \<Rightarrow> (u32 \<Rightarrow> physical_drive_probe list) \<Rightarrow> (source \<Rightarrow> 's option) \<Rightarrow> ('s \<Rightarrow> int) \<Rightarrow> 's device \<Rightarrow> host \<Rightarrow>
   bool \<Rightarrow> string list \<Rightarrow> printed list \<times> int \<times> host_op list" where
  "inspect_with E discover opened now D host show_stats args =
     (let stop = (\<lambda>(printed, code). (printed, code, [])) in
      if args = [] then stop (inspect_usage E, 2)
      else if env_windows E \<and> hd args = ''--detect-physical'' then
        (case tl args of
           [] \<Rightarrow> stop (detect_physical (- 1) (discover (- 1)))
         | index # _ \<Rightarrow>
             (case stoul_unsigned (env_ulong_max E) index of
                None \<Rightarrow> stop ([err_line ''Invalid physical discovery index filter.''], 2)
              | Some i \<Rightarrow> stop (detect_physical i (discover i))))
      else
        (case select_source E opened args of
           Inl r \<Rightarrow> stop r
         | Inr (s, rest) \<Rightarrow>
             (case command_of rest of
                None \<Rightarrow> stop (inspect_usage E, 2)
              | Some command \<Rightarrow>
                  fst (run_state (inspect_session E now D host show_stats command) (open_session s)))))"

definition inspect_main ::
  "cli_env \<Rightarrow> (u32 \<Rightarrow> physical_drive_probe list) \<Rightarrow> (source \<Rightarrow> 's option) \<Rightarrow> ('s \<Rightarrow> int) \<Rightarrow> 's device \<Rightarrow> host \<Rightarrow>
   string list \<Rightarrow> printed list \<times> int \<times> host_op list" where
  "inspect_main E discover opened now D host args =
     (if args = [] then (inspect_usage E, 2, [])
      else if hd args = ''--version'' then
        ([line (''PS2 DriveForge '' @ env_version E @ ''-dev ('' @ env_codename E @ '')'')], 0, [])
      else if hd args = ''--stats'' then inspect_with E discover opened now D host True (tl args)
      else inspect_with E discover opened now D host False args)"

section \<open>The program over the image\<close>

text \<open>What a run prints and returns, computed from the image behind the source.\<close>

definition spec_lines :: "image \<Rightarrow> partition list \<Rightarrow> printed list" where
  "spec_lines im ps = concat (map (\<lambda>p. partition_line p #
     (if p_type p = kTypePfs \<and> \<not> is_sub p then probe_lines (evalS (probe image_device (apa_volume p)) im) else [])) ps)"

definition spec_overview :: "string \<Rightarrow> image \<Rightarrow> printed list" where
  "spec_overview name im =
     (let r = spec_scan im;
          top =
            [line (''Source: '' @ name),
             line (''Size:   '' @ format_bytes (img_size im)),
             line (''APA:    '' @ (if mbr_valid r then ''detected'' else ''not detected''))]
      in if \<not> mbr_valid r then top
         else top @
           [line (''Version: '' @ number (apa_version r)), line '''',
            line (setw_left 34 ''Partition'' @ setw_left 12 ''Type'' @ setw_left 16 ''Start LBA'' @
              setw_left 16 ''Main size'' @ setw_left 12 ''Subs'' @ ''Total''),
            line (replicate 102 CHR ''-'')] @
           spec_lines im (partitions r) @
           (if issues r \<noteq> [] then line '''' # line ''Diagnostics:'' # map issue_line (issues r) else []))"

definition spec_command ::
  "cli_env \<Rightarrow> image \<Rightarrow> host \<Rightarrow> cli_command \<Rightarrow> bool \<times> printed list \<times> host_op list" where
  "spec_command E im host command =
     (case command of
        Overview \<Rightarrow> (True, [], [])
      | Browse_partition pid path \<Rightarrow>
          (let (ok, printed) = browse_report pid path (spec_browse im (spec_scan im) pid path) in (ok, printed, []))
      | Extract_node pid path destination \<Rightarrow>
          (let r = export_report (spec_export im (spec_scan im) host pid path (env_path E destination));
               (ok, printed) = extract_report pid path destination r
           in (ok, printed, fst (snd r))))"

definition spec_inspect ::
  "cli_env \<Rightarrow> string \<Rightarrow> image \<Rightarrow> host \<Rightarrow> cli_command \<Rightarrow> printed list \<times> int \<times> host_op list" where
  "spec_inspect E name im host command =
     (if scan_ok (spec_scan im) then
        let (ok, printed, calls) = spec_command E im host command
        in (spec_overview name im @ printed, if ok then 0 else 1, calls)
      else
        (spec_overview name im @
           (if command = Overview then []
            else [err_line ''Refusing PFS operation because APA diagnostics contain fatal errors.'']),
         1, []))"

fun plain_command :: "cli_command \<Rightarrow> bool" where
  "plain_command (Browse_partition pid path) = plain_id pid"
| "plain_command _ = True"

section \<open>A run prints what the image says\<close>

lemma transparent_partition_lines:
  assumes D: "reliable_device T tok timg"
  shows "transparent tok timg (partition_lines T ps) (partition_lines image_device ps)"
proof (induction ps)
  case Nil
  show ?case by (simp add: transparent_ret)
next
  case (Cons p ps)
  show ?case
    unfolding partition_lines.simps
    by (intro transparent_bind transparent_if transparent_ret Cons.IH reliable_device.transparent_probe [OF D])
qed

lemma partition_lines_image: "evalS (partition_lines image_device ps) im = spec_lines im ps"
proof -
  have keeps: "run_state (probe image_device v) im = (evalS (probe image_device v) im, im)" for v
    using transparentD(3) [OF image.transparent_probe TrueI, of v im] by (cases "run_state (probe image_device v) im") (auto simp: evalS_def)
  have "run_state (partition_lines image_device ps) im = (spec_lines im ps, im)"
    by (induction ps) (simp_all add: spec_lines_def keeps)
  then show ?thesis by (simp add: evalS_def)
qed

lemma coherent_name:
  assumes "coherent ok img im sr ss" "\<And>s. ok s \<Longrightarrow> dev_name D s = name"
  shows "dev_name (stack_device now D) (ss_stack ss) = name"
  using assms
  by (simp add: coherent_def stack_ok_def stack_device_def rc_device_def ra_device_def ib_device_def rc_ok_def ra_ok_def)

lemma coherent_device_size:
  assumes "reliable_device D ok img" "coherent ok img im sr ss"
  shows "dev_size (stack_device now D) (ss_stack ss) = img_size im"
  using block_device.size_law [OF reliable_device.axioms(1) [OF stack_reliable_device [OF assms(1)]]] assms(2)
  by (auto simp: coherent_def)

lemma answers_print_overview:
  assumes D: "reliable_device D ok img" and name: "\<And>s. ok s \<Longrightarrow> dev_name D s = name" and sr: "sr = spec_scan im"
  shows "answers (coherent ok img im sr) (print_overview now D) (spec_overview name im) ss"
  unfolding print_overview_def Let_def
proof (rule answers_get)
  assume ss: "coherent ok img im sr ss"
  have scan: "ss_scan ss = spec_scan im" using ss sr by (simp add: coherent_def)
  have dev: "dev_name (stack_device now D) (ss_stack ss) = name"
    "dev_size (stack_device now D) (ss_stack ss) = img_size im"
    by (rule coherent_name [OF ss name], assumption) (rule coherent_device_size [OF D ss])
  show "answers (coherent ok img im sr) (if \<not> mbr_valid (ss_scan ss) then ret
        [line (''Source: '' @ dev_name (stack_device now D) (ss_stack ss)),
         line (''Size:   '' @ format_bytes (dev_size (stack_device now D) (ss_stack ss))),
         line (''APA:    '' @ (if mbr_valid (ss_scan ss) then ''detected'' else ''not detected''))]
      else do {
        rows \<leftarrow> on_stack (partition_lines (stack_device now D) (partitions (ss_scan ss)));
        ret (
          [line (''Source: '' @ dev_name (stack_device now D) (ss_stack ss)),
           line (''Size:   '' @ format_bytes (dev_size (stack_device now D) (ss_stack ss))),
           line (''APA:    '' @ (if mbr_valid (ss_scan ss) then ''detected'' else ''not detected''))] @
          [line (''Version: '' @ number (apa_version (ss_scan ss))), line '''',
           line (setw_left 34 ''Partition'' @ setw_left 12 ''Type'' @ setw_left 16 ''Start LBA'' @
             setw_left 16 ''Main size'' @ setw_left 12 ''Subs'' @ ''Total''),
           line (replicate 102 CHR ''-'')] @
          rows @
          (if issues (ss_scan ss) \<noteq> [] then line '''' # line ''Diagnostics:'' # map issue_line (issues (ss_scan ss)) else []))
      }) (spec_overview name im) ss"
    unfolding scan dev spec_overview_def Let_def
    by (cases "mbr_valid (spec_scan im)")
      (simp_all add: answers_ret answers_stack_then [OF transparent_partition_lines [OF stack_reliable_device [OF D]]]
        partition_lines_image)
qed

lemma answers_export:
  assumes D: "reliable_device D ok img"
  shows "answers (coherent ok img im sr) (do { r \<leftarrow> session_export now D host pid path dest; ret (f (export_report r)) })
    (f (export_report (spec_export im sr host pid path dest))) ss"
  using run_session_export [OF D, of im sr ss now host pid path dest] by (auto simp: answers_def split_def)

lemma answers_run_command:
  assumes D: "reliable_device D ok img" and plain: "plain_command command" and sr: "sr = spec_scan im"
  shows "answers (coherent ok img im sr) (run_command E now D host command)
    (case spec_command E im host command of (ok, printed, calls) \<Rightarrow>
       (if command = Overview then None else Some ok, printed, calls)) ss"
proof (cases command)
  case Overview
  then show ?thesis by (simp add: run_command_def spec_command_def answers_ret)
next
  case (Browse_partition pid path)
  have "answers (coherent ok img im sr)
      (do { r \<leftarrow> browse now D pid path; ret (case browse_report pid path r of (ok, printed) \<Rightarrow> (Some ok, printed, [])) })
      (case browse_report pid path (spec_browse im sr pid path) of (ok, printed) \<Rightarrow> (Some ok, printed, [])) ss"
    by (rule answers_bind [OF answers_browse [OF D]]) (use plain Browse_partition in \<open>simp_all add: answers_ret\<close>)
  then show ?thesis using Browse_partition sr by (simp add: run_command_def spec_command_def split_def Let_def)
next
  case (Extract_node pid path dest)
  show ?thesis
    using answers_export [OF D, of im sr now host pid path "env_path E dest"
        "\<lambda>r. case extract_report pid path dest r of (ok, printed) \<Rightarrow> (Some ok, printed, fst (snd r))" ss]
    by (simp add: Extract_node run_command_def spec_command_def split_def Let_def sr)
qed

lemma answers_inspect_finish:
  assumes D: "reliable_device D ok img" and plain: "plain_command command" and sr: "sr = spec_scan im"
  shows "answers (coherent ok img im sr) (inspect_finish E now D host False command (scan_ok sr) overview)
    (if scan_ok sr then
       let (ok, printed, calls) = spec_command E im host command in (overview @ printed, if ok then 0 else 1, calls)
     else
       (overview @ (if command = Overview then []
          else [err_line ''Refusing PFS operation because APA diagnostics contain fatal errors.'']), 1, [])) ss"
proof -
  obtain ok printed calls where spec: "spec_command E im host command = (ok, printed, calls)"
    by (cases "spec_command E im host command")
  have ok: "ok" "printed = []" "calls = []" if "command = Overview"
    using spec that by (simp_all add: spec_command_def)
  have work: "answers (coherent ok' img im sr) (if \<not> scan_ok sr \<and> command \<noteq> Overview
      then ret (None, [err_line ''Refusing PFS operation because APA diagnostics contain fatal errors.''], [])
      else run_command E now D host command)
    (if \<not> scan_ok sr \<and> command \<noteq> Overview
      then (None, [err_line ''Refusing PFS operation because APA diagnostics contain fatal errors.''], [])
      else (if command = Overview then None else Some ok, printed, calls)) y" if "reliable_device D ok' img" for ok' y
  proof (cases "\<not> scan_ok sr \<and> command \<noteq> Overview")
    case True
    then show ?thesis by (simp add: answers_ret)
  next
    case False
    have "answers (coherent ok' img im sr) (run_command E now D host command)
      (if command = Overview then None else Some ok, printed, calls) y"
      using answers_run_command [OF that plain sr, where now = now and E = E and host = host] unfolding spec prod.case .
    then show ?thesis using False by (simp only: if_False)
  qed
  show ?thesis
    unfolding inspect_finish_def Let_def
    by (rule answers_get, rule answers_bind [OF work [OF D]])
      (auto simp: spec ok coherent_def intro!: answers_get answers_ret split: if_splits)
qed

lemma inspect_session_image:
  assumes D: "reliable_device D ok img" and name: "\<And>s. ok s \<Longrightarrow> dev_name D s = name" and s: "ok s"
    and plain: "plain_command command"
  shows "fst (run_state (inspect_session E now D host False command) (open_session s)) =
    spec_inspect E name (img s) host command"
proof -
  let ?im = "img s" and ?sr = "spec_scan (img s)"
  obtain c y where scan: "run_state (session_scan now D) (open_session s) = (c, y)" by fastforce
  have c: "c = scan_ok ?sr" and y: "coherent ok img ?im ?sr y"
    using run_session_scan [OF D coherent_open [of ok s img], of now] s scan by (auto simp: scan_ok_def)
  have "answers (coherent ok img ?im ?sr) (do {
      overview \<leftarrow> print_overview now D;
      inspect_finish E now D host False command c overview
    }) (spec_inspect E name ?im host command) y"
    unfolding c
    by (rule answers_bind [OF answers_print_overview [OF D name refl]], assumption)
      (use answers_inspect_finish [OF D plain refl] in \<open>simp add: spec_inspect_def\<close>)
  then show ?thesis using y by (simp add: inspect_session_def scan answers_def)
qed

text \<open>C23: A run of the inspector prints, returns and writes what the image says.  It covers the runs over a reliable
  source of a fixed name whose first argument is not \<open>--version\<close>, \<open>--stats\<close> or \<open>--detect-physical\<close>, that
  select a source and give a command, and whose browse command names a partition without byte 0x1F.  Such a run
  prints the overview computed from the scan of the image
  and the probes of its PFS partitions, refuses the command exactly when the scan is not clean, and
  otherwise prints the browse or the export of the image; it exits with 0 exactly when the scan is
  clean and the command succeeds.\<close>

theorem inspect_refines_image:
  assumes "reliable_device D ok img" "\<And>s. ok s \<Longrightarrow> dev_name D s = name" "ok s"
    and "args \<noteq> []" "hd args \<notin> {''--version'', ''--stats'', ''--detect-physical''}"
    and "select_source E opened args = Inr (s, rest)" "command_of rest = Some command" "plain_command command"
  shows "inspect_main E discover opened now D host args = spec_inspect E name (img s) host command"
  using assms(4-7) inspect_session_image [OF assms(1-3,8)] by (simp add: inspect_main_def inspect_with_def Let_def)

section \<open>Exit codes and the host\<close>

lemma session_export_confined:
  "list_all (confined dest) (fst (snd (export_report (fst (run_state (session_export now D host pid path dest) ss)))))"
proof -
  have calls: "list_all (confined dest) (ex_calls x)"
    if "run_state (pfs_export_to_host T host rd path dest) (empty_export st) = (b, x)" for T :: "'a stack device" and rd st b x
    using confined_export [of dest T host rd path] that
    by (auto simp: effect_def calls_confined_def empty_export_def dest!: spec [of _ "empty_export st"])
  show ?thesis
    by (auto simp: session_export_def timed_def count_def modify_def export_report_def empty_export_def Let_def
        State_Monad.get_def State_Monad.set_def calls split: prod.splits sum.splits)
qed

text \<open>The host path a command may write below.\<close>

fun writes_below :: "cli_env \<Rightarrow> cli_command \<Rightarrow> host_op \<Rightarrow> bool" where
  "writes_below E (Extract_node pid path destination) op = confined (env_path E destination) op"
| "writes_below E _ op = False"

lemma run_command_calls:
  "list_all (writes_below E command) (snd (snd (fst (run_state (run_command E now D host command) ss))))"
proof (cases command)
  case (Extract_node pid path dest)
  obtain r ss' where run: "run_state (session_export now D host pid path (env_path E dest)) ss = (r, ss')" by fastforce
  have "list_all (confined (env_path E dest)) (fst (snd (export_report r)))"
    using session_export_confined [of "env_path E dest" now D host pid path ss] by (simp add: run)
  then show ?thesis using run Extract_node by (auto simp: run_command_def list_all_iff Let_def split: prod.splits)
qed (auto simp: run_command_def Let_def split: prod.splits)

lemma inspect_session_result:
  assumes "run_state (inspect_session E now D host st command) ss = ((printed, code, calls), ss')"
  shows "(code = 0 \<or> code = 1) \<and> list_all (writes_below E command) calls"
proof -
  obtain c y where 1: "run_state (session_scan now D) ss = (c, y)" by fastforce
  obtain ov z where 2: "run_state (print_overview now D) y = (ov, z)" by fastforce
  obtain f p cs w where 3: "run_state (run_command E now D host command) z = ((f, p, cs), w)"
    by (metis prod.collapse)
  have "list_all (writes_below E command) cs" using run_command_calls [of E command now D host z] by (simp add: 3)
  then show ?thesis
    using assms 1 2 3
    by (auto simp: inspect_session_def inspect_finish_def Let_def State_Monad.get_def split: if_splits option.splits)
qed

lemma select_source_code: "select_source E opened args = Inl (printed, code) \<Longrightarrow> code = 1 \<or> code = 2"
  by (auto simp: select_source_def split: if_splits option.splits list.splits)

lemma detect_physical_code: "\<exists>printed. detect_physical m ps = (printed, 0) \<or> detect_physical m ps = (printed, 1)"
  by (simp add: detect_physical_def Let_def)

lemma inspect_with_result:
  assumes "inspect_with E discover opened now D host st args = (printed, code, calls)"
  shows "(code = 0 \<or> code = 1 \<or> code = 2) \<and>
    (calls \<noteq> [] \<longrightarrow> code \<noteq> 2 \<and> (\<exists>s rest command. select_source E opened args = Inr (s, rest) \<and>
       command_of rest = Some command \<and> list_all (writes_below E command) calls))"
proof (cases "args = [] \<or> env_windows E \<and> hd args = ''--detect-physical''")
  case True
  then show ?thesis
    using assms detect_physical_code [of "- 1" "discover (- 1)"] detect_physical_code
    by (auto simp: inspect_with_def Let_def split_def detect_physical_def split: list.splits option.splits if_splits)
next
  case False
  show ?thesis
  proof (cases "select_source E opened args")
    case (Inl r)
    then show ?thesis
      using assms False select_source_code [of E opened args "fst r" "snd r"] by (auto simp: inspect_with_def split_def)
  next
    case (Inr x)
    obtain s rest where x: "x = (s, rest)" by (cases x)
    show ?thesis
    proof (cases "command_of rest")
      case None
      then show ?thesis using assms False Inr x by (auto simp: inspect_with_def)
    next
      case (Some command)
      then obtain ss' where "run_state (inspect_session E now D host st command) (open_session s) = ((printed, code, calls), ss')"
        using assms False Inr x
        by (cases "run_state (inspect_session E now D host st command) (open_session s)") (auto simp: inspect_with_def)
      from inspect_session_result [OF this] Inr x Some show ?thesis by auto
    qed
  qed
qed

lemma command_of_extract:
  assumes "command_of rest = Some command" "list_all (writes_below E command) calls" "calls \<noteq> []"
  shows "\<exists>pid path destination. rest = [''--extract'', pid, path, destination] \<and>
    list_all (confined (env_path E destination)) calls"
proof -
  obtain op where "op \<in> set calls" using assms(3) by (cases calls) auto
  then have "writes_below E command op" using assms(2) by (simp add: list_all_iff)
  then obtain pid path destination where command: "command = Extract_node pid path destination" by (cases command) auto
  with assms(1) have "rest = [''--extract'', pid, path, destination]"
    by (auto simp: command_of_def split: list.splits if_splits)
  with assms(2) command show ?thesis by (simp add: list_all_iff)
qed

lemma select_source_rest: "select_source E opened args = Inr (s, rest) \<Longrightarrow> \<exists>prefix. args = prefix @ rest"
proof -
  assume a: "select_source E opened args = Inr (s, rest)"
  then have "rest = tl args \<or> rest = tl (tl args)"
    by (auto simp: select_source_def split: if_splits option.splits list.splits)
  then show ?thesis by (metis append_Cons append_Nil list.collapse list.sel(2))
qed

text \<open>C35: Whatever the arguments, the source and the host do, the inspector exits with 0, 1 or 2, and touches
  the host only for an extract command whose source was opened: every path it then creates, opens, writes or
  removes is the destination named last on the command line itself, or lies below it through safe names, or is the
  destination's parent directory, which it may only create.  A usage error (2) never touches the host.\<close>

theorem inspect_confined:
  assumes "inspect_main E discover opened now D host args = (printed, code, calls)"
  shows "(code = 0 \<or> code = 1 \<or> code = 2) \<and> (code = 2 \<longrightarrow> calls = []) \<and>
    (calls \<noteq> [] \<longrightarrow> (\<exists>prefix pid path destination.
       args = prefix @ [''--extract'', pid, path, destination] \<and> list_all (confined (env_path E destination)) calls))"
proof -
  have with_result: "(code = 0 \<or> code = 1 \<or> code = 2) \<and> (code = 2 \<longrightarrow> calls = []) \<and>
      (calls \<noteq> [] \<longrightarrow> (\<exists>prefix pid path destination.
         args' = prefix @ [''--extract'', pid, path, destination] \<and> list_all (confined (env_path E destination)) calls))"
    if "inspect_with E discover opened now D host st args' = (printed, code, calls)" for st args'
    using inspect_with_result [OF that] command_of_extract select_source_rest by fast
  consider "args = []" | "args \<noteq> []" "hd args = ''--version''"
    | "args = ''--stats'' # tl args" "inspect_with E discover opened now D host True (tl args) = (printed, code, calls)"
    | "inspect_with E discover opened now D host False args = (printed, code, calls)"
    using assms by (cases args) (auto simp: inspect_main_def split: if_splits)
  then show ?thesis
  proof cases
    case 3
    from with_result [OF 3(2)] 3(1) show ?thesis by (metis append_Cons)
  next
    case 4
    from with_result [OF this] show ?thesis .
  qed (use assms in \<open>auto simp: inspect_main_def\<close>)
qed

end
