(* ===== verification/Benchmark.thy ===== *)
theory Benchmark
  imports Inspect HdlEnrichment
begin

text \<open>
  \<open>ps2-driveforge-benchmark\<close> (\<open>src/cli/benchmark.cpp\<close>): the arguments, the timed phases over one session and
  the metadata workload.  Its clock is the clock of the session.
\<close>

section \<open>Reports\<close>

text \<open>The \<open>join_path\<close> of this program.\<close>

definition bench_join_path :: "string \<Rightarrow> string \<Rightarrow> string" where
  "bench_join_path parent child =
     (if parent = '''' \<or> parent = ''/'' then child
      else (if last parent \<noteq> CHR ''/'' then parent @ ''/'' else parent) @ child)"

definition elapsed_ns :: "int \<Rightarrow> int \<Rightarrow> u64" where
  "elapsed_ns started finished = (let elapsed = finished - started in if 0 < elapsed then word_of_int elapsed else 0)"

definition yes_no_unknown :: "bool \<Rightarrow> bool \<Rightarrow> string" where
  "yes_no_unknown known v = (if known then (if v then ''yes'' else ''no'') else ''unknown'')"

definition storage_profile :: "storage_characteristics \<Rightarrow> printed list" where
  "storage_profile c =
     [line ''[storage profile]'',
      line (''  media class:            '' @ storage_media_class_name (media_class c)),
      line (''  seek penalty:           '' @ yes_no_unknown (seek_penalty_known c) (incurs_seek_penalty c)),
      line (''  TRIM enabled:           '' @ yes_no_unknown (trim_known c) (trim_enabled c)),
      line (''  bus type:               '' @ (if bus_type_known c then number (bus_type c) else ''unknown'')),
      line (''  nominal rotation rate:  '' @
        (if nominal_rotation_rate_known c then
           (if nominal_rotation_rate c = 1 then ''non-rotating'' else number (nominal_rotation_rate c) @ '' RPM'')
         else ''unknown''))]"

text \<open>Milliseconds with three decimals, and their average over \<open>calls\<close>.\<close>

definition milliseconds :: "u64 \<Rightarrow> string" where
  "milliseconds ns = fixed_quotient (unat ns) 1000000"

definition average_milliseconds :: "u64 \<Rightarrow> u64 \<Rightarrow> string" where
  "average_milliseconds ns calls =
     (if calls = 0 \<or> ns = 0 then fixed 3 0 1
      else
        let (m, a, b) = double_quotient (double_of (unat ns)) 1000000;
            (m', a', b') = double_quotient (m * a) (b * double_of (unat calls))
        in fixed 3 (m' * a') b')"

definition io_report ::
  "string \<Rightarrow> block_io_stats \<times> read_ahead_stats \<times> read_cache_stats \<times> session_counters \<Rightarrow> u64 \<Rightarrow> printed list" where
  "io_report label stats wall_ns =
     (let (io, ahead, cache, c) = stats in
     [line '''',
      line (''['' @ label @ '']''),
      line (''  wall time:              '' @ milliseconds wall_ns @ '' ms''),
      line (''  backing read calls:     '' @ number (io_read_calls io)),
      line (''  backing bytes:          '' @ format_bytes (io_bytes_requested io)),
      line (''  backing service time:   '' @ milliseconds (io_read_time_ns io) @ '' ms''),
      line (''  average read service:   '' @ average_milliseconds (io_read_time_ns io) (io_read_calls io) @ '' ms''),
      line (''  small backing reads:    '' @ number (io_small_read_calls io)),
      line (''  largest backing read:   '' @ format_bytes (io_largest_read io)),
      line (''  max reads in flight:    '' @ number (io_max_in_flight io)),
      line (''  read-window hit/miss:   '' @ number (rc_hits cache) @ ''/'' @ number (rc_misses cache)),
      line (''  read-window fill bytes: '' @ format_bytes (rc_fill_bytes cache)),
      line (''  read-ahead hit/miss:    '' @ number (ra_window_hits ahead) @ ''/'' @ number (ra_window_misses ahead)),
      line (''  prefetch count/bytes:   '' @ number (ra_prefetches ahead) @ ''/'' @ format_bytes (ra_prefetched_bytes ahead)),
      line (''  probe hit/miss:         '' @ number (sc_probe_hits c) @ ''/'' @ number (sc_probe_misses c)),
      line (''  browse hit/miss:        '' @ number (sc_browse_hits c) @ ''/'' @ number (sc_browse_misses c)),
      line (''  stat hit/miss:          '' @ number (sc_stat_hits c) @ ''/'' @ number (sc_stat_misses c)),
      line (''  node hit/miss:          '' @ number (sc_node_hits c) @ ''/'' @ number (sc_node_misses c))])"

definition bench_usage :: "cli_env \<Rightarrow> printed list" where
  "bench_usage E =
     [line (''PS2 DriveForge '' @ env_version E @ ''-dev ('' @ env_codename E @ '') performance harness''),
      line '''',
      line ''Usage:'',
      line ''  ps2-driveforge-benchmark <disk-image> [--hdl] [--hdl-qd N] [--browse <partition> [path]]''] @
     (if env_windows E then
        [line ''  ps2-driveforge-benchmark --physical <index> [--hdl] [--hdl-qd N] [--browse <partition> [path]]'']
      else []) @
     [line '''',
      line ''The harness is read-only. --hdl uses the same scheduler intended for the HDD Manager.'',
      line ''--hdl-qd is a benchmark/developer override; normal frontends use automatic policy.'']"

definition catalog_report :: "u64 \<Rightarrow> partition_catalog \<Rightarrow> printed list" where
  "catalog_report wall_ns c =
     [line '''',
      line ''[zero-I/O partition catalog]'',
      line (''  build time:             '' @ milliseconds wall_ns @ '' ms''),
      line (''  rows:                   '' @ decimal (length (pc_entries c))),
      line (''  main/sub:               '' @ decimal (pc_main_partitions c) @ ''/'' @ decimal (pc_sub_partitions c)),
      line (''  HDL partitions:         '' @ decimal (pc_hdl_partitions c)),
      line (''  PFS partitions:         '' @ decimal (pc_pfs_partitions c)),
      line (''  HDL bytes:              '' @ format_bytes (pc_hdl_bytes c)),
      line (''  PFS bytes:              '' @ format_bytes (pc_pfs_bytes c)),
      line (''  free bytes:             '' @ format_bytes (pc_free_bytes c))]"

definition hdl_summary :: "catalog_result \<Rightarrow> enrichment_policy \<Rightarrow> printed list" where
  "hdl_summary c policy =
     [line (''  scheduler max in-flight: '' @ decimal (max_in_flight policy)),
      line (''  physical LBA order:     '' @ (if physical_lba_order policy then ''yes'' else ''no'')),
      line (''  games discovered:       '' @ decimal (length (cat_entries c))),
      line (''  readable/unreadable:    '' @ decimal (cat_readable c) @ ''/'' @ decimal (cat_unreadable c))] @
     map (\<lambda>r. line (''  unreadable HDL:         '' @ g_partition_id (gr_game r) @ '' ('' @ gr_error r @ '')''))
       (filter (\<lambda>r. \<not> gr_ok r) (cat_entries c))"

section \<open>The metadata workload\<close>

fun stat_entries ::
  "('s \<Rightarrow> int) \<Rightarrow> 's device \<Rightarrow> string \<Rightarrow> string \<Rightarrow> session_entry list \<Rightarrow> ('s, bool \<times> printed list) session_op" where
  "stat_entries now D pid path [] = ret (True, [])"
| "stat_entries now D pid path (e # es) = do {
     st \<leftarrow> session_stat now D pid (bench_join_path path (se_name e));
     if \<not> st_ok st then ret (False, [err_line (''Stat failed for '' @ se_name e @ '': '' @ st_error st)])
     else stat_entries now D pid path es
   }"

definition metadata_workload ::
  "('s \<Rightarrow> int) \<Rightarrow> 's device \<Rightarrow> string \<Rightarrow> string \<Rightarrow> ('s, bool \<times> printed list) session_op" where
  "metadata_workload now D pid path = do {
     b \<leftarrow> browse now D pid path;
     if \<not> br_ok b then ret (False, [err_line (''Browse failed: '' @ br_error b)])
     else stat_entries now D pid path (br_entries b)
   }"

section \<open>The options\<close>

record bench_options =
  bo_run_hdl :: bool
  bo_hdl_qd :: nat
  bo_target :: "(string \<times> string) option"

text \<open>The argument loop after the source.\<close>

fun bench_parse :: "cli_env \<Rightarrow> string list \<Rightarrow> bench_options \<Rightarrow> (printed list \<times> int) + bench_options" where
  "bench_parse E [] opts = Inr opts"
| "bench_parse E (option # rest) opts =
     (if option = ''--hdl'' then bench_parse E rest (opts\<lparr>bo_run_hdl := True\<rparr>)
      else if option = ''--hdl-qd'' then
        (case rest of
           [] \<Rightarrow> Inl (bench_usage E, 2)
         | n # rest' \<Rightarrow>
             (case stoul ascii_blank (env_ulong_max E) (map char_code n) of
                None \<Rightarrow> Inl ([err_line ''Invalid --hdl-qd value.''], 2)
              | Some qd \<Rightarrow>
                  if qd = 0 then Inl ([err_line ''--hdl-qd must be at least 1.''], 2)
                  else bench_parse E rest' (opts\<lparr>bo_hdl_qd := qd, bo_run_hdl := True\<rparr>)))
      else if option = ''--browse'' then
        (if bo_target opts \<noteq> None then Inl (bench_usage E, 2)
         else case rest of
           [] \<Rightarrow> Inl (bench_usage E, 2)
         | pid # rest' \<Rightarrow>
             (case rest' of
                [] \<Rightarrow> bench_parse E rest' (opts\<lparr>bo_target := Some (pid, '''')\<rparr>)
              | path # rest'' \<Rightarrow>
                  if take 2 path \<noteq> ''--'' then bench_parse E rest'' (opts\<lparr>bo_target := Some (pid, path)\<rparr>)
                  else bench_parse E rest' (opts\<lparr>bo_target := Some (pid, '''')\<rparr>)))
      else Inl (bench_usage E, 2))"

definition bench_source ::
  "cli_env \<Rightarrow> (source \<Rightarrow> 's option) \<Rightarrow> (nat \<Rightarrow> u32) \<Rightarrow> string list \<Rightarrow> (printed list \<times> int) + ('s \<times> string list)" where
  "bench_source E opened win32_error args =
     (if env_windows E \<and> hd args = ''--physical'' then
        (case tl args of
           [] \<Rightarrow> Inl (bench_usage E, 2)
         | index # rest \<Rightarrow>
             (case stoul_unsigned (env_ulong_max E) index of
                None \<Rightarrow> Inl ([err_line ''Invalid physical drive index.''], 2)
              | Some i \<Rightarrow>
                  (case opened (Drive_index i) of
                     None \<Rightarrow> Inl ([err_line (''Could not open PhysicalDrive read-only. Win32 error: '' @
                       number (win32_error (unat i)))], 1)
                   | Some s \<Rightarrow> Inr (s, rest))))
      else
        (case opened (Image_file (hd args)) of
           None \<Rightarrow> Inl ([err_line (''Could not open image: '' @ hd args)], 1)
         | Some s \<Rightarrow> Inr (s, tl args)))"

section \<open>The phases\<close>

definition clock :: "('s \<Rightarrow> int) \<Rightarrow> ('s, int) session_op" where
  "clock now = do { ss \<leftarrow> State_Monad.get; ret (now (stack_source (ss_stack ss))) }"

definition timed_phase :: "('s \<Rightarrow> int) \<Rightarrow> ('s, 'a) session_op \<Rightarrow> ('s, 'a \<times> u64) session_op" where
  "timed_phase now m = do {
     started \<leftarrow> clock now;
     a \<leftarrow> m;
     finished \<leftarrow> clock now;
     ret (a, elapsed_ns started finished)
   }"

text \<open>\<open>enrich k\<close> is a run of the scheduler with override \<open>k\<close> over the device stack.\<close>

definition hdl_phase ::
  "('s \<Rightarrow> int) \<Rightarrow> 's device \<Rightarrow> (scan_result \<Rightarrow> nat \<Rightarrow> ('s stack, catalog_result) state) \<Rightarrow> nat \<Rightarrow> nat \<Rightarrow>
   ('s, printed list) session_op" where
  "hdl_phase now D enrich qd hdl_partitions = do {
     _ \<leftarrow> modify clear_caches;
     _ \<leftarrow> modify session_reset_stats;
     ss \<leftarrow> State_Monad.get;
     let policy = choose_hdl_enrichment_policy (dev_characteristics (stack_device now D) (ss_stack ss)) hdl_partitions qd;
     (catalog, wall) \<leftarrow> timed_phase now (on_stack (enrich (ss_scan ss) qd));
     ss' \<leftarrow> State_Monad.get;
     ret (io_report ''native scheduled HDL metadata enrichment'' (session_stats ss') wall @ hdl_summary catalog policy)
   }"

definition browse_phase ::
  "('s \<Rightarrow> int) \<Rightarrow> 's device \<Rightarrow> string \<Rightarrow> string \<Rightarrow> string \<Rightarrow> ('s, bool \<times> printed list) session_op" where
  "browse_phase now D label pid path = do {
     _ \<leftarrow> modify session_reset_stats;
     ((ok, printed), wall) \<leftarrow> timed_phase now (metadata_workload now D pid path);
     ss \<leftarrow> State_Monad.get;
     ret (ok, printed @ (if ok then io_report label (session_stats ss) wall else []))
   }"

definition bench_session ::
  "('s \<Rightarrow> int) \<Rightarrow> 's device \<Rightarrow> (scan_result \<Rightarrow> nat \<Rightarrow> ('s stack, catalog_result) state) \<Rightarrow> bench_options \<Rightarrow>
   ('s, printed list \<times> int) session_op" where
  "bench_session now D enrich opts = do {
     _ \<leftarrow> modify session_reset_stats;
     (clean, scan_wall) \<leftarrow> timed_phase now (session_scan now D);
     ss \<leftarrow> State_Monad.get;
     if \<not> clean then ret ([err_line (''APA scan failed: '' @ ss_last_error ss)], 1)
     else do {
       let cold_scan = io_report ''cold APA scan'' (session_stats ss) scan_wall;
       (catalog, catalog_wall) \<leftarrow> timed_phase now (ret (build_partition_catalog (ss_scan ss) True));
       let head = cold_scan @ catalog_report catalog_wall catalog;
       hdl \<leftarrow> (if bo_run_hdl opts then hdl_phase now D enrich (bo_hdl_qd opts) (pc_hdl_partitions catalog) else ret []);
       case bo_target opts of
         None \<Rightarrow> ret (head @ hdl, 0)
       | Some (pid, path) \<Rightarrow> do {
           _ \<leftarrow> modify clear_caches;
           (ok, cold) \<leftarrow> browse_phase now D ''cold browse + stat'' pid path;
           if \<not> ok then ret (head @ hdl @ cold, 1)
           else do {
             (ok', warm) \<leftarrow> browse_phase now D ''warm browse + stat'' pid path;
             ret (head @ hdl @ cold @ warm, if ok' then 0 else 1)
           }
         }
     }
   }"

definition bench_main ::
  "cli_env \<Rightarrow> (source \<Rightarrow> 's option) \<Rightarrow> (nat \<Rightarrow> u32) \<Rightarrow> ('s \<Rightarrow> int) \<Rightarrow> 's device \<Rightarrow>
   (scan_result \<Rightarrow> nat \<Rightarrow> ('s stack, catalog_result) state) \<Rightarrow> string list \<Rightarrow> printed list \<times> int" where
  "bench_main E opened win32_error now D enrich args =
     (if args = [] then (bench_usage E, 2)
      else case bench_source E opened win32_error args of
        Inl r \<Rightarrow> r
      | Inr (s, rest) \<Rightarrow>
          (case bench_parse E rest \<lparr>bo_run_hdl = False, bo_hdl_qd = 0, bo_target = None\<rparr> of
             Inl r \<Rightarrow> r
           | Inr opts \<Rightarrow>
               (let (printed, code) = fst (run_state (bench_session now D enrich opts) (open_session s))
                in (storage_profile (dev_characteristics D s) @ printed, code))))"

end
