(* ===== verification/WarmCache.thy ===== *)
theory WarmCache
  imports Benchmark
begin

text \<open>
  What the second pass of the metadata workload costs.  The first pass leaves the listing and the node of
  every entry in the caches of the session; unless the stat cache had to evict, the second pass finds all
  of them and never reaches a device.
\<close>

section \<open>What an operation does to the two caches\<close>

definition same_lookups :: "'s session \<Rightarrow> 's session \<Rightarrow> bool" where
  "same_lookups x y \<longleftrightarrow> ss_browse_cache y = ss_browse_cache x \<and> ss_stat_cache y = ss_stat_cache x"

interpretation lookups: effect_preorder same_lookups
  by unfold_locales (auto simp: same_lookups_def)

lemma lookups_modify: "(\<And>x. same_lookups x (f x)) \<Longrightarrow> effect same_lookups (modify f)"
  by (simp add: effect_def modify_def State_Monad.get_def State_Monad.set_def)

lemma lookups_simple:
  "effect same_lookups (on_stack m)" "effect same_lookups (count f)"
  "effect same_lookups (modify (store_probe k p))" "effect same_lookups (modify (store_node k nd))"
  by (auto simp: effect_def on_stack_def count_def modify_def same_lookups_def store_probe_def store_node_def
      evicted_def Let_def State_Monad.get_def State_Monad.set_def split: prod.splits)

lemmas lookups_intros = lookups.effect_intros lookups_simple

lemma lookups_open_partition: "effect same_lookups (open_partition now D pid)"
  unfolding open_partition_def probe_for_def Let_def by (intro lookups_intros)

lemma lookups_work:
  "effect same_lookups (bindE (open_partition now D pid) (\<lambda>rd. on_stack (f rd)))"
  "effect same_lookups (bindE (open_partition now D pid) (\<lambda>rd. pfs_op (g rd)))"
  unfolding bindE_def pfs_op_def by (intro lookups_intros lookups_open_partition)+

lemma lookups_run: "effect same_lookups m \<Longrightarrow> run_state m ss = (a, y) \<Longrightarrow> same_lookups ss y"
  unfolding effect_def by (metis snd_conv)

text \<open>A timer only adds to a counter.\<close>

lemma run_timed:
  "\<exists>c. run_state (timed now add m) ss =
     (fst (run_state m ss), (snd (run_state m ss))\<lparr>ss_counters := c\<rparr>)"
proof -
  obtain a y where m: "run_state m ss = (a, y)" by fastforce
  have "\<exists>c. y = y\<lparr>ss_counters := c\<rparr>" by (rule exI [of _ "ss_counters y"]) simp
  then show ?thesis
    by (auto simp: timed_def m Let_def count_def modify_def State_Monad.get_def State_Monad.set_def intro: exI)
qed

section \<open>The stat cache grows\<close>

definition grows :: "nat \<Rightarrow> ('k, 'v) umap \<Rightarrow> ('k, 'v) umap \<Rightarrow> bool" where
  "grows n m m' \<longleftrightarrow> length m' \<le> length m + n \<and>
     (length m + n \<le> kMaxStatCacheEntries \<longrightarrow> (\<forall>k. um_contains m k \<longrightarrow> um_contains m' k))"

lemma grows_refl: "grows 0 m m"
  by (simp add: grows_def)

lemma grows_trans: "grows a x y \<Longrightarrow> grows b y z \<Longrightarrow> grows (a + b) x z"
  by (auto simp: grows_def)

lemma grows_mono: "grows a x y \<Longrightarrow> a \<le> b \<Longrightarrow> grows b x y"
  by (auto simp: grows_def)

lemma grows_store: "grows 1 m (fst (bounded_store m k v kMaxStatCacheEntries))"
  by (auto simp: grows_def bounded_store_def length_insert_or_assign um_erase_begin_def um_contains_def
      kMaxStatCacheEntries_def)

definition stats_fine :: "'s session \<Rightarrow> bool" where
  "stats_fine ss \<longleftrightarrow> um_all (\<lambda>_ v. st_ok v) (ss_stat_cache ss)"

lemma store_stats_grows:
  "stats_fine ss \<Longrightarrow> stats_fine (store_stats ns ss) \<and>
   ss_browse_cache (store_stats ns ss) = ss_browse_cache ss \<and>
   grows (length ns) (ss_stat_cache ss) (ss_stat_cache (store_stats ns ss))"
proof (induction ns arbitrary: ss)
  case (Cons n ns)
  obtain k p nd where n: "n = (k, p, nd)" by (cases n)
  let ?v = "stat_from_node p nd" and ?y = "store_stat k (stat_from_node p nd) ss"
  have y: "ss_stat_cache ?y = fst (bounded_store (ss_stat_cache ss) k ?v kMaxStatCacheEntries)"
    "ss_browse_cache ?y = ss_browse_cache ss"
    by (simp_all add: store_stat_def evicted_def split_def Let_def)
  have "stats_fine ?y"
    unfolding stats_fine_def y
    by (rule um_all_bounded_store) (use Cons.prems in \<open>simp_all add: stats_fine_def stat_from_node_def\<close>)
  moreover have "store_stats (n # ns) ss = store_stats ns ?y" by (simp add: store_stats_def n)
  ultimately show ?case
    using Cons.IH [of ?y] y
      grows_trans [OF grows_store [of "ss_stat_cache ss" k ?v], of "length ns" "ss_stat_cache (store_stats ns ?y)"] by simp
qed (simp add: store_stats_def grows_refl)

section \<open>One stat, one browse\<close>

abbreviation stat_key :: "string \<Rightarrow> string \<Rightarrow> string" where
  "stat_key pid path \<equiv> make_cache_key pid path"

lemma timed_cases:
  "(\<And>c. P (fst (run_state m ss), (snd (run_state m ss))\<lparr>ss_counters := c\<rparr>)) \<Longrightarrow> P (run_state (timed now add m) ss)"
  using run_timed [of now add m ss] by auto

lemmas session_steps = count_def modify_def Let_def State_Monad.get_def State_Monad.set_def

lemma stat_hit:
  assumes "map_of (ss_stat_cache ss) (stat_key pid path) = Some r"
  shows "\<exists>c. run_state (session_stat now D pid path) ss = (r, ss\<lparr>ss_counters := c\<rparr>)"
  unfolding session_stat_def
  by (rule timed_cases) (use assms in \<open>auto simp: session_steps make_cache_key_def intro: exI\<close>)

text \<open>A miss fails and keeps the caches, or stores a fine result.\<close>

definition stat_outcome :: "string \<Rightarrow> 's session \<Rightarrow> stat_result \<times> 's session \<Rightarrow> bool" where
  "stat_outcome key ss r \<longleftrightarrow>
     (if st_ok (fst r) then ss_browse_cache (snd r) = ss_browse_cache ss \<and>
        ss_stat_cache (snd r) = fst (bounded_store (ss_stat_cache ss) key (fst r) kMaxStatCacheEntries)
      else same_lookups ss (snd r))"

lemma outcome_store:
  "same_lookups ss y \<Longrightarrow> st_ok st \<Longrightarrow> stat_outcome key ss (st, (store_stat key st y)\<lparr>ss_counters := c\<rparr>)"
  by (simp add: stat_outcome_def same_lookups_def store_stat_def evicted_def split_def Let_def)

lemma same_store_node: "same_lookups x y \<Longrightarrow> same_lookups x (store_node k nd y)"
  by (simp add: same_lookups_def store_node_def evicted_def split_def Let_def)

lemma same_counters: "same_lookups x (y\<lparr>ss_counters := c\<rparr>) \<longleftrightarrow> same_lookups x y"
  "same_lookups (x\<lparr>ss_counters := c\<rparr>) y \<longleftrightarrow> same_lookups x y"
  by (simp_all add: same_lookups_def)

definition resolve_work :: "('s \<Rightarrow> int) \<Rightarrow> 's device \<Rightarrow> string \<Rightarrow> string \<Rightarrow> ('s, string + pfs_node) session_op" where
  "resolve_work now D pid path = bindE (open_partition now D pid) (\<lambda>rd. pfs_op (resolve (stack_device now D) rd path))"

lemma resolve_work_run: "run_state (resolve_work now D pid path) ss = (a, y) \<Longrightarrow> same_lookups ss y"
  unfolding resolve_work_def by (rule lookups_run [OF lookups_work(2)])

lemma stat_miss:
  assumes miss: "map_of (ss_stat_cache ss) (stat_key pid path) = None"
  shows "stat_outcome (stat_key pid path) ss (run_state (session_stat now D pid path) ss)"
proof -
  have fine: "st_ok (stat_from_node p nd)" for p nd by (simp add: stat_from_node_def)
  have stored: "ss_browse_cache (store_stat k v x) = ss_browse_cache x"
    "ss_stat_cache (store_stat k v x) = fst (bounded_store (ss_stat_cache x) k v kMaxStatCacheEntries)"
    "ss_browse_cache (store_node k nd x) = ss_browse_cache x" "ss_stat_cache (store_node k nd x) = ss_stat_cache x"
    "same_lookups x y \<Longrightarrow> ss_browse_cache y = ss_browse_cache x" "same_lookups x y \<Longrightarrow> ss_stat_cache y = ss_stat_cache x"
    for k v nd and x y :: "'a session"
    by (simp_all add: store_stat_def store_node_def evicted_def same_lookups_def split_def Let_def)
  have failed: "\<not> st_ok (failed_stat msg)" for msg by (simp add: failed_stat_def)
  show ?thesis
    unfolding session_stat_def Let_def resolve_work_def [symmetric]
    by (rule timed_cases)
      (use miss in \<open>auto simp: session_steps fine failed stat_outcome_def same_counters stored split: prod.splits sum.splits
         option.splits dest!: resolve_work_run\<close>)
qed

lemma browse_hit:
  assumes "map_of (ss_browse_cache ss) (stat_key pid path) = Some b"
  shows "\<exists>c. run_state (browse now D pid path) ss = (b, ss\<lparr>ss_counters := c\<rparr>)"
  unfolding browse_def
  by (rule timed_cases) (use assms in \<open>auto simp: session_steps intro: exI\<close>)

definition browse_outcome :: "string \<Rightarrow> 's session \<Rightarrow> browse_result \<times> 's session \<Rightarrow> bool" where
  "browse_outcome key ss r \<longleftrightarrow> br_ok (fst r) \<longrightarrow>
     stats_fine (snd r) \<and> map_of (ss_browse_cache (snd r)) key = Some (fst r) \<and>
     grows (1 + length (br_entries (fst r))) (ss_stat_cache ss) (ss_stat_cache (snd r))"

definition browse_work ::
  "('s \<Rightarrow> int) \<Rightarrow> 's device \<Rightarrow> string \<Rightarrow> string \<Rightarrow>
   ('s, string + pfs_node \<times> (directory_entry \<times> pfs_node option) list) session_op" where
  "browse_work now D pid path =
     bindE (open_partition now D pid) (\<lambda>rd. on_stack (browse_directory (stack_device now D) rd path))"

lemma browse_work_run: "run_state (browse_work now D pid path) ss = (a, y) \<Longrightarrow> same_lookups ss y"
  unfolding browse_work_def by (rule lookups_run [OF lookups_work(1)])

lemma length_browsed_nodes: "length (browsed_nodes pid path node cs) \<le> 1 + length cs"
  by (induction cs) (auto simp: browsed_nodes_def split: option.splits)

lemma store_nodes_same: "same_lookups x (store_nodes ns x)"
proof (induction ns arbitrary: x)
  case (Cons n ns)
  obtain k p nd where n: "n = (k, p, nd)" by (cases n)
  have "same_lookups x (store_node k nd x)" by (rule same_store_node) (simp add: same_lookups_def)
  with Cons [of "store_node k nd x"] show ?case by (simp add: store_nodes_def n same_lookups_def)
qed (simp add: store_nodes_def same_lookups_def)

lemma browse_stored:
  assumes "stats_fine ss" "same_lookups ss y" "length ns \<le> 1 + length (br_entries b)"
  shows "browse_outcome key ss (b, (store_browse key b (store_stats ns (store_nodes ns y)))\<lparr>ss_counters := c\<rparr>)"
proof -
  have same: "same_lookups ss (store_nodes ns y)"
    using lookups.effect_trans [OF assms(2) store_nodes_same] .
  then have "stats_fine (store_nodes ns y)" using assms(1) by (simp add: stats_fine_def same_lookups_def)
  from store_stats_grows [OF this, of ns] same
  have "stats_fine (store_stats ns (store_nodes ns y))"
    "grows (length ns) (ss_stat_cache ss) (ss_stat_cache (store_stats ns (store_nodes ns y)))"
    by (simp_all add: same_lookups_def)
  then show ?thesis
    using grows_mono [OF _ assms(3)]
    by (auto simp: browse_outcome_def stats_fine_def store_browse_def evicted_def split_def Let_def
        map_of_bounded_store_same)
qed

lemma browse_miss:
  assumes miss: "map_of (ss_browse_cache ss) (stat_key pid path) = None" and fine: "stats_fine ss"
  shows "browse_outcome (stat_key pid path) ss (run_state (browse now D pid path) ss)"
proof -
  have failed: "\<not> br_ok b \<Longrightarrow> browse_outcome (stat_key pid path) ss (b, x)" for b x
    by (simp add: browse_outcome_def)
  have count: "length (browsed_nodes pid (normalize_cache_path path) node cs) \<le> Suc (length cs)" for node cs
    using length_browsed_nodes [of pid "normalize_cache_path path" node cs] by simp
  show ?thesis
    unfolding browse_def Let_def browse_work_def [symmetric]
    by (rule timed_cases)
      (use miss in \<open>auto simp: session_steps same_counters failed split: prod.splits sum.splits option.splits
         dest!: browse_work_run intro!: browse_stored [OF fine] count\<close>)
qed

section \<open>The two passes\<close>

definition stats_cached :: "string \<Rightarrow> string \<Rightarrow> session_entry list \<Rightarrow> 's session \<Rightarrow> bool" where
  "stats_cached pid path es ss \<longleftrightarrow>
     list_all (\<lambda>e. um_contains (ss_stat_cache ss) (stat_key pid (bench_join_path path (se_name e)))) es"

lemma stat_step:
  assumes fine: "stats_fine ss" and run: "run_state (session_stat now D pid path) ss = (st, ss')" and ok: "st_ok st"
  shows "stats_fine ss' \<and> ss_browse_cache ss' = ss_browse_cache ss \<and>
    grows 1 (ss_stat_cache ss) (ss_stat_cache ss') \<and> um_contains (ss_stat_cache ss') (stat_key pid path)"
proof (cases "map_of (ss_stat_cache ss) (stat_key pid path)")
  case None
  have "stat_outcome (stat_key pid path) ss (st, ss')" using stat_miss [OF None, of now D] run by simp
  then have cache: "ss_stat_cache ss' = fst (bounded_store (ss_stat_cache ss) (stat_key pid path) st kMaxStatCacheEntries)"
    and same: "ss_browse_cache ss' = ss_browse_cache ss"
    using ok by (simp_all add: stat_outcome_def)
  have "stats_fine ss'"
    unfolding stats_fine_def cache by (rule um_all_bounded_store) (use fine ok in \<open>simp_all add: stats_fine_def\<close>)
  then show ?thesis
    using grows_store [of "ss_stat_cache ss" "stat_key pid path" st] same
    by (simp add: cache um_contains_def map_of_bounded_store_same)
next
  case (Some r)
  from stat_hit [OF this, of now D] run obtain c where "ss' = ss\<lparr>ss_counters := c\<rparr>" by auto
  then show ?thesis using fine Some grows_mono [OF grows_refl] by (simp add: stats_fine_def um_contains_def)
qed

lemma stats_cold:
  "\<lbrakk>stats_fine ss; run_state (stat_entries now D pid path es) ss = ((True, printed), ss');
    length (ss_stat_cache ss) + length es \<le> kMaxStatCacheEntries\<rbrakk> \<Longrightarrow>
   stats_fine ss' \<and> ss_browse_cache ss' = ss_browse_cache ss \<and>
   grows (length es) (ss_stat_cache ss) (ss_stat_cache ss') \<and> stats_cached pid path es ss'"
proof (induction es arbitrary: ss)
  case Nil
  then show ?case by (simp add: grows_refl stats_cached_def)
next
  case (Cons e es)
  obtain st y where st: "run_state (session_stat now D pid (bench_join_path path (se_name e))) ss = (st, y)" by fastforce
  have ok: "st_ok st" and rest: "run_state (stat_entries now D pid path es) y = ((True, printed), ss')"
    using Cons.prems(2) st by (auto split: if_splits)
  note step = stat_step [OF Cons.prems(1) st ok]
  have room: "length (ss_stat_cache y) + length es \<le> kMaxStatCacheEntries"
    using step Cons.prems(3) by (simp add: grows_def)
  from Cons.IH [OF _ rest room] step have tail: "stats_fine ss'" "ss_browse_cache ss' = ss_browse_cache ss"
    "grows (length es) (ss_stat_cache y) (ss_stat_cache ss')" "stats_cached pid path es ss'" by auto
  moreover have "um_contains (ss_stat_cache ss') (stat_key pid (bench_join_path path (se_name e)))"
    using tail(3) step room by (simp add: grows_def)
  moreover have "grows (length (e # es)) (ss_stat_cache ss) (ss_stat_cache ss')"
    using grows_trans [OF _ tail(3), of 1 "ss_stat_cache ss"] step by simp
  ultimately show ?case by (simp add: stats_cached_def)
qed

lemma stats_warm:
  "\<lbrakk>stats_fine ss; stats_cached pid path es ss\<rbrakk> \<Longrightarrow>
   \<exists>c. run_state (stat_entries now D pid path es) ss = ((True, []), ss\<lparr>ss_counters := c\<rparr>)"
proof (induction es arbitrary: ss)
  case Nil
  show ?case by (simp add: exI [of _ "ss_counters ss"])
next
  case (Cons e es)
  let ?key = "stat_key pid (bench_join_path path (se_name e))"
  obtain r where r: "map_of (ss_stat_cache ss) ?key = Some r" and rest: "stats_cached pid path es ss"
    using Cons.prems(2) by (auto simp: stats_cached_def um_contains_def)
  have ok: "st_ok r" using Cons.prems(1) um_allD [OF _ r] by (simp add: stats_fine_def)
  obtain c where c: "run_state (session_stat now D pid (bench_join_path path (se_name e))) ss = (r, ss\<lparr>ss_counters := c\<rparr>)"
    using stat_hit [OF r, of now D] by blast
  have "stats_fine (ss\<lparr>ss_counters := c\<rparr>)" "stats_cached pid path es (ss\<lparr>ss_counters := c\<rparr>)"
    using Cons.prems(1) rest by (simp_all add: stats_fine_def stats_cached_def)
  from Cons.IH [OF this] show ?case by (auto simp: c ok)
qed

text \<open>C24: The second pass of the metadata workload is free: when the first pass over a session with cleared
  caches succeeded on a directory of at most 4095 entries, the second pass with fresh counters succeeds
  and leaves the whole device stack untouched, so the source was read zero times.\<close>

theorem warm_pass_reads_nothing:
  assumes cold: "run_state (metadata_workload now D pid path) (clear_caches ss) = ((True, printed), ss1)"
    and b: "fst (run_state (browse now D pid path) (clear_caches ss)) = b" "length (br_entries b) \<le> 4095"
    and warm: "run_state (metadata_workload now D pid path) (session_reset_stats ss1) = ((success, printed2), ss2)"
  shows "success \<and> printed2 = [] \<and> ss_stack ss2 = ss_stack (session_reset_stats ss1) \<and>
    io_read_calls (fst (session_stats ss2)) = 0"
proof -
  let ?x = "clear_caches ss"
  have empty: "ss_browse_cache ?x = []" "ss_stat_cache ?x = []" by (simp_all add: clear_caches_def)
  obtain y where y: "run_state (browse now D pid path) ?x = (b, y)" using b(1) by (metis prod.collapse)
  have ok: "br_ok b" and rest: "run_state (stat_entries now D pid path (br_entries b)) y = ((True, printed), ss1)"
    using cold y by (auto simp: metadata_workload_def split: if_splits)
  have "stats_fine ?x" by (simp add: stats_fine_def empty)
  from browse_miss [OF _ this, of pid path now D] y ok
  have fine: "stats_fine y" and hit: "map_of (ss_browse_cache y) (stat_key pid path) = Some b"
    and grown: "grows (1 + length (br_entries b)) (ss_stat_cache ?x) (ss_stat_cache y)"
    by (simp_all add: empty browse_outcome_def)
  have "length (ss_stat_cache y) + length (br_entries b) \<le> kMaxStatCacheEntries"
    using grown b(2) by (simp add: grows_def empty kMaxStatCacheEntries_def)
  note stats_cold [OF fine rest this]
  then have 1: "stats_fine ss1" "stats_cached pid path (br_entries b) ss1"
    "map_of (ss_browse_cache ss1) (stat_key pid path) = Some b"
    using hit by simp_all
  let ?z = "session_reset_stats ss1"
  have z: "stats_fine ?z" "stats_cached pid path (br_entries b) ?z" "map_of (ss_browse_cache ?z) (stat_key pid path) = Some b"
    using 1 by (simp_all add: stats_fine_def stats_cached_def session_reset_stats_def)
  obtain c where c: "run_state (browse now D pid path) ?z = (b, ?z\<lparr>ss_counters := c\<rparr>)"
    using browse_hit [OF z(3), of now D] by blast
  obtain c' where "run_state (stat_entries now D pid path (br_entries b)) (?z\<lparr>ss_counters := c\<rparr>) =
      ((True, []), ?z\<lparr>ss_counters := c'\<rparr>)"
    using stats_warm [of "?z\<lparr>ss_counters := c\<rparr>" pid path "br_entries b" now D] z
    by (auto simp: stats_fine_def stats_cached_def)
  with warm c ok have finished: "success" "printed2 = []" "ss2 = ?z\<lparr>ss_counters := c'\<rparr>"
    by (auto simp: metadata_workload_def)
  have "io_read_calls (fst (session_stats ?z)) = 0"
    by (simp add: session_stats_def session_reset_stats_def reset_stack_def rc_reset_stats_def ra_reset_stats_def
        ib_reset_stats_def ib_stats_def Let_def)
  then show ?thesis using finished by (simp add: session_stats_def Let_def)
qed

end
