(* ===== verification/MountHelper.thy ===== *)
theory MountHelper
  imports Console DokanyController
begin

text \<open>
  \<open>PS2-DriveForge-Mount\<close> (\<open>src/mount/dokany_main.cpp\<close>): the arguments of the mount helper, the run of one
  mount and the exit code.  Arguments and messages are wide strings.
\<close>

section \<open>The arguments\<close>

definition wtext :: "string \<Rightarrow> wide" where
  "wtext s = map (\<lambda>c. of_nat (char_code c)) s"

datatype helper_output = Wout wide | Werr wide | Narrow_err string

definition wline :: "wide \<Rightarrow> helper_output" where "wline s = Wout (s @ [10])"
definition werr_line :: "wide \<Rightarrow> helper_output" where "werr_line s = Werr (s @ [10])"

text \<open>\<open>hp_blank\<close> is \<open>iswspace\<close> of the C locale, \<open>hp_ulong_max\<close> the largest \<open>unsigned long\<close>.\<close>

record helper_env =
  hp_windows :: windows
  hp_version :: string
  hp_codename :: string
  hp_blank :: "nat \<Rightarrow> bool"
  hp_ulong_max :: nat

definition helper_usage :: "helper_env \<Rightarrow> helper_output list" where
  "helper_usage H =
     [wline (wtext ''PS2 DriveForge '' @ utf8_to_wide (hp_windows H) (hp_version H) @ wtext ''-dev '' @ [quote] @
        utf8_to_wide (hp_windows H) (hp_codename H) @ [quote] @ wtext '' - read-only Dokany mount''),
      wline [],
      wline (wtext ''Usage:''),
      wline (wtext ''  PS2-DriveForge-Mount.exe --image <disk.img> --mount <P:> [--debug]''),
      wline (wtext ''  PS2-DriveForge-Mount.exe --physical <index> --mount <P:> [--debug]''),
      wline (wtext ''  PS2-DriveForge-Mount.exe --unmount <P:>''),
      wline [],
      wline (wtext ''The CLI remains a diagnostic/script frontend and packaged mount helper.''),
      wline (wtext ''Source devices are always opened read-only and mounted mutations are rejected.'')]"

record helper_options =
  ho_image :: "wide option"
  ho_physical :: "u32 option"
  ho_mount :: "wide option"
  ho_unmount :: "wide option"
  ho_debug :: bool

definition no_helper_options :: helper_options where
  "no_helper_options = \<lparr>ho_image = None, ho_physical = None, ho_mount = None, ho_unmount = None, ho_debug = False\<rparr>"

text \<open>The argument loop: the options, or the lines and the code of an early return.\<close>

fun helper_parse ::
  "helper_env \<Rightarrow> wide list \<Rightarrow> helper_options \<Rightarrow> (helper_output list \<times> int) + helper_options" where
  "helper_parse H [] opts = Inr opts"
| "helper_parse H (arg # rest) opts =
     (if arg = wtext ''--image'' \<and> rest \<noteq> [] then
        helper_parse H (tl rest) (opts\<lparr>ho_image := Some (hd rest)\<rparr>)
      else if arg = wtext ''--physical'' \<and> rest \<noteq> [] then
        (case stoul (hp_blank H) (hp_ulong_max H) (map unat (hd rest)) of
           None \<Rightarrow> Inl ([werr_line (wtext ''Invalid PhysicalDrive index.'')], 2)
         | Some i \<Rightarrow> helper_parse H (tl rest) (opts\<lparr>ho_physical := Some (of_nat i)\<rparr>))
      else if arg = wtext ''--mount'' \<and> rest \<noteq> [] then
        helper_parse H (tl rest) (opts\<lparr>ho_mount := Some (normalize_cli_mount_point (hp_windows H) (hd rest))\<rparr>)
      else if arg = wtext ''--unmount'' \<and> rest \<noteq> [] then
        helper_parse H (tl rest) (opts\<lparr>ho_unmount := Some (normalize_cli_mount_point (hp_windows H) (hd rest))\<rparr>)
      else if arg = wtext ''--debug'' then helper_parse H rest (opts\<lparr>ho_debug := True\<rparr>)
      else if arg = wtext ''--help'' \<or> arg = wtext ''-h'' then Inl (helper_usage H, 0)
      else Inl (werr_line (wtext ''Unknown or incomplete option: '' @ arg) # helper_usage H, 2))"

datatype helper_source = Helper_image wide | Helper_drive u32

datatype helper_plan =
    Early_exit "helper_output list" int
  | Remove_mount wide
  | Run_mount helper_source wide bool

definition helper_plan :: "helper_env \<Rightarrow> wide list \<Rightarrow> helper_plan" where
  "helper_plan H args =
     (case helper_parse H args no_helper_options of
        Inl (printed, code) \<Rightarrow> Early_exit printed code
      | Inr opts \<Rightarrow>
          (case ho_unmount opts of
             Some point \<Rightarrow> Remove_mount point
           | None \<Rightarrow>
               (case ho_mount opts of
                  None \<Rightarrow> Early_exit (helper_usage H) 2
                | Some point \<Rightarrow>
                    if point = [] then Early_exit (helper_usage H) 2
                    else (case (ho_image opts, ho_physical opts) of
                      (Some path, None) \<Rightarrow> Run_mount (Helper_image path) point (ho_debug opts)
                    | (None, Some index) \<Rightarrow> Run_mount (Helper_drive index) point (ho_debug opts)
                    | _ \<Rightarrow> Early_exit (helper_usage H) 2))))"

section \<open>The run\<close>

text \<open>\<open>opened\<close> gives the source, or the error of a drive that is not open; \<open>remove\<close> is
  \<open>DokanRemoveMountPoint\<close>.\<close>

definition helper_unmount :: "helper_env \<Rightarrow> (wide \<Rightarrow> bool) \<Rightarrow> wide \<Rightarrow> helper_output list \<times> int" where
  "helper_unmount H remove point =
     (if \<not> remove_dokany_mount_point (hp_windows H) remove point
      then ([werr_line (wtext ''Could not unmount '' @ point)], 1)
      else ([wline (wtext ''Unmount requested for '' @ point)], 0))"

definition helper_not_open :: "helper_source \<Rightarrow> u32 \<Rightarrow> helper_output list" where
  "helper_not_open source error =
     (case source of
        Helper_image path \<Rightarrow> [werr_line (wtext ''Could not open disk image.'')]
      | Helper_drive index \<Rightarrow>
          [werr_line (wtext (''Could not open PhysicalDrive'' @ decimal (unat index) @
             '' read-only (Win32 error '' @ decimal (unat error) @ '').''))])"

text \<open>Up to the start of the controller: the controller that \<open>main\<close> watches, or an exit.\<close>

definition helper_start ::
  "helper_env \<Rightarrow> int \<Rightarrow> ('s \<Rightarrow> int) \<Rightarrow> 's device \<Rightarrow> (helper_source \<Rightarrow> u32 + 's) \<Rightarrow> helper_source \<Rightarrow> wide \<Rightarrow>
   (helper_output list \<times> int) + 's controller" where
  "helper_start H dokan_success now D opened source point =
     (case opened source of
        Inl error \<Rightarrow> Inl (helper_not_open source error, 1)
      | Inr s \<Rightarrow>
          (let (started, c) = start_mount (hp_windows H) dokan_success now D (Some s) point (new_controller dokan_success)
           in if \<not> started then Inl ([Narrow_err (''Mount startup failed: '' @ ct_error c @ newline)], 1) else Inr c))"

definition helper_banner :: "wide \<Rightarrow> helper_output list" where
  "helper_banner point =
     [wline (wtext ''Mounting PS2 DriveForge read-only at '' @ point @ wtext ''...''),
      wline (wtext ''Namespace root: '' @ point @ wtext ''Partitions'' @ [backslash]),
      wline (wtext ''Press Ctrl+C or run --unmount '' @ point @ wtext '' from another terminal.'')]"

text \<open>The loop that waits for the mount, over the flags it polls: \<open>(running, mounted)\<close> at each turn.  It sleeps
  25 ms a turn and gives up after 200 turns.\<close>

fun await_mounted :: "nat \<Rightarrow> (bool \<times> bool) list \<Rightarrow> nat" where
  "await_mounted 0 polls = 0"
| "await_mounted (Suc k) [] = 0"
| "await_mounted (Suc k) ((running, mounted) # polls) =
     (if running \<and> \<not> mounted then Suc (await_mounted k polls) else 0)"

definition kMountPolls :: nat where "kMountPolls = 200"

text \<open>After \<open>wait\<close>: the exit code and what is printed last.\<close>

definition helper_exit :: "'s controller \<Rightarrow> helper_output list \<times> int" where
  "helper_exit c = (if ct_status c \<noteq> 0 then ([Narrow_err (ct_error c @ newline)], 1) else ([], 0))"

text \<open>\<open>helper_main H ... args printed code\<close>: a run of \<open>wmain\<close>.  \<open>c\<close> is the controller when the worker has ended,
  reached from the started one; \<open>seen_mounted\<close> is what \<open>is_mounted\<close> answered after the waiting loop.\<close>

inductive helper_main ::
  "helper_env \<Rightarrow> int \<Rightarrow> ('s \<Rightarrow> int) \<Rightarrow> 's device \<Rightarrow> (helper_source \<Rightarrow> u32 + 's) \<Rightarrow> (wide \<Rightarrow> bool) \<Rightarrow> wide list \<Rightarrow>
   helper_output list \<Rightarrow> int \<Rightarrow> bool"
  for H dokan_success now D opened remove args where
  exits: "helper_main H dokan_success now D opened remove args printed code"
    if "helper_plan H args = Early_exit printed code"
| unmounts: "helper_main H dokan_success now D opened remove args printed code"
    if "helper_plan H args = Remove_mount point" "helper_unmount H remove point = (printed, code)"
| not_started: "helper_main H dokan_success now D opened remove args printed code"
    if "helper_plan H args = Run_mount source point debug"
      "helper_start H dokan_success now D opened source point = Inl (printed, code)"
| ran: "helper_main H dokan_success now D opened remove args
      (helper_banner point @
       (if seen_mounted then [wline (wtext ''Mounted PS2 DriveForge read-only at '' @ point)] else []) @
       fst (helper_exit (wait_mount c)))
      (snd (helper_exit (wait_mount c)))"
    if "helper_plan H args = Run_mount source point debug" "opened source = Inr s"
      "helper_start H dokan_success now D opened source point = Inr c0"
      "(mount_step (hp_windows H) dokan_success now D s)\<^sup>*\<^sup>* c0 c" "ct_worker c = Worker_done r"

section \<open>The plans and the command line\<close>

lemma unat_wtext: "map unat (wtext s) = map char_code s"
proof -
  have "char_code c mod 65536 = char_code c" for c using code_small [of c] by simp
  then show ?thesis by (simp add: wtext_def unat_of_nat)
qed

lemma wtext_eq: "wtext s = wtext t \<longleftrightarrow> s = t"
proof
  assume "wtext s = wtext t"
  then have "map char_code s = map char_code t" by (metis unat_wtext)
  moreover have "inj char_code" by (rule injI) (simp add: char_code_def)
  ultimately show "s = t" using map_injective by blast
qed simp

text \<open>The command line as its options and the words of each.\<close>

datatype cli_option =
    Image_option wide
  | Drive_option wide
  | Mount_option wide
  | Unmount_option wide
  | Debug_option

fun cli_words :: "cli_option \<Rightarrow> wide list" where
  "cli_words (Image_option v) = [wtext ''--image'', v]"
| "cli_words (Drive_option v) = [wtext ''--physical'', v]"
| "cli_words (Mount_option v) = [wtext ''--mount'', v]"
| "cli_words (Unmount_option v) = [wtext ''--unmount'', v]"
| "cli_words Debug_option = [wtext ''--debug'']"

definition image_values :: "cli_option list \<Rightarrow> wide list" where
  "image_values os = concat (map (\<lambda>x. case x of Image_option v \<Rightarrow> [v] | _ \<Rightarrow> []) os)"

definition drive_values :: "cli_option list \<Rightarrow> wide list" where
  "drive_values os = concat (map (\<lambda>x. case x of Drive_option v \<Rightarrow> [v] | _ \<Rightarrow> []) os)"

definition mount_values :: "cli_option list \<Rightarrow> wide list" where
  "mount_values os = concat (map (\<lambda>x. case x of Mount_option v \<Rightarrow> [v] | _ \<Rightarrow> []) os)"

definition unmount_values :: "cli_option list \<Rightarrow> wide list" where
  "unmount_values os = concat (map (\<lambda>x. case x of Unmount_option v \<Rightarrow> [v] | _ \<Rightarrow> []) os)"

lemmas option_words = image_values_def drive_values_def mount_values_def unmount_values_def

text \<open>A drive number is what \<open>stoul\<close> reads, cut to 32 bits.\<close>

definition drive_number :: "helper_env \<Rightarrow> wide \<Rightarrow> u32 option" where
  "drive_number H v = map_option of_nat (stoul (hp_blank H) (hp_ulong_max H) (map unat v))"

definition well_formed :: "helper_env \<Rightarrow> wide list \<Rightarrow> cli_option list \<Rightarrow> bool" where
  "well_formed H args os \<longleftrightarrow> args = concat (map cli_words os) \<and> list_all (\<lambda>v. drive_number H v \<noteq> None) (drive_values os)"

text \<open>The spellings of a drive: \<open>X:\<close>, \<open>X:\<close> with a backslash, and \<open>X:\<close> with a quote, which is what the C runtime makes
  of a quoted drive root.\<close>

definition names_drive :: "windows \<Rightarrow> wide \<Rightarrow> wide \<Rightarrow> bool" where
  "names_drive W v point \<longleftrightarrow>
     (\<exists>l. v \<in> {[l, colon], [l, colon, backslash], [l, colon, quote]} \<and> point = [win_upper W l, colon, backslash])"

fun helper_set :: "helper_env \<Rightarrow> helper_options \<Rightarrow> cli_option \<Rightarrow> helper_options" where
  "helper_set H opts (Image_option v) = opts\<lparr>ho_image := Some v\<rparr>"
| "helper_set H opts (Drive_option v) = opts\<lparr>ho_physical := drive_number H v\<rparr>"
| "helper_set H opts (Mount_option v) = opts\<lparr>ho_mount := Some (normalize_cli_mount_point (hp_windows H) v)\<rparr>"
| "helper_set H opts (Unmount_option v) = opts\<lparr>ho_unmount := Some (normalize_cli_mount_point (hp_windows H) v)\<rparr>"
| "helper_set H opts Debug_option = opts\<lparr>ho_debug := True\<rparr>"

lemma parse_well_formed:
  "well_formed H args os \<Longrightarrow> helper_parse H args opts = Inr (foldl (helper_set H) opts os)"
proof (induction os arbitrary: args opts)
  case (Cons x os)
  define rest where "rest = concat (map cli_words os)"
  have args: "args = cli_words x @ rest" and rest: "well_formed H rest os"
    using Cons.prems by (auto simp: well_formed_def drive_values_def rest_def)
  show ?case
    using Cons.IH [OF rest] Cons.prems
    by (cases x) (auto simp: args wtext_eq well_formed_def drive_values_def drive_number_def)
qed (simp add: well_formed_def)

lemma well_formed_value:
  assumes "\<exists>os. well_formed H (tl rest) os" "rest \<noteq> []" "cli_words x = [arg, hd rest]"
    and "list_all (\<lambda>v. drive_number H v \<noteq> None) (drive_values [x])"
  shows "\<exists>os. well_formed H (arg # rest) os"
proof -
  from assms(1) obtain os where "well_formed H (tl rest) os" by blast
  with assms(2-4) show ?thesis
    by (cases rest; intro exI [of _ "x # os"]) (auto simp: well_formed_def drive_values_def)
qed

lemma well_formed_debug: "\<exists>os. well_formed H rest os \<Longrightarrow> \<exists>os. well_formed H (wtext ''--debug'' # rest) os"
proof -
  assume "\<exists>os. well_formed H rest os"
  then obtain os where "well_formed H rest os" by blast
  then show ?thesis by (intro exI [of _ "Debug_option # os"]) (auto simp: well_formed_def drive_values_def)
qed

lemma parse_accepts:
  "helper_parse H args opts = Inr opts' \<Longrightarrow> \<exists>os. well_formed H args os"
proof (induction H args opts rule: helper_parse.induct)
  case (1 H opts)
  show ?case by (intro exI [of _ "[]"]) (simp add: well_formed_def drive_values_def)
next
  case (2 H arg rest opts)
  from 2 show ?case
    by (auto split: if_splits option.splits
        intro: well_formed_debug well_formed_value [where x = "Image_option (hd rest)"]
          well_formed_value [where x = "Drive_option (hd rest)"]
          well_formed_value [where x = "Mount_option (hd rest)"]
          well_formed_value [where x = "Unmount_option (hd rest)"]
        simp: drive_values_def drive_number_def)
qed

definition last_or :: "'a option \<Rightarrow> 'a list \<Rightarrow> 'a option" where
  "last_or d xs = (if xs = [] then d else Some (last xs))"

lemma last_or_simps [simp]: "last_or d [] = d" "last_or d (x # xs) = last_or (Some x) xs"
  by (simp_all add: last_or_def)

lemma foldl_set:
  "list_all (\<lambda>v. drive_number H v \<noteq> None) (drive_values os) \<Longrightarrow>
   foldl (helper_set H) opts os =
     \<lparr>ho_image = last_or (ho_image opts) (image_values os),
      ho_physical = (if drive_values os = [] then ho_physical opts else drive_number H (last (drive_values os))),
      ho_mount = last_or (ho_mount opts) (map (normalize_cli_mount_point (hp_windows H)) (mount_values os)),
      ho_unmount = last_or (ho_unmount opts) (map (normalize_cli_mount_point (hp_windows H)) (unmount_values os)),
      ho_debug = (ho_debug opts \<or> Debug_option \<in> set os)\<rparr>"
proof (induction os arbitrary: opts)
  case (Cons x os)
  then show ?case by (cases x) (auto simp: option_words)
qed (simp add: option_words)

lemma cli_point_iff:
  "normalize_cli_mount_point W v = point \<and> point \<noteq> [] \<longleftrightarrow> names_drive W v point"
proof -
  have three: "length v = 3 \<longleftrightarrow> (\<exists>a b c. v = [a, b, c])" "length v = 2 \<longleftrightarrow> (\<exists>a b. v = [a, b])"
    by (auto simp: eval_nat_numeral length_Suc_conv)
  show ?thesis
    by (auto simp: normalize_cli_mount_point_def normalize_mount_point_def Let_def names_drive_def three
        colon_def backslash_def quote_def split: if_splits)
qed

text \<open>What the options say of a plan.\<close>

definition mounts_from :: "helper_env \<Rightarrow> cli_option list \<Rightarrow> helper_source \<Rightarrow> wide \<Rightarrow> bool \<Rightarrow> bool" where
  "mounts_from H os source point debug \<longleftrightarrow>
     unmount_values os = [] \<and> mount_values os \<noteq> [] \<and> names_drive (hp_windows H) (last (mount_values os)) point \<and>
     (debug \<longleftrightarrow> Debug_option \<in> set os) \<and>
     (case source of
        Helper_image path \<Rightarrow> drive_values os = [] \<and> image_values os \<noteq> [] \<and> path = last (image_values os)
      | Helper_drive index \<Rightarrow> image_values os = [] \<and> drive_values os \<noteq> [] \<and>
          drive_number H (last (drive_values os)) = Some index)"

lemma drive_number_last:
  "list_all (\<lambda>v. drive_number H v \<noteq> None) (drive_values os) \<Longrightarrow> drive_values os \<noteq> [] \<Longrightarrow> \<exists>i. drive_number H (last (drive_values os)) = Some i"
  by (auto simp: list_all_iff)

lemma plan_of_options:
  assumes "well_formed H args os"
  shows "helper_plan H args = Run_mount source point debug \<longleftrightarrow> mounts_from H os source point debug"
    and "helper_plan H args = Remove_mount point \<longleftrightarrow>
      unmount_values os \<noteq> [] \<and> point = normalize_cli_mount_point (hp_windows H) (last (unmount_values os))"
proof -
  let ?W = "hp_windows H"
  have numbers: "list_all (\<lambda>v. drive_number H v \<noteq> None) (drive_values os)" using assms by (simp add: well_formed_def)
  note plan = helper_plan_def [of H args, unfolded parse_well_formed [OF assms] foldl_set [OF numbers]]
  have source: "last_or None (image_values os) = (if image_values os = [] then None else Some (last (image_values os)))"
    "last_or None (map (normalize_cli_mount_point ?W) vs) =
      (if vs = [] then None else Some (normalize_cli_mount_point ?W (last vs)))" for vs
    by (simp_all add: last_or_def last_map)
  show "helper_plan H args = Run_mount source point debug \<longleftrightarrow> mounts_from H os source point debug"
    using drive_number_last [OF numbers] cli_point_iff [of ?W "last (mount_values os)" point]
    by (cases source) (auto simp: plan mounts_from_def no_helper_options_def source split: option.splits)
  show "helper_plan H args = Remove_mount point \<longleftrightarrow>
      unmount_values os \<noteq> [] \<and> point = normalize_cli_mount_point ?W (last (unmount_values os))"
    using drive_number_last [OF numbers]
    by (auto simp: plan no_helper_options_def source split: option.splits)
qed

lemma plan_accepts:
  assumes "helper_plan H args = Run_mount source point debug \<or> helper_plan H args = Remove_mount point"
  shows "\<exists>os. well_formed H args os"
  using assms parse_accepts [of H args no_helper_options]
  by (cases "helper_parse H args no_helper_options") (auto simp: helper_plan_def split: prod.splits)

text \<open>C25: The mount helper mounts exactly what its command line says.  It plans a mount if and only if the
  arguments are the words of a list of options in which every drive number reads, there is no
  \<open>--unmount\<close>, the last \<open>--mount\<close> names a drive, and there are images but no physical drives or physical
  drives but no images; then it mounts the last image, verbatim, or the last drive, at the root of that
  drive with its letter in upper case, and debugs when asked.  It plans an unmount if and only if the options have an
  \<open>--unmount\<close>, and then of the last one.\<close>

theorem helper_plan_iff:
  "(helper_plan H args = Run_mount source point debug \<longleftrightarrow>
     (\<exists>os. well_formed H args os \<and> unmount_values os = [] \<and> mount_values os \<noteq> [] \<and>
       names_drive (hp_windows H) (last (mount_values os)) point \<and> (debug \<longleftrightarrow> Debug_option \<in> set os) \<and>
       (case source of
          Helper_image path \<Rightarrow> drive_values os = [] \<and> image_values os \<noteq> [] \<and> path = last (image_values os)
        | Helper_drive index \<Rightarrow> image_values os = [] \<and> drive_values os \<noteq> [] \<and>
          drive_number H (last (drive_values os)) = Some index))) \<and>
   (helper_plan H args = Remove_mount point \<longleftrightarrow>
     (\<exists>os. well_formed H args os \<and> unmount_values os \<noteq> [] \<and>
       point = normalize_cli_mount_point (hp_windows H) (last (unmount_values os))))"
  unfolding mounts_from_def [symmetric]
  using plan_of_options [of H args] plan_accepts [of H args] by blast

section \<open>A failed mount is reported\<close>

lemma mount_step_flags:
  "mount_step W dokan_success now D s c c' \<Longrightarrow> worker_flags dokan_success c \<Longrightarrow> worker_flags dokan_success c'"
proof (induction rule: mount_step.cases)
  case (start source point c)
  then show ?case
    by (auto simp: start_mount_def Let_def worker_flags_def split: option.splits prod.splits worker_place.splits)
qed (auto simp: wait_mount_def worker_flags_def dest: worker_step_flags)

lemma mount_steps_flags:
  "(mount_step W dokan_success now D s)\<^sup>*\<^sup>* c c' \<Longrightarrow> worker_flags dokan_success c \<Longrightarrow> worker_flags dokan_success c'"
  by (induction rule: rtranclp_induct) (auto dest: mount_step_flags)

lemma start_mount_failed:
  "start_mount W dokan_success now D source point c = (False, c') \<Longrightarrow> ct_error c' \<noteq> ''''"
  by (auto simp: start_mount_def Let_def split: option.splits prod.splits if_splits)

definition reports_failure :: "helper_output list \<Rightarrow> bool" where
  "reports_failure printed \<longleftrightarrow> (\<exists>front message. message \<noteq> [] \<and> printed = front @ [Narrow_err (message @ newline)]) \<or>
     (\<exists>front message. message \<noteq> [] \<and> printed = front @ [werr_line message])"

lemma helper_start_failed:
  assumes "helper_start H dokan_success now D opened source point = Inl (printed, code)"
  shows "code = 1 \<and> reports_failure printed"
proof (cases "opened source")
  case (Inl error)
  then have "printed = helper_not_open source error" "code = 1"
    using assms by (auto simp: helper_start_def)
  then show ?thesis
    by (cases source) (auto simp: helper_not_open_def reports_failure_def wtext_def)
next
  case (Inr s)
  obtain started c where start: "start_mount (hp_windows H) dokan_success now D (Some s) point (new_controller dokan_success) =
      (started, c)" by fastforce
  with assms Inr have "\<not> started" "printed = [] @ [Narrow_err ((''Mount startup failed: '' @ ct_error c) @ newline)]" "code = 1"
    by (auto simp: helper_start_def split: if_splits)
  then show ?thesis unfolding reports_failure_def by blast
qed

text \<open>C26: The helper never fails silently to mount: a run whose arguments plan a mount exits with 0 or 1; every exit
  with 1 has printed a nonempty message last, whether the source did not open, the mount did not start,
  or Dokany returned a failure after any history of the mount; an exit with 0 means that Dokany ran and
  returned success.  Because \<open>main\<close> joins the worker before it asks for the result, the window in which a
  failure has no message yet is closed here.  Runs that plan no mount (usage errors, help, \<open>--unmount\<close>)
  are not covered.\<close>

theorem helper_reports_failure:
  assumes "helper_main H 0 now D opened remove args printed code" "helper_plan H args = Run_mount source point debug"
  shows "code = 1 \<and> reports_failure printed \<or>
    code = 0 \<and> (\<exists>s c. opened source = Inr s \<and> ct_worker c = Worker_done 0 \<and>
      (mount_step (hp_windows H) 0 now D s)\<^sup>*\<^sup>* (new_controller 0) c)"
  using assms(1)
proof cases
  case (not_started source' point' debug')
  from helper_start_failed [OF this(2)] show ?thesis by simp
next
  case (ran source' point' debug' s c0 c r seen_mounted)
  note same = ran(3) [unfolded assms(2)]
  from ran(4,5) have c0: "c0 = snd (start_mount (hp_windows H) 0 now D (Some s) point' (new_controller 0))"
    by (auto simp: helper_start_def split: prod.splits if_splits)
  have start: "(mount_step (hp_windows H) 0 now D s)\<^sup>*\<^sup>* (new_controller 0) c0"
    unfolding c0 by (rule r_into_rtranclp, rule mount_step.start) simp
  then have reach: "(mount_step (hp_windows H) 0 now D s)\<^sup>*\<^sup>* (new_controller 0) c" using ran(6) by simp
  have "worker_flags 0 c"
    by (rule mount_steps_flags [OF reach]) (simp add: worker_flags_def new_controller_def)
  then have flags: "ct_status c = r" "r \<noteq> 0 \<longrightarrow> ct_error c \<noteq> ''''" using ran(7) by (simp_all add: worker_flags_def)
  show ?thesis
  proof (cases "r = 0")
    case True
    then have "code = 0" using ran(2) flags by (simp add: helper_exit_def wait_mount_def)
    then show ?thesis using True ran(4,7) reach same by auto
  next
    case False
    then have "code = 1" "printed = (helper_banner point' @
       (if seen_mounted then [wline (wtext ''Mounted PS2 DriveForge read-only at '' @ point')] else [])) @
       [Narrow_err (ct_error c @ newline)]"
      using ran(1,2) flags by (simp_all add: helper_exit_def wait_mount_def)
    then show ?thesis using flags False unfolding reports_failure_def by blast
  qed
qed (use assms(2) in auto)

end
