(* ===== verification/ShellMount.thy ===== *)
theory ShellMount
  imports MountHelper
begin

text \<open>
  The mount page of the WinUI shell (\<open>src/winui/MainWindow.xaml.cpp\<close>): it runs the mount helper of
  \<open>MountHelper\<close> as another process, with a command line built as text, and polls the volume and the
  process.  The helper sees the arguments that its C runtime splits from that text.
\<close>

section \<open>The arguments of a process\<close>

text \<open>The splitting of the C runtime, after the program name: backslashes before a quote count in pairs, an odd
  one escapes the quote, a doubled quote inside quotes is one quote.  \<open>q\<close> is inside quotes, \<open>k\<close> the
  backslashes just read.\<close>

definition is_blank :: "u16 \<Rightarrow> bool" where
  "is_blank c \<longleftrightarrow> c = 32 \<or> c = 9"

fun crt_argument :: "bool \<Rightarrow> nat \<Rightarrow> wide \<Rightarrow> wide \<times> wide" where
  "crt_argument q k [] = (replicate k backslash, [])"
| "crt_argument q k (c # cs) =
     (if c = backslash then crt_argument q (k + 1) cs
      else if c = quote then
        (if even k then
           (if q \<and> cs \<noteq> [] \<and> hd cs = quote
            then map_prod ((@) (replicate (k div 2) backslash @ [quote])) id (crt_argument q 0 (tl cs))
            else map_prod ((@) (replicate (k div 2) backslash)) id (crt_argument (\<not> q) 0 cs))
         else map_prod ((@) (replicate (k div 2) backslash @ [quote])) id (crt_argument q 0 cs))
      else if \<not> q \<and> is_blank c then (replicate k backslash, c # cs)
      else map_prod ((@) (replicate k backslash @ [c])) id (crt_argument q 0 cs))"

lemma crt_argument_rest: "length (snd (crt_argument q k cs)) \<le> length cs"
proof (induction q k cs rule: crt_argument.induct)
  case (2 q k c cs)
  have "length (tl cs) \<le> length cs" by simp
  then show ?case using 2 by (auto simp: le_SucI intro: le_trans)
qed simp

lemma crt_argument_consumes:
  "\<not> is_blank c \<Longrightarrow> length (snd (crt_argument q k (c # cs))) \<le> length cs"
  using crt_argument_rest [of q "k + 1" cs] crt_argument_rest [of q 0 "tl cs"] crt_argument_rest [of "\<not> q" 0 cs]
    crt_argument_rest [of q 0 cs]
  by (auto intro: le_trans)

function crt_arguments :: "wide \<Rightarrow> wide list" where
  "crt_arguments line =
     (let cs = dropWhile is_blank line
      in if cs = [] then []
         else let (argument, rest) = crt_argument False 0 cs in argument # crt_arguments rest)"
  by pat_completeness auto

lemma crt_arguments_shorter:
  assumes "dropWhile is_blank line \<noteq> []"
  shows "length (snd (crt_argument False 0 (dropWhile is_blank line))) < length line"
proof -
  obtain c cs where c: "dropWhile is_blank line = c # cs" using assms by (cases "dropWhile is_blank line") auto
  then have "\<not> is_blank c" by (metis dropWhile_eq_Cons_conv)
  from crt_argument_consumes [OF this, of False 0 cs] show ?thesis
    using c length_dropWhile_le [of is_blank line] by simp
qed

termination crt_arguments
  by (relation "measure length") (simp, metis crt_arguments_shorter in_measure snd_conv)

declare crt_arguments.simps [simp del]

text \<open>What the shell writes: plain words, and quoted texts.\<close>

definition quoted :: "wide \<Rightarrow> wide" where
  "quoted s = quote # s @ [quote]"

definition plain_word :: "wide \<Rightarrow> bool" where
  "plain_word w \<longleftrightarrow> w \<noteq> [] \<and> list_all (\<lambda>c. c \<noteq> backslash \<and> c \<noteq> quote \<and> \<not> is_blank c) w"

lemma crt_plain:
  "list_all (\<lambda>c. c \<noteq> backslash \<and> c \<noteq> quote \<and> \<not> is_blank c) w \<Longrightarrow>
   crt_argument False 0 (w @ rest) = map_prod ((@) w) id (crt_argument False 0 rest)"
  by (induction w) (auto simp: prod_eq_iff)

text \<open>A text without quotes survives its quotes unless it ends with a backslash.\<close>

lemma crt_inside:
  "\<lbrakk>quote \<notin> set s; s \<noteq> [] \<longrightarrow> last s \<noteq> backslash; s = [] \<longrightarrow> k = 0; rest = [] \<or> hd rest \<noteq> quote\<rbrakk> \<Longrightarrow>
   crt_argument True k (s @ quote # rest) =
     map_prod ((@) (replicate k backslash @ s)) id (crt_argument False 0 rest)"
proof (induction s arbitrary: k)
  case Nil
  then show ?case by (auto simp: prod_eq_iff quote_def backslash_def)
next
  case (Cons c s)
  show ?case
  proof (cases "c = backslash")
    case True
    then have "s \<noteq> []" using Cons.prems(2) by auto
    with True Cons show ?thesis
      by (auto simp: prod_eq_iff replicate_append_same [symmetric])
  next
    case False
    moreover have "c \<noteq> quote" using Cons.prems(1) by auto
    ultimately show ?thesis using Cons.prems Cons.IH [of 0] by (auto simp: prod_eq_iff split: if_splits)
  qed
qed

text \<open>With a backslash at the end of the text and of the line, the closing quote becomes part of it.\<close>

lemma crt_open_ended:
  "quote \<notin> set s \<Longrightarrow> s \<noteq> [] \<longrightarrow> last s \<noteq> backslash \<Longrightarrow> s = [] \<longrightarrow> k = 0 \<Longrightarrow>
   crt_argument True k (s @ [backslash, quote]) = (replicate k backslash @ s @ [quote], [])"
proof (induction s arbitrary: k)
  case Nil
  then show ?case by (simp add: quote_def backslash_def)
next
  case (Cons c s)
  show ?case
  proof (cases "c = backslash")
    case True
    then have "s \<noteq> []" using Cons.prems(2) by auto
    with True Cons show ?thesis by (auto simp: replicate_append_same [symmetric])
  next
    case False
    moreover have "c \<noteq> quote" using Cons.prems(1) by auto
    ultimately show ?thesis using Cons.prems Cons.IH [of 0] by (auto simp: prod_eq_iff split: if_splits)
  qed
qed

lemma crt_arguments_blank: "is_blank b \<Longrightarrow> crt_arguments (b # rest) = crt_arguments rest"
  by (subst (1 2) crt_arguments.simps) simp

lemma crt_argument_end:
  "rest = [] \<or> is_blank (hd rest) \<Longrightarrow> crt_argument False 0 rest = ([], rest)"
  by (cases rest) (auto simp: is_blank_def backslash_def quote_def)

lemma crt_arguments_plain:
  assumes "plain_word w" "rest = [] \<or> is_blank (hd rest)"
  shows "crt_arguments (w @ rest) = w # crt_arguments rest"
proof -
  obtain c cs where w: "w = c # cs" "\<not> is_blank c" using assms(1) by (cases w) (auto simp: plain_word_def)
  then have "dropWhile is_blank (w @ rest) = w @ rest" by simp
  moreover have "crt_argument False 0 (w @ rest) = (w, rest)"
    using assms crt_plain [of w rest] by (simp add: plain_word_def crt_argument_end)
  ultimately show ?thesis using w(1) by (subst crt_arguments.simps) (simp add: Let_def)
qed

lemma crt_arguments_quoted:
  assumes "quote \<notin> set s" "s \<noteq> [] \<longrightarrow> last s \<noteq> backslash" "rest = [] \<or> is_blank (hd rest)"
  shows "crt_arguments (quoted s @ rest) = s # crt_arguments rest"
proof -
  have "\<not> is_blank quote" "quote \<noteq> backslash" by (simp_all add: is_blank_def quote_def backslash_def)
  moreover have "rest = [] \<or> hd rest \<noteq> quote" using assms(3) calculation by auto
  ultimately show ?thesis
    using crt_inside [OF assms(1,2), of 0 rest] crt_argument_end [OF assms(3)]
    by (subst crt_arguments.simps) (simp add: quoted_def Let_def)
qed

lemma crt_arguments_open_ended:
  assumes "quote \<notin> set s" "s \<noteq> []" "last s \<noteq> backslash"
  shows "crt_arguments (quoted (s @ [backslash])) = [s @ [quote]]"
proof -
  have "\<not> is_blank quote" "quote \<noteq> backslash" by (simp_all add: is_blank_def quote_def backslash_def)
  moreover have "crt_arguments [] = []" by (subst crt_arguments.simps) simp
  ultimately show ?thesis
    using crt_open_ended [of s 0] assms by (subst crt_arguments.simps) (simp add: quoted_def Let_def)
qed

section \<open>The mount page\<close>

text \<open>The parameters of the helper and whether it runs elevated; \<open>None\<close> when there is no source to reopen.\<close>

definition mount_parameters :: "u32 option \<Rightarrow> wide \<Rightarrow> wide \<Rightarrow> (wide \<times> bool) option" where
  "mount_parameters physical picture point =
     (case physical of
        Some index \<Rightarrow>
          Some (wtext ''--physical '' @ wtext (decimal (unat index)) @ wtext '' --mount '' @ quoted point, True)
      | None \<Rightarrow>
          if picture \<noteq> [] then Some (wtext ''--image '' @ quoted picture @ wtext '' --mount '' @ quoted point, False)
          else None)"

definition unmount_parameters :: "wide \<Rightarrow> wide" where
  "unmount_parameters point = wtext ''--unmount '' @ quoted point"

text \<open>\<open>mp_state\<close>, \<open>mp_letter\<close> and \<open>mp_status\<close> are the texts on the page and in the status bar; \<open>mp_explorer\<close>
  and \<open>mp_mount\<close> are two buttons each.  \<open>mp_runs\<close> logs the helpers started.\<close>

record mount_page =
  mp_point :: wide
  mp_process :: bool
  mp_timer :: bool
  mp_state :: wide
  mp_letter :: wide
  mp_explorer :: bool
  mp_unmount :: bool
  mp_mount :: bool
  mp_status :: wide
  mp_errors :: "(wide \<times> wide) list"
  mp_runs :: "(wide \<times> bool) list"

datatype execution = Started | Cancelled | Not_started

text \<open>\<open>sh_execute\<close> is \<open>ShellExecuteExW\<close> for parameters and elevation.\<close>

record shell_env =
  sh_helper_present :: bool
  sh_drives :: u32
  sh_execute :: "wide \<Rightarrow> bool \<Rightarrow> execution"

definition mount_error :: "string \<Rightarrow> string \<Rightarrow> mount_page \<Rightarrow> mount_page" where
  "mount_error title message p = p\<lparr>mp_errors := mp_errors p @ [(wtext title, wtext message)]\<rparr>"

definition nothing_mounted :: "bool \<Rightarrow> mount_page \<Rightarrow> mount_page" where
  "nothing_mounted source_open p =
     p\<lparr>mp_letter := wtext ''Drive letter: automatic'', mp_explorer := False, mp_unmount := False,
       mp_mount := source_open\<rparr>"

text \<open>\<open>present\<close> says whether the volume answers, \<open>exited\<close> the exit code of a helper that has ended.\<close>

definition poll_mount_state :: "bool \<Rightarrow> bool \<times> u32 option \<Rightarrow> mount_page \<Rightarrow> mount_page" where
  "poll_mount_state source_open seen p =
     (let (present, exited) = seen in
      if mp_point p = [] then nothing_mounted source_open (p\<lparr>mp_state := wtext ''Nothing mounted''\<rparr>)
      else if present then
        p\<lparr>mp_state := wtext ''Mounted read-only'', mp_letter := wtext ''Drive letter: '' @ mp_point p,
          mp_explorer := True, mp_unmount := True, mp_mount := False,
          mp_status := wtext ''Mounted read-only at '' @ mp_point p\<rparr>
      else if mp_process p then
        (case exited of
           None \<Rightarrow> p
         | Some code \<Rightarrow>
             nothing_mounted source_open
               (p\<lparr>mp_process := False, mp_point := [], mp_timer := False,
                 mp_state := wtext (if code = 0 then ''Nothing mounted'' else ''Mount helper exited with an error''),
                 mp_status := (if code = 0 then wtext ''Unmounted '' @ mp_point p
                   else wtext ''Mount failed '' @ [0x2014] @ wtext '' helper exit code '' @ wtext (decimal (unat code)))\<rparr>))
      else p)"

definition shell_start_mount ::
  "shell_env \<Rightarrow> bool \<Rightarrow> u32 option \<Rightarrow> wide \<Rightarrow> bool \<times> u32 option \<Rightarrow> bool \<times> u32 option \<Rightarrow> mount_page \<Rightarrow> mount_page" where
  "shell_start_mount S source_open physical picture seen_before seen_after p =
     (if \<not> source_open then mount_error ''Mount'' ''Open a PS2 HDD or disk image first.'' p
      else
        let p = (if mp_point p \<noteq> [] then poll_mount_state source_open seen_before p else p)
        in if mp_point p \<noteq> [] then p
           else if \<not> sh_helper_present S
           then mount_error ''Mount'' (''PS2-DriveForge-Mount.exe is not present. Use the full Setup/Portable package '' @
             ''rather than the standalone WinUI development artifact.'') p
           else
             (case choose_mount_letter (sh_drives S) of
                None \<Rightarrow> mount_error ''Mount'' ''No free drive letter from C: through Z: is available.'' p
              | Some letter \<Rightarrow>
                  let point = [of_nat letter, colon, backslash]
                  in (case mount_parameters physical picture point of
                        None \<Rightarrow> mount_error ''Mount'' ''The current source cannot be reopened for mounting.'' p
                      | Some (parameters, elevate) \<Rightarrow>
                          (case sh_execute S parameters elevate of
                             Started \<Rightarrow>
                               poll_mount_state source_open seen_after
                                 (p\<lparr>mp_point := point, mp_process := True,
                                   mp_runs := mp_runs p @ [(parameters, elevate)],
                                   mp_state := wtext ''Mounting read-only'' @ [0x2026],
                                   mp_letter := wtext ''Drive letter: '' @ point,
                                   mp_status := wtext ''Mounting DriveForge read-only at '' @ point @ [0x2026],
                                   mp_timer := True\<rparr>)
                           | Cancelled \<Rightarrow> p
                           | Not_started \<Rightarrow> mount_error ''Mount'' ''Could not start the read-only mount helper.'' p))))"

definition shell_request_unmount :: "shell_env \<Rightarrow> bool \<Rightarrow> mount_page \<Rightarrow> mount_page" where
  "shell_request_unmount S interactive p =
     (if mp_point p = [] \<or> \<not> sh_helper_present S then p
      else
        (case sh_execute S (unmount_parameters (mp_point p)) True of
           Started \<Rightarrow>
             p\<lparr>mp_runs := mp_runs p @ [(unmount_parameters (mp_point p), True)],
               mp_status := wtext ''Unmount requested for '' @ mp_point p, mp_state := wtext ''Unmounting'' @ [0x2026],
               mp_timer := True\<rparr>
         | Cancelled \<Rightarrow> p
         | Not_started \<Rightarrow> if interactive then mount_error ''Unmount'' ''Could not start the unmount helper.'' p else p))"

section \<open>The helper understands the shell\<close>

lemma wtext_plain:
  assumes "s \<noteq> []" "list_all (\<lambda>c. 33 \<le> char_code c \<and> char_code c \<noteq> 34 \<and> char_code c \<noteq> 92) s"
  shows "plain_word (wtext s)"
proof -
  have code: "unat (of_nat (char_code c) :: u16) = char_code c" for c
    using code_small [of c] by (simp add: unat_of_nat)
  have "(of_nat (char_code c) :: u16) \<noteq> backslash \<and> (of_nat (char_code c) :: u16) \<noteq> quote \<and>
      \<not> is_blank (of_nat (char_code c))" if "33 \<le> char_code c" "char_code c \<noteq> 34" "char_code c \<noteq> 92" for c
    using that code [of c] by (auto simp: backslash_def quote_def is_blank_def dest!: arg_cong [of _ _ unat])
  with assms show ?thesis by (auto simp: plain_word_def wtext_def list_all_iff)
qed

lemma drive_point_quoted:
  "letter \<noteq> quote \<Longrightarrow> crt_arguments (quoted [letter, colon, backslash]) = [[letter, colon, quote]]"
  using crt_arguments_open_ended [of "[letter, colon]"] by (simp add: colon_def backslash_def quote_def)

lemma mount_tail:
  assumes "letter \<noteq> quote"
  shows "crt_arguments (wtext '' --mount '' @ quoted [letter, colon, backslash]) = [wtext ''--mount'', [letter, colon, quote]]"
proof -
  have split: "wtext '' --mount '' = 32 # wtext ''--mount'' @ [32]" by (simp add: wtext_def) code_simp
  have "plain_word (wtext ''--mount'')" by (rule wtext_plain) code_simp+
  from crt_arguments_plain [OF this, of "32 # quoted [letter, colon, backslash]"] show ?thesis
    by (simp add: split crt_arguments_blank is_blank_def drive_point_quoted assms)
qed

lemma stoul_decimal:
  assumes "n \<le> limit" "\<And>c. 48 \<le> c \<Longrightarrow> c \<le> 57 \<Longrightarrow> \<not> blank c"
  shows "stoul blank limit (map char_code (decimal n)) = Some n"
proof -
  let ?s = "map char_code (decimal n)"
  have digits: "48 \<le> c \<and> c \<le> 57" if "c \<in> set ?s" for c using that decimal_digits by auto
  have ne: "?s \<noteq> []" by simp
  then have hd: "48 \<le> hd ?s \<and> hd ?s \<le> 57" using digits hd_in_set by blast
  then have 1: "dropWhile blank ?s = ?s" using assms(2) ne by (cases ?s) auto
  have 2: "takeWhile (\<lambda>c. 48 \<le> c \<and> c \<le> 57) ?s = ?s" using digits by (simp add: takeWhile_eq_all_conv)
  have 3: "foldl (\<lambda>v c. 10 * v + (c - 48)) 0 ?s = n"
    using decimal_inverse [of n] by (simp add: foldl_map)
  show ?thesis using assms(1) hd ne unfolding stoul_def 1 by (simp add: Let_def 2 3)
qed

lemma cli_drive_point:
  "normalize_cli_mount_point W [letter, colon, quote] = [win_upper W letter, colon, backslash]"
  by (simp add: normalize_cli_mount_point_def normalize_mount_point_def)

lemma plan_of_image:
  assumes "picture \<noteq> []"
  shows "helper_plan H [wtext ''--image'', picture, wtext ''--mount'', [letter, colon, quote]] =
    Run_mount (Helper_image picture) [win_upper (hp_windows H) letter, colon, backslash] False"
  by (simp add: helper_plan_def no_helper_options_def wtext_eq cli_drive_point)

lemma plan_of_drive:
  assumes "unat (-1 :: u32) \<le> hp_ulong_max H" "\<And>c. 48 \<le> c \<Longrightarrow> c \<le> 57 \<Longrightarrow> \<not> hp_blank H c"
  shows "helper_plan H [wtext ''--physical'', wtext (decimal (unat index)), wtext ''--mount'', [letter, colon, quote]] =
    Run_mount (Helper_drive index) [win_upper (hp_windows H) letter, colon, backslash] False"
proof -
  have "unat index \<le> hp_ulong_max H"
    using assms(1) word_le_nat_alt [of index "-1"] by simp
  from stoul_decimal [OF this assms(2)] show ?thesis
    by (simp add: helper_plan_def no_helper_options_def wtext_eq cli_drive_point unat_wtext)
qed

text \<open>The parameters as the helper's argument vector.\<close>

lemma image_arguments:
  assumes "quote \<notin> set picture" "picture \<noteq> []" "last picture \<noteq> backslash" "letter \<noteq> quote"
    and "mount_parameters None picture [letter, colon, backslash] = Some (parameters, elevate)"
  shows "crt_arguments parameters = [wtext ''--image'', picture, wtext ''--mount'', [letter, colon, quote]] \<and> \<not> elevate"
proof -
  have split: "wtext ''--image '' = wtext ''--image'' @ [32]" by code_simp
  have word: "plain_word (wtext ''--image'')" by (rule wtext_plain) code_simp+
  have tail: "hd (wtext '' --mount '' @ rest) = 32" for rest by (simp add: wtext_def) code_simp
  have "parameters = wtext ''--image'' @ (32 # (quoted picture @ (wtext '' --mount '' @ quoted [letter, colon, backslash])))"
    using assms(2,5) by (simp add: mount_parameters_def split)
  then show ?thesis
    using crt_arguments_plain [OF word, of "32 # (quoted picture @ (wtext '' --mount '' @ quoted [letter, colon, backslash]))"]
      crt_arguments_quoted [OF assms(1), of "wtext '' --mount '' @ quoted [letter, colon, backslash]"]
      mount_tail [OF assms(4)] assms(2,3,5)
    by (simp add: crt_arguments_blank is_blank_def tail mount_parameters_def)
qed

lemma drive_arguments:
  assumes "letter \<noteq> quote" "mount_parameters (Some index) picture [letter, colon, backslash] = Some (parameters, elevate)"
  shows "crt_arguments parameters =
      [wtext ''--physical'', wtext (decimal (unat index)), wtext ''--mount'', [letter, colon, quote]] \<and> elevate"
proof -
  have split: "wtext ''--physical '' = wtext ''--physical'' @ [32]" by code_simp
  have word: "plain_word (wtext ''--physical'')" by (rule wtext_plain) code_simp+
  have index: "plain_word (wtext (decimal (unat index)))"
    by (rule wtext_plain) (auto simp: list_all_iff dest: decimal_digits)
  have tail: "hd (wtext '' --mount '' @ rest) = 32" for rest by (simp add: wtext_def) code_simp
  have "parameters = wtext ''--physical'' @ (32 # (wtext (decimal (unat index)) @
      (wtext '' --mount '' @ quoted [letter, colon, backslash])))"
    using assms(2) by (simp add: mount_parameters_def split)
  then show ?thesis
    using crt_arguments_plain [OF word, of "32 # (wtext (decimal (unat index)) @ (wtext '' --mount '' @ quoted [letter, colon, backslash]))"]
      crt_arguments_plain [OF index, of "wtext '' --mount '' @ quoted [letter, colon, backslash]"]
      mount_tail [OF assms(1)] assms(2)
    by (simp add: crt_arguments_blank is_blank_def tail mount_parameters_def)
qed

lemma unmount_arguments:
  assumes "letter \<noteq> quote"
  shows "crt_arguments (unmount_parameters [letter, colon, backslash]) = [wtext ''--unmount'', [letter, colon, quote]]"
proof -
  have split: "wtext ''--unmount '' = wtext ''--unmount'' @ [32]" by code_simp
  have word: "plain_word (wtext ''--unmount'')" by (rule wtext_plain) code_simp+
  show ?thesis
    using crt_arguments_plain [OF word, of "32 # quoted [letter, colon, backslash]"]
    by (simp add: unmount_parameters_def split crt_arguments_blank is_blank_def drive_point_quoted assms)
qed

lemma mount_runs_mono [simp]:
  "mp_runs (poll_mount_state source_open seen p) = mp_runs p"
  "mp_runs (mount_error title message p) = mp_runs p"
  by (auto simp: poll_mount_state_def nothing_mounted_def mount_error_def split: option.splits prod.splits)

lemma shell_run:
  assumes "shell_start_mount S source_open physical picture o1 o2 p = p'" "mp_runs p' \<noteq> mp_runs p"
  obtains letter parameters elevate where
    "choose_mount_letter (sh_drives S) = Some letter"
    "mount_parameters physical picture [of_nat letter, colon, backslash] = Some (parameters, elevate)"
    "mp_runs p' = mp_runs p @ [(parameters, elevate)]" "source_open"
  using assms(2) unfolding assms(1) [symmetric]
  by (auto simp: shell_start_mount_def Let_def split: if_splits option.splits prod.splits execution.splits)

lemma chosen_letter:
  assumes "choose_mount_letter used = Some l"
  shows "67 \<le> l \<and> l \<le> 90 \<and> \<not> bit used (l - 65) \<and> (of_nat l :: u16) \<noteq> quote"
proof -
  have l: "67 \<le> l \<and> l \<le> 90 \<and> \<not> bit used (l - 65)"
    using assms mount_letter_lowest [of used l] by blast
  then have "unat (of_nat l :: u16) = l" by (simp add: unat_of_nat)
  then have "(of_nat l :: u16) \<noteq> quote" using l by (auto simp: quote_def dest!: arg_cong [of _ _ unat])
  with l show ?thesis by blast
qed

text \<open>C22: The helper that the shell starts mounts the source that is shown, at the letter that is shown.
  Whatever click starts a helper, the argument vector that the C runtime makes of the command line is a
  plan to mount exactly the current drive or image at a free letter, although the closing quote of the
  drive root is swallowed by its backslash; it is elevated for drives and only for drives.  Images are
  paths as Windows allows them: no quote inside, no backslash at the end.\<close>

theorem shell_mounts_shown_source:
  assumes "shell_start_mount S source_open physical picture o1 o2 p = p'" "mp_runs p' \<noteq> mp_runs p"
    and "physical = None \<Longrightarrow> quote \<notin> set picture \<and> last picture \<noteq> backslash"
    and "unat (-1 :: u32) \<le> hp_ulong_max H" "\<And>c. 48 \<le> c \<Longrightarrow> c \<le> 57 \<Longrightarrow> \<not> hp_blank H c"
    and "\<And>l. 67 \<le> l \<Longrightarrow> l \<le> 90 \<Longrightarrow> win_upper (hp_windows H) (of_nat l) = of_nat l"
  shows "\<exists>letter parameters.
    mp_runs p' = mp_runs p @ [(parameters, physical \<noteq> None)] \<and> source_open \<and>
    67 \<le> letter \<and> letter \<le> 90 \<and> \<not> bit (sh_drives S) (letter - 65) \<and>
    helper_plan H (crt_arguments parameters) =
      Run_mount (case physical of Some index \<Rightarrow> Helper_drive index | None \<Rightarrow> Helper_image picture)
        [of_nat letter, colon, backslash] False"
proof -
  from shell_run [OF assms(1,2)] obtain letter parameters elevate where run:
    "choose_mount_letter (sh_drives S) = Some letter"
    "mount_parameters physical picture [of_nat letter, colon, backslash] = Some (parameters, elevate)"
    "mp_runs p' = mp_runs p @ [(parameters, elevate)]" "source_open" .
  note letter = chosen_letter [OF run(1)]
  show ?thesis
  proof (cases physical)
    case None
    then have picture: "picture \<noteq> []" using run(2) by (auto simp: mount_parameters_def split: if_splits)
    with image_arguments [of picture "of_nat letter" parameters elevate] None assms(3) letter run(2)
    have "crt_arguments parameters = [wtext ''--image'', picture, wtext ''--mount'', [of_nat letter, colon, quote]]" "\<not> elevate"
      by auto
    with plan_of_image [OF picture, of H "of_nat letter"] run letter assms(6) [of letter] None show ?thesis by auto
  next
    case (Some index)
    with drive_arguments [of "of_nat letter" index picture parameters elevate] letter run(2)
    have "crt_arguments parameters =
        [wtext ''--physical'', wtext (decimal (unat index)), wtext ''--mount'', [of_nat letter, colon, quote]]" "elevate"
      by auto
    with plan_of_drive [OF assms(4,5), of index "of_nat letter"] run letter assms(6) [of letter] Some show ?thesis by auto
  qed
qed

text \<open>An unmount that the shell starts asks the helper to remove exactly the mount point on the page.\<close>

theorem shell_unmounts_shown_point:
  assumes "shell_request_unmount S interactive p = p'" "mp_runs p' \<noteq> mp_runs p" "mp_point p = [letter, colon, backslash]"
    and "letter \<noteq> quote" "win_upper (hp_windows H) letter = letter"
  shows "\<exists>parameters. mp_runs p' = mp_runs p @ [(parameters, True)] \<and>
    helper_plan H (crt_arguments parameters) = Remove_mount (mp_point p)"
proof -
  have "mp_runs p' = mp_runs p @ [(unmount_parameters (mp_point p), True)]"
    using assms(1,2) by (auto simp: shell_request_unmount_def split: execution.splits if_splits)
  moreover have "helper_plan H (crt_arguments (unmount_parameters (mp_point p))) = Remove_mount (mp_point p)"
    by (simp add: assms(3,5) unmount_arguments [OF assms(4)] helper_plan_def no_helper_options_def wtext_eq cli_drive_point)
  ultimately show ?thesis by blast
qed

end
