(* ===== verification/HostSamples.thy ===== *)
theory HostSamples
  imports SessionSamples SectorReads WarmCache ShellMount
begin

text \<open>
  The sample disk behind the host backends and under the programs: a raw drive that finishes every read
  later and only at sectors, a file that is read a byte at a time, and runs of the tools over them.
\<close>

section \<open>A raw drive\<close>

text \<open>\<open>ReadFile\<close> leaves the request pending, \<open>GetOverlappedResult\<close> transfers at most a page of it and
  refuses requests that are not sectors.\<close>

definition page_drive :: "(image \<times> nat \<times> nat) overlapped" where
  "page_drive =
     \<lparr>ov_create_event = (\<lambda>s. (True, s)), ov_reset_event = (\<lambda>s. (True, s)),
      ov_read_file = (\<lambda>h n (im, _). (False, (im, offset_of h, n))),
      ov_pending = (\<lambda>_. True),
      ov_result = (\<lambda>(im, off, n).
        (if 512 dvd off \<and> 512 dvd n then Some (image_slice im off (min n 4096)) else None, (im, off, n)))\<rparr>"

lemma page_drive_sound: "sound_overlapped (\<lambda>_. True) fst page_drive"
  unfolding sound_overlapped_def by (simp add: page_drive_def split_def)

lemma page_drive_prompt: "prompt_overlapped (\<lambda>_. True) fst 512 page_drive"
proof -
  have "512 dvd min n 4096" if "512 dvd n" for n :: nat
    using that by (cases "n \<le> 4096") (simp_all add: min_def)
  then show ?thesis
    unfolding prompt_overlapped_def by (simp add: page_drive_def split_def image_slice_def)
qed

definition sample_drive :: "(image \<times> nat \<times> nat) physical_drive" where
  "sample_drive =
     \<lparr>pd_os = (sample_disk, 0, 0), pd_handle = True, pd_size = 0xC00000, pd_index = 1, pd_open_error = 0,
      pd_characteristics = default_characteristics\<rparr>"

definition sample_requests :: "request list" where
  "sample_requests = [Scan_request, Stat_request ''__common'' ''SAVE'', Browse_request ''__common'' '''']"

definition sample_replies :: "answer list" where
  "sample_replies =
     [Scanned True, Stated (stat_from_node ''SAVE'' sample_file),
      Browsed \<lparr>br_ok = True, br_error = '''', br_entries = [visible_entry (sample_entry ''SAVE'' 522 0x2000) (Some sample_file)]\<rparr>]"

lemma sample_requests_plain: "list_all plain_request sample_requests"
  by (simp add: sample_requests_def plain_id_def)

lemma sample_spec_replies:
  "fst (run_requests (\<lambda>sr r. spec_perform sample_disk r sr) sample_requests empty_scan) = sample_replies"
  by (simp add: sample_requests_def sample_replies_def sample_answers) (simp add: sample_spec_scan scan_ok_def)

theorem physical_drive_session_witness:
  "fst (run_requests (\<lambda>ss r. perform (\<lambda>_. 0) (drive_device page_drive) r ss) sample_requests (open_session sample_drive)) =
     sample_replies"
proof -
  have ready: "drive_ready (\<lambda>_. True) fst sample_drive"
    by (simp add: drive_ready_def drive_ok_def drive_is_open_def sample_drive_def sample_size)
  have disk: "fst (pd_os sample_drive) = sample_disk" by (simp add: sample_drive_def)
  from physical_drive_session [OF page_drive_sound page_drive_prompt ready sample_requests_plain, of "\<lambda>_. 0"]
  show ?thesis unfolding disk by (simp add: sample_plain_names sample_spec_replies)
qed

section \<open>An image file\<close>

text \<open>\<open>pread\<close> transfers one byte in each call.\<close>

definition byte_file :: "image posix" where
  "byte_file =
     \<lparr>px_open = (\<lambda>path im. (path = ''ps2.img'', im)), px_fstat = (\<lambda>im. (Some (uint (img_size im)), im)),
      px_close = (\<lambda>im. im), px_pread = (\<lambda>off n. State (\<lambda>im. (Some (image_slice im (unat off) (min n 1)), im))),
      px_off_max = 0x7FFFFFFFFFFFFFFF, px_ssize_max = 0x7FFFFFFFFFFFFFFF\<rparr>"

theorem posix_file_session_witness:
  "fst (run_requests (\<lambda>ss r. perform (\<lambda>_. 0) (posix_device byte_file) r ss) sample_requests
      (open_session (posix_open byte_file ''ps2.img'' sample_disk))) = sample_replies"
proof -
  let ?ok = "\<lambda>im. img_size im \<le> 0x7FFFFFFFFFFFFFFF"
  have opened: "fd_open (posix_open byte_file ''ps2.img'' sample_disk)"
    "fd_os (posix_open byte_file ''ps2.img'' sample_disk) = sample_disk"
    by (simp_all add: posix_open_def byte_file_def)
  have "fst (run_requests (\<lambda>ss r. perform (\<lambda>_. 0) (posix_device byte_file) r ss) sample_requests
      (open_session (posix_open byte_file ''ps2.img'' sample_disk))) =
    fst (run_requests (\<lambda>sr r. spec_perform sample_disk r sr) sample_requests empty_scan)"
  proof (rule posix_file_session [where ok0 = ?ok and ok = ?ok and img = "\<lambda>im. im"])
    show "sound_transfer ?ok (\<lambda>im. im) (px_pread byte_file)"
      by (auto simp: sound_transfer_def byte_file_def)
    show "prompt_transfer ?ok (\<lambda>im. im) 1 (px_ssize_max byte_file) (px_pread byte_file)"
      by (auto simp: prompt_transfer_def byte_file_def image_slice_def)
    show "?ok s'" if "?ok s" "px_open byte_file ''ps2.img'' s = (v, s')" "v" for s v s'
      using that by (auto simp: byte_file_def)
    show "?ok s' \<and> (\<forall>len. r = Some len \<longrightarrow> 0 \<le> len \<longrightarrow> len = uint (img_size s') \<and> len \<le> uint (px_off_max byte_file))"
      if "?ok s" "px_fstat byte_file s = (r, s')" for s r s'
      using that by (auto simp: byte_file_def word_le_def)
  qed (use opened sample_requests_plain sample_plain_names in \<open>auto simp: byte_file_def sample_size\<close>)
  then show ?thesis by (simp only: sample_spec_replies)
qed

section \<open>The disks of a machine\<close>

text \<open>Three interfaces, two of them of drive 1 and one beyond the filter; nobody may open a drive.  The
  state is the interface enumerated last.\<close>

definition three_interfaces :: "nat setup_api" where
  "three_interfaces =
     \<lparr>sa_class_devs = (\<lambda>s. (True, s)), sa_enum = (\<lambda>i s. (if i < 3 then Enumerated else No_more_items, unat i)),
      sa_detail_size = (\<lambda>s. (8, s)), sa_detail_struct = 8, sa_detail = (\<lambda>_ s. (True, s)),
      sa_open_interface = (\<lambda>s. (True, s)), sa_device_number = (\<lambda>s. (Some (7, if s = 2 then 9 else 1), s)),
      sa_close_interface = (\<lambda>s. s), sa_friendly_name = (\<lambda>s. (None, s)), sa_description = (\<lambda>s. (None, s)),
      sa_destroy = (\<lambda>s. s), sa_close_drive = (\<lambda>s. s), sa_disk_type = 7, sa_access_denied = 5\<rparr>"

definition locked_system :: "nat drive_system" where
  "locked_system =
     \<lparr>ov_create_event = (\<lambda>s. (True, s)), ov_reset_event = (\<lambda>s. (True, s)), ov_read_file = (\<lambda>_ _ s. (False, s)),
      ov_pending = (\<lambda>_. False), ov_result = (\<lambda>s. (None, s)), ds_query = (\<lambda>_ s. (False, s)),
      ds_query_result = (\<lambda>s. (None, s)), ds_descriptor_size = (\<lambda>_. 8), ds_identify = (\<lambda>s. (False, s)),
      ds_identify_result = (\<lambda>s. (None, s)), ds_length = (\<lambda>s. (False, s)), ds_length_result = (\<lambda>s. (None, s)),
      ds_last_error = (\<lambda>_. 5), ds_create_file = (\<lambda>_ s. (False, s)), ds_bus_ata = 3, ds_bus_sata = 11, ds_bus_usb = 7\<rparr>"

definition denied_probe :: physical_drive_probe where
  "denied_probe = blank_probe\<lparr>pp_index := 1, pp_access_denied := True, pp_note := ''raw read access denied''\<rparr>"

lemma three_turns:
  "fst (discover_turn three_interfaces 8 0 {} s) = Found 1" "fst (discover_turn three_interfaces 8 1 {1} s) = Skip"
  "fst (discover_turn three_interfaces 8 2 {1} s) = Skip" "fst (discover_turn three_interfaces 8 3 {1} s) = Stop"
  by (simp_all add: discover_turn_def interface_index_def three_interfaces_def word_le_nat_alt)

lemma three_probe: "fst (probe_drive locked_system byte_windows three_interfaces 1 s) = denied_probe"
  by (simp add: probe_drive_def device_name_def three_interfaces_def locked_system_def drive_open_def drive_is_open_def
      denied_probe_def blank_probe_def)

lemma three_discovered:
  "\<exists>s'. discover_physical_drives locked_system byte_windows three_interfaces 8 0 = Some ([denied_probe], s')"
proof -
  let ?loop = "discover_loop locked_system byte_windows three_interfaces 8"
  have 3: "\<exists>s'. ?loop 3 {1} s = Some ([], s')" for s
    using three_turns(4) [of s] by (subst discover_loop.simps) (cases "discover_turn three_interfaces 8 3 {1} s", simp)
  have 2: "\<exists>s'. ?loop 2 {1} s = Some ([], s')" for s
    using three_turns(3) [of s] 3 by (subst discover_loop.simps) (cases "discover_turn three_interfaces 8 2 {1} s", simp)
  have 1: "\<exists>s'. ?loop 1 {1} s = Some ([], s')" for s
    using three_turns(2) [of s] 2 by (subst discover_loop.simps) (cases "discover_turn three_interfaces 8 1 {1} s", simp)
  have "\<exists>s'. ?loop 0 {} s = Some ([denied_probe], s')" for s
  proof -
    obtain s1 where t: "discover_turn three_interfaces 8 0 {} s = (Found 1, s1)"
      using three_turns(1) [of s] by (metis prod.collapse)
    obtain s2 where p: "probe_drive locked_system byte_windows three_interfaces 1 s1 = (denied_probe, s2)"
      using three_probe [of s1] by (metis prod.collapse)
    show ?thesis using 1 [of s2] by (subst discover_loop.simps) (auto simp: t p)
  qed
  from this [of 0] show ?thesis
    by (auto simp: discover_physical_drives_def) (simp add: three_interfaces_def)
qed

theorem discovery_reports_once_witness:
  "\<exists>s'. discover_physical_drives locked_system byte_windows three_interfaces 8 0 = Some ([denied_probe], s') \<and>
     distinct (map pp_index [denied_probe]) \<and> list_all (\<lambda>p. pp_index p < unat (8 :: u32)) [denied_probe]"
  using three_discovered discovery_reports_once [of locked_system byte_windows three_interfaces 8 0 "[denied_probe]"] by metis

theorem discovery_returns_witness:
  "\<exists>ps s'. discover_physical_drives locked_system byte_windows three_interfaces 8 0 = Some (ps, s') \<and> length ps \<le> 3"
  using discovery_returns [of three_interfaces 3 locked_system byte_windows 8 0] by (simp add: three_interfaces_def)

section \<open>Sizes\<close>

theorem format_bytes_accurate_witness:
  "\<exists>u v. u < 5 \<and> format_bytes 40007761920 = decimal (v div 100) @ ''.'' @
     replicate (2 - length (decimal (v mod 100))) CHR ''0'' @ decimal (v mod 100) @ '' '' @ units ! u"
proof -
  have "unat (40007761920 :: u64) < 2 ^ 53" by simp
  from format_bytes_accurate [OF this] obtain u v where
    "u < 5" "u = 4 \<or> unat (40007761920 :: u64) < 1024 ^ (u + 1)" and
    "if u = 0 then v = unat (40007761920 :: u64) \<and> format_bytes 40007761920 = decimal v @ '' B''
     else 2 * \<bar>int v * 1024 ^ u - 100 * int (unat (40007761920 :: u64))\<bar> \<le> 1024 ^ u \<and>
       format_bytes 40007761920 = decimal (v div 100) @ ''.'' @
         replicate (2 - length (decimal (v mod 100))) CHR ''0'' @ decimal (v mod 100) @ '' '' @ units ! u" by blast
  moreover from this(2) have "u \<noteq> 0" by (intro notI) simp
  ultimately show ?thesis by auto
qed

section \<open>The programs over the sample disk\<close>

definition sample_env :: cli_env where
  "sample_env =
     \<lparr>env_version = ''1.0.0'', env_codename = ''Forge'', env_windows = True, env_ulong_max = 0xFFFFFFFF, env_path = (\<lambda>s. [s])\<rparr>"

definition image_only :: "source \<Rightarrow> image option" where
  "image_only src = (if src = Image_file ''ps2.img'' then Some sample_disk else None)"

lemma sample_scan_ok: "scan_ok (spec_scan sample_disk)"
  by (simp add: sample_spec_scan scan_ok_def)

theorem inspect_refines_image_witness:
  "\<exists>printed. inspect_main sample_env (\<lambda>_. []) image_only (\<lambda>_. 0) image_device (\<lambda>_ _. None) [''ps2.img'', ''--browse'', ''__common''] =
     (spec_overview ''image'' sample_disk @ printed, 0, [])"
proof -
  have run: "inspect_main sample_env (\<lambda>_. []) image_only (\<lambda>_. 0) image_device (\<lambda>_ _. None) [''ps2.img'', ''--browse'', ''__common''] =
      spec_inspect sample_env ''image'' sample_disk (\<lambda>_ _. None) (Browse_partition ''__common'' '''')"
  proof (rule inspect_refines_image [OF image.reliable_device_axioms _ TrueI])
    show "select_source sample_env image_only [''ps2.img'', ''--browse'', ''__common''] =
        Inr (sample_disk, [''--browse'', ''__common''])"
      by (simp add: select_source_def image_only_def sample_env_def)
  qed (simp_all add: image_device_def command_of_def plain_id_def)
  show ?thesis
    unfolding run by (simp add: spec_inspect_def sample_scan_ok spec_command_def sample_answers browse_report_def split_def)
qed

theorem inspect_confined_witness:
  "list_all (confined [''out''])
     (snd (snd (inspect_main sample_env (\<lambda>_. []) image_only (\<lambda>_. 0) image_device (\<lambda>_ _. None)
        [''ps2.img'', ''--extract'', ''__common'', ''SAVE'', ''out''])))"
proof -
  let ?args = "[''ps2.img'', ''--extract'', ''__common'', ''SAVE'', ''out'']"
  obtain printed code calls where run:
    "inspect_main sample_env (\<lambda>_. []) image_only (\<lambda>_. 0) image_device (\<lambda>_ _. None) ?args = (printed, code, calls)"
    by (metis prod_cases3)
  then have result: "snd (snd (inspect_main sample_env (\<lambda>_. []) image_only (\<lambda>_. 0) image_device (\<lambda>_ _. None) ?args)) = calls"
    by simp
  from inspect_confined [OF run] show ?thesis
  proof (cases "calls = []")
    case False
    with inspect_confined [OF run] obtain prefix pid path destination where
      "?args = prefix @ [''--extract'', pid, path, destination]" "list_all (confined (env_path sample_env destination)) calls"
      by blast
    moreover from this have "destination = ''out''" by (auto simp: append_eq_Cons_conv Cons_eq_append_conv)
    ultimately show ?thesis unfolding result by (simp add: sample_env_def)
  qed (simp add: result)
qed

section \<open>The other clients\<close>

definition hdl_scan :: scan_result where
  "hdl_scan = (spec_scan sample_disk)\<lparr>partitions := [sample_pfs\<lparr>p_type := kTypeHdl\<rparr>]\<rparr>"

lemma hdl_scan_mains: "hdl_mains_by_lba hdl_scan = [sample_pfs\<lparr>p_type := kTypeHdl\<rparr>]"
  by (simp add: hdl_mains_by_lba_def hdl_scan_def is_hdl_main_def is_sub_def sample_pfs_def partition_of_def
      sample_fields)

theorem enrichment_schedule_free_witness:
  "\<exists>c s'. enrich_hdl_catalog image_device hdl_scan 1 sample_disk False c s' \<and>
     c = catalog_of 1 [game_on sample_disk (sample_pfs\<lparr>p_type := kTypeHdl\<rparr>)]"
proof -
  obtain c log s' where run: "run_state (read_catalog image_device hdl_scan (\<lambda>_. False)) sample_disk = ((c, log), s')"
    by (metis prod.collapse)
  have "enrich_hdl_catalog image_device hdl_scan 1 sample_disk False c s'"
    by (rule enrich_hdl_catalog.serial [OF _ _ run]) (simp_all add: hdl_scan_mains choose_hdl_enrichment_policy_def)
  from enrichment_schedule_free [OF image.reliable_device_axioms TrueI this] this show ?thesis
    by (auto simp: hdl_scan_mains)
qed

lemma sample_metadata_pass:
  "fst (run_state (metadata_workload (\<lambda>_. 0) image_device ''__common'' '''') (clear_caches mounted_sample)) = (True, [])"
proof -
  let ?I = "coherent (\<lambda>_. True) (\<lambda>im. im) sample_disk (spec_scan sample_disk)"
  have common: "plain_id ''__common''" by (simp add: plain_id_def)
  have "answers ?I (session_stat (\<lambda>_. 0) image_device ''__common'' ''SAVE'') (stat_from_node ''SAVE'' sample_file) ss" for ss
    using answers_stat [OF image.reliable_device_axioms common sample_plain_names, of "\<lambda>_. 0" "''SAVE''"]
    by (simp add: sample_answers)
  then have "answers ?I (stat_entries (\<lambda>_. 0) image_device ''__common'' ''''
      [visible_entry (sample_entry ''SAVE'' 522 0x2000) (Some sample_file)]) (True, []) ss" for ss
    by (auto simp: visible_entry_def sample_entry_def bench_join_path_def stat_from_node_def intro!: answers_bind answers_ret)
  then have "answers ?I (metadata_workload (\<lambda>_. 0) image_device ''__common'' '''') (True, []) (clear_caches mounted_sample)"
    unfolding metadata_workload_def
    using answers_browse [OF image.reliable_device_axioms common, of sample_disk "spec_scan sample_disk" "\<lambda>_. 0" "''''"]
    by (intro answers_bind) (auto simp: sample_answers)
  then show ?thesis using coherent_clear [OF mounted_coherent] by (simp add: answers_def)
qed

theorem warm_pass_reads_nothing_witness:
  "\<exists>ss1 ss2. run_state (metadata_workload (\<lambda>_. 0) image_device ''__common'' '''') (clear_caches mounted_sample) = ((True, []), ss1) \<and>
     run_state (metadata_workload (\<lambda>_. 0) image_device ''__common'' '''') (session_reset_stats ss1) = ((True, []), ss2) \<and>
     io_read_calls (fst (session_stats ss2)) = 0"
proof -
  let ?work = "metadata_workload (\<lambda>_. 0) image_device ''__common'' ''''"
  obtain ss1 where cold: "run_state ?work (clear_caches mounted_sample) = ((True, []), ss1)"
    using sample_metadata_pass by (metis prod.collapse)
  obtain success printed ss2 where warm: "run_state ?work (session_reset_stats ss1) = ((success, printed), ss2)"
    by (metis prod.collapse)
  have "plain_id ''__common''" by (simp add: plain_id_def)
  from answers_browse [OF image.reliable_device_axioms this, of sample_disk "spec_scan sample_disk" "\<lambda>_. 0" "''''" "clear_caches mounted_sample"]
  have "fst (run_state (browse (\<lambda>_. 0) image_device ''__common'' '''') (clear_caches mounted_sample)) =
      \<lparr>br_ok = True, br_error = '''', br_entries = [visible_entry (sample_entry ''SAVE'' 522 0x2000) (Some sample_file)]\<rparr>"
    using coherent_clear [OF mounted_coherent] by (simp add: answers_def sample_answers)
  from warm_pass_reads_nothing [OF cold this _ warm] cold warm show ?thesis by auto
qed

definition byte_helper :: helper_env where
  "byte_helper =
     \<lparr>hp_windows = byte_windows, hp_version = ''1.0.0'', hp_codename = ''Forge'', hp_blank = (\<lambda>n. n = 32),
      hp_ulong_max = 0xFFFFFFFF\<rparr>"

lemma byte_helper_point: "normalize_cli_mount_point (hp_windows byte_helper) (wtext ''p:'') = [0x50, colon, backslash]"
proof -
  have "char_code (CHR ''p'') = 0x70" "char_code (CHR '':'') = 0x3A" by code_simp+
  then show ?thesis
    by (simp add: byte_helper_def byte_windows_def wtext_def normalize_cli_mount_point_def normalize_mount_point_def
        colon_def backslash_def quote_def word_le_nat_alt)
qed

theorem session_reads_whole_sectors_witness:
  "perform (\<lambda>_. 0) (whole_device 0xFFFFFFFF (image_device\<lparr>dev_size := \<lambda>_. 0x10000000\<rparr>)) Scan_request (open_session sample_disk) =
   perform (\<lambda>_. 0) (image_device\<lparr>dev_size := \<lambda>_. 0x10000000\<rparr>) Scan_request (open_session sample_disk)"
  by (rule session_reads_whole_sectors [THEN conjunct2, rule_format]) simp

theorem helper_reports_failure_witness:
  "reports_failure (helper_not_open (Helper_image (wtext ''ps2.img'')) 2) \<and>
   helper_main byte_helper 0 (\<lambda>_. 0) image_device (\<lambda>_. Inl 2) (\<lambda>_. False)
     [wtext ''--image'', wtext ''ps2.img'', wtext ''--mount'', wtext ''p:'']
     (helper_not_open (Helper_image (wtext ''ps2.img'')) 2) 1"
proof -
  have plan: "helper_plan byte_helper [wtext ''--image'', wtext ''ps2.img'', wtext ''--mount'', wtext ''p:''] =
      Run_mount (Helper_image (wtext ''ps2.img'')) [0x50, colon, backslash] False"
    by (simp add: helper_plan_def no_helper_options_def wtext_eq byte_helper_point)
  have run: "helper_main byte_helper 0 (\<lambda>_. 0) image_device (\<lambda>_. Inl 2) (\<lambda>_. False)
     [wtext ''--image'', wtext ''ps2.img'', wtext ''--mount'', wtext ''p:'']
     (helper_not_open (Helper_image (wtext ''ps2.img'')) 2) 1"
    by (rule helper_main.not_started [OF plan]) (simp add: helper_start_def)
  from helper_reports_failure [OF run plan] run show ?thesis by simp
qed

end
