(* ===== verification/NativeSession.thy ===== *)
theory NativeSession
  imports SessionSpec HdlEnrichment PartitionCatalog
begin

text \<open>
  \<open>NativeSessionController\<close> (\<open>src/winui/NativeSessionController.cpp\<close>): the owner of one drive session and
  its management model, called by the threads of the WinUI shell.  Shared pointers are indices into the
  sessions and models created so far, so that a thread keeps what it copied under the mutex while another
  one installs a new source.
\<close>

section \<open>Snapshots\<close>

record partition_row_snapshot =
  prs_partition_id :: string
  prs_title :: string
  prs_startup :: string
  prs_kind :: catalog_kind
  prs_enrichment :: enrichment_state
  prs_size_bytes :: u64
  prs_start_lba :: u32
  prs_is_sub :: bool
  prs_error :: string

definition make_row_snapshot :: "management_row \<Rightarrow> partition_row_snapshot" where
  "make_row_snapshot row =
     (let e = row_partition row in
      \<lparr>prs_partition_id = ce_id e,
       prs_title = (case row_game row of Some g \<Rightarrow> g_title g | None \<Rightarrow> ce_id e),
       prs_startup = (case row_game row of Some g \<Rightarrow> g_startup g | None \<Rightarrow> ''''),
       prs_kind = ce_kind e, prs_enrichment = row_state row, prs_size_bytes = ce_size_bytes e,
       prs_start_lba = ce_start_lba e, prs_is_sub = ce_is_sub e, prs_error = row_error row\<rparr>)"

record browse_entry_snapshot =
  bes_name :: string
  bes_is_directory :: bool
  bes_is_regular :: bool
  bes_size_bytes :: u64

record browse_snapshot =
  bs_ok :: bool
  bs_error :: string
  bs_entries :: "browse_entry_snapshot list"

text \<open>The build time of the catalog is in nanoseconds.\<close>

record session_snapshot =
  sn_open :: bool
  sn_source_name :: string
  sn_source_size_bytes :: u64
  sn_storage :: storage_characteristics
  sn_stats :: "block_io_stats \<times> read_ahead_stats \<times> read_cache_stats \<times> session_counters"
  sn_progress :: management_progress
  sn_catalog_build :: int
  sn_rows :: "partition_row_snapshot list"

definition blank_snapshot :: session_snapshot where
  "blank_snapshot =
     \<lparr>sn_open = False, sn_source_name = '''', sn_source_size_bytes = 0, sn_storage = default_characteristics,
      sn_stats =
        (\<lparr>io_read_calls = 0, io_bytes_requested = 0, io_failed_reads = 0, io_largest_read = 0,
          io_small_read_calls = 0, io_read_time_ns = 0, io_max_in_flight = 0\<rparr>,
         zero_read_ahead_stats, zero_read_cache_stats, zero_counters),
      sn_progress = \<lparr>total_hdl = 0, pending_hdl = 0, ready_hdl = 0, failed_hdl = 0\<rparr>, sn_catalog_build = 0,
      sn_rows = []\<rparr>"

section \<open>State\<close>

text \<open>One call of \<open>enrich_hdl\<close>: the pair it captured and its scheduler.  \<open>en_device\<close> is set before each step
  to the stack of the captured session.\<close>

record 's enrich_task =
  et_session :: nat
  et_model :: nat
  et_partitions :: "partition list"
  et_run :: "'s stack enrichment"

record 's native =
  nv_sessions :: "'s session list"
  nv_models :: "management_model list"
  nv_session :: "nat option"
  nv_model :: "nat option"
  nv_source_name :: string
  nv_storage :: storage_characteristics
  nv_catalog_build :: int
  nv_tasks :: "'s enrich_task list"
  nv_progress :: "(nat \<times> nat) list"

definition new_native :: "'s native" where
  "new_native =
     \<lparr>nv_sessions = [], nv_models = [], nv_session = None, nv_model = None, nv_source_name = '''',
      nv_storage = default_characteristics, nv_catalog_build = 0, nv_tasks = [], nv_progress = []\<rparr>"

section \<open>Opening and closing\<close>

text \<open>\<open>None\<close> is success, otherwise the error; \<open>elapsed\<close> is what the clock shows for the catalog.\<close>

definition open_source ::
  "('s \<Rightarrow> int) \<Rightarrow> 's device \<Rightarrow> 's option \<Rightarrow> string \<Rightarrow> storage_characteristics \<Rightarrow> int \<Rightarrow> 's native \<Rightarrow>
   string option \<times> 's native" where
  "open_source now D source name storage elapsed n =
     (case source of
        None \<Rightarrow> (Some ''No source device was supplied.'', n)
      | Some s \<Rightarrow>
          (let (scanned, ss) = run_state (session_scan now D) (open_session s) in
           if \<not> scanned then (Some (ss_last_error ss), n)
           else if \<not> mbr_valid (ss_scan ss)
           then (Some ''The selected source does not contain a valid PS2 APA MBR.'', n)
           else
             let model = management_model (build_partition_catalog (ss_scan ss) True)
             in (None, n\<lparr>nv_sessions := nv_sessions n @ [ss], nv_models := nv_models n @ [model],
                  nv_session := Some (length (nv_sessions n)), nv_model := Some (length (nv_models n)),
                  nv_source_name := name, nv_storage := storage, nv_catalog_build := elapsed\<rparr>)))"

text \<open>\<open>opened\<close> is the source, or the error of a drive that is not open.\<close>

definition native_open_physical ::
  "('s \<Rightarrow> int) \<Rightarrow> 's device \<Rightarrow> (u32 \<Rightarrow> u32 + 's) \<Rightarrow> u32 \<Rightarrow> int \<Rightarrow> 's native \<Rightarrow> string option \<times> 's native" where
  "native_open_physical now D opened index elapsed n =
     (case opened index of
        Inl e \<Rightarrow> (Some (''Could not open PhysicalDrive'' @ decimal (unat index) @ '' read-only (Win32 error '' @
          decimal (unat e) @ '')''), n)
      | Inr s \<Rightarrow> open_source now D (Some s) (dev_name D s) (dev_characteristics D s) elapsed n)"

definition native_open_image ::
  "('s \<Rightarrow> int) \<Rightarrow> 's device \<Rightarrow> (u16 list \<Rightarrow> 's option) \<Rightarrow> u16 list \<Rightarrow> int \<Rightarrow> 's native \<Rightarrow> string option \<times> 's native" where
  "native_open_image now D opened path elapsed n =
     (case opened path of
        None \<Rightarrow> (Some ''Could not open the selected disk image.'', n)
      | Some s \<Rightarrow> open_source now D (Some s) (dev_name D s) (dev_characteristics D s) elapsed n)"

definition close_native :: "'s native \<Rightarrow> 's native" where
  "close_native n =
     n\<lparr>nv_model := None, nv_session := None, nv_source_name := '''', nv_storage := default_characteristics,
       nv_catalog_build := 0\<rparr>"

section \<open>Operations on the installed session\<close>

definition native_snapshot :: "('s \<Rightarrow> int) \<Rightarrow> 's device \<Rightarrow> 's native \<Rightarrow> session_snapshot" where
  "native_snapshot now D n =
     (case (nv_session n, nv_model n) of
        (Some i, Some j) \<Rightarrow>
          (let ss = nv_sessions n ! i; m = nv_models n ! j in
           \<lparr>sn_open = True, sn_source_name = nv_source_name n,
            sn_source_size_bytes = dev_size (stack_device now D) (ss_stack ss), sn_storage = nv_storage n,
            sn_stats = session_stats ss, sn_progress = mm_progress m, sn_catalog_build = nv_catalog_build n,
            sn_rows = map make_row_snapshot (mm_rows m)\<rparr>)
      | _ \<Rightarrow> blank_snapshot)"

definition run_session :: "nat \<Rightarrow> ('s, 'a) session_op \<Rightarrow> 's native \<Rightarrow> 'a \<times> 's native" where
  "run_session i m n =
     (let (a, ss) = run_state m (nv_sessions n ! i) in (a, n\<lparr>nv_sessions := (nv_sessions n)[i := ss]\<rparr>))"

definition entry_snapshot :: "session_entry \<Rightarrow> browse_entry_snapshot" where
  "entry_snapshot e =
     \<lparr>bes_name = se_name e, bes_is_directory = se_is_directory e, bes_is_regular = se_is_regular e,
      bes_size_bytes = se_size e\<rparr>"

definition browse_pfs ::
  "('s \<Rightarrow> int) \<Rightarrow> 's device \<Rightarrow> string \<Rightarrow> string \<Rightarrow> 's native \<Rightarrow> browse_snapshot \<times> 's native" where
  "browse_pfs now D pid path n =
     (case nv_session n of
        None \<Rightarrow> (\<lparr>bs_ok = False, bs_error = ''No source is open.'', bs_entries = []\<rparr>, n)
      | Some i \<Rightarrow>
          (let (r, n') = run_session i (browse now D pid path) n
           in (\<lparr>bs_ok = br_ok r, bs_error = br_error r,
                bs_entries = (if br_ok r then map entry_snapshot (br_entries r) else [])\<rparr>, n')))"

definition native_export ::
  "('s \<Rightarrow> int) \<Rightarrow> 's device \<Rightarrow> host \<Rightarrow> string \<Rightarrow> string \<Rightarrow> host_path \<Rightarrow> 's native \<Rightarrow> string option \<times> 's native" where
  "native_export now D host pid path destination n =
     (case nv_session n of
        None \<Rightarrow> (Some ''No source is open.'', n)
      | Some i \<Rightarrow>
          (let ((ok, x), n') = run_session i (session_export now D host pid path destination) n
           in (if ok then None else Some (ex_error x), n')))"

definition native_reset_stats :: "'s native \<Rightarrow> 's native" where
  "native_reset_stats n =
     (case nv_session n of None \<Rightarrow> n | Some i \<Rightarrow> snd (run_session i (modify session_reset_stats) n))"

definition reset_enrichment :: "'s native \<Rightarrow> 's native" where
  "reset_enrichment n =
     (case nv_session n of
        None \<Rightarrow> n
      | Some i \<Rightarrow>
          n\<lparr>nv_models := nv_models n @ [management_model (build_partition_catalog (ss_scan (nv_sessions n ! i)) True)],
            nv_model := Some (length (nv_models n))\<rparr>)"

section \<open>Enrichment\<close>

text \<open>The serial loop of \<open>read_catalog\<close> polls, reads and reports as one worker does.\<close>

definition begin_enrichment :: "('s \<Rightarrow> int) \<Rightarrow> 's device \<Rightarrow> 's native \<Rightarrow> 's native" where
  "begin_enrichment now D n =
     (case (nv_session n, nv_model n) of
        (Some i, Some j) \<Rightarrow>
          (let ss = nv_sessions n ! i;
               ps = hdl_mains_by_lba (ss_scan ss);
               policy = choose_hdl_enrichment_policy
                 (dev_characteristics (stack_device now D) (ss_stack ss)) (length ps) 0;
               workers = (if max_in_flight policy \<le> 1 then 1 else min (max_in_flight policy) (length ps))
           in if ps = [] then n
              else n\<lparr>nv_tasks := nv_tasks n @
                [\<lparr>et_session = i, et_model = j, et_partitions = ps,
                  et_run = start_enrichment (ss_stack ss) (length ps) workers\<rparr>]\<rparr>)
      | _ \<Rightarrow> n)"

text \<open>The progress callback: results for a model that is no longer installed are dropped, and then the
  caller hears nothing either.\<close>

definition deliver_game :: "nat \<Rightarrow> nat \<Rightarrow> nat \<Rightarrow> game_result \<Rightarrow> 's native \<Rightarrow> 's native" where
  "deliver_game j completed candidates game n =
     (if nv_model n \<noteq> Some j then n
      else n\<lparr>nv_models := (nv_models n)[j := snd (apply_hdl_result game (nv_models n ! j))],
             nv_progress := nv_progress n @ [(completed, candidates)]\<rparr>)"

text \<open>The controller after the scheduler of task \<open>t\<close> took a step to \<open>e\<close>: the device state is back in the
  session, and a report has gone through the callback.\<close>

definition after_work :: "nat \<Rightarrow> 's stack enrichment \<Rightarrow> 's native \<Rightarrow> 's native" where
  "after_work t e n =
     (let task = nv_tasks n ! t;
          i = et_session task;
          n1 = n\<lparr>nv_sessions := (nv_sessions n)[i := (nv_sessions n ! i)\<lparr>ss_stack := en_device e\<rparr>],
                 nv_tasks := (nv_tasks n)[t := task\<lparr>et_run := e\<rparr>]\<rparr>
      in case drop (length (en_log (et_run task))) (en_log e) of
           [] \<Rightarrow> n1
         | (completed, candidates, game) # _ \<Rightarrow> deliver_game (et_model task) completed candidates game n1)"

definition task_run :: "'s native \<Rightarrow> nat \<Rightarrow> 's stack enrichment" where
  "task_run n t =
     (let task = nv_tasks n ! t in (et_run task)\<lparr>en_device := ss_stack (nv_sessions n ! et_session task)\<rparr>)"

section \<open>Any interleaving of the threads\<close>

inductive native_step ::
  "('s \<Rightarrow> int) \<Rightarrow> 's device \<Rightarrow> ('s \<Rightarrow> bool) \<Rightarrow> 's native \<Rightarrow> 's native \<Rightarrow> bool"
  for now D source where
  physical: "native_step now D source n (snd (native_open_physical now D opened index elapsed n))"
    if "\<And>s. opened index = Inr s \<Longrightarrow> source s"
| image: "native_step now D source n (snd (native_open_image now D opened_image path elapsed n))"
    if "\<And>s. opened_image path = Some s \<Longrightarrow> source s"
| close: "native_step now D source n (close_native n)"
| browse: "native_step now D source n (snd (browse_pfs now D pid path n))"
| export: "native_step now D source n (snd (native_export now D host pid path destination n))"
| reset_stats: "native_step now D source n (native_reset_stats n)"
| reset: "native_step now D source n (reset_enrichment n)"
| enrich: "native_step now D source n (begin_enrichment now D n)"
| work: "native_step now D source n (after_work t e n)"
    if "t < length (nv_tasks n)"
      "enrichment_step (stack_device now D) (et_partitions (nv_tasks n ! t)) (task_run n t) e"

inductive native_reachable :: "('s \<Rightarrow> int) \<Rightarrow> 's device \<Rightarrow> ('s \<Rightarrow> bool) \<Rightarrow> 's native \<Rightarrow> bool"
  for now D source where
  new: "native_reachable now D source new_native"
| step: "native_reachable now D source n \<Longrightarrow> native_step now D source n n' \<Longrightarrow> native_reachable now D source n'"

section \<open>Sessions keep their source\<close>

definition same_source :: "('s \<Rightarrow> bool) \<Rightarrow> ('s \<Rightarrow> image) \<Rightarrow> 's session \<Rightarrow> 's session \<Rightarrow> bool" where
  "same_source ok img x y \<longleftrightarrow> ss_scan y = ss_scan x \<and>
     (stack_ok ok img (ss_stack x) \<longrightarrow>
        stack_ok ok img (ss_stack y) \<and> stack_img img (ss_stack y) = stack_img img (ss_stack x))"

interpretation source: effect_preorder "same_source ok img" for ok img
  by unfold_locales (auto simp: same_source_def)

lemma source_on_stack:
  "transparent (stack_ok ok img) (stack_img img) m m0 \<Longrightarrow> effect (same_source ok img) (on_stack m)"
  by (auto simp: effect_def same_source_def on_stack_def split: prod.splits dest: transparentD)

lemma source_modify: "(\<And>x. ss_scan (f x) = ss_scan x \<and> ss_stack (f x) = ss_stack x) \<Longrightarrow> effect (same_source ok img) (modify f)"
  by (simp add: effect_def same_source_def modify_def)

lemma source_count: "effect (same_source ok img) (count f)"
  unfolding count_def by (rule source_modify) simp

lemma source_timed: "effect (same_source ok img) m \<Longrightarrow> effect (same_source ok img) (timed now add m)"
  unfolding timed_def Let_def by (intro source.effect_intros source_count)

lemma store_frames [simp]:
  "ss_scan (store_nodes ns x) = ss_scan x" "ss_stack (store_nodes ns x) = ss_stack x"
  "ss_scan (store_stats ns x) = ss_scan x" "ss_stack (store_stats ns x) = ss_stack x"
  "ss_scan (store_browse k b x) = ss_scan x" "ss_stack (store_browse k b x) = ss_stack x"
  "ss_scan (store_probe k p x) = ss_scan x" "ss_stack (store_probe k p x) = ss_stack x"
  by (induction ns arbitrary: x)
    (auto simp: store_nodes_def store_stats_def store_node_def store_stat_def store_browse_def store_probe_def
      evicted_def split_def Let_def)

lemma source_get_then:
  "(\<And>x. same_source ok img x (snd (run_state (f x) x))) \<Longrightarrow> effect (same_source ok img) (State_Monad.bind State_Monad.get f)"
  by (simp add: effect_def State_Monad.get_def)

lemmas source_intros = source.effect_intros source_count source_timed source_modify

context reliable_device
begin

lemma source_open_partition: "effect (same_source ok img) (open_partition now D pid)"
  unfolding open_partition_def probe_for_def Let_def
  by (intro source_intros source_on_stack [OF reliable_device.transparent_probe [OF stack_reliable_device [OF reliable_device_axioms]]];
    simp)

lemma source_browse: "effect (same_source ok img) (browse now D pid path)"
  unfolding browse_def Let_def bindE_def split_def
  by (intro source_intros source_open_partition
      source_on_stack [OF reliable_device.transparent_browse_directory [OF stack_reliable_device [OF reliable_device_axioms]]];
    simp)

lemma source_export: "effect (same_source ok img) (session_export now D host pid path destination)"
proof -
  let ?D = "stack_device now D"
  have "same_source ok img x (x\<lparr>ss_stack := ex_device y\<rparr>)"
    if "run_state (pfs_export_to_host ?D host rd path destination) (empty_export (ss_stack x)) = (a, y)" for rd x a y
    using reliable_device.kept_export [OF stack_reliable_device [OF reliable_device_axioms],
        of "stack_img img (ss_stack x)" now host rd path destination] that
    unfolding effect_def kept_def by (auto simp: same_source_def empty_export_def dest!: spec [of _ "empty_export (ss_stack x)"])
  then show ?thesis
    unfolding session_export_def
    by (intro source_timed source.effect_bind [OF source_count] source.effect_bind [OF source_open_partition]
        source_get_then)
      (auto simp: modify_def source.effect_refl split: sum.splits prod.splits)
qed

end

section \<open>What the controller holds\<close>

definition session_fine :: "('s \<Rightarrow> bool) \<Rightarrow> ('s \<Rightarrow> image) \<Rightarrow> 's session \<Rightarrow> bool" where
  "session_fine ok img ss \<longleftrightarrow>
     stack_ok ok img (ss_stack ss) \<and> ss_scan ss = spec_scan (stack_img img (ss_stack ss)) \<and>
     mbr_valid (ss_scan ss) \<and> scan_ok (ss_scan ss)"

text \<open>A table of a source: its catalog, to which results of its own games have been applied.\<close>

definition table_of :: "image \<Rightarrow> management_model \<Rightarrow> bool" where
  "table_of im m \<longleftrightarrow>
     (\<exists>rs. set rs \<subseteq> game_on im ` set (hdl_mains_by_lba (spec_scan im)) \<and>
        m = apply_all rs (management_model (build_partition_catalog (spec_scan im) True)))"

lemma table_of_new: "table_of im (management_model (build_partition_catalog (spec_scan im) True))"
  unfolding table_of_def by (rule exI [of _ "[]"]) (simp add: apply_all_def)

lemma table_of_result:
  "table_of im m \<Longrightarrow> p \<in> set (hdl_mains_by_lba (spec_scan im)) \<Longrightarrow>
   table_of im (snd (apply_hdl_result (game_on im p) m))"
  unfolding table_of_def by (erule exE, rule_tac x = "rs @ [game_on im p]" in exI) (auto simp: apply_all_def)

text \<open>The partitions that a worker still counts or reports are those of the list.\<close>

definition claims_fine :: "partition list \<Rightarrow> 's enrichment \<Rightarrow> bool" where
  "claims_fine ps e \<longleftrightarrow>
     (\<forall>i. Counting i \<in> set (en_workers e) \<longrightarrow> i < length ps) \<and>
     (\<forall>i k. Reporting i k \<in> set (en_workers e) \<longrightarrow> i < length ps)"

lemma claims_set_worker:
  assumes "claims_fine ps e" "w < length (en_workers e)"
    and "\<And>i. st = Counting i \<Longrightarrow> i < length ps" "\<And>i k. st = Reporting i k \<Longrightarrow> i < length ps"
  shows "claims_fine ps (set_worker w st e)"
proof -
  have "st' = st \<or> st' \<in> set (en_workers e)" if "st' \<in> set ((en_workers e)[w := st])" for st'
    using that set_update_subset_insert [of "en_workers e" w st] by auto
  with assms(1,3,4) show ?thesis by (fastforce simp: claims_fine_def set_worker_def)
qed

lemma set_worker_log [simp]: "en_log (set_worker w st e) = en_log e"
  by (simp add: set_worker_def)

lemma claims_frame [simp]:
  "claims_fine ps (e\<lparr>en_next := a\<rparr>) = claims_fine ps e" "claims_fine ps (e\<lparr>en_completed := a\<rparr>) = claims_fine ps e"
  "claims_fine ps (e\<lparr>en_log := l\<rparr>) = claims_fine ps e" "claims_fine ps (e\<lparr>en_stop := b\<rparr>) = claims_fine ps e"
  "claims_fine ps (e\<lparr>en_device := s\<rparr>) = claims_fine ps e"
  "claims_fine ps (e\<lparr>en_device := s, en_results := rs\<rparr>) = claims_fine ps e"
  by (simp_all add: claims_fine_def)

lemma step_log:
  assumes "enrichment_step D ps e e'" "enrichment_inv ok img im ps e" "claims_fine ps e"
  shows "claims_fine ps e' \<and> (en_log e' = en_log e \<or>
    (\<exists>k i. i < length ps \<and> en_log e' = en_log e @ [(k, length ps, game_on im (ps ! i))]))"
  using assms(1)
proof cases
  case (read w i r s')
  have "i < length ps" using assms(2) read(2,3) by (auto simp: enrichment_inv_def in_set_conv_nth)
  then show ?thesis using read(1,2) assms(3) by (auto intro!: claims_set_worker)
next
  case (count w i)
  have "i < length ps" using assms(3) count(2,3) by (auto simp: claims_fine_def in_set_conv_nth)
  then show ?thesis using count(1,2) assms(3) by (auto intro!: claims_set_worker)
next
  case (report w i k r)
  have "Reporting i k \<in> set (en_workers e)" using report(2,3) by (metis nth_mem)
  then have i: "i < length ps" using assms(3) by (auto simp: claims_fine_def)
  then have "r = game_on im (ps ! i)"
    using assms(2) report(4) by (auto simp: enrichment_inv_def split: if_splits)
  with i report(1,2) assms(3) show ?thesis by (auto intro!: claims_set_worker)
qed (use assms(3) in \<open>auto intro!: claims_set_worker split: if_splits\<close>)

definition task_fine :: "('s \<Rightarrow> bool) \<Rightarrow> ('s \<Rightarrow> image) \<Rightarrow> 's native \<Rightarrow> 's enrich_task \<Rightarrow> bool" where
  "task_fine ok img n task \<longleftrightarrow>
     et_session task < length (nv_sessions n) \<and> et_model task < length (nv_models n) \<and>
     (let im = stack_img img (ss_stack (nv_sessions n ! et_session task)) in
        et_partitions task = hdl_mains_by_lba (spec_scan im) \<and>
        enrichment_inv (stack_ok ok img) (stack_img img) im (et_partitions task) (et_run task) \<and>
        claims_fine (et_partitions task) (et_run task)) \<and>
     (nv_model n = Some (et_model task) \<longrightarrow> nv_session n = Some (et_session task))"

definition native_inv :: "('s \<Rightarrow> bool) \<Rightarrow> ('s \<Rightarrow> image) \<Rightarrow> 's native \<Rightarrow> bool" where
  "native_inv ok img n \<longleftrightarrow>
     (\<forall>ss \<in> set (nv_sessions n). session_fine ok img ss) \<and>
     (nv_session n = None \<longleftrightarrow> nv_model n = None) \<and>
     (\<forall>i j. nv_session n = Some i \<longrightarrow> nv_model n = Some j \<longrightarrow>
        i < length (nv_sessions n) \<and> j < length (nv_models n) \<and>
        table_of (stack_img img (ss_stack (nv_sessions n ! i))) (nv_models n ! j)) \<and>
     (\<forall>task \<in> set (nv_tasks n). task_fine ok img n task)"

text \<open>Nothing but the sessions changes, and they keep their sources.\<close>

lemma inv_run_session:
  assumes inv: "native_inv ok img n" and i: "i < length (nv_sessions n)"
    and same: "same_source ok img (nv_sessions n ! i) ss"
  shows "native_inv ok img (n\<lparr>nv_sessions := (nv_sessions n)[i := ss]\<rparr>)"
proof -
  let ?n = "n\<lparr>nv_sessions := (nv_sessions n)[i := ss]\<rparr>"
  have fine: "session_fine ok img (nv_sessions n ! j)" if "j < length (nv_sessions n)" for j
    using inv that by (simp add: native_inv_def)
  have kept: "stack_img img (ss_stack (nv_sessions ?n ! j)) = stack_img img (ss_stack (nv_sessions n ! j))"
    if "j < length (nv_sessions n)" for j
    using same fine [OF i] i by (auto simp: nth_list_update same_source_def session_fine_def)
  have "session_fine ok img ss" using same fine [OF i] by (auto simp: same_source_def session_fine_def)
  then have "\<forall>ss \<in> set (nv_sessions ?n). session_fine ok img ss"
    using inv set_update_subset_insert [of "nv_sessions n" i ss] by (auto simp: native_inv_def)
  moreover have "task_fine ok img ?n task" if "task \<in> set (nv_tasks n)" for task
  proof -
    have "task_fine ok img n task" using inv that by (simp add: native_inv_def)
    then show ?thesis using kept [of "et_session task"] by (auto simp: task_fine_def Let_def)
  qed
  ultimately show ?thesis using inv kept by (simp add: native_inv_def)
qed

lemma inv_session_op:
  assumes "native_inv ok img n" "nv_session n = Some i" "effect (same_source ok img) m"
  shows "native_inv ok img (snd (run_session i m n))"
proof -
  have i: "i < length (nv_sessions n)" using assms(1,2) by (auto simp: native_inv_def)
  have "same_source ok img (nv_sessions n ! i) (snd (run_state m (nv_sessions n ! i)))"
    using assms(3) by (simp add: effect_def)
  from inv_run_session [OF assms(1) i this] show ?thesis by (simp add: run_session_def split_def Let_def)
qed

lemma task_fine_tasks [simp]: "task_fine ok img (n\<lparr>nv_tasks := ts\<rparr>) = task_fine ok img n"
  by (simp add: task_fine_def fun_eq_iff)

lemma inv_add_task:
  "native_inv ok img n \<Longrightarrow> task_fine ok img n task \<Longrightarrow> native_inv ok img (n\<lparr>nv_tasks := nv_tasks n @ [task]\<rparr>)"
  by (simp add: native_inv_def)

context reliable_device
begin

lemma inv_open_source:
  assumes inv: "native_inv ok img n" and s: "\<And>s. source = Some s \<Longrightarrow> ok s"
  shows "native_inv ok img (snd (open_source now D source name storage elapsed n))"
proof (cases source)
  case (Some s)
  obtain scanned ss where run: "run_state (session_scan now D) (open_session s) = (scanned, ss)" by fastforce
  note scan = run_session_scan [OF reliable_device_axioms coherent_open [where ok = ok and img = img, OF assms(2) [OF Some]], of now]
  then have b: "scanned = (mbr_valid (spec_scan (img s)) \<and> scan_ok (spec_scan (img s)))"
    and co: "coherent ok img (img s) (spec_scan (img s)) ss" using run by (simp_all add: Some)
  show ?thesis
  proof (cases scanned)
    case False
    then show ?thesis using inv Some run by (simp add: open_source_def)
  next
    case True
    then have fine: "session_fine ok img ss" and im: "stack_img img (ss_stack ss) = img s"
      and sr: "ss_scan ss = spec_scan (img s)"
      using b co by (simp_all add: session_fine_def coherent_def)
    have "task_fine ok img (snd (open_source now D source name storage elapsed n)) task" if "task \<in> set (nv_tasks n)" for task
    proof -
      have "task_fine ok img n task" using inv that by (simp add: native_inv_def)
      then show ?thesis using True Some run b sr by (auto simp: open_source_def task_fine_def Let_def nth_append)
    qed
    then show ?thesis
      using inv True Some run b fine im sr table_of_new [of "img s"]
      by (auto simp: open_source_def native_inv_def Let_def)
  qed
qed (use inv in \<open>simp add: open_source_def\<close>)

lemma inv_begin:
  assumes inv: "native_inv ok img n"
  shows "native_inv ok img (begin_enrichment now D n)"
proof (cases "nv_session n")
  case (Some i)
  then obtain j where j: "nv_model n = Some j" using inv by (cases "nv_model n") (auto simp: native_inv_def)
  have ij: "i < length (nv_sessions n)" "j < length (nv_models n)" using inv Some j by (auto simp: native_inv_def)
  then have fine: "session_fine ok img (nv_sessions n ! i)" using inv by (simp add: native_inv_def)
  let ?ss = "nv_sessions n ! i"
  let ?ps = "hdl_mains_by_lba (ss_scan ?ss)"
  have "enrichment_inv (stack_ok ok img) (stack_img img) (stack_img img (ss_stack ?ss)) ?ps
      (start_enrichment (ss_stack ?ss) (length ?ps) k) \<and> claims_fine ?ps (start_enrichment (ss_stack ?ss) (length ?ps) k)" for k
    using fine reliable_device.inv_reachable [OF stack_reliable_device [OF reliable_device_axioms, of now]
        enrichment_reachable.start, of "ss_stack ?ss" ?ps k]
    by (auto simp: session_fine_def claims_fine_def start_enrichment_def)
  then have "task_fine ok img n \<lparr>et_session = i, et_model = j, et_partitions = ?ps,
      et_run = start_enrichment (ss_stack ?ss) (length ?ps) k\<rparr>" for k
    using fine Some j ij by (simp add: task_fine_def session_fine_def)
  then show ?thesis
    using inv Some j by (simp add: begin_enrichment_def Let_def inv_add_task)
qed (use inv in \<open>simp add: begin_enrichment_def\<close>)

end

text \<open>A result reaches only the table of the source it was read from.\<close>

lemma inv_deliver:
  assumes inv: "native_inv ok img n" and task: "task_fine ok img n task"
    and p: "p \<in> set (et_partitions task)"
    and game: "game = game_on (stack_img img (ss_stack (nv_sessions n ! et_session task))) p"
  shows "native_inv ok img (deliver_game (et_model task) completed candidates game n)"
proof (cases "nv_model n = Some (et_model task)")
  case True
  let ?j = "et_model task"
  have i: "nv_session n = Some (et_session task)" using task True by (simp add: task_fine_def)
  let ?m = "snd (apply_hdl_result game (nv_models n ! ?j))"
  have "table_of (stack_img img (ss_stack (nv_sessions n ! et_session task))) (nv_models n ! ?j)"
    using inv i True by (simp add: native_inv_def)
  then have "table_of (stack_img img (ss_stack (nv_sessions n ! et_session task))) ?m"
    unfolding game by (rule table_of_result) (use task p in \<open>simp add: task_fine_def Let_def\<close>)
  moreover have "?j < length (nv_models n)" using task by (simp add: task_fine_def)
  moreover have "task_fine ok img (deliver_game ?j completed candidates game n) t" if "task_fine ok img n t" for t
    using that True by (simp add: deliver_game_def task_fine_def)
  ultimately show ?thesis using inv i True by (simp add: deliver_game_def native_inv_def)
qed (use inv in \<open>simp add: deliver_game_def\<close>)

lemma task_run_inv:
  assumes "native_inv ok img n" "t < length (nv_tasks n)"
  shows "enrichment_inv (stack_ok ok img) (stack_img img)
      (stack_img img (ss_stack (nv_sessions n ! et_session (nv_tasks n ! t)))) (et_partitions (nv_tasks n ! t)) (task_run n t)"
    and "claims_fine (et_partitions (nv_tasks n ! t)) (task_run n t)"
proof -
  have task: "task_fine ok img n (nv_tasks n ! t)" using assms by (simp add: native_inv_def)
  moreover have "session_fine ok img (nv_sessions n ! et_session (nv_tasks n ! t))"
    using assms(1) task by (simp add: native_inv_def task_fine_def)
  ultimately show "enrichment_inv (stack_ok ok img) (stack_img img)
      (stack_img img (ss_stack (nv_sessions n ! et_session (nv_tasks n ! t)))) (et_partitions (nv_tasks n ! t)) (task_run n t)"
    and "claims_fine (et_partitions (nv_tasks n ! t)) (task_run n t)"
    by (auto simp: task_fine_def task_run_def Let_def enrichment_inv_def session_fine_def)
qed

context reliable_device
begin

lemma inv_work:
  assumes inv: "native_inv ok img n" and t: "t < length (nv_tasks n)"
    and step: "enrichment_step (stack_device now D) (et_partitions (nv_tasks n ! t)) (task_run n t) e"
  shows "native_inv ok img (after_work t e n)"
proof -
  let ?task = "nv_tasks n ! t"
  let ?i = "et_session ?task"
  let ?ps = "et_partitions ?task"
  let ?im = "stack_img img (ss_stack (nv_sessions n ! ?i))"
  let ?task' = "?task\<lparr>et_run := e\<rparr>"
  define n0 where "n0 = n\<lparr>nv_sessions := (nv_sessions n)[?i := (nv_sessions n ! ?i)\<lparr>ss_stack := en_device e\<rparr>]\<rparr>"
  define n1 where "n1 = n0\<lparr>nv_tasks := (nv_tasks n)[t := ?task']\<rparr>"
  note before = task_run_inv [OF inv t]
  from reliable_device.inv_step [OF stack_reliable_device [OF reliable_device_axioms] step before(1)]
  have e: "enrichment_inv (stack_ok ok img) (stack_img img) ?im ?ps e" .
  from step_log [OF step before] have claims: "claims_fine ?ps e"
    and log: "en_log e = en_log (et_run ?task) \<or>
      (\<exists>k i. i < length ?ps \<and> en_log e = en_log (et_run ?task) @ [(k, length ?ps, game_on ?im (?ps ! i))])"
    by (simp_all add: task_run_def Let_def)
  have task: "task_fine ok img n ?task" using inv t by (simp add: native_inv_def)
  then have i: "?i < length (nv_sessions n)" by (simp add: task_fine_def)
  have stack: "stack_ok ok img (en_device e)" "stack_img img (en_device e) = ?im"
    using e by (simp_all add: enrichment_inv_def)
  then have n0: "native_inv ok img n0"
    unfolding n0_def by (intro inv_run_session [OF inv i]) (simp add: same_source_def)
  have im: "stack_img img (ss_stack (nv_sessions n0 ! ?i)) = ?im" using i stack by (simp add: n0_def)
  have "task_fine ok img n0 ?task'"
    using task e claims im i by (simp add: task_fine_def Let_def) (simp add: n0_def)
  then have fine: "task_fine ok img n1 ?task'" by (simp add: n1_def)
  have n1: "native_inv ok img n1"
  proof -
    have "\<forall>task \<in> set ((nv_tasks n)[t := ?task']). task_fine ok img n0 task"
      using n0 \<open>task_fine ok img n0 ?task'\<close> set_update_subset_insert [of "nv_tasks n" t ?task']
      by (auto simp: native_inv_def n0_def)
    then show ?thesis using n0 unfolding n1_def by (simp add: native_inv_def)
  qed
  have after: "after_work t e n =
      (case drop (length (en_log (et_run ?task))) (en_log e) of
         [] \<Rightarrow> n1 | (completed, candidates, game) # _ \<Rightarrow> deliver_game (et_model ?task) completed candidates game n1)"
    unfolding after_work_def Let_def n1_def n0_def by simp
  from log show ?thesis
  proof
    assume "en_log e = en_log (et_run ?task)"
    then show ?thesis using n1 by (simp add: after)
  next
    assume "\<exists>k i. i < length ?ps \<and> en_log e = en_log (et_run ?task) @ [(k, length ?ps, game_on ?im (?ps ! i))]"
    then obtain k p where k: "p < length ?ps" "en_log e = en_log (et_run ?task) @ [(k, length ?ps, game_on ?im (?ps ! p))]"
      by blast
    have "native_inv ok img (deliver_game (et_model ?task') k (length ?ps) (game_on ?im (?ps ! p)) n1)"
      by (rule inv_deliver [OF n1 fine, of "?ps ! p"]) (use k im in \<open>simp_all add: n1_def\<close>)
    then show ?thesis using k by (simp add: after)
  qed
qed

lemma inv_native_step:
  assumes "native_step now D ok n n'" "native_inv ok img n"
  shows "native_inv ok img n'"
  using assms(1)
proof cases
  case (physical opened index elapsed)
  have "native_inv ok img (snd (open_source now D (Some s) name storage elapsed n))" if "opened index = Inr s" for s name storage
    using physical(2) that by (intro inv_open_source [OF assms(2)]) simp
  then show ?thesis using assms(2) physical(1) by (auto simp: native_open_physical_def split: sum.splits)
next
  case (image opened path elapsed)
  have "native_inv ok img (snd (open_source now D (Some s) name storage elapsed n))" if "opened path = Some s" for s name storage
    using image(2) that by (intro inv_open_source [OF assms(2)]) simp
  then show ?thesis using assms(2) image(1) by (auto simp: native_open_image_def split: option.splits)
next
  case close
  then show ?thesis using assms(2) by (auto simp: close_native_def native_inv_def task_fine_def)
next
  case (browse pid path)
  then show ?thesis using assms(2) inv_session_op [OF assms(2) _ source_browse]
    by (auto simp: browse_pfs_def split_def Let_def split: option.splits)
next
  case (export host pid path destination)
  then show ?thesis using assms(2) inv_session_op [OF assms(2) _ source_export]
    by (auto simp: native_export_def split_def Let_def split: option.splits)
next
  case reset_stats
  have "effect (same_source ok img) (modify session_reset_stats)"
    using reset_stack_ok by (auto simp: effect_def modify_def same_source_def session_reset_stats_def)
  then show ?thesis using reset_stats assms(2) inv_session_op [OF assms(2)]
    by (auto simp: native_reset_stats_def split: option.splits)
next
  case reset
  show ?thesis
  proof (cases "nv_session n")
    case (Some i)
    then have fine: "session_fine ok img (nv_sessions n ! i)" "i < length (nv_sessions n)"
      using assms(2) by (cases "nv_model n"; auto simp: native_inv_def)+
    then have "table_of (stack_img img (ss_stack (nv_sessions n ! i)))
        (management_model (build_partition_catalog (ss_scan (nv_sessions n ! i)) True))"
      using table_of_new by (simp add: session_fine_def)
    moreover have "task_fine ok img (reset_enrichment n) task" if "task_fine ok img n task" for task
      using that Some by (auto simp: reset_enrichment_def task_fine_def nth_append)
    ultimately show ?thesis
      using reset assms(2) Some fine by (auto simp: reset_enrichment_def native_inv_def)
  qed (use reset assms(2) in \<open>simp add: reset_enrichment_def\<close>)
next
  case enrich
  then show ?thesis using inv_begin [OF assms(2)] by simp
next
  case (work t e)
  then show ?thesis using inv_work [OF assms(2)] by simp
qed

end

section \<open>The installed source\<close>

text \<open>The image behind the installed session.  Only opening and closing a source changes it.\<close>

definition installed_image :: "('s \<Rightarrow> image) \<Rightarrow> 's native \<Rightarrow> image option" where
  "installed_image img n = map_option (\<lambda>i. stack_img img (ss_stack (nv_sessions n ! i))) (nv_session n)"

lemma installed_run_session:
  assumes "native_inv ok img n" "nv_session n = Some i" "effect (same_source ok img) m"
  shows "installed_image img (snd (run_session i m n)) = installed_image img n"
proof -
  have "session_fine ok img (nv_sessions n ! i)" "i < length (nv_sessions n)"
    using assms(1,2) by (cases "nv_model n"; auto simp: native_inv_def)+
  moreover have "same_source ok img (nv_sessions n ! i) (snd (run_state m (nv_sessions n ! i)))"
    using assms(3) by (simp add: effect_def)
  ultimately show ?thesis
    using assms(2) by (auto simp: installed_image_def run_session_def split_def Let_def same_source_def session_fine_def)
qed

context reliable_device
begin

lemma installed_browse:
  assumes "native_inv ok img n"
  shows "installed_image img (snd (browse_pfs now D pid path n)) = installed_image img n"
  using installed_run_session [OF assms _ source_browse]
  by (auto simp: browse_pfs_def split_def Let_def split: option.splits)

lemma installed_export:
  assumes "native_inv ok img n"
  shows "installed_image img (snd (native_export now D host pid path destination n)) = installed_image img n"
  using installed_run_session [OF assms _ source_export]
  by (auto simp: native_export_def split_def Let_def split: option.splits)

lemma installed_reset_stats:
  assumes "native_inv ok img n"
  shows "installed_image img (native_reset_stats n) = installed_image img n"
proof -
  have "effect (same_source ok img) (modify session_reset_stats)"
    using reset_stack_ok by (auto simp: effect_def modify_def same_source_def session_reset_stats_def)
  then show ?thesis using installed_run_session [OF assms] by (auto simp: native_reset_stats_def split: option.splits)
qed

lemma installed_enrichments:
  "installed_image img (reset_enrichment n) = installed_image img n"
  "installed_image img (begin_enrichment now D n) = installed_image img n"
  by (simp_all add: installed_image_def reset_enrichment_def begin_enrichment_def Let_def split: option.splits)

lemma installed_work:
  assumes inv: "native_inv ok img n" and t: "t < length (nv_tasks n)"
    and step: "enrichment_step (stack_device now D) (et_partitions (nv_tasks n ! t)) (task_run n t) e"
  shows "installed_image img (after_work t e n) = installed_image img n"
proof -
  let ?i = "et_session (nv_tasks n ! t)"
  from reliable_device.inv_step [OF stack_reliable_device [OF reliable_device_axioms] step task_run_inv(1) [OF inv t]]
  have im: "stack_img img (en_device e) = stack_img img (ss_stack (nv_sessions n ! ?i))"
    by (simp add: enrichment_inv_def)
  have "?i < length (nv_sessions n)" using inv t by (simp add: native_inv_def task_fine_def)
  then show ?thesis
    using im
    by (cases "nv_session n") (auto simp: installed_image_def after_work_def deliver_game_def Let_def nth_list_update split: list.splits option.splits)
qed

lemma installed_opened:
  assumes "ok s" "open_source now D (Some s) name storage elapsed n = (None, n')"
  shows "installed_image img n' = Some (img s)"
proof -
  obtain scanned ss where run: "run_state (session_scan now D) (open_session s) = (scanned, ss)" by fastforce
  then have "coherent ok img (img s) (spec_scan (img s)) ss"
    using run_session_scan [OF reliable_device_axioms coherent_open [where ok = ok and img = img, OF assms(1)], of now] by simp
  then have "stack_img img (ss_stack ss) = img s" by (simp add: coherent_def)
  with assms(2) run show ?thesis
    by (auto simp: open_source_def installed_image_def Let_def split: if_splits)
qed

lemma refused_source: "open_source now D source name storage elapsed n = (Some message, n') \<Longrightarrow> n' = n"
  by (auto simp: open_source_def Let_def split: option.splits prod.splits if_splits)

end

section \<open>What the shell sees\<close>

text \<open>C21: Results never reach the wrong table.  Whatever the shell's threads do in whatever order (open and
  close sources, browse, export, reset, start and stop enrichments that read on while the source is
  replaced), a snapshot shows the rows of the catalog of the installed source, to which only results of
  games read from that source's own image have been applied.\<close>

theorem snapshot_of_installed_source:
  assumes "reliable_device D ok img" "native_reachable now D ok n" "nv_session n = Some i"
    and "im = stack_img img (ss_stack (nv_sessions n ! i))"
  shows "scan_ok (spec_scan im) \<and>
    (\<exists>rs. set rs \<subseteq> game_on im ` set (hdl_mains_by_lba (spec_scan im)) \<and>
      sn_rows (native_snapshot now D n) =
        map make_row_snapshot (mm_rows (apply_all rs (management_model (build_partition_catalog (spec_scan im) True)))))"
proof -
  have inv: "native_inv ok img n"
    using assms(2)
  proof induction
    case new
    show ?case by (simp add: native_inv_def new_native_def)
  next
    case (step n n')
    then show ?case using reliable_device.inv_native_step [OF assms(1)] by blast
  qed
  with assms(3) obtain j where j: "nv_model n = Some j" by (cases "nv_model n") (auto simp: native_inv_def)
  with inv assms(3) have "session_fine ok img (nv_sessions n ! i)" "table_of im (nv_models n ! j)"
    by (simp_all add: native_inv_def assms(4))
  then show ?thesis
    using assms(3,4) j by (auto simp: native_snapshot_def table_of_def session_fine_def Let_def)
qed

end
