(* ===== verification/Launcher.thy ===== *)
theory Launcher
  imports MountHelper
begin

text \<open>
  The launcher (\<open>src/launcher/windows_launcher.cpp\<close>): it starts the WinUI shell, waits for its handshake and
  falls back to the Win32 shell; and the elevation decision of the Win32 shell
  (\<open>src/gui/windows_elevation.cpp\<close>).  Paths are lists of wide components.
\<close>

type_synonym win_path = "wide list"

definition parent_path :: "win_path \<Rightarrow> win_path" where
  "parent_path = butlast"

section \<open>The launcher\<close>

datatype pressed = Pressed_yes | Pressed_no | Pressed_cancel

datatype handshake = Ready_event | Process_exit u32 | Handshake_timeout | Wait_failed

text \<open>\<open>lc_module\<close> and \<open>lc_local_app_data\<close> are what the calls with a buffer of 32768 characters return, \<open>None\<close>
  when they fail or do not fit; \<open>lc_arguments\<close> is the result of \<open>CommandLineToArgvW\<close>.\<close>

record launcher_env =
  lc_module :: "win_path option"
  lc_current :: win_path
  lc_local_app_data :: "win_path option"
  lc_arguments :: "wide list option"
  lc_lower :: "u16 \<Rightarrow> u16"
  lc_exists :: "win_path \<Rightarrow> bool"
  lc_create :: "win_path \<Rightarrow> bool"
  lc_pressed :: pressed
  lc_event :: bool
  lc_handshake :: handshake

text \<open>What the user and the system see, in order.\<close>

datatype launcher_action =
    Start_process win_path win_path
  | Ask_fallback wide
  | Show_failure wide
  | Open_target win_path

definition executable_directory :: "launcher_env \<Rightarrow> win_path" where
  "executable_directory L = (case lc_module L of None \<Rightarrow> lc_current L | Some path \<Rightarrow> parent_path path)"

definition startup_log_path :: "launcher_env \<Rightarrow> win_path" where
  "startup_log_path L =
     (case lc_local_app_data L of
        None \<Rightarrow> executable_directory L @ [wtext ''winui-startup.log'']
      | Some path \<Rightarrow> path @ [wtext ''PS2 DriveForge'', wtext ''Logs'', wtext ''winui-startup.log''])"

definition launch_process :: "launcher_env \<Rightarrow> win_path \<Rightarrow> win_path \<Rightarrow> bool \<times> launcher_action list" where
  "launch_process L executable directory =
     (if \<not> lc_exists L executable then (False, [])
      else if \<not> lc_create L executable then (False, [])
      else (True, [Start_process executable directory]))"

definition legacy_path :: "win_path \<Rightarrow> win_path" where
  "legacy_path root = root @ [wtext ''legacy'', wtext ''PS2-DriveForge-Win32.exe'']"

definition winui_path :: "win_path \<Rightarrow> win_path" where
  "winui_path root = root @ [wtext ''app'', wtext ''winui'', wtext ''PS2-DriveForge-WinUI.exe'']"

definition launch_legacy :: "launcher_env \<Rightarrow> win_path \<Rightarrow> bool \<times> launcher_action list" where
  "launch_legacy L root = launch_process L (legacy_path root) (parent_path (legacy_path root))"

definition open_log_or_folder :: "launcher_env \<Rightarrow> launcher_action list" where
  "open_log_or_folder L =
     (let log = startup_log_path L in [Open_target (if lc_exists L log then log else parent_path log)])"

definition legacy_failure :: launcher_action where
  "legacy_failure =
     Show_failure (wtext ''The legacy Win32 fallback could not be started.'' @ [10, 10] @
       wtext ''Expected: legacy'' @ [backslash] @ wtext ''PS2-DriveForge-Win32.exe'')"

definition fallback_dialog :: "launcher_env \<Rightarrow> win_path \<Rightarrow> wide \<Rightarrow> int \<times> launcher_action list" where
  "fallback_dialog L root detail =
     (let content =
        wtext ''The modern WinUI frontend could not finish starting.'' @
        (if detail \<noteq> [] then [10, 10] @ detail else []) @
        [10, 10] @ wtext ''Your PS2 HDD has not been modified by this startup failure.'' @
        [10, 10] @ wtext ''Yes  '' @ [0x2014] @ wtext '' Open Win32 fallback'' @
        [10] @ wtext ''No   '' @ [0x2014] @ wtext '' Open startup log'' @
        [10] @ wtext ''Cancel '' @ [0x2014] @ wtext '' Exit''
      in case lc_pressed L of
           Pressed_yes \<Rightarrow>
             (let (started, actions) = launch_legacy L root in
              if \<not> started then (2, Ask_fallback content # actions @ [legacy_failure])
              else (0, Ask_fallback content # actions))
         | Pressed_no \<Rightarrow> (1, Ask_fallback content # open_log_or_folder L)
         | Pressed_cancel \<Rightarrow> (1, [Ask_fallback content]))"

definition has_argument :: "launcher_env \<Rightarrow> wide \<Rightarrow> bool" where
  "has_argument L expected =
     (case lc_arguments L of
        None \<Rightarrow> False
      | Some argv \<Rightarrow> list_ex (\<lambda>arg. map (lc_lower L) arg = map (lc_lower L) expected) (tl argv))"

definition self_test :: "launcher_env \<Rightarrow> win_path \<Rightarrow> int" where
  "self_test L root =
     (if \<not> lc_exists L (legacy_path root) then 10
      else if \<not> lc_exists L (winui_path root) then 11
      else 0)"

definition launcher_main :: "launcher_env \<Rightarrow> int \<times> launcher_action list" where
  "launcher_main L =
     (let root = executable_directory L;
          winui = winui_path root
      in if has_argument L (wtext ''--self-test'') then (self_test L root, [])
         else if has_argument L (wtext ''--legacy'') then
           (let (started, actions) = launch_legacy L root in
            if \<not> started then (2, actions @ [legacy_failure]) else (0, actions))
         else if \<not> lc_exists L winui
         then fallback_dialog L root (wtext ''The WinUI executable is missing from app'' @ [backslash] @ wtext ''winui.'')
         else if \<not> lc_event L
         then fallback_dialog L root (wtext ''DriveForge could not create the WinUI startup handshake.'')
         else
           (let (launched, actions) = launch_process L winui (parent_path winui);
                fall_back = (\<lambda>detail. let (code, later) = fallback_dialog L root detail in (code, actions @ later))
            in if \<not> launched then fall_back (wtext ''Windows could not create the WinUI process.'')
               else
                 (case lc_handshake L of
                    Ready_event \<Rightarrow> (0, actions)
                  | Process_exit exit_code \<Rightarrow>
                      fall_back (wtext ''The WinUI process exited before its main window became ready (exit code '' @
                        wtext (decimal (unat exit_code)) @ wtext '').'')
                  | Handshake_timeout \<Rightarrow> (0, actions)
                  | Wait_failed \<Rightarrow> fall_back (wtext ''The WinUI startup handshake failed unexpectedly.''))))"

fun starts :: "launcher_action \<Rightarrow> win_path option" where
  "starts (Start_process path directory) = (if directory = parent_path path then Some path else None)"
| "starts _ = None"

lemma legacy_not_winui: "legacy_path root \<noteq> winui_path root"
  by (simp add: legacy_path_def winui_path_def)

text \<open>Which shell a run should end with: after \<open>--legacy\<close> the Win32 shell; otherwise the WinUI shell, if it is
  there, can be started and does not exit or fail before its window is ready; otherwise the Win32 shell, if
  the user says yes.  A shell that is missing or cannot be created is none.\<close>

definition creatable :: "launcher_env \<Rightarrow> win_path \<Rightarrow> bool" where
  "creatable L path \<longleftrightarrow> lc_exists L path \<and> lc_create L path"

definition asks_legacy :: "launcher_env \<Rightarrow> bool" where
  "asks_legacy L \<longleftrightarrow> has_argument L (wtext ''--legacy'')"

definition winui_comes_up :: "launcher_env \<Rightarrow> bool" where
  "winui_comes_up L \<longleftrightarrow>
     creatable L (winui_path (executable_directory L)) \<and> lc_event L \<and> lc_handshake L \<in> {Ready_event, Handshake_timeout}"

definition expected_shell :: "launcher_env \<Rightarrow> win_path option" where
  "expected_shell L =
     (let root = executable_directory L in
      if \<not> asks_legacy L \<and> winui_comes_up L then Some (winui_path root)
      else if (asks_legacy L \<or> lc_pressed L = Pressed_yes) \<and> creatable L (legacy_path root) then Some (legacy_path root)
      else None)"

text \<open>A run that ends with the expected shell and code 0, or, when there is none, with a word to the user and
  code 2 when the Win32 shell was wanted and 1 when it was not.\<close>

definition ends_with :: "win_path option \<Rightarrow> bool \<Rightarrow> int \<times> launcher_action list \<Rightarrow> bool" where
  "ends_with shell wanted run \<longleftrightarrow> snd run \<noteq> [] \<and> starts (last (snd run)) = shell \<and>
     fst run = (if shell \<noteq> None then 0 else if wanted then 2 else 1)"

definition questions :: "launcher_action list \<Rightarrow> bool" where
  "questions actions \<longleftrightarrow> (\<exists>content. Ask_fallback content \<in> set actions)"

text \<open>The Win32 shell is among what was started exactly when it is the expected one.\<close>

definition legacy_only :: "win_path \<Rightarrow> win_path option \<Rightarrow> launcher_action list \<Rightarrow> bool" where
  "legacy_only root shell actions \<longleftrightarrow>
     (Some (legacy_path root) \<in> starts ` set actions \<longleftrightarrow> shell = Some (legacy_path root))"

lemmas run_facts = ends_with_def questions_def legacy_only_def launch_process_def creatable_def legacy_failure_def

lemma fallback_ends:
  fixes L root
  defines "shell \<equiv> (if lc_pressed L = Pressed_yes \<and> creatable L (legacy_path root) then Some (legacy_path root) else None)"
  assumes "fallback_dialog L root detail = (code, later)"
    and "front = [] \<or> front = [Start_process (winui_path root) (parent_path (winui_path root))]"
  shows "ends_with shell (lc_pressed L = Pressed_yes) (code, front @ later) \<and> questions (front @ later) \<and>
    legacy_only root shell (front @ later)"
proof -
  have started: "launch_legacy L root = (if creatable L (legacy_path root)
      then (True, [Start_process (legacy_path root) (parent_path (legacy_path root))]) else (False, []))"
    by (simp add: launch_legacy_def launch_process_def creatable_def)
  show ?thesis
    using assms(2,3) legacy_not_winui [of root] unfolding shell_def
    by (cases "lc_pressed L") (auto simp: fallback_dialog_def started run_facts open_log_or_folder_def Let_def split: if_splits)
qed

lemma main_falls_back:
  assumes "\<not> has_argument L (wtext ''--self-test'')" "\<not> has_argument L (wtext ''--legacy'')" "\<not> winui_comes_up L"
  defines "root \<equiv> executable_directory L"
  shows "\<exists>detail front. (front = [] \<or> front = [Start_process (winui_path root) (parent_path (winui_path root))]) \<and>
    launcher_main L = (fst (fallback_dialog L root detail), front @ snd (fallback_dialog L root detail))"
proof -
  let ?shown = "\<lambda>front detail. (fst (fallback_dialog L root detail), front @ snd (fallback_dialog L root detail))"
  let ?start = "[Start_process (winui_path root) (parent_path (winui_path root))]"
  have "\<exists>detail. launcher_main L = ?shown [] detail \<or> launcher_main L = ?shown ?start detail"
  proof (cases "lc_exists L (winui_path root) \<and> lc_event L \<and> lc_create L (winui_path root)")
    case True
    with assms(1-3) show ?thesis
      by (cases "lc_handshake L")
        (auto simp: launcher_main_def Let_def launch_process_def winui_comes_up_def creatable_def root_def [symmetric] split_def)
  next
    case False
    with assms(1,2) show ?thesis
      by (auto simp: launcher_main_def Let_def launch_process_def root_def [symmetric] split_def)
  qed
  then show ?thesis by blast
qed

text \<open>C34: Every run of the launcher.  With \<open>--self-test\<close> it starts and shows nothing, and its code is 0
  exactly when both shells are in the package.  Otherwise it ends with the expected shell and code 0: after
  \<open>--legacy\<close> the Win32 shell; without it the WinUI shell unless that is missing, cannot be started, or exits
  or fails before it is ready, and then the Win32 shell if the user says yes.  When that shell
  is missing or cannot be created, or the user declines, the run ends with a question, a failure message or the log, with code 2
  if the Win32 shell was wanted and 1 otherwise.  The user is asked exactly when the WinUI shell was tried and
  did not come up, and the Win32 shell is started exactly when it is the expected one.\<close>

theorem launcher_outcome:
  "if has_argument L (wtext ''--self-test'')
   then snd (launcher_main L) = [] \<and>
     (fst (launcher_main L) = 0 \<longleftrightarrow>
       lc_exists L (legacy_path (executable_directory L)) \<and> lc_exists L (winui_path (executable_directory L)))
   else ends_with (expected_shell L) (asks_legacy L \<or> lc_pressed L = Pressed_yes) (launcher_main L) \<and>
     (questions (snd (launcher_main L)) \<longleftrightarrow> \<not> asks_legacy L \<and> \<not> winui_comes_up L) \<and>
     legacy_only (executable_directory L) (expected_shell L) (snd (launcher_main L))"
proof -
  let ?root = "executable_directory L"
  have "ends_with (expected_shell L) (asks_legacy L \<or> lc_pressed L = Pressed_yes) (launcher_main L) \<and>
     (questions (snd (launcher_main L)) \<longleftrightarrow> \<not> asks_legacy L \<and> \<not> winui_comes_up L) \<and>
     legacy_only ?root (expected_shell L) (snd (launcher_main L))"
    if none: "\<not> has_argument L (wtext ''--self-test'')"
  proof (cases "asks_legacy L \<or> winui_comes_up L")
    case True
    then show ?thesis
      using none legacy_not_winui [of ?root]
      by (auto simp: launcher_main_def Let_def launch_legacy_def expected_shell_def asks_legacy_def winui_comes_up_def run_facts)
  next
    case False
    obtain detail front where front: "front = [] \<or> front = [Start_process (winui_path ?root) (parent_path (winui_path ?root))]"
      "launcher_main L = (fst (fallback_dialog L ?root detail), front @ snd (fallback_dialog L ?root detail))"
      using main_falls_back [OF none] False unfolding asks_legacy_def by blast
    from fallback_ends [of L ?root detail _ _ front, OF prod.collapse [symmetric] front(1)] False show ?thesis
      by (simp add: front(2) expected_shell_def Let_def)
  qed
  then show ?thesis by (auto simp: launcher_main_def Let_def self_test_def)
qed

section \<open>Elevation\<close>

datatype elevation_attempt = Already_elevated | Relaunched | Elevation_cancelled | Elevation_failed

text \<open>The answers of the system: the token's elevation when both queries succeed, the module path when it fits, and
  \<open>ShellExecuteExW\<close> with the \<open>runas\<close> verb, whose error is given on failure.\<close>

record elevation_env =
  ev_token_elevation :: "u32 option"
  ev_module :: "wide option"
  ev_runas :: "wide \<Rightarrow> wide \<Rightarrow> u32 option"
  ev_error_cancelled :: u32

definition is_process_elevated :: "elevation_env \<Rightarrow> bool" where
  "is_process_elevated V = (case ev_token_elevation V of None \<Rightarrow> False | Some e \<Rightarrow> e \<noteq> 0)"

definition relaunch_elevated :: "elevation_env \<Rightarrow> bool \<Rightarrow> elevation_attempt" where
  "relaunch_elevated V relaunch_marker_present =
     (if is_process_elevated V then Already_elevated
      else if relaunch_marker_present then Elevation_failed
      else
        (case ev_module V of
           None \<Rightarrow> Elevation_failed
         | Some executable \<Rightarrow>
             (case ev_runas V executable (wtext ''--elevated-relaunch'') of
                Some error \<Rightarrow> if error = ev_error_cancelled V then Elevation_cancelled else Elevation_failed
              | None \<Rightarrow> Relaunched)))"

end
