(* ===== verification/ClassicShell.thy ===== *)
theory ClassicShell
  imports Launcher PhysicalDiscovery "HOL-Library.Product_Lexorder" "HOL-Library.List_Lexorder"
begin

text \<open>
  The Win32 shell (\<open>src/gui/windows_main.cpp\<close>): class \<open>App\<close>, its window procedure and \<open>wWinMain\<close>.  The state
  is what the class keeps and what its controls show; the answers of Windows to one message are in a
  \<open>shell_system\<close>.  Drawing, themes, sizes and icons of message boxes are left out, and a message is
  handled to its end (the modal loops of message boxes handle no others).
\<close>

section \<open>Texts\<close>

text \<open>\<open>MultiByteToWideChar\<close> without flags is a parameter; where it converts nothing, signed characters are widened.\<close>

definition widen :: "(string \<Rightarrow> wide option) \<Rightarrow> string \<Rightarrow> wide" where
  "widen convert s =
     (if s = '''' then []
      else case convert s of
             Some w \<Rightarrow> w
           | None \<Rightarrow> map (\<lambda>c. scast (of_nat (char_code c) :: 8 word)) s)"

definition wide_bytes :: "u64 \<Rightarrow> wide" where
  "wide_bytes bytes = wtext (format_bytes bytes)"

definition number_text :: "nat \<Rightarrow> wide" where
  "number_text n = wtext (decimal n)"

definition dash :: wide where "dash = wtext '' '' @ [0x2014] @ wtext '' ''"

definition is_path_separator :: "char \<Rightarrow> bool" where
  "is_path_separator c \<longleftrightarrow> c = CHR ''/'' \<or> c = CHR 0x5C"

definition shell_join_path :: "string \<Rightarrow> string \<Rightarrow> string" where
  "shell_join_path parent child = (if parent = '''' then child else parent @ ''/'' @ child)"

definition shell_parent_path :: "string \<Rightarrow> string" where
  "shell_parent_path path = rev (tl (dropWhile (\<lambda>c. \<not> is_path_separator c) (rev path)))"

section \<open>State\<close>

datatype theme_preference = Theme_system | Theme_light | Theme_dark

text \<open>A row of the list: name, type, size, sub-partition, inode.  A menu item: command, text, enabled.\<close>

type_synonym list_row = "wide \<times> wide \<times> wide \<times> wide \<times> wide"
type_synonym menu_item = "nat \<times> wide \<times> bool"

record 's app =
  ap_elevation_limited :: bool
  ap_discovery_running :: bool
  ap_theme :: theme_preference
  ap_saved_theme :: theme_preference
  ap_all_probes :: "physical_drive_probe list"
  ap_detected :: "physical_drive_probe list"
  ap_session :: "'s session option"
  ap_physical :: "u32 option"
  ap_image :: "wide option"
  ap_controller :: "'s controller option"
  ap_mains :: "partition list"
  ap_active :: "partition option"
  ap_path :: string
  ap_entries :: "session_entry list"
  ap_tree :: "(wide \<times> nat) list"
  ap_rows :: "list_row list"
  ap_status :: wide
  ap_messages :: "wide list"
  ap_menu :: "menu_item list"
  ap_menu_indices :: "u32 list"
  ap_actions :: "bool \<times> bool \<times> bool \<times> bool"
  ap_timer :: bool
  ap_explored :: "wide list"

text \<open>The answers of Windows while one message is handled.\<close>

record 's shell_system =
  sy_windows :: windows
  sy_widen :: "string \<Rightarrow> wide option"
  sy_elevation :: elevation_env
  sy_drive :: "u32 \<Rightarrow> u32 + 's"
  sy_picture :: "wide \<Rightarrow> 's option"
  sy_open_name :: "wide option"
  sy_save_name :: "wide \<Rightarrow> wide option"
  sy_host_path :: "wide \<Rightarrow> host_path"
  sy_host :: host
  sy_yes :: bool
  sy_drives :: u32
  sy_dokan_success :: int
  sy_remove :: "wide \<Rightarrow> bool"
  sy_version :: string
  sy_codename :: string

definition kIdPhysicalBase :: nat where "kIdPhysicalBase = 300"
definition kMaxPhysicalMenuEntries :: nat where "kMaxPhysicalMenuEntries = 512"

definition message :: "wide \<Rightarrow> 's app \<Rightarrow> 's app" where
  "message text a = a\<lparr>ap_messages := ap_messages a @ [text]\<rparr>"

definition set_status :: "wide \<Rightarrow> 's app \<Rightarrow> 's app" where
  "set_status text a = a\<lparr>ap_status := text\<rparr>"

section \<open>Menus\<close>

definition controller_running :: "'s app \<Rightarrow> bool" where
  "controller_running a = (case ap_controller a of None \<Rightarrow> False | Some c \<Rightarrow> ct_running c)"

definition controller_mounted :: "'s app \<Rightarrow> bool" where
  "controller_mounted a = (case ap_controller a of None \<Rightarrow> False | Some c \<Rightarrow> ct_mounted c)"

text \<open>Mount, open mounted volume, unmount, restart as administrator.\<close>

definition update_action_menu :: "'s shell_system \<Rightarrow> 's app \<Rightarrow> 's app" where
  "update_action_menu E a =
     a\<lparr>ap_actions := (ap_session a \<noteq> None \<and> \<not> controller_running a, controller_mounted a, controller_running a,
       \<not> is_process_elevated (sy_elevation E))\<rparr>"

definition probe_label :: "'s shell_system \<Rightarrow> physical_drive_probe \<Rightarrow> wide" where
  "probe_label E p =
     (if pp_friendly_name p = '''' then wtext ''PhysicalDrive'' @ number_text (pp_index p)
      else widen (sy_widen E) (pp_friendly_name p)) @
     dash @ wide_bytes (pp_size_bytes p) @
     dash @ wtext ''APA v'' @ number_text (unat (pp_apa_version p)) @
     dash @ number_text (pp_main_partition_count p) @ wtext '' partitions''"

text \<open>The last items are the separator and the rescan command.\<close>

definition rebuild_physical_menu :: "'s shell_system \<Rightarrow> 's app \<Rightarrow> 's app" where
  "rebuild_physical_menu E a =
     (let shown = take kMaxPhysicalMenuEntries (ap_detected a);
          tail = [(0, [], False), (103, wtext ''&Rescan PS2 HDDs'', True)]
      in if ap_discovery_running a
         then a\<lparr>ap_menu := (0, wtext ''Scanning for PS2 HDDs...'', False) # tail, ap_menu_indices := []\<rparr>
         else if ap_detected a = []
         then a\<lparr>ap_menu := (0, wtext ''No PS2 APA HDD detected'', False) # tail, ap_menu_indices := []\<rparr>
         else a\<lparr>ap_menu := map (\<lambda>(i, p). (kIdPhysicalBase + i, probe_label E p, True)) (enumerate 0 shown) @ tail,
                ap_menu_indices := map (of_nat \<circ> pp_index) shown\<rparr>)"

section \<open>Showing a source\<close>

definition io_suffix :: "'s app \<Rightarrow> wide" where
  "io_suffix a =
     (case ap_session a of
        None \<Rightarrow> []
      | Some ss \<Rightarrow>
          let io = fst (session_stats ss)
          in wtext ''  |  reads '' @ number_text (unat (io_read_calls io)) @ wtext '' / '' @ wide_bytes (io_bytes_requested io))"

definition populate_tree :: "('s \<Rightarrow> int) \<Rightarrow> 's device \<Rightarrow> 's shell_system \<Rightarrow> 's app \<Rightarrow> 's app" where
  "populate_tree now D E a =
     (case ap_session a of
        None \<Rightarrow> a\<lparr>ap_tree := [], ap_mains := []\<rparr>
      | Some ss \<Rightarrow>
          let mains = filter (\<lambda>p. \<not> is_sub p) (partitions (ss_scan ss));
              text = (\<lambda>p. widen (sy_widen E) (if p_id p = '''' then ''<unnamed>'' else p_id p) @ wtext ''  ['' @
                widen (sy_widen E) (type_name (p_type p)) @ wtext '']'')
          in a\<lparr>ap_mains := mains,
               ap_tree := (widen (sy_widen E) (dev_name (stack_device now D) (ss_stack ss)), 0) #
                 map (\<lambda>(i, p). (text p, i + 1)) (enumerate 0 mains)\<rparr>)"

definition show_drive_overview :: "('s \<Rightarrow> int) \<Rightarrow> 's device \<Rightarrow> 's shell_system \<Rightarrow> 's app \<Rightarrow> 's app" where
  "show_drive_overview now D E a =
     (let a = a\<lparr>ap_active := None, ap_path := '''', ap_entries := [], ap_rows := []\<rparr>
      in case ap_session a of
           None \<Rightarrow>
             set_status (if ap_elevation_limited a
               then wtext ''No PS2 HDD opened'' @ dash @ wtext ''limited non-admin mode'' @ dash @ wtext ''READ ONLY''
               else wtext ''No PS2 HDD opened'' @ dash @ wtext ''READ ONLY'') a
         | Some ss \<Rightarrow>
             let sr = ss_scan ss; st = ss_stack ss; device = stack_device now D
             in set_status (widen (sy_widen E) (dev_name device st) @ wtext ''  |  APA v'' @
                  number_text (unat (apa_version sr)) @ wtext ''  |  '' @ number_text (length (ap_mains a)) @
                  wtext '' main partitions  |  READ ONLY'' @ io_suffix a)
                (a\<lparr>ap_rows :=
                  [(wtext ''PS2 APA HDD'', wtext ''Drive'', wide_bytes (dev_size device st), [], []),
                   (wtext ''APA version'', wtext ''Metadata'', number_text (unat (apa_version sr)), [], []),
                   (wtext ''Main partitions'', wtext ''Metadata'', number_text (length (ap_mains a)), [], []),
                   (wtext ''Diagnostics'', wtext ''Metadata'', wtext (if scan_ok sr then ''clean'' else ''errors''), [], [])]\<rparr>))"

text \<open>\<open>std::sort\<close> may order entries of one kind and name in any way; here they keep their order.\<close>

definition entry_key :: "session_entry \<Rightarrow> bool \<times> nat list" where
  "entry_key e = (\<not> se_is_directory e, map char_code (se_name e))"

definition entry_row :: "(string \<Rightarrow> wide option) \<Rightarrow> session_entry \<Rightarrow> list_row" where
  "entry_row convert e =
     (widen convert (se_name e),
      wtext (if se_is_directory e then ''Folder'' else if se_is_regular e then ''File'' else ''Other''),
      (if se_inode_readable e then wide_bytes (se_size e) else wtext ''?''),
      number_text (unat (bi_subpart (se_inode e))), number_text (unat (bi_number (se_inode e))))"

definition parent_row :: list_row where
  "parent_row = (wtext ''..'', wtext ''Folder'', [], [], [])"

definition listing_rows :: "(string \<Rightarrow> wide option) \<Rightarrow> string \<Rightarrow> session_entry list \<Rightarrow> list_row list" where
  "listing_rows convert path entries = (if path \<noteq> '''' then [parent_row] else []) @ map (entry_row convert) entries"

definition navigate :: "('s \<Rightarrow> int) \<Rightarrow> 's device \<Rightarrow> 's shell_system \<Rightarrow> string \<Rightarrow> 's app \<Rightarrow> 's app" where
  "navigate now D E path a =
     (case (ap_session a, ap_active a) of
        (Some ss, Some p) \<Rightarrow>
          (let (r, ss) = run_state (browse now D (p_id p) path) ss;
               a = a\<lparr>ap_session := Some ss\<rparr>
           in if \<not> br_ok r
              then message (wtext ''Could not enumerate PFS directory:'' @ [10] @ widen (sy_widen E) (br_error r)) a
              else
                let entries = sort_key entry_key (br_entries r)
                in set_status (widen (sy_widen E) (p_id p) @ wtext '':/'' @ widen (sy_widen E) path @ wtext ''  |  '' @
                     number_text (length entries) @ wtext '' entries  |  READ ONLY'' @ io_suffix a @
                     wtext ''  |  Double-click a folder to open, a file to extract'')
                   (a\<lparr>ap_path := path, ap_entries := entries, ap_rows := listing_rows (sy_widen E) path entries\<rparr>))
      | _ \<Rightarrow> a)"

definition open_partition_view :: "('s \<Rightarrow> int) \<Rightarrow> 's device \<Rightarrow> 's shell_system \<Rightarrow> partition \<Rightarrow> 's app \<Rightarrow> 's app" where
  "open_partition_view now D E p a =
     (let a = a\<lparr>ap_active := Some p, ap_path := '''', ap_entries := [], ap_rows := []\<rparr>
      in if p_type p \<noteq> kTypePfs
         then set_status (widen (sy_widen E) (p_id p) @ wtext ''  |  Not a PFS filesystem  |  READ ONLY'' @ io_suffix a)
           (a\<lparr>ap_rows := [(widen (sy_widen E) (p_id p), widen (sy_widen E) (type_name (p_type p)),
              wide_bytes (partition_size_bytes p), [], [])]\<rparr>)
         else navigate now D E '''' a)"

definition tree_selection_changed :: "('s \<Rightarrow> int) \<Rightarrow> 's device \<Rightarrow> 's shell_system \<Rightarrow> nat \<Rightarrow> 's app \<Rightarrow> 's app" where
  "tree_selection_changed now D E data a =
     (if data = 0 then show_drive_overview now D E a
      else if data - 1 < length (ap_mains a) then open_partition_view now D E (ap_mains a ! (data - 1)) a
      else a)"

section \<open>Opening a source\<close>

definition load_device :: "('s \<Rightarrow> int) \<Rightarrow> 's device \<Rightarrow> 's shell_system \<Rightarrow> 's \<Rightarrow> 's app \<Rightarrow> bool \<times> 's app" where
  "load_device now D E s a =
     (if controller_running a
      then (False, message (wtext ''Unmount the current Explorer volume before switching source devices.'') a)
      else
        let (clean, candidate) = run_state (session_scan now D) (open_session s)
        in if \<not> mbr_valid (ss_scan candidate)
           then (False, message (wtext ''The selected source does not contain a valid PS2 APA MBR.'') a)
           else
             let asked = (if clean then a
               else message (wtext ''APA diagnostics contain fatal errors. DriveForge will keep the source read-only.'' @
                 [10, 10] @ wtext ''Open it anyway for inspection?'') a)
             in if \<not> clean \<and> \<not> sy_yes E then (False, asked)
                else (True, show_drive_overview now D E (populate_tree now D E
                  (asked\<lparr>ap_session := Some candidate, ap_path := '''', ap_active := None, ap_entries := []\<rparr>))))"

definition open_image_dialog :: "('s \<Rightarrow> int) \<Rightarrow> 's device \<Rightarrow> 's shell_system \<Rightarrow> 's app \<Rightarrow> bool \<times> 's app" where
  "open_image_dialog now D E a =
     (case sy_open_name E of
        None \<Rightarrow> (False, a)
      | Some path \<Rightarrow>
          (case sy_picture E path of
             None \<Rightarrow> (False, message (wtext ''Could not open the selected disk image.'') a)
           | Some s \<Rightarrow>
               (let (loaded, a) = load_device now D E s a
                in if \<not> loaded then (False, a)
                   else (True, update_action_menu E (a\<lparr>ap_image := Some path, ap_physical := None\<rparr>)))))"

definition open_physical :: "('s \<Rightarrow> int) \<Rightarrow> 's device \<Rightarrow> 's shell_system \<Rightarrow> u32 \<Rightarrow> 's app \<Rightarrow> bool \<times> 's app" where
  "open_physical now D E index a =
     (case sy_drive E index of
        Inl e \<Rightarrow>
          (False, message (wtext ''Could not open '' @ [backslash, backslash] @ wtext ''.'' @ [backslash] @
             wtext ''PhysicalDrive'' @ number_text (unat index) @ wtext '' for read-only access (Win32 error '' @
             number_text (unat e) @ wtext '').'' @
             (if is_process_elevated (sy_elevation E) then []
              else [10, 10] @ wtext ''Restart DriveForge as Administrator to access raw disks.'')) a)
      | Inr s \<Rightarrow>
          (let (loaded, a) = load_device now D E s a
           in if \<not> loaded then (False, a)
              else (True, update_action_menu E (a\<lparr>ap_physical := Some index, ap_image := None\<rparr>))))"

section \<open>Discovery\<close>

definition start_discovery :: "'s shell_system \<Rightarrow> 's app \<Rightarrow> 's app" where
  "start_discovery E a =
     (if ap_discovery_running a then a
      else set_status (wtext ''Scanning Windows disk interfaces for PS2 APA volumes'' @ dash @ wtext ''READ ONLY'')
        (rebuild_physical_menu E (a\<lparr>ap_discovery_running := True, ap_detected := []\<rparr>)))"

definition discovery_complete ::
  "('s \<Rightarrow> int) \<Rightarrow> 's device \<Rightarrow> 's shell_system \<Rightarrow> physical_drive_probe list \<Rightarrow> 's app \<Rightarrow> 's app" where
  "discovery_complete now D E probes a =
     (let detected = filter pp_apa_detected probes;
          access_denied = list_ex pp_access_denied probes;
          a = rebuild_physical_menu E (a\<lparr>ap_discovery_running := False, ap_all_probes := probes, ap_detected := detected\<rparr>)
      in if detected = []
         then set_status (if access_denied \<and> \<not> is_process_elevated (sy_elevation E)
           then wtext ''No readable PS2 APA disk found'' @ dash @ wtext ''raw disk access denied; restart as Administrator''
           else wtext ''No PS2 APA HDD detected'' @ dash @ wtext ''use File > PS2 HDDs > Rescan after connecting a disk'') a
         else if ap_session a = None \<and> length detected = 1
         then snd (open_physical now D E (of_nat (pp_index (hd detected))) a)
         else set_status (wtext ''Detected '' @ number_text (length detected) @ wtext '' PS2 APA HDD'' @
           (if length detected = 1 then [] else wtext ''s'') @ dash @ wtext ''select one from File > PS2 HDDs'') a)"

section \<open>The list\<close>

definition extract_entry :: "('s \<Rightarrow> int) \<Rightarrow> 's device \<Rightarrow> 's shell_system \<Rightarrow> session_entry \<Rightarrow> 's app \<Rightarrow> 's app" where
  "extract_entry now D E e a =
     (case (ap_session a, ap_active a) of
        (Some ss, Some p) \<Rightarrow>
          (if \<not> se_is_regular e then a
           else
             case sy_save_name E (take 32767 (widen (sy_widen E) (se_name e))) of
               None \<Rightarrow> a
             | Some target \<Rightarrow>
                 (let ((ok, x), ss) = run_state (session_export now D (sy_host E) (p_id p)
                        (shell_join_path (ap_path a) (se_name e)) (sy_host_path E target)) ss;
                      a = a\<lparr>ap_session := Some ss\<rparr>
                  in if \<not> ok
                     then message (wtext ''Extraction failed:'' @ [10, 10] @ widen (sy_widen E) (ex_error x)) a
                     else
                       let io = fst (session_stats ss)
                       in navigate now D E (ap_path a)
                         (message (wtext ''Extracted '' @ number_text (unat (xs_files (ex_stats x))) @ wtext '' file, '' @
                           wide_bytes (xs_bytes (ex_stats x)) @ wtext '' to:'' @ [10] @ target @ [10, 10] @
                           wtext ''Backing I/O so far: '' @ number_text (unat (io_read_calls io)) @ wtext '' reads / '' @
                           wide_bytes (io_bytes_requested io)) a)))
      | _ \<Rightarrow> a)"

text \<open>\<open>selected\<close> is the selected row, if there is one.\<close>

definition list_double_click :: "('s \<Rightarrow> int) \<Rightarrow> 's device \<Rightarrow> 's shell_system \<Rightarrow> nat option \<Rightarrow> 's app \<Rightarrow> 's app" where
  "list_double_click now D E selected a =
     (if ap_session a = None \<or> ap_active a = None then a
      else
        case selected of
          None \<Rightarrow> a
        | Some row \<Rightarrow>
            (if ap_path a \<noteq> '''' \<and> row = 0 then navigate now D E (shell_parent_path (ap_path a)) a
             else
               let index = row - (if ap_path a = '''' then 0 else 1)
               in if length (ap_entries a) \<le> index then a
                  else
                    let e = ap_entries a ! index
                    in if se_is_directory e then navigate now D E (shell_join_path (ap_path a) (se_name e)) a
                       else if se_is_regular e then extract_entry now D E e a
                       else a))"

section \<open>Mounting\<close>

text \<open>The source of the window opened once more, or what to say when it cannot be.\<close>

definition reopen_source :: "'s shell_system \<Rightarrow> 's app \<Rightarrow> string + 's" where
  "reopen_source E a =
     (case ap_physical a of
        Some index \<Rightarrow>
          (case sy_drive E index of
             Inl e \<Rightarrow> Inl ''Could not reopen the selected PS2 HDD read-only for mounting.''
           | Inr s \<Rightarrow> Inr s)
      | None \<Rightarrow>
          (case ap_image a of
             Some path \<Rightarrow>
               (case sy_picture E path of
                  None \<Rightarrow> Inl ''Could not reopen the selected disk image for mounting.''
                | Some s \<Rightarrow> Inr s)
           | None \<Rightarrow> Inl ''The current source cannot be reopened for mounting.''))"

definition mount_read_only :: "('s \<Rightarrow> int) \<Rightarrow> 's device \<Rightarrow> 's shell_system \<Rightarrow> 's app \<Rightarrow> 's app" where
  "mount_read_only now D E a =
     (if ap_session a = None then message (wtext ''Open a PS2 HDD or disk image before mounting.'') a
      else if controller_running a then message (wtext ''A DriveForge filesystem is already mounted.'') a
      else
        case reopen_source E a of
          Inl problem \<Rightarrow> message (wtext problem) a
        | Inr s \<Rightarrow>
            (let point = suggest_mount_point (sy_drives E)
             in if point = [] then message (wtext ''No free drive letter from D: through Z: is available.'') a
                else
                  let (started, c) = start_mount (sy_windows E) (sy_dokan_success E) now D (Some s) point
                        (new_controller (sy_dokan_success E))
                  in if \<not> started
                     then (message (wtext ''Could not start the read-only mount:'' @ [10, 10] @
                       widen (sy_widen E) (ct_error c)) a)\<lparr>ap_controller := None\<rparr>
                     else update_action_menu E (set_status (wtext ''Mounting PS2 DriveForge read-only at '' @ point @
                       wtext ''...'') (a\<lparr>ap_controller := Some c, ap_timer := True\<rparr>))))"

text \<open>\<open>mount_point()\<close>.\<close>

definition controller_point :: "'s controller \<Rightarrow> wide" where
  "controller_point c = (case ct_runtime c of None \<Rightarrow> [] | Some rt \<Rightarrow> rt_mount_point rt)"

definition open_mounted_volume :: "'s app \<Rightarrow> 's app" where
  "open_mounted_volume a =
     (case ap_controller a of
        None \<Rightarrow> a
      | Some c \<Rightarrow> if \<not> ct_mounted c then a else a\<lparr>ap_explored := ap_explored a @ [controller_point c]\<rparr>)"

text \<open>\<open>wait()\<close> returns when the worker has ended, and then nothing is left of the controller.\<close>

definition finish_mount_controller :: "('s \<Rightarrow> int) \<Rightarrow> 's device \<Rightarrow> 's shell_system \<Rightarrow> 's app \<Rightarrow> 's app" where
  "finish_mount_controller now D E a =
     (case ap_controller a of
        None \<Rightarrow> a
      | Some _ \<Rightarrow> update_action_menu E (show_drive_overview now D E (a\<lparr>ap_controller := None\<rparr>)))"

definition unmount :: "('s \<Rightarrow> int) \<Rightarrow> 's device \<Rightarrow> 's shell_system \<Rightarrow> 's app \<Rightarrow> 's app" where
  "unmount now D E a =
     (case ap_controller a of
        None \<Rightarrow> a
      | Some c \<Rightarrow>
          (if ct_running c
           then
             if \<not> request_unmount (sy_remove E) c
             then message (wtext ''Dokany did not accept the unmount request.'') a
             else update_action_menu E (set_status (wtext ''Unmounting PS2 DriveForge filesystem...'') (a\<lparr>ap_timer := True\<rparr>))
           else update_action_menu E (finish_mount_controller now D E a)))"

definition poll_mount :: "('s \<Rightarrow> int) \<Rightarrow> 's device \<Rightarrow> 's shell_system \<Rightarrow> 's app \<Rightarrow> 's app" where
  "poll_mount now D E a =
     (case ap_controller a of
        None \<Rightarrow> a\<lparr>ap_timer := False\<rparr>
      | Some c \<Rightarrow>
          (if ct_mounted c
           then update_action_menu E (set_status (wtext ''Mounted read-only at '' @ controller_point c @ dash @
             wtext ''use File > Open mounted volume to browse in Explorer'') (a\<lparr>ap_timer := False\<rparr>))
           else if \<not> ct_running c
           then
             let a = a\<lparr>ap_timer := False\<rparr>
             in finish_mount_controller now D E
               (if ct_error c \<noteq> '''' then message (wtext ''Dokany mount stopped:'' @ [10, 10] @
                  widen (sy_widen E) (ct_error c)) a else a)
           else a))"

section \<open>The window\<close>

definition set_theme :: "theme_preference \<Rightarrow> 's app \<Rightarrow> 's app" where
  "set_theme preference a =
     (if ap_theme a = preference then a else a\<lparr>ap_theme := preference, ap_saved_theme := preference\<rparr>)"

definition about :: "'s shell_system \<Rightarrow> 's app \<Rightarrow> 's app" where
  "about E =
     message (wtext ''PS2 DriveForge '' @ widen (sy_widen E) (sy_version E) @ wtext ''-dev ('' @
       widen (sy_widen E) (sy_codename E) @ wtext '')'' @ [10, 10] @
       wtext ''Native read-only APA/PFS browser and Explorer mount for PlayStation 2 HDDs.'' @ [10, 10] @
       wtext ''Windows disk devices are enumerated through SetupAPI and classified by the DriveForge APA parser.'' @ [10] @
       wtext ''Physical drives are opened with GENERIC_READ only.'' @ [10] @
       wtext ''Theme: System / Light / Dark with High Contrast passthrough.'')"

text \<open>\<open>None\<close> is the destroyed window.\<close>

definition restart_elevated :: "'s shell_system \<Rightarrow> 's app \<Rightarrow> 's app option" where
  "restart_elevated E a =
     (let attempt = relaunch_elevated (sy_elevation E) False
      in if attempt = Relaunched then None
         else if attempt = Elevation_cancelled
         then Some (message (wtext ''Administrator elevation was cancelled. Disk images remain available, '' @
           wtext ''but raw PhysicalDrive access may be unavailable.'') a)
         else if attempt = Elevation_failed \<and> \<not> is_process_elevated (sy_elevation E)
         then Some (message (wtext ''Could not restart DriveForge with Administrator privileges.'') a)
         else Some a)"

datatype window_event =
    Discovery_posted "physical_drive_probe list"
  | Timer_elapsed nat
  | Command nat
  | Tree_selected nat
  | List_double_clicked "nat option"
  | Window_destroyed

definition menu_command :: "('s \<Rightarrow> int) \<Rightarrow> 's device \<Rightarrow> 's shell_system \<Rightarrow> nat \<Rightarrow> 's app \<Rightarrow> 's app option" where
  "menu_command now D E command a =
     (if command = 100 then Some (snd (open_image_dialog now D E a))
      else if command = 103 then Some (start_discovery E a)
      else if command = 110 then restart_elevated E a
      else if command = 107 then Some (mount_read_only now D E a)
      else if command = 108 then Some (open_mounted_volume a)
      else if command = 109 then Some (unmount now D E a)
      else if command = 104 then Some (set_theme Theme_system a)
      else if command = 105 then Some (set_theme Theme_light a)
      else if command = 106 then Some (set_theme Theme_dark a)
      else if command = 101 then None
      else if command = 102 then Some (about E a)
      else if kIdPhysicalBase \<le> command \<and> command < kIdPhysicalBase + kMaxPhysicalMenuEntries \<and>
        command - kIdPhysicalBase < length (ap_menu_indices a)
      then Some (snd (open_physical now D E (ap_menu_indices a ! (command - kIdPhysicalBase)) a))
      else Some a)"

fun window_proc :: "('s \<Rightarrow> int) \<Rightarrow> 's device \<Rightarrow> 's shell_system \<Rightarrow> window_event \<Rightarrow> 's app \<Rightarrow> 's app option" where
  "window_proc now D E (Discovery_posted probes) a = Some (discovery_complete now D E probes a)"
| "window_proc now D E (Timer_elapsed n) a = Some (if n = 1 then poll_mount now D E a else a)"
| "window_proc now D E (Command command) a = menu_command now D E command a"
| "window_proc now D E (Tree_selected data) a = Some (tree_selection_changed now D E data a)"
| "window_proc now D E (List_double_clicked selected) a = Some (list_double_click now D E selected a)"
| "window_proc now D E Window_destroyed a = None"

text \<open>\<open>App::App\<close> and \<open>create_controls\<close>.\<close>

definition new_app :: "'s shell_system \<Rightarrow> theme_preference \<Rightarrow> bool \<Rightarrow> 's app" where
  "new_app E theme elevation_limited =
     start_discovery E (update_action_menu E
       \<lparr>ap_elevation_limited = elevation_limited, ap_discovery_running = False, ap_theme = theme, ap_saved_theme = theme,
        ap_all_probes = [], ap_detected = [], ap_session = None, ap_physical = None, ap_image = None,
        ap_controller = None, ap_mains = [], ap_active = None, ap_path = '''', ap_entries = [], ap_tree = [],
        ap_rows = [], ap_status = wtext ''Starting PS2 HDD discovery'' @ dash @ wtext ''READ ONLY'', ap_messages = [],
        ap_menu = [], ap_menu_indices = [], ap_actions = (False, False, False, True), ap_timer = False,
        ap_explored = []\<rparr>)"

definition contains_text :: "'a list \<Rightarrow> 'a list \<Rightarrow> bool" where
  "contains_text pattern text = list_ex (\<lambda>i. take (length pattern) (drop i text) = pattern) [0..<length text + 1]"

text \<open>\<open>wWinMain\<close> up to the message loop; \<open>None\<close> leaves the program to the elevated process.\<close>

definition classic_start :: "'s shell_system \<Rightarrow> theme_preference \<Rightarrow> wide \<Rightarrow> 's app option" where
  "classic_start E theme command_line =
     (if relaunch_elevated (sy_elevation E) (contains_text (wtext ''--elevated-relaunch'') command_line) = Relaunched then None
      else Some (new_app E theme (\<not> is_process_elevated (sy_elevation E))))"

section \<open>Any run of the shell\<close>

text \<open>A message with any answers of Windows, or a step of the mount's worker.  \<open>drive_source\<close> and
  \<open>picture_source\<close> say what opening a drive or an image can give.\<close>

inductive app_step ::
  "('s \<Rightarrow> int) \<Rightarrow> 's device \<Rightarrow> windows \<Rightarrow> (string \<Rightarrow> wide option) \<Rightarrow> int \<Rightarrow> (u32 \<Rightarrow> 's \<Rightarrow> bool) \<Rightarrow> (wide \<Rightarrow> 's \<Rightarrow> bool) \<Rightarrow>
   's app \<Rightarrow> 's app \<Rightarrow> bool"
  for now D W convert k drive_source picture_source where
  event: "app_step now D W convert k drive_source picture_source a a'"
    if "window_proc now D E ev a = Some a'"
      "\<And>probes. ev = Discovery_posted probes \<Longrightarrow> ap_discovery_running a"
      "sy_windows E = W" "sy_widen E = convert" "sy_dokan_success E = k"
      "\<And>i s. sy_drive E i = Inr s \<Longrightarrow> drive_source i s" "\<And>path s. sy_picture E path = Some s \<Longrightarrow> picture_source path s"
| worker: "app_step now D W convert k drive_source picture_source a (a\<lparr>ap_controller := Some c'\<rparr>)"
    if "ap_controller a = Some c" "worker_step W k now D c c'"

inductive app_reachable ::
  "('s \<Rightarrow> int) \<Rightarrow> 's device \<Rightarrow> windows \<Rightarrow> (string \<Rightarrow> wide option) \<Rightarrow> int \<Rightarrow> (u32 \<Rightarrow> 's \<Rightarrow> bool) \<Rightarrow> (wide \<Rightarrow> 's \<Rightarrow> bool) \<Rightarrow>
   's app \<Rightarrow> bool"
  for now D W convert k drive_source picture_source where
  start: "app_reachable now D W convert k drive_source picture_source a"
    if "classic_start E theme command_line = Some a"
| step: "app_reachable now D W convert k drive_source picture_source a \<Longrightarrow>
    app_step now D W convert k drive_source picture_source a a' \<Longrightarrow>
    app_reachable now D W convert k drive_source picture_source a'"

text \<open>The disk of the source in the window.\<close>

definition shown_image :: "(u32 \<Rightarrow> image) \<Rightarrow> (wide \<Rightarrow> image) \<Rightarrow> 's app \<Rightarrow> image option" where
  "shown_image drives pictures a =
     (case ap_physical a of
        Some i \<Rightarrow> Some (drives i)
      | None \<Rightarrow> map_option pictures (ap_image a))"

definition plain_sources :: "(u32 \<Rightarrow> image) \<Rightarrow> (wide \<Rightarrow> image) \<Rightarrow> bool" where
  "plain_sources drives pictures \<longleftrightarrow>
     (\<forall>im \<in> range drives \<union> range pictures. plain_partitions (spec_scan im) \<and> plain_names im (spec_scan im))"

text \<open>The sources stay as they are while the shell runs.\<close>

definition sources_are ::
  "('s \<Rightarrow> bool) \<Rightarrow> ('s \<Rightarrow> image) \<Rightarrow> (u32 \<Rightarrow> image) \<Rightarrow> (wide \<Rightarrow> image) \<Rightarrow> (u32 \<Rightarrow> 's \<Rightarrow> bool) \<Rightarrow> (wide \<Rightarrow> 's \<Rightarrow> bool) \<Rightarrow> bool" where
  "sources_are ok img drives pictures drive_source picture_source \<longleftrightarrow>
     (\<forall>i s. drive_source i s \<longrightarrow> ok s \<and> img s = drives i) \<and>
     (\<forall>path s. picture_source path s \<longrightarrow> ok s \<and> img s = pictures path) \<and> plain_sources drives pictures"

text \<open>What the list shows of a disk.\<close>

definition listing_ok :: "(string \<Rightarrow> wide option) \<Rightarrow> image \<Rightarrow> 's app \<Rightarrow> bool" where
  "listing_ok convert im a \<longleftrightarrow>
     (case ap_active a of
        None \<Rightarrow> ap_entries a = [] \<and> ap_path a = ''''
      | Some p \<Rightarrow>
          p \<in> set (partitions (spec_scan im)) \<and> \<not> is_sub p \<and>
          (ap_entries a = [] \<and> ap_path a = '''' \<and> (p_type p = kTypePfs \<longrightarrow> ap_rows a = []) \<or>
           p_type p = kTypePfs \<and>
           (let r = spec_browse im (spec_scan im) (p_id p) (ap_path a)
            in br_ok r \<and> ap_entries a = sort_key entry_key (br_entries r) \<and>
               ap_rows a = listing_rows convert (ap_path a) (ap_entries a))))"

definition source_ok ::
  "('s \<Rightarrow> bool) \<Rightarrow> ('s \<Rightarrow> image) \<Rightarrow> (string \<Rightarrow> wide option) \<Rightarrow> image \<Rightarrow> 's app \<Rightarrow> bool" where
  "source_ok ok img convert im a \<longleftrightarrow>
     (\<exists>ss. ap_session a = Some ss \<and> coherent ok img im (spec_scan im) ss) \<and>
     ap_mains a = filter (\<lambda>p. \<not> is_sub p) (partitions (spec_scan im)) \<and> listing_ok convert im a"

definition mount_ok ::
  "('s \<Rightarrow> bool) \<Rightarrow> ('s \<Rightarrow> image) \<Rightarrow> (u32 \<Rightarrow> image) \<Rightarrow> (wide \<Rightarrow> image) \<Rightarrow> int \<Rightarrow> 's app \<Rightarrow> bool" where
  "mount_ok ok img drives pictures k a \<longleftrightarrow>
     (\<forall>c. ap_controller a = Some c \<longrightarrow> worker_flags k c \<and>
        (\<exists>im \<in> range drives \<union> range pictures. runtime_coherent ok img im c \<and>
           (ct_running c \<longrightarrow> shown_image drives pictures a = Some im)))"

definition window_ok ::
  "('s \<Rightarrow> bool) \<Rightarrow> ('s \<Rightarrow> image) \<Rightarrow> (u32 \<Rightarrow> image) \<Rightarrow> (wide \<Rightarrow> image) \<Rightarrow> (string \<Rightarrow> wide option) \<Rightarrow> 's app \<Rightarrow> bool" where
  "window_ok ok img drives pictures convert a \<longleftrightarrow>
     (case shown_image drives pictures a of
        None \<Rightarrow> ap_session a = None \<and> ap_mains a = [] \<and> ap_active a = None \<and> ap_entries a = [] \<and> ap_path a = ''''
      | Some im \<Rightarrow> source_ok ok img convert im a)"

subsection \<open>Frames\<close>

text \<open>\<open>same_view\<close>: nothing but messages, the status, the menus and the timer differs.\<close>

definition same_view :: "'s app \<Rightarrow> 's app \<Rightarrow> bool" where
  "same_view a b \<longleftrightarrow>
     ap_session b = ap_session a \<and> ap_physical b = ap_physical a \<and> ap_image b = ap_image a \<and>
     ap_controller b = ap_controller a \<and> ap_mains b = ap_mains a \<and> ap_active b = ap_active a \<and>
     ap_path b = ap_path a \<and> ap_entries b = ap_entries a \<and> ap_rows b = ap_rows a"

lemma same_view_refl: "same_view a a"
  by (simp add: same_view_def)

lemma same_view_trans: "same_view a b \<Longrightarrow> same_view b c \<Longrightarrow> same_view a c"
  by (simp add: same_view_def)

lemma same_view_window: "same_view a b \<Longrightarrow> window_ok ok img drives pictures convert b = window_ok ok img drives pictures convert a"
  by (simp add: same_view_def window_ok_def source_ok_def listing_ok_def shown_image_def cong: option.case_cong)

lemma same_view_mount: "same_view a b \<Longrightarrow> mount_ok ok img drives pictures k b = mount_ok ok img drives pictures k a"
  by (simp add: same_view_def mount_ok_def shown_image_def cong: option.case_cong)

lemma view_message: "same_view a (message w b) = same_view a b"
  and view_status: "same_view a (set_status w b) = same_view a b"
  and view_actions: "same_view a (update_action_menu E b) = same_view a b"
  and view_menu: "same_view a (rebuild_physical_menu E b) = same_view a b"
  and view_timer: "same_view a (b\<lparr>ap_timer := t\<rparr>) = same_view a b"
  by (simp_all add: same_view_def message_def set_status_def update_action_menu_def rebuild_physical_menu_def Let_def)

lemmas view_simps = view_message view_status view_actions view_menu view_timer

lemma text_fields [simp]:
  "ap_session (message w a) = ap_session a" "ap_physical (message w a) = ap_physical a"
  "ap_image (message w a) = ap_image a" "ap_controller (message w a) = ap_controller a"
  "ap_mains (message w a) = ap_mains a" "ap_active (message w a) = ap_active a" "ap_path (message w a) = ap_path a"
  "ap_entries (message w a) = ap_entries a" "ap_rows (message w a) = ap_rows a"
  "ap_session (set_status w a) = ap_session a" "ap_physical (set_status w a) = ap_physical a"
  "ap_image (set_status w a) = ap_image a" "ap_controller (set_status w a) = ap_controller a"
  "ap_mains (set_status w a) = ap_mains a" "ap_active (set_status w a) = ap_active a" "ap_path (set_status w a) = ap_path a"
  "ap_entries (set_status w a) = ap_entries a" "ap_rows (set_status w a) = ap_rows a"
  by (simp_all add: message_def set_status_def)

lemma source_fields [simp]:
  "ap_physical (navigate now D E path a) = ap_physical a" "ap_image (navigate now D E path a) = ap_image a"
  "ap_controller (navigate now D E path a) = ap_controller a"
  "ap_physical (show_drive_overview now D E a) = ap_physical a" "ap_image (show_drive_overview now D E a) = ap_image a"
  "ap_controller (show_drive_overview now D E a) = ap_controller a"
  "ap_session (show_drive_overview now D E a) = ap_session a" "ap_mains (show_drive_overview now D E a) = ap_mains a"
  by (simp_all add: navigate_def show_drive_overview_def Let_def split_def split: option.splits)

lemma source_fields_view [simp]:
  "ap_physical (open_partition_view now D E p a) = ap_physical a" "ap_image (open_partition_view now D E p a) = ap_image a"
  "ap_controller (open_partition_view now D E p a) = ap_controller a"
  "ap_physical (extract_entry now D E e a) = ap_physical a" "ap_image (extract_entry now D E e a) = ap_image a"
  "ap_controller (extract_entry now D E e a) = ap_controller a"
  by (simp_all add: open_partition_view_def extract_entry_def Let_def split_def split: option.splits)

lemma source_fields_list [simp]:
  "ap_physical (list_double_click now D E row a) = ap_physical a" "ap_image (list_double_click now D E row a) = ap_image a"
  "ap_controller (list_double_click now D E row a) = ap_controller a"
  "ap_physical (tree_selection_changed now D E n a) = ap_physical a" "ap_image (tree_selection_changed now D E n a) = ap_image a"
  "ap_controller (tree_selection_changed now D E n a) = ap_controller a"
  by (simp_all add: list_double_click_def tree_selection_changed_def Let_def split: option.splits)

lemma same_source_mount:
  "ap_physical b = ap_physical a \<Longrightarrow> ap_image b = ap_image a \<Longrightarrow> ap_controller b = ap_controller a \<Longrightarrow>
   mount_ok ok img drives pictures k b = mount_ok ok img drives pictures k a"
  by (simp add: mount_ok_def shown_image_def cong: option.case_cong)

lemma same_source_shown:
  "ap_physical b = ap_physical a \<Longrightarrow> ap_image b = ap_image a \<Longrightarrow>
   shown_image drives pictures b = shown_image drives pictures a"
  by (simp add: shown_image_def cong: option.case_cong)

subsection \<open>The listing\<close>

lemma browse_on_image:
  assumes D: "reliable_device D ok img" "plain_partitions (spec_scan im)"
    and p: "p \<in> set (partitions (spec_scan im))" "\<not> is_sub p" "p_type p = kTypePfs"
    and ss: "coherent ok img im (spec_scan im) ss"
  shows "\<exists>ss'. run_state (browse now D (p_id p) path) ss = (spec_browse im (spec_scan im) (p_id p) path, ss') \<and>
    coherent ok img im (spec_scan im) ss'"
proof -
  have "plain_id (p_id p)" using D(2) p by (simp add: plain_partitions_def)
  from answers_browse [OF D(1) this, of im "spec_scan im" now path ss] ss show ?thesis
    by (cases "run_state (browse now D (p_id p) path) ss") (simp add: answers_def)
qed

lemma source_ok_navigate:
  assumes D: "reliable_device D ok img" "plain_partitions (spec_scan im)"
    and a: "source_ok ok img (sy_widen E) im a" "\<And>p. ap_active a = Some p \<Longrightarrow> p_type p = kTypePfs"
  shows "source_ok ok img (sy_widen E) im (navigate now D E path a)"
proof (cases "ap_active a")
  case None
  then show ?thesis using a by (simp add: navigate_def split: option.splits)
next
  case (Some p)
  with a obtain ss where ss: "ap_session a = Some ss" "coherent ok img im (spec_scan im) ss"
    and p: "p \<in> set (partitions (spec_scan im))" "\<not> is_sub p" "p_type p = kTypePfs"
    by (auto simp: source_ok_def listing_ok_def)
  from browse_on_image [OF D p ss(2)] obtain ss' where
    run: "run_state (browse now D (p_id p) path) ss = (spec_browse im (spec_scan im) (p_id p) path, ss')"
      "coherent ok img im (spec_scan im) ss'" by blast
  show ?thesis
    using a(1) p by (simp add: navigate_def Some ss(1) run source_ok_def listing_ok_def Let_def)
qed

lemma source_ok_overview: "source_ok ok img convert im a \<Longrightarrow> source_ok ok img convert im (show_drive_overview now D E a)"
  by (auto simp: source_ok_def listing_ok_def show_drive_overview_def Let_def)

lemma source_ok_partition:
  assumes D: "reliable_device D ok img" "plain_partitions (spec_scan im)"
    and a: "source_ok ok img (sy_widen E) im a" "p \<in> set (ap_mains a)"
  shows "source_ok ok img (sy_widen E) im (open_partition_view now D E p a)"
proof -
  have "source_ok ok img (sy_widen E) im (a\<lparr>ap_active := Some p, ap_path := '''', ap_entries := [], ap_rows := []\<rparr>)"
    using a by (auto simp: source_ok_def listing_ok_def)
  from source_ok_navigate [OF D this] a show ?thesis
    by (auto simp: open_partition_view_def Let_def source_ok_def listing_ok_def)
qed

lemma source_ok_extract:
  assumes D: "reliable_device D ok img" "plain_partitions (spec_scan im)"
    and a: "source_ok ok img (sy_widen E) im a" "\<And>p. ap_active a = Some p \<Longrightarrow> p_type p = kTypePfs"
  shows "source_ok ok img (sy_widen E) im (extract_entry now D E e a)"
proof (cases "ap_active a")
  case None
  then show ?thesis using a by (simp add: extract_entry_def split: option.splits)
next
  case (Some p)
  with a obtain ss where ss: "ap_session a = Some ss" "coherent ok img im (spec_scan im) ss"
    by (auto simp: source_ok_def)
  have exported: "source_ok ok img (sy_widen E) im (a\<lparr>ap_session := Some (snd (run_state (session_export now D host pid path dest) ss))\<rparr>)"
    for host pid path dest
    using a(1) run_session_export [OF D(1) ss(2), of now host pid path dest]
    by (simp add: source_ok_def listing_ok_def cong: option.case_cong)
  have said: "source_ok ok img (sy_widen E) im (message w b) = source_ok ok img (sy_widen E) im b" for w and b :: "'a app"
    by (simp add: source_ok_def listing_ok_def cong: option.case_cong)
  have "source_ok ok img (sy_widen E) im (navigate now D E path
      (message w (a\<lparr>ap_session := Some (snd (run_state (session_export now D host pid source dest) ss))\<rparr>)))"
    for path w host pid source dest
    by (rule source_ok_navigate [OF D]) (use exported a(2) in \<open>simp_all add: said\<close>)
  then show ?thesis
    using a(1) exported by (simp add: extract_entry_def Some ss(1) Let_def split_def said split: option.splits)
qed

lemma source_ok_double_click:
  assumes D: "reliable_device D ok img" "plain_partitions (spec_scan im)" and a: "source_ok ok img (sy_widen E) im a"
  shows "source_ok ok img (sy_widen E) im (list_double_click now D E row a)"
proof -
  have pfs: "p_type p = kTypePfs" if "ap_active a = Some p" "ap_path a \<noteq> '''' \<or> ap_entries a \<noteq> []" for p
    using a that by (auto simp: source_ok_def listing_ok_def)
  have "source_ok ok img (sy_widen E) im (navigate now D E path a)" "source_ok ok img (sy_widen E) im (extract_entry now D E e a)"
    if "ap_path a \<noteq> '''' \<or> ap_entries a \<noteq> []" for path e
    using source_ok_navigate [OF D a] source_ok_extract [OF D a] pfs that by blast+
  then show ?thesis using a by (auto simp: list_double_click_def Let_def split: option.splits)
qed

lemma source_ok_tree:
  assumes "reliable_device D ok img" "plain_partitions (spec_scan im)" "source_ok ok img (sy_widen E) im a"
  shows "source_ok ok img (sy_widen E) im (tree_selection_changed now D E n a)"
  using source_ok_overview [OF assms(3)] source_ok_partition [OF assms nth_mem] assms(3) by (simp add: tree_selection_changed_def)

subsection \<open>Loading a source\<close>

lemma load_device_loaded:
  assumes D: "reliable_device D ok img" "ok s" and run: "load_device now D E s a = (True, a')"
  shows "source_ok ok img convert (img s) a' \<and> \<not> controller_running a \<and> ap_controller a' = ap_controller a"
proof -
  have "coherent ok img (img s) empty_scan (open_session s)" by (rule coherent_open [where ok = ok and img = img, OF D(2)])
  from run_session_scan [OF D(1) this, of now] obtain b ss where
    scan: "run_state (session_scan now D) (open_session s) = (b, ss)" "coherent ok img (img s) (spec_scan (img s)) ss"
    by (metis prod.collapse)
  then have sr: "ss_scan ss = spec_scan (img s)" by (simp add: coherent_def)
  let ?b = "a\<lparr>ap_session := Some ss, ap_path := '''', ap_active := None, ap_entries := []\<rparr>"
  have loaded: "source_ok ok img convert (img s) (populate_tree now D E b)"
    if "ap_session b = Some ss" "ap_path b = ''''" "ap_active b = None" "ap_entries b = []" for b
    using that scan(2) by (auto simp: source_ok_def populate_tree_def Let_def sr listing_ok_def)
  have controller: "ap_controller (populate_tree now D E b) = ap_controller b" for b
    by (simp add: populate_tree_def Let_def split: option.splits)
  show ?thesis
    using run scan(1) source_ok_overview [OF loaded]
    by (auto simp: load_device_def Let_def controller split: if_splits)
qed

lemma load_device_refused: "load_device now D E s a = (False, a') \<Longrightarrow> same_view a a'"
  by (auto simp: load_device_def Let_def view_simps same_view_refl split: if_splits prod.splits)

definition shell_ok ::
  "('s \<Rightarrow> bool) \<Rightarrow> ('s \<Rightarrow> image) \<Rightarrow> (u32 \<Rightarrow> image) \<Rightarrow> (wide \<Rightarrow> image) \<Rightarrow> (string \<Rightarrow> wide option) \<Rightarrow> int \<Rightarrow> 's app \<Rightarrow> bool" where
  "shell_ok ok img drives pictures convert k a \<longleftrightarrow>
     window_ok ok img drives pictures convert a \<and> mount_ok ok img drives pictures k a"

lemma shell_ok_view: "same_view a b \<Longrightarrow> shell_ok ok img drives pictures convert k b = shell_ok ok img drives pictures convert k a"
  by (simp add: shell_ok_def same_view_window same_view_mount)

lemma shell_ok_frame:
  assumes "shell_ok ok img drives pictures convert k a" "same_view a b"
  shows "shell_ok ok img drives pictures convert k b"
  using assms shell_ok_view by blast

lemma shell_ok_said [simp]:
  "shell_ok ok img drives pictures convert k (message w a) = shell_ok ok img drives pictures convert k a"
  "shell_ok ok img drives pictures convert k (set_status w a) = shell_ok ok img drives pictures convert k a"
  "shell_ok ok img drives pictures convert k (update_action_menu E a) = shell_ok ok img drives pictures convert k a"
  "shell_ok ok img drives pictures convert k (rebuild_physical_menu E a) = shell_ok ok img drives pictures convert k a"
  "shell_ok ok img drives pictures convert k (a\<lparr>ap_timer := on\<rparr>) = shell_ok ok img drives pictures convert k a"
  by (rule shell_ok_view, simp add: view_simps same_view_refl)+

text \<open>An operation on the open source that touches neither the source nor the controller.\<close>

lemma shell_ok_on_source:
  assumes "shell_ok ok img drives pictures convert k a"
    and "ap_physical b = ap_physical a" "ap_image b = ap_image a" "ap_controller b = ap_controller a"
    and "\<And>im. shown_image drives pictures a = Some im \<Longrightarrow> source_ok ok img convert im a \<Longrightarrow> source_ok ok img convert im b"
    and "ap_session a = None \<Longrightarrow> ap_active a = None \<Longrightarrow> ap_mains a = [] \<Longrightarrow> ap_entries a = [] \<Longrightarrow> ap_path a = '''' \<Longrightarrow>
      ap_session b = None \<and> ap_mains b = [] \<and> ap_active b = None \<and> ap_entries b = [] \<and> ap_path b = ''''"
  shows "shell_ok ok img drives pictures convert k b"
  using assms same_source_mount [OF assms(2-4)] same_source_shown [OF assms(2,3)]
  by (auto simp: shell_ok_def window_ok_def split: option.splits)

lemma shell_ok_loaded:
  assumes D: "reliable_device D ok img" "ok s" and a: "shell_ok ok img drives pictures convert k a"
    and run: "load_device now D E s a = (True, a')" and shown: "shown_image drives pictures b = Some (img s)"
    and b: "b = a'\<lparr>ap_physical := i, ap_image := path\<rparr>"
  shows "shell_ok ok img drives pictures convert k b"
proof -
  have l: "source_ok ok img convert (img s) a'" "\<not> controller_running a" "ap_controller a' = ap_controller a"
    using load_device_loaded [OF D run] by blast+
  have "source_ok ok img convert (img s) b"
    using l(1) by (simp add: b source_ok_def listing_ok_def cong: option.case_cong)
  moreover have "mount_ok ok img drives pictures k b"
    using a l(2,3) unfolding b shell_ok_def mount_ok_def controller_running_def by fastforce
  ultimately show ?thesis using shown by (simp add: shell_ok_def window_ok_def)
qed

subsection \<open>Every message\<close>

text \<open>What the answers of Windows are held to.\<close>

definition system_ok ::
  "('s \<Rightarrow> bool) \<Rightarrow> ('s \<Rightarrow> image) \<Rightarrow> (u32 \<Rightarrow> image) \<Rightarrow> (wide \<Rightarrow> image) \<Rightarrow> int \<Rightarrow> 's shell_system \<Rightarrow> bool" where
  "system_ok ok img drives pictures k E \<longleftrightarrow>
     (\<forall>i s. sy_drive E i = Inr s \<longrightarrow> ok s \<and> img s = drives i) \<and>
     (\<forall>path s. sy_picture E path = Some s \<longrightarrow> ok s \<and> img s = pictures path) \<and> sy_dokan_success E = k"

lemma shown_plain:
  "plain_sources drives pictures \<Longrightarrow> shown_image drives pictures a = Some im \<Longrightarrow>
   plain_partitions (spec_scan im) \<and> plain_names im (spec_scan im)"
  by (auto simp: plain_sources_def shown_image_def split: option.splits)

lemma shell_ok_tree:
  assumes D: "reliable_device D ok img" "plain_sources drives pictures"
    and a: "shell_ok ok img drives pictures (sy_widen E) k a"
  shows "shell_ok ok img drives pictures (sy_widen E) k (tree_selection_changed now D E n a)"
proof (rule shell_ok_on_source [OF a source_fields_list(4-6)])
  fix im
  assume "shown_image drives pictures a = Some im" "source_ok ok img (sy_widen E) im a"
  then show "source_ok ok img (sy_widen E) im (tree_selection_changed now D E n a)"
    using source_ok_tree [OF D(1)] shown_plain [OF D(2)] by blast
qed (simp add: tree_selection_changed_def show_drive_overview_def Let_def)

lemma shell_ok_double_click:
  assumes D: "reliable_device D ok img" "plain_sources drives pictures"
    and a: "shell_ok ok img drives pictures (sy_widen E) k a"
  shows "shell_ok ok img drives pictures (sy_widen E) k (list_double_click now D E row a)"
proof -
  have "list_double_click now D E row a = a" if "ap_session a = None"
    using that by (simp add: list_double_click_def)
  then show ?thesis
    using a shell_ok_on_source [OF a source_fields_list(1-3) source_ok_double_click [OF D(1)]] shown_plain [OF D(2)]
    by (cases "ap_session a") auto
qed

lemma shell_ok_overview:
  assumes a: "shell_ok ok img drives pictures convert k a"
  shows "shell_ok ok img drives pictures convert k (show_drive_overview now D E a)"
  by (rule shell_ok_on_source [OF a source_fields(4-6) source_ok_overview]) (auto simp: show_drive_overview_def Let_def)

lemma shell_ok_refused:
  assumes "shell_ok ok img drives pictures convert k a" "\<not> fst (load_device now D E s a)"
  shows "shell_ok ok img drives pictures convert k (snd (load_device now D E s a))"
  using assms shell_ok_view [OF load_device_refused [of now D E s a "snd (load_device now D E s a)"]]
  by (simp add: prod_eq_iff)

lemma shell_ok_accepted:
  assumes "reliable_device D ok img" "ok s" "shell_ok ok img drives pictures convert k a" "fst (load_device now D E s a)"
    and "shown_image drives pictures (snd (load_device now D E s a)\<lparr>ap_physical := i, ap_image := path\<rparr>) = Some (img s)"
  shows "shell_ok ok img drives pictures convert k (snd (load_device now D E s a)\<lparr>ap_physical := i, ap_image := path\<rparr>)"
  by (rule shell_ok_loaded [OF assms(1-3) _ assms(5) refl, of now E]) (use assms(4) in \<open>simp add: prod_eq_iff\<close>)

lemma shell_ok_open_image:
  assumes D: "reliable_device D ok img" "system_ok ok img drives pictures k' E"
    and a: "shell_ok ok img drives pictures convert k a"
  shows "shell_ok ok img drives pictures convert k (snd (open_image_dialog now D E a))"
proof -
  have "shell_ok ok img drives pictures convert k (snd (load_device now D E s a)\<lparr>ap_physical := None, ap_image := Some path\<rparr>)"
    if "sy_picture E path = Some s" "fst (load_device now D E s a)" for path s
    by (rule shell_ok_accepted [OF D(1) _ a that(2)]) (use D(2) that(1) in \<open>auto simp: system_ok_def shown_image_def\<close>)
  from shell_ok_frame [OF this] have "shell_ok ok img drives pictures convert k
      (snd (load_device now D E s a)\<lparr>ap_image := Some path, ap_physical := None\<rparr>)"
    if "sy_picture E path = Some s" "fst (load_device now D E s a)" for path s
    using that by (simp add: same_view_def)
  then show ?thesis
    using a shell_ok_refused [OF a]
    by (auto simp: open_image_dialog_def split_def Let_def split: option.splits)
qed

lemma shell_ok_open_physical:
  assumes D: "reliable_device D ok img" "system_ok ok img drives pictures k' E"
    and a: "shell_ok ok img drives pictures convert k a"
  shows "shell_ok ok img drives pictures convert k (snd (open_physical now D E index a))"
proof -
  have "shell_ok ok img drives pictures convert k (snd (load_device now D E s a)\<lparr>ap_physical := Some index, ap_image := None\<rparr>)"
    if "sy_drive E index = Inr s" "fst (load_device now D E s a)" for s
    by (rule shell_ok_accepted [OF D(1) _ a that(2)]) (use D(2) that(1) in \<open>auto simp: system_ok_def shown_image_def\<close>)
  then show ?thesis
    using a shell_ok_refused [OF a]
    by (auto simp: open_physical_def split_def Let_def split: sum.splits)
qed

lemma shell_ok_discovery:
  assumes D: "reliable_device D ok img" "system_ok ok img drives pictures k' E"
    and a: "shell_ok ok img drives pictures convert k a"
  shows "shell_ok ok img drives pictures convert k (discovery_complete now D E probes a)"
proof -
  let ?b = "a\<lparr>ap_discovery_running := False, ap_all_probes := probes, ap_detected := filter pp_apa_detected probes\<rparr>"
  have "shell_ok ok img drives pictures convert k ?b"
    by (rule shell_ok_frame [OF a]) (simp add: same_view_def)
  then have "shell_ok ok img drives pictures convert k (rebuild_physical_menu E ?b)" by simp
  from this shell_ok_open_physical [OF D this] show ?thesis
    by (simp only: discovery_complete_def Let_def shell_ok_said split: if_split) simp
qed

lemma shell_ok_start_discovery:
  assumes "shell_ok ok img drives pictures convert k a"
  shows "shell_ok ok img drives pictures convert k (start_discovery E a)"
proof -
  have "shell_ok ok img drives pictures convert k (a\<lparr>ap_discovery_running := True, ap_detected := []\<rparr>)"
    by (rule shell_ok_frame [OF assms]) (simp add: same_view_def)
  with assms show ?thesis by (simp add: start_discovery_def)
qed

lemma shell_ok_controller:
  assumes "window_ok ok img drives pictures convert a"
    and "\<And>c. controller = Some c \<Longrightarrow> worker_flags k c \<and>
      (\<exists>im \<in> range drives \<union> range pictures. runtime_coherent ok img im c \<and>
        (ct_running c \<longrightarrow> shown_image drives pictures a = Some im))"
  shows "shell_ok ok img drives pictures convert k (a\<lparr>ap_controller := controller\<rparr>)"
  using assms
  by (simp add: shell_ok_def window_ok_def source_ok_def listing_ok_def mount_ok_def shown_image_def cong: option.case_cong)

lemma shell_ok_no_controller:
  "shell_ok ok img drives pictures convert k a \<Longrightarrow> shell_ok ok img drives pictures convert k (a\<lparr>ap_controller := None\<rparr>)"
  by (rule shell_ok_controller) (simp_all add: shell_ok_def)

lemma shell_ok_finish:
  "shell_ok ok img drives pictures convert k a \<Longrightarrow>
   shell_ok ok img drives pictures convert k (finish_mount_controller now D E a)"
  by (simp add: finish_mount_controller_def shell_ok_overview shell_ok_no_controller split: option.split)

lemma shell_ok_unmount:
  "shell_ok ok img drives pictures convert k a \<Longrightarrow> shell_ok ok img drives pictures convert k (unmount now D E a)"
  by (simp add: unmount_def shell_ok_finish split: option.split)

lemma shell_ok_poll:
  "shell_ok ok img drives pictures convert k a \<Longrightarrow> shell_ok ok img drives pictures convert k (poll_mount now D E a)"
  by (simp add: poll_mount_def Let_def shell_ok_finish split: option.split)

lemma reopened_source:
  assumes "system_ok ok img drives pictures k E" "reopen_source E a = Inr s"
  shows "ok s \<and> shown_image drives pictures a = Some (img s) \<and> img s \<in> range drives \<union> range pictures"
  using assms by (auto simp: system_ok_def reopen_source_def shown_image_def split: option.splits sum.splits)

lemma shell_ok_mount:
  assumes D: "reliable_device D ok img" "system_ok ok img drives pictures k E"
    and a: "shell_ok ok img drives pictures convert k a"
  shows "shell_ok ok img drives pictures convert k (mount_read_only now D E a)"
proof (cases "reopen_source E a")
  case Inl
  with a show ?thesis by (simp add: mount_read_only_def)
next
  case (Inr s)
  note s = reopened_source [OF D(2) Inr]
  let ?c = "snd (start_mount (sy_windows E) k now D (Some s) (suggest_mount_point (sy_drives E)) (new_controller k))"
  have "worker_flags k ?c \<and> runtime_coherent ok img (img s) ?c"
    by (rule start_mount_cases [OF D(1)]) (use s in \<open>simp_all add: new_controller_def worker_flags_def runtime_coherent_def\<close>)
  then have "shell_ok ok img drives pictures convert k (a\<lparr>ap_controller := Some ?c\<rparr>)"
    using s a by (intro shell_ok_controller) (auto simp: shell_ok_def)
  then have "shell_ok ok img drives pictures convert k (a\<lparr>ap_controller := Some ?c, ap_timer := True\<rparr>)"
    by (simp only: shell_ok_said)
  moreover have "(message w a)\<lparr>ap_controller := None\<rparr> = message w (a\<lparr>ap_controller := None\<rparr>)" for w
    by (simp add: message_def)
  moreover have "sy_dokan_success E = k" using D(2) by (simp add: system_ok_def)
  ultimately show ?thesis
    using a by (simp add: mount_read_only_def Inr Let_def split_def shell_ok_no_controller)
qed

lemma shell_ok_worker:
  assumes D: "reliable_device D ok img" "plain_sources drives pictures"
    and a: "shell_ok ok img drives pictures convert k a" and c: "ap_controller a = Some c" "worker_step W k now D c c'"
  shows "shell_ok ok img drives pictures convert k (a\<lparr>ap_controller := Some c'\<rparr>)"
proof (rule shell_ok_controller)
  show "window_ok ok img drives pictures convert a" using a by (simp add: shell_ok_def)
  have running: "ct_running c' \<Longrightarrow> ct_running c" using c(2) by cases auto
  obtain im where im: "im \<in> range drives \<union> range pictures" "runtime_coherent ok img im c" "worker_flags k c"
    "ct_running c \<longrightarrow> shown_image drives pictures a = Some im"
    using a c(1) by (auto simp: shell_ok_def mount_ok_def)
  then have "worker_flags k c' \<and> runtime_coherent ok img im c'"
    using worker_step_keeps [OF c(2) D(1)] D(2) unfolding plain_sources_def by blast
  with im running show "worker_flags k d \<and> (\<exists>im \<in> range drives \<union> range pictures. runtime_coherent ok img im d \<and>
      (ct_running d \<longrightarrow> shown_image drives pictures a = Some im))" if "Some c' = Some d" for d
    using that by blast
qed

lemma shell_ok_explored:
  assumes "shell_ok ok img drives pictures convert k a"
  shows "shell_ok ok img drives pictures convert k (open_mounted_volume a)" "shell_ok ok img drives pictures convert k (set_theme t a)"
  by (rule shell_ok_frame [OF assms], simp add: same_view_def open_mounted_volume_def set_theme_def split: option.split)+

lemma shell_ok_event:
  assumes D: "reliable_device D ok img" "plain_sources drives pictures" "system_ok ok img drives pictures k E"
    and a: "shell_ok ok img drives pictures (sy_widen E) k a" and run: "window_proc now D E ev a = Some a'"
  shows "shell_ok ok img drives pictures (sy_widen E) k a'"
proof -
  note kept = shell_ok_discovery [OF D(1,3) a] shell_ok_open_image [OF D(1,3) a] shell_ok_open_physical [OF D(1,3) a]
    shell_ok_mount [OF D(1,3) a] shell_ok_tree [OF D(1,2) a] shell_ok_double_click [OF D(1,2) a]
    shell_ok_start_discovery [OF a] shell_ok_unmount [OF a] shell_ok_poll [OF a] shell_ok_explored [OF a]
  have restarted: "shell_ok ok img drives pictures (sy_widen E) k b" if "restart_elevated E a = Some b" for b
    using that a by (auto simp: restart_elevated_def Let_def split: if_splits)
  have "shell_ok ok img drives pictures (sy_widen E) k b" if "menu_command now D E command a = Some b" for command b
    using that restarted a unfolding menu_command_def
    by (auto simp: about_def intro: kept split: if_splits)
  with run kept a show ?thesis by (cases ev) (auto split: if_splits)
qed

lemma app_reachable_ok:
  assumes "app_reachable now D W convert k drive_source picture_source a"
    and "sources_are ok img drives pictures drive_source picture_source" "reliable_device D ok img"
  shows "shell_ok ok img drives pictures convert k a"
  using assms(1)
proof induction
  case (start E theme command_line a)
  let ?a = "\<lambda>l w. \<lparr>ap_elevation_limited = l, ap_discovery_running = False, ap_theme = theme, ap_saved_theme = theme,
        ap_all_probes = [], ap_detected = [], ap_session = None, ap_physical = None, ap_image = None,
        ap_controller = None, ap_mains = [], ap_active = None, ap_path = '''', ap_entries = [], ap_tree = [],
        ap_rows = [], ap_status = w, ap_messages = [],
        ap_menu = [], ap_menu_indices = [], ap_actions = (False, False, False, True), ap_timer = False,
        ap_explored = []\<rparr>"
  have "shell_ok ok img drives pictures convert k (?a l w)" for l w
    by (simp add: shell_ok_def window_ok_def mount_ok_def shown_image_def)
  then have "shell_ok ok img drives pictures convert k (new_app E theme l)" for l
    by (simp add: new_app_def shell_ok_start_discovery)
  with start show ?case by (auto simp: classic_start_def split: if_splits)
next
  case (step a a')
  have plain: "plain_sources drives pictures" using assms(2) by (simp add: sources_are_def)
  from step.hyps(2) show ?case
  proof cases
    case (event E ev)
    have "system_ok ok img drives pictures k E"
      using event(5-7) assms(2) unfolding system_ok_def sources_are_def by blast
    from shell_ok_event [OF assms(3) plain this _ event(1)] step.IH event(4) show ?thesis by simp
  next
    case (worker c c')
    from shell_ok_worker [OF assms(3) plain step.IH worker(2,3)] worker(1) show ?thesis by simp
  qed
qed

text \<open>C7: While a PFS partition is open in the Win32 shell, its list is the directory on the disk.  Let the disks behind the drives and
  image files stay as they are, with no partition name that contains byte 0x1F and no directory with duplicate names
  or names with a separator, and be read through a reliable device.  After any messages with any answers of
  Windows, and with a mount working behind it, whenever the partition open in the window is of the PFS
  type: it is a main partition of the disk of the current source, and the list is empty (a root that
  could not be read) or holds exactly the entries that the disk has at the shown path, folders first and
  by name, below a row for the parent where the path is not the root.  Nothing is said of the list while
  no partition or a partition of another type is selected; then it holds information rows.\<close>

theorem classic_lists_the_disk:
  assumes "app_reachable now D W convert k drive_source picture_source a"
    and "sources_are ok img drives pictures drive_source picture_source" "reliable_device D ok img"
    and "ap_active a = Some p" "p_type p = kTypePfs"
  shows "\<exists>im. shown_image drives pictures a = Some im \<and> p \<in> set (partitions (spec_scan im)) \<and> \<not> is_sub p \<and>
    (ap_rows a = [] \<and> ap_entries a = [] \<and> ap_path a = '''' \<or>
     (let r = spec_browse im (spec_scan im) (p_id p) (ap_path a)
      in br_ok r \<and> ap_entries a = sort_key entry_key (br_entries r) \<and>
         ap_rows a = listing_rows convert (ap_path a) (ap_entries a)))"
  using app_reachable_ok [OF assms(1-3)] assms(4,5)
  by (auto simp: shell_ok_def window_ok_def source_ok_def listing_ok_def split: option.splits)

text \<open>C8: The volume that the Win32 shell has mounted is the source in its window: in every state it can reach,
  while the mount runs there is an open source, the mount works on a scanned session over the same disk, and
  both sessions agree with that disk.\<close>

theorem classic_mounts_shown_source:
  assumes "app_reachable now D W convert k drive_source picture_source a"
    and "sources_are ok img drives pictures drive_source picture_source" "reliable_device D ok img"
    and "ap_controller a = Some c" "ct_running c"
  shows "\<exists>im ss rt. shown_image drives pictures a = Some im \<and> ap_session a = Some ss \<and> ct_runtime c = Some rt \<and>
    coherent ok img im (spec_scan im) ss \<and> coherent ok img im (spec_scan im) (rt_session rt) \<and>
    mbr_valid (spec_scan im) \<and> scan_ok (spec_scan im)"
proof -
  have a: "shell_ok ok img drives pictures convert k a" by (rule app_reachable_ok [OF assms(1-3)])
  then obtain im where im: "worker_flags k c" "runtime_coherent ok img im c" "shown_image drives pictures a = Some im"
    using assms(4,5) by (auto simp: shell_ok_def mount_ok_def)
  from im(1) assms(5) obtain rt where rt: "ct_runtime c = Some rt"
    by (auto simp: worker_flags_def split: worker_place.splits)
  from a im(3) show ?thesis
    using im(2,3) rt by (auto simp: shell_ok_def window_ok_def source_ok_def runtime_coherent_def)
qed

section \<open>Into a folder and back\<close>

lemma parent_of_joined:
  assumes "list_all (\<lambda>c. \<not> is_path_separator c) name"
  shows "shell_parent_path (shell_join_path path name) = path"
proof -
  have "dropWhile (\<lambda>c. \<not> is_path_separator c) (rev name @ rest) = dropWhile (\<lambda>c. \<not> is_path_separator c) rest" for rest
    using assms by (intro dropWhile_append2) (auto simp: list_all_iff)
  from this [of "[]"] this [of "CHR ''/'' # rev path"] show ?thesis
    by (simp add: shell_parent_path_def shell_join_path_def is_path_separator_def del: dropWhile_eq_Nil_conv)
qed

lemma navigate_shows:
  assumes D: "reliable_device D ok img" "plain_partitions (spec_scan im)"
    and a: "source_ok ok img (sy_widen E) im a" "ap_active a = Some p" "p_type p = kTypePfs"
    and r: "br_ok (spec_browse im (spec_scan im) (p_id p) path)"
  shows "ap_path (navigate now D E path a) = path \<and> ap_active (navigate now D E path a) = Some p \<and>
    ap_entries (navigate now D E path a) = sort_key entry_key (br_entries (spec_browse im (spec_scan im) (p_id p) path)) \<and>
    ap_rows (navigate now D E path a) = listing_rows (sy_widen E) path (ap_entries (navigate now D E path a)) \<and>
    ap_session (navigate now D E path a) \<noteq> None"
proof -
  obtain ss where ss: "ap_session a = Some ss" "coherent ok img im (spec_scan im) ss"
    and p: "p \<in> set (partitions (spec_scan im))" "\<not> is_sub p"
    using a by (auto simp: source_ok_def listing_ok_def)
  from browse_on_image [OF D p a(3) ss(2)] obtain ss' where
    "run_state (browse now D (p_id p) path) ss = (spec_browse im (spec_scan im) (p_id p) path, ss')" by blast
  then show ?thesis using a(2) r by (simp add: navigate_def ss(1) Let_def)
qed

text \<open>Into a folder and back.  In every state the Win32 shell can reach, a double click on a listed folder
  whose name holds no path separator and whose directory can be read shows that directory of the disk,
  with a row for the parent on top, and a double click on that row shows again the path, the entries and
  the rows from before.\<close>

theorem classic_folder_and_back:
  assumes "app_reachable now D W (sy_widen E) k drive_source picture_source a"
    and "sources_are ok img drives pictures drive_source picture_source" "reliable_device D ok img"
    and "shown_image drives pictures a = Some im" "ap_active a = Some p"
    and "i < length (ap_entries a)" "e = ap_entries a ! i" "se_is_directory e"
    and "se_name e \<noteq> ''''" "list_all (\<lambda>c. \<not> is_path_separator c) (se_name e)"
    and "path = shell_join_path (ap_path a) (se_name e)" "br_ok (spec_browse im (spec_scan im) (p_id p) path)"
    and "b = list_double_click now D E (Some (i + (if ap_path a = '''' then 0 else 1))) a"
    and "c = list_double_click now D E (Some 0) b"
  shows "ap_path b = path \<and>
    ap_entries b = sort_key entry_key (br_entries (spec_browse im (spec_scan im) (p_id p) path)) \<and>
    ap_rows b = parent_row # map (entry_row (sy_widen E)) (ap_entries b) \<and>
    ap_path c = ap_path a \<and> ap_entries c = ap_entries a \<and> ap_rows c = ap_rows a"
proof -
  have plain: "plain_sources drives pictures" using assms(2) by (simp add: sources_are_def)
  note D = assms(3) shown_plain [OF plain assms(4), THEN conjunct1]
  have "shell_ok ok img drives pictures (sy_widen E) k a" by (rule app_reachable_ok [OF assms(1-3)])
  then have a: "source_ok ok img (sy_widen E) im a" using assms(4) by (simp add: shell_ok_def window_ok_def)
  then have pfs: "p_type p = kTypePfs" and here: "br_ok (spec_browse im (spec_scan im) (p_id p) (ap_path a))"
      "ap_entries a = sort_key entry_key (br_entries (spec_browse im (spec_scan im) (p_id p) (ap_path a)))"
      "ap_rows a = listing_rows (sy_widen E) (ap_path a) (ap_entries a)"
    using assms(5,6) by (auto simp: source_ok_def listing_ok_def Let_def)
  obtain ss where ss: "ap_session a = Some ss" using a by (auto simp: source_ok_def)
  have b: "b = navigate now D E path a"
    using assms(5-8,11) ss unfolding assms(13) by (simp add: list_double_click_def)
  have into: "ap_path b = path" "ap_active b = Some p" "ap_session b \<noteq> None"
      "ap_entries b = sort_key entry_key (br_entries (spec_browse im (spec_scan im) (p_id p) path))"
      "ap_rows b = listing_rows (sy_widen E) path (ap_entries b)"
    using navigate_shows [OF D a assms(5) pfs assms(12), of now] unfolding b by blast+
  have "path \<noteq> ''''" using assms(9) by (simp add: assms(11) shell_join_path_def)
  then have c: "c = navigate now D E (ap_path a) b"
    using into(1-3) parent_of_joined [OF assms(10), of "ap_path a"] unfolding assms(14) list_double_click_def
    by (auto simp: assms(11))
  have "source_ok ok img (sy_widen E) im b"
    unfolding b by (rule source_ok_navigate [OF D a]) (use assms(5) pfs in simp)
  from navigate_shows [OF D this into(2) pfs here(1), of now]
  have again: "ap_path c = ap_path a" "ap_entries c = ap_entries a" "ap_rows c = ap_rows a"
    unfolding c here(3) by (simp_all add: here(2))
  have "ap_rows b = parent_row # map (entry_row (sy_widen E)) (ap_entries b)"
    using into(5) \<open>path \<noteq> ''''\<close> by (simp add: listing_rows_def)
  with into(1,4) again show ?thesis by blast
qed

section \<open>An unmount that nobody notices\<close>

lemma app_event:
  fixes E :: "'s shell_system"
  assumes "app_reachable now D (sy_windows E) (sy_widen E) (sy_dokan_success E) drive_source picture_source a"
    and "\<And>i s. sy_drive E i = Inr s \<Longrightarrow> drive_source i s" "\<And>path s. sy_picture E path = Some s \<Longrightarrow> picture_source path s"
    and "window_proc now D E ev a = Some a'" "\<And>probes. ev \<noteq> Discovery_posted probes"
  shows "app_reachable now D (sy_windows E) (sy_widen E) (sy_dokan_success E) drive_source picture_source a'"
  by (rule app_reachable.step [OF assms(1)], rule app_step.event [OF assms(4) _ refl refl refl assms(2,3)])
    (use assms(5) in blast)+

text \<open>C33: The end of a mount can go unnoticed.  Whenever a volume is mounted and Dokany accepts the unmount, the
  shell can reach a state in which Dokany has returned and the worker has ended, while the status line
  still says that the volume is mounted, the menu still offers to open it, and the timer that would look
  again is off: the poll that follows the request finds the volume still mounted and stops the timer.\<close>

theorem classic_unmount_unnoticed:
  fixes E :: "'s shell_system"
  assumes "app_reachable now D (sy_windows E) (sy_widen E) (sy_dokan_success E) drive_source picture_source a"
    and "\<And>i s. sy_drive E i = Inr s \<Longrightarrow> drive_source i s" "\<And>path s. sy_picture E path = Some s \<Longrightarrow> picture_source path s"
    and "ap_controller a = Some c" "ct_worker c = In_dokan" "ct_running c" "ct_mounted c" "request_unmount (sy_remove E) c"
  shows "\<exists>a' c'. app_reachable now D (sy_windows E) (sy_widen E) (sy_dokan_success E) drive_source picture_source a' \<and>
    ap_controller a' = Some c' \<and> ct_worker c' = Worker_done r \<and> \<not> ct_running c' \<and> \<not> ct_mounted c' \<and>
    \<not> ap_timer a' \<and> ap_actions a' = (False, True, True, \<not> is_process_elevated (sy_elevation E)) \<and>
    ap_status a' = wtext ''Mounted read-only at '' @ controller_point c @ dash @
      wtext ''use File > Open mounted volume to browse in Explorer''"
proof -
  let ?R = "app_reachable now D (sy_windows E) (sy_widen E) (sy_dokan_success E) drive_source picture_source"
  let ?b = "unmount now D E a" and ?d = "poll_mount now D E (unmount now D E a)"
  note event = app_event [OF _ assms(2,3)]
  have "?R ?b"
    by (rule event [OF assms(1), where ev = "Command 109"]) (simp_all add: menu_command_def)
  then have R: "?R ?d"
    by (rule event [where ev = "Timer_elapsed 1"]) simp_all
  have b: "ap_controller ?b = Some c" "ap_session ?b = ap_session a"
    using assms(4,6,8) by (simp_all add: unmount_def update_action_menu_def)
  then have d: "ap_controller ?d = Some c" "\<not> ap_timer ?d"
    "ap_actions ?d = (False, True, True, \<not> is_process_elevated (sy_elevation E))"
    "ap_status ?d = wtext ''Mounted read-only at '' @ controller_point c @ dash @
      wtext ''use File > Open mounted volume to browse in Explorer''"
    using assms(6,7)
    by (simp_all add: poll_mount_def update_action_menu_def controller_running_def controller_mounted_def set_status_def)
  let ?c1 = "c\<lparr>ct_worker := Store_status r\<rparr>"
  let ?c2 = "?c1\<lparr>ct_status := r, ct_worker := Store_mounted r\<rparr>"
  let ?c3 = "?c2\<lparr>ct_mounted := False, ct_worker := Store_running r\<rparr>"
  let ?c4 = "?c3\<lparr>ct_running := False, ct_worker := Store_error r\<rparr>"
  let ?c5 = "?c4\<lparr>ct_error := (if r \<noteq> sy_dokan_success E then ''Dokany mount failed with code '' @ signed_decimal r
    else ct_error ?c4), ct_worker := Worker_done r\<rparr>"
  have work: "?R (?d\<lparr>ap_controller := Some y\<rparr>)"
    if "?R (?d\<lparr>ap_controller := Some x\<rparr>)" "worker_step (sy_windows E) (sy_dokan_success E) now D x y" for x y
    using app_reachable.step [OF that(1) app_step.worker [OF _ that(2)]] by simp
  have "?d\<lparr>ap_controller := Some c\<rparr> = ?d" using d(1) by (intro app.equality) simp_all
  then have "?R (?d\<lparr>ap_controller := Some c\<rparr>)" using R by simp
  from work [OF this worker_step.returned] have "?R (?d\<lparr>ap_controller := Some ?c1\<rparr>)" using assms(5) by simp
  from work [OF this worker_step.store_status] have "?R (?d\<lparr>ap_controller := Some ?c2\<rparr>)" by simp
  from work [OF this worker_step.store_mounted] have "?R (?d\<lparr>ap_controller := Some ?c3\<rparr>)" by simp
  from work [OF this worker_step.store_running] have "?R (?d\<lparr>ap_controller := Some ?c4\<rparr>)" by simp
  from work [OF this worker_step.store_error] have "?R (?d\<lparr>ap_controller := Some ?c5\<rparr>)" by simp
  then show ?thesis using d(2-) by (intro exI [of _ "?d\<lparr>ap_controller := Some ?c5\<rparr>"] exI [of _ ?c5]) simp
qed

end
