(* ===== verification/WinuiWindow.thy ===== *)
theory WinuiWindow
  imports NativeSession ShellMount ClassicShell
begin

text \<open>
  The window of the WinUI shell (\<open>src/winui/MainWindow.xaml.cpp\<close>): its handlers, the threads they start and the
  results that these post to the dispatcher.  The state is what the class keeps and what its controls show.
  XAML raises the selection events of a picker while it is filled, and so they are part of filling it.
  Layout, themes and log files are left out; \<open>NativeSession\<close> is the controller behind the window.
\<close>

section \<open>Texts\<close>

definition winui_widen :: "windows \<Rightarrow> string \<Rightarrow> wide" where
  "winui_widen W = widen (win_to_wide W)"

definition lower_char :: "char \<Rightarrow> char" where
  "lower_char c = (if 65 \<le> char_code c \<and> char_code c \<le> 90 then char_of (char_code c + 32) else c)"

definition lower_ascii :: "string \<Rightarrow> string" where
  "lower_ascii = map lower_char"

definition winui_bytes :: "u64 \<Rightarrow> wide" where
  "winui_bytes bytes = wtext (format_bytes bytes)"

definition format_ms :: "u64 \<Rightarrow> wide" where
  "format_ms ns =
     (if ns = 0 then [0x2014]
      else let (m, a, b) = double_quotient (double_of (unat ns)) 1000000
           in wtext (fixed 2 (m * a) b) @ wtext '' ms'')"

definition build_ms :: "int \<Rightarrow> wide" where
  "build_ms ns = wtext (fixed_quotient (nat ns) 1000000) @ wtext '' ms''"

definition average_ms :: "u64 \<Rightarrow> u64 \<Rightarrow> wide" where
  "average_ms ns reads =
     wtext (if ns = 0 then fixed 3 0 1
       else let (m, a, b) = double_quotient (double_of (unat ns)) (double_of (unat reads));
                (m', a', b') = double_quotient (m * a) (b * 1000000)
            in fixed 3 (m' * a') b') @ wtext '' ms''"

fun kind_name :: "catalog_kind \<Rightarrow> string" where
  "kind_name Kind_mbr = ''MBR''"
| "kind_name Kind_pfs = ''PFS''"
| "kind_name Kind_hdl = ''HDL''"
| "kind_name Kind_free_space = ''Free''"
| "kind_name Kind_other = ''Other''"

fun enrichment_name :: "enrichment_state \<Rightarrow> wide" where
  "enrichment_name Pending = wtext ''Pending''"
| "enrichment_name Ready = wtext ''Ready''"
| "enrichment_name Failed = wtext ''Error''"
| "enrichment_name Not_applicable = [0x2014]"

definition bus_name :: "storage_characteristics \<Rightarrow> string" where
  "bus_name s =
     (if \<not> bus_type_known s then ''Unknown''
      else if bus_type s = 1 then ''SCSI''
      else if bus_type s = 2 then ''ATAPI''
      else if bus_type s = 3 then ''ATA''
      else if bus_type s = 7 then ''USB''
      else if bus_type s = 11 then ''SATA''
      else if bus_type s = 17 then ''NVMe''
      else ''Bus '' @ decimal (unat (bus_type s)))"

fun media_name :: "storage_media_class \<Rightarrow> string" where
  "media_name Media_rotational = ''Rotational''"
| "media_name Media_solid_state = ''Solid state''"
| "media_name Media_unknown = ''Unknown''"

definition partition_cells :: "windows \<Rightarrow> partition_row_snapshot \<Rightarrow> wide list" where
  "partition_cells W row =
     [winui_widen W (if prs_title row = '''' then prs_partition_id row else prs_title row),
      winui_widen W (prs_startup row), wtext (kind_name (prs_kind row)), winui_bytes (prs_size_bytes row),
      number_text (unat (prs_start_lba row)), enrichment_name (prs_enrichment row)]"

definition file_cells :: "windows \<Rightarrow> browse_entry_snapshot \<Rightarrow> wide list" where
  "file_cells W e =
     [winui_widen W (bes_name e),
      wtext (if bes_is_directory e then ''Folder'' else if bes_is_regular e then ''File'' else ''Other''),
      (if bes_is_directory e then [0x2014] else winui_bytes (bes_size_bytes e))]"

section \<open>State\<close>

text \<open>What the threads post to the dispatcher.\<close>

datatype posted =
    Probes_found "physical_drive_probe list" bool
  | Source_finished "string option" "u32 option" wide
  | Export_finished "string option" host_path
  | Enrichment_progress nat nat
  | Enrichment_over bool

datatype window_page = Hdd_page | Files_page | Mount_page | Performance_page | Settings_page

record 's winui =
  ui_native :: "'s native"
  ui_snapshot :: session_snapshot
  ui_page :: window_page
  ui_detected :: "physical_drive_probe list"
  ui_drive_labels :: "wide list"
  ui_drive_selected :: "nat option"
  ui_open_enabled :: bool
  ui_access_bar :: bool
  ui_query :: string
  ui_kind_filter :: nat
  ui_show_subs :: bool
  ui_visible :: "partition_row_snapshot list"
  ui_partition_cells :: "wide list list"
  ui_empty_state :: bool
  ui_pfs :: "string list"
  ui_pfs_selected :: "nat option"
  ui_partition :: string
  ui_path :: string
  ui_entries :: "browse_entry_snapshot list"
  ui_file_cells :: "wide list list"
  ui_file_selected :: "nat option"
  ui_path_text :: wide
  ui_up :: bool
  ui_export :: bool
  ui_physical :: "u32 option"
  ui_picture :: wide
  ui_source_texts :: "wide list"
  ui_performance :: "wide list"
  ui_enrichment :: "wide \<times> wide"
  ui_progress :: "nat \<times> nat"
  ui_cancel_enabled :: bool
  ui_mount :: mount_page
  ui_status :: wide
  ui_errors :: "(wide \<times> wide) list"
  ui_theme :: nat
  ui_settings :: "string option"
  ui_ran :: "(string \<times> win_path \<times> win_path) list"
  ui_closed :: bool
  ui_busy :: bool
  ui_discovering :: "bool option"
  ui_opening :: "(u32 + wide) option"
  ui_enriching :: nat
  ui_reported :: "nat set"
  ui_exports :: "(string \<times> string \<times> host_path) list"
  ui_queue :: "posted list"

definition ui_error :: "string \<Rightarrow> wide \<Rightarrow> 's winui \<Rightarrow> 's winui" where
  "ui_error title text u = u\<lparr>ui_errors := ui_errors u @ [(wtext title, text)]\<rparr>"

definition ui_set_status :: "wide \<Rightarrow> 's winui \<Rightarrow> 's winui" where
  "ui_set_status text u = u\<lparr>ui_status := text\<rparr>"

definition ellipsis :: wide where "ellipsis = [0x2026]"

section \<open>The partition list\<close>

text \<open>Kind filter: 0 all, 1 HDL, 2 PFS, 3 the rest.\<close>

definition row_visible :: "string \<Rightarrow> nat \<Rightarrow> bool \<Rightarrow> partition_row_snapshot \<Rightarrow> bool" where
  "row_visible query kind_filter show_subs row \<longleftrightarrow>
     (show_subs \<or> \<not> prs_is_sub row) \<and>
     (if kind_filter = 1 then prs_kind row = Kind_hdl
      else if kind_filter = 2 then prs_kind row = Kind_pfs
      else if kind_filter = 3 then prs_kind row \<noteq> Kind_hdl \<and> prs_kind row \<noteq> Kind_pfs
      else True) \<and>
     (query = '''' \<or>
      contains_text query (lower_ascii (prs_title row @ '' '' @ prs_partition_id row @ '' '' @ prs_startup row)))"

definition refresh_partition_list :: "windows \<Rightarrow> 's winui \<Rightarrow> 's winui" where
  "refresh_partition_list W u =
     (let rows = filter (row_visible (lower_ascii (ui_query u)) (ui_kind_filter u) (ui_show_subs u)) (sn_rows (ui_snapshot u))
      in u\<lparr>ui_visible := rows, ui_partition_cells := map (partition_cells W) rows,
           ui_empty_state := \<not> (sn_open (ui_snapshot u) \<and> rows \<noteq> [])\<rparr>)"

section \<open>The file browser\<close>

definition refresh_files_list :: "windows \<Rightarrow> 's winui \<Rightarrow> 's winui" where
  "refresh_files_list W u =
     u\<lparr>ui_file_cells := map (file_cells W) (ui_entries u), ui_file_selected := None,
       ui_path_text := (if ui_path u = '''' then wtext ''/'' else wtext ''/'' @ winui_widen W (ui_path u)),
       ui_up := (ui_path u \<noteq> ''''), ui_export := False\<rparr>"

definition browse_current_pfs :: "('s \<Rightarrow> int) \<Rightarrow> 's device \<Rightarrow> windows \<Rightarrow> 's winui \<Rightarrow> 's winui" where
  "browse_current_pfs now D W u =
     (if \<not> sn_open (ui_snapshot u) \<or> ui_partition u = '''' then u
      else
        let (r, n) = browse_pfs now D (ui_partition u) (ui_path u) (ui_native u);
            u = u\<lparr>ui_native := n\<rparr>
        in if \<not> bs_ok r then ui_error ''PFS browser'' (winui_widen W (bs_error r)) u
           else refresh_files_list W (u\<lparr>ui_entries := bs_entries r\<rparr>))"

definition on_pfs_partition_changed :: "('s \<Rightarrow> int) \<Rightarrow> 's device \<Rightarrow> windows \<Rightarrow> 's winui \<Rightarrow> 's winui" where
  "on_pfs_partition_changed now D W u =
     (case ui_pfs_selected u of
        None \<Rightarrow> u
      | Some i \<Rightarrow>
          if length (ui_pfs u) \<le> i then u
          else browse_current_pfs now D W (u\<lparr>ui_partition := ui_pfs u ! i, ui_path := ''''\<rparr>))"

definition pfs_names :: "partition_row_snapshot list \<Rightarrow> string list" where
  "pfs_names =
     foldl (\<lambda>ids row. if \<not> prs_is_sub row \<and> prs_kind row = Kind_pfs \<and> prs_partition_id row \<notin> set ids
       then ids @ [prs_partition_id row] else ids) []"

definition pfs_selection :: "string \<Rightarrow> string list \<Rightarrow> nat option" where
  "pfs_selection old ids =
     (if old \<in> set ids then Some (length (takeWhile (\<lambda>i. i \<noteq> old) ids))
      else if ids \<noteq> [] then Some 0 else None)"

definition refresh_pfs_partitions :: "('s \<Rightarrow> int) \<Rightarrow> 's device \<Rightarrow> windows \<Rightarrow> 's winui \<Rightarrow> 's winui" where
  "refresh_pfs_partitions now D W u =
     (let ids = pfs_names (sn_rows (ui_snapshot u));
          selected = pfs_selection (ui_partition u) ids;
          u = u\<lparr>ui_pfs := ids, ui_pfs_selected := selected\<rparr>
      in case selected of
           Some i \<Rightarrow> on_pfs_partition_changed now D W (u\<lparr>ui_partition := ids ! i\<rparr>)
         | None \<Rightarrow> u\<lparr>ui_partition := '''', ui_entries := [], ui_file_cells := [], ui_file_selected := None,
             ui_export := False\<rparr>)"

definition on_files_selection_changed :: "nat option \<Rightarrow> 's winui \<Rightarrow> 's winui" where
  "on_files_selection_changed selected u =
     u\<lparr>ui_file_selected := selected,
       ui_export := (case selected of None \<Rightarrow> False | Some i \<Rightarrow> i < length (ui_entries u))\<rparr>"

definition on_files_double_tapped :: "('s \<Rightarrow> int) \<Rightarrow> 's device \<Rightarrow> windows \<Rightarrow> 's winui \<Rightarrow> 's winui" where
  "on_files_double_tapped now D W u =
     (case ui_file_selected u of
        None \<Rightarrow> u
      | Some i \<Rightarrow>
          if length (ui_entries u) \<le> i then u
          else
            let e = ui_entries u ! i
            in if bes_is_directory e
               then browse_current_pfs now D W (u\<lparr>ui_path := shell_join_path (ui_path u) (bes_name e)\<rparr>)
               else u)"

definition on_files_up :: "('s \<Rightarrow> int) \<Rightarrow> 's device \<Rightarrow> windows \<Rightarrow> 's winui \<Rightarrow> 's winui" where
  "on_files_up now D W u = browse_current_pfs now D W (u\<lparr>ui_path := shell_parent_path (ui_path u)\<rparr>)"

text \<open>The answer of the folder picker: an error to show, nothing, or a folder.\<close>

datatype picked_folder = Picker_failed string | Picker_cancelled | Picked host_path

definition export_selected_entry :: "windows \<Rightarrow> picked_folder \<Rightarrow> 's winui \<Rightarrow> 's winui" where
  "export_selected_entry W answer u =
     (case ui_file_selected u of
        None \<Rightarrow> u
      | Some i \<Rightarrow>
          if length (ui_entries u) \<le> i then u
          else
            let e = ui_entries u ! i
            in case answer of
                 Picker_failed problem \<Rightarrow> ui_error ''Export'' (wtext problem) u
               | Picker_cancelled \<Rightarrow> u
               | Picked folder \<Rightarrow>
                   ui_set_status (wtext ''Exporting '' @ winui_widen W (bes_name e) @ ellipsis)
                     (u\<lparr>ui_exports := ui_exports u @ [(ui_partition u, shell_join_path (ui_path u) (bes_name e),
                        folder @ [sanitize_host_filename (bes_name e)])]\<rparr>))"

section \<open>Figures\<close>

definition refresh_performance :: "('s \<Rightarrow> int) \<Rightarrow> 's device \<Rightarrow> windows \<Rightarrow> 's winui \<Rightarrow> 's winui" where
  "refresh_performance now D W u =
     (if \<not> sn_open (ui_snapshot u) then u\<lparr>ui_performance := [wtext ''No source'']\<rparr>
      else
        let sn = native_snapshot now D (ui_native u);
            (io, ahead, cache, c) = sn_stats sn;
            reads = io_read_calls io
        in u\<lparr>ui_snapshot := sn,
             ui_performance :=
               [winui_widen W (sn_source_name sn), wtext ''APA scan: '' @ format_ms (sc_scan_time_ns c),
                wtext ''Catalog build: '' @ build_ms (sn_catalog_build sn),
                wtext ''Backing reads: '' @ number_text (unat reads),
                wtext ''Backing bytes: '' @ winui_bytes (io_bytes_requested io),
                (if reads = 0 then wtext ''Average backing read: '' @ [0x2014]
                 else wtext ''Average backing read: '' @ average_ms (io_read_time_ns io) reads),
                wtext ''Cache hits/misses'' @ dash @ wtext ''browse '' @ number_text (unat (sc_browse_hits c)) @ wtext ''/'' @
                  number_text (unat (sc_browse_misses c)) @ wtext '', stat '' @ number_text (unat (sc_stat_hits c)) @
                  wtext ''/'' @ number_text (unat (sc_stat_misses c))]\<rparr>)"

definition source_texts :: "windows \<Rightarrow> bool \<Rightarrow> session_snapshot \<Rightarrow> wide list" where
  "source_texts W physical sn =
     (let (io, ahead, cache, c) = sn_stats sn; st = sn_storage sn; reads = io_read_calls io in
     [winui_widen W (sn_source_name sn), winui_bytes (sn_source_size_bytes sn), wtext (media_name (media_class st)),
      (if physical then wtext ''Physical PS2 HDD '' @ [0xB7] @ wtext '' GENERIC_READ''
       else wtext ''Disk image '' @ [0xB7] @ wtext '' read-only file source''),
      number_text (length (sn_rows sn)), number_text (total_hdl (sn_progress sn)), number_text (unat reads),
      wtext ''Media: '' @ wtext (media_name (media_class st)), wtext ''Bus: '' @ wtext (bus_name st),
      wtext (if seek_penalty_known st then ''Seek penalty: '' @ (if incurs_seek_penalty st then ''Yes'' else ''No'')
        else ''Seek penalty: Unknown''),
      wtext (if trim_known st then ''TRIM: '' @ (if trim_enabled st then ''Enabled'' else ''Disabled'') else ''TRIM: Unknown''),
      wtext ''APA scan: '' @ format_ms (sc_scan_time_ns c), wtext ''Catalog build: '' @ build_ms (sn_catalog_build sn),
      (if reads = 0 then wtext ''Avg. backing read: '' @ [0x2014]
       else wtext ''Avg. backing read: '' @ average_ms (io_read_time_ns io) reads)])"

text \<open>The text that shows the number of backing reads, and the one with the number of games.\<close>

definition note_reads :: "session_snapshot \<Rightarrow> 's winui \<Rightarrow> 's winui" where
  "note_reads sn u = u\<lparr>ui_source_texts := (ui_source_texts u)[6 := number_text (unat (io_read_calls (fst (sn_stats sn))))]\<rparr>"

definition note_games :: "session_snapshot \<Rightarrow> 's winui \<Rightarrow> 's winui" where
  "note_games sn u = u\<lparr>ui_source_texts := (ui_source_texts u)[5 := number_text (ready_hdl (sn_progress sn))]\<rparr>"

definition refresh_all_from_snapshot :: "('s \<Rightarrow> int) \<Rightarrow> 's device \<Rightarrow> windows \<Rightarrow> 's winui \<Rightarrow> 's winui" where
  "refresh_all_from_snapshot now D W u =
     (let sn = native_snapshot now D (ui_native u);
          u = u\<lparr>ui_snapshot := sn\<rparr>
      in if \<not> sn_open sn then u
         else refresh_performance now D W (refresh_pfs_partitions now D W (refresh_partition_list W
           (u\<lparr>ui_source_texts := source_texts W (ui_physical u \<noteq> None) sn\<rparr>))))"

section \<open>Enrichment\<close>

text \<open>The stop and the join of the earlier thread are left to the schedule: its tasks may still run.  A stop request
  (of the cancel button, an open or the next enrichment) is a step of the scheduler, at any time.\<close>

definition start_enrichment_thread :: "('s \<Rightarrow> int) \<Rightarrow> 's device \<Rightarrow> windows \<Rightarrow> bool \<Rightarrow> 's winui \<Rightarrow> 's winui" where
  "start_enrichment_thread now D W reset u =
     (if \<not> sn_open (ui_snapshot u) then u
      else
        let u = (if reset
              then let n = reset_enrichment (ui_native u)
                   in refresh_partition_list W (u\<lparr>ui_native := n, ui_snapshot := native_snapshot now D n\<rparr>)
              else u);
            games = total_hdl (sn_progress (ui_snapshot u))
        in if games = 0
           then u\<lparr>ui_enrichment := (wtext ''no HDL partitions'', wtext ''Nothing to enrich''),
                  ui_progress := (0, snd (ui_progress u)), ui_cancel_enabled := False\<rparr>
           else u\<lparr>ui_enrichment := (wtext ''metadata loading'', snd (ui_enrichment u)), ui_progress := (0, games),
                  ui_cancel_enabled := True, ui_enriching := ui_enriching u + 1\<rparr>)"

definition on_progress :: "('s \<Rightarrow> int) \<Rightarrow> 's device \<Rightarrow> windows \<Rightarrow> nat \<Rightarrow> nat \<Rightarrow> 's winui \<Rightarrow> 's winui" where
  "on_progress now D W completed candidates u =
     (let sn = native_snapshot now D (ui_native u)
      in refresh_partition_list W (note_reads sn (note_games sn
        (u\<lparr>ui_snapshot := sn, ui_progress := (completed, max 1 candidates),
           ui_enrichment := (fst (ui_enrichment u), number_text completed @ wtext '' / '' @ number_text candidates)\<rparr>))))"

definition on_enrichment_over :: "('s \<Rightarrow> int) \<Rightarrow> 's device \<Rightarrow> windows \<Rightarrow> bool \<Rightarrow> 's winui \<Rightarrow> 's winui" where
  "on_enrichment_over now D W cancelled u =
     refresh_performance now D W (refresh_partition_list W
       (u\<lparr>ui_snapshot := native_snapshot now D (ui_native u), ui_cancel_enabled := False,
          ui_enrichment := (if cancelled then (wtext ''metadata cancelled'', wtext ''Cancelled'')
            else (wtext ''metadata ready'', wtext ''Complete''))\<rparr>))"

section \<open>Opening a source\<close>

definition start_drive_discovery :: "bool \<Rightarrow> 's winui \<Rightarrow> 's winui" where
  "start_drive_discovery user_requested u =
     ui_set_status (wtext ''Scanning Windows disk interfaces for PS2 APA volumes'' @ ellipsis)
       (u\<lparr>ui_discovering := Some user_requested, ui_drive_labels := [], ui_drive_selected := None,
          ui_open_enabled := False\<rparr>)"

definition open_physical_async :: "u32 \<Rightarrow> 's winui \<Rightarrow> 's winui" where
  "open_physical_async index u =
     (if ui_busy u then u
      else ui_set_status (wtext ''Opening PhysicalDrive'' @ number_text (unat index) @ wtext '' read-only'' @ ellipsis)
        (u\<lparr>ui_busy := True, ui_opening := Some (Inl index)\<rparr>))"

definition open_image_async :: "wide \<Rightarrow> 's winui \<Rightarrow> 's winui" where
  "open_image_async path u =
     (if ui_busy u then u
      else ui_set_status (wtext ''Opening disk image read-only'' @ ellipsis)
        (u\<lparr>ui_busy := True, ui_opening := Some (Inr path)\<rparr>))"

definition drive_label :: "windows \<Rightarrow> physical_drive_probe \<Rightarrow> wide" where
  "drive_label W p =
     wtext ''PhysicalDrive'' @ number_text (pp_index p) @
     (if pp_friendly_name p = '''' then [] else dash @ winui_widen W (pp_friendly_name p)) @
     wtext '' '' @ [0xB7] @ wtext '' '' @ winui_bytes (pp_size_bytes p)"

definition handle_discovery :: "windows \<Rightarrow> physical_drive_probe list \<Rightarrow> bool \<Rightarrow> 's winui \<Rightarrow> 's winui" where
  "handle_discovery W probes user_requested u =
     (let access_denied = list_ex pp_access_denied probes;
          detected = filter pp_apa_detected probes;
          first = of_nat (pp_index (hd detected));
          u = u\<lparr>ui_detected := detected, ui_drive_labels := map (drive_label W) detected,
                ui_drive_selected := (if detected = [] then None else Some 0),
                ui_open_enabled := (detected \<noteq> [] \<or> ui_open_enabled u),
                ui_access_bar := (access_denied \<and> detected = [])\<rparr>
      in if detected = []
         then ui_set_status (if access_denied
           then wtext ''Raw disk access denied'' @ dash @ wtext ''restart as Administrator or open an image''
           else wtext ''No PS2 APA HDD detected'' @ dash @ wtext ''connect a disk or open an image'') u
         else if \<not> sn_open (ui_snapshot u) \<and> length detected = 1 then open_physical_async first u
         else
           let u = ui_set_status (wtext ''Detected '' @ number_text (length detected) @ wtext '' PS2 APA HDD'' @
             (if length detected = 1 then [] else wtext ''s'') @ dash @ wtext ''choose a source above'') u
           in if user_requested \<and> length detected = 1 then open_physical_async first u else u)"

definition finish_source_open ::
  "('s \<Rightarrow> int) \<Rightarrow> 's device \<Rightarrow> windows \<Rightarrow> string option \<Rightarrow> u32 option \<Rightarrow> wide \<Rightarrow> 's winui \<Rightarrow> 's winui" where
  "finish_source_open now D W failed physical picture u =
     (let u = u\<lparr>ui_busy := False\<rparr>
      in case failed of
           Some e \<Rightarrow> ui_error ''PS2 DriveForge'' (winui_widen W e) (ui_set_status (wtext ''Could not open source'') u)
         | None \<Rightarrow>
             (let u = start_enrichment_thread now D W False (refresh_all_from_snapshot now D W
                    (u\<lparr>ui_physical := physical, ui_picture := picture, ui_access_bar := False, ui_partition := '''',
                       ui_path := ''''\<rparr>))
              in ui_set_status (wtext ''Source opened read-only'' @ dash @ wtext ''APA catalog ready'')
                (u\<lparr>ui_mount := (ui_mount u)\<lparr>mp_mount := True\<rparr>\<rparr>)))"

section \<open>Settings and files\<close>

text \<open>\<open>wf_module\<close> and \<open>wf_app_data\<close> are the executable and the local data folder of the user, \<open>wf_execute\<close>
  the result of \<open>ShellExecuteW\<close> for a verb, a file and a directory; it runs the file when it exceeds 32.\<close>

record winui_files =
  wf_module :: win_path
  wf_app_data :: win_path
  wf_exists :: "win_path \<Rightarrow> bool"
  wf_execute :: "string \<Rightarrow> win_path \<Rightarrow> win_path \<Rightarrow> int"

definition drop_folder :: "string \<Rightarrow> win_path \<Rightarrow> win_path" where
  "drop_folder name path = (if path \<noteq> [] \<and> last path = wtext name then parent_path path else path)"

definition package_root :: "winui_files \<Rightarrow> win_path" where
  "package_root F = drop_folder ''app'' (drop_folder ''winui'' (parent_path (wf_module F)))"

definition mount_helper_path :: "winui_files \<Rightarrow> win_path" where
  "mount_helper_path F = package_root F @ [wtext ''tools'', wtext ''PS2-DriveForge-Mount.exe'']"

definition winui_launcher_path :: "winui_files \<Rightarrow> win_path" where
  "winui_launcher_path F = package_root F @ [wtext ''PS2-DriveForge.exe'']"

definition winui_log_path :: "winui_files \<Rightarrow> win_path" where
  "winui_log_path F = wf_app_data F @ [wtext ''PS2 DriveForge'', wtext ''Logs'', wtext ''winui-startup.log'']"

definition ui_execute :: "winui_files \<Rightarrow> string \<Rightarrow> win_path \<Rightarrow> win_path \<Rightarrow> 's winui \<Rightarrow> int \<times> 's winui" where
  "ui_execute F verb file directory u =
     (let result = wf_execute F verb file directory
      in (result, if 32 < result then u\<lparr>ui_ran := ui_ran u @ [(verb, file, directory)]\<rparr> else u))"

text \<open>The settings file holds one word; \<open>input >> value\<close> reads the first one.\<close>

definition is_space_char :: "char \<Rightarrow> bool" where
  "is_space_char c \<longleftrightarrow> c = CHR '' '' \<or> 9 \<le> char_code c \<and> char_code c \<le> 13"

definition theme_index :: "string option \<Rightarrow> nat" where
  "theme_index content =
     (case content of
        None \<Rightarrow> 0
      | Some text \<Rightarrow>
          let word = takeWhile (\<lambda>c. \<not> is_space_char c) (dropWhile is_space_char text)
          in if word = ''light'' then 1 else if word = ''dark'' then 2 else 0)"

definition theme_text :: "nat \<Rightarrow> string" where
  "theme_text index = (if index = 1 then ''light'' else if index = 2 then ''dark'' else ''system'')"

text \<open>A theme that was chosen and saved is the one that the next start loads.\<close>

lemma theme_reloads: "index \<le> 2 \<Longrightarrow> theme_index (Some (theme_text index)) = index"
  by (auto simp: le_Suc_eq numeral_2_eq_2 theme_text_def) code_simp+

definition on_theme_changed :: "int \<Rightarrow> bool \<Rightarrow> 's winui \<Rightarrow> 's winui" where
  "on_theme_changed selected writable u =
     (let index = nat (max 0 selected)
      in u\<lparr>ui_theme := index, ui_settings := (if writable then Some (theme_text index) else ui_settings u)\<rparr>)"

definition open_startup_log :: "winui_files \<Rightarrow> 's winui \<Rightarrow> 's winui" where
  "open_startup_log F u =
     (if \<not> wf_exists F (winui_log_path F)
      then ui_error ''Startup log'' (wtext ''No WinUI startup log has been created yet.'') u
      else snd (ui_execute F ''open'' (winui_log_path F) [] u))"

definition open_legacy_frontend :: "winui_files \<Rightarrow> 's winui \<Rightarrow> 's winui" where
  "open_legacy_frontend F u =
     (let legacy = legacy_path (package_root F)
      in if \<not> wf_exists F legacy
         then ui_error ''Legacy Win32'' (wtext ''The Legacy Win32 frontend is not present in this package.'') u
         else snd (ui_execute F ''open'' legacy (package_root F) u))"

section \<open>Handlers\<close>

text \<open>The mount page writes to the status bar and shows errors as the window does.\<close>

definition on_mount_page :: "(mount_page \<Rightarrow> mount_page) \<Rightarrow> 's winui \<Rightarrow> 's winui" where
  "on_mount_page f u =
     (let p = f ((ui_mount u)\<lparr>mp_status := ui_status u, mp_errors := ui_errors u\<rparr>)
      in u\<lparr>ui_mount := p, ui_status := mp_status p, ui_errors := mp_errors p\<rparr>)"

definition show_page :: "('s \<Rightarrow> int) \<Rightarrow> 's device \<Rightarrow> windows \<Rightarrow> bool \<times> u32 option \<Rightarrow> window_page \<Rightarrow> 's winui \<Rightarrow> 's winui" where
  "show_page now D W seen p u =
     (let u = u\<lparr>ui_page := p\<rparr>
      in case p of
           Files_page \<Rightarrow> browse_current_pfs now D W u
         | Mount_page \<Rightarrow> on_mount_page (poll_mount_state (sn_open (ui_snapshot u)) seen) u
         | Performance_page \<Rightarrow> refresh_performance now D W u
         | _ \<Rightarrow> u)"

definition on_open_drive :: "'s winui \<Rightarrow> 's winui" where
  "on_open_drive u =
     (case ui_drive_selected u of
        None \<Rightarrow> u
      | Some i \<Rightarrow> if i < length (ui_detected u) then open_physical_async (of_nat (pp_index (ui_detected u ! i))) u else u)"

definition winui_open_volume :: "'s winui \<Rightarrow> 's winui" where
  "winui_open_volume u =
     (if mp_point (ui_mount u) = [] then u
      else u\<lparr>ui_ran := ui_ran u @ [(''open'', [mp_point (ui_mount u)], [])]\<rparr>)"

definition on_closed :: "shell_env \<Rightarrow> 's winui \<Rightarrow> 's winui" where
  "on_closed S u =
     (let u = (if mp_point (ui_mount u) \<noteq> [] then on_mount_page (shell_request_unmount S False) u else u)
      in u\<lparr>ui_mount := (ui_mount u)\<lparr>mp_timer := False\<rparr>, ui_closed := True\<rparr>)"

definition restart_as_administrator :: "winui_files \<Rightarrow> shell_env \<Rightarrow> 's winui \<Rightarrow> 's winui" where
  "restart_as_administrator F S u =
     (let target = (if wf_exists F (winui_launcher_path F) then winui_launcher_path F else wf_module F);
          (result, u) = ui_execute F ''runas'' target (parent_path target) u
      in if 32 < result then on_closed S u
         else if result \<noteq> 5
         then ui_error ''Administrator restart'' (wtext ''Windows could not restart DriveForge with elevated privileges.'') u
         else u)"

definition on_reset_stats :: "('s \<Rightarrow> int) \<Rightarrow> 's device \<Rightarrow> windows \<Rightarrow> 's winui \<Rightarrow> 's winui" where
  "on_reset_stats now D W u =
     ui_set_status (wtext ''Performance counters reset'')
       (refresh_all_from_snapshot now D W (u\<lparr>ui_native := native_reset_stats (ui_native u)\<rparr>))"

text \<open>The clicks, with what Windows answers: a chosen file or folder, and for the mount page the shell, whether
  the volume is there and whether the helper has ended.\<close>

datatype click =
    Page_chosen window_page "bool \<times> u32 option"
  | Rescan_clicked
  | Drive_selected "nat option"
  | Open_drive_clicked
  | Open_image_clicked "wide option"
  | Filter_typed string
  | Kind_chosen nat
  | Subs_toggled bool
  | Refresh_metadata_clicked
  | Pfs_partition_chosen "nat option"
  | File_selected "nat option"
  | File_double_tapped
  | Up_clicked
  | Export_clicked picked_folder
  | Reset_stats_clicked
  | Telemetry_tick
  | Mount_clicked shell_env "bool \<times> u32 option" "bool \<times> u32 option"
  | Unmount_clicked shell_env
  | Explorer_clicked
  | Mount_tick "bool \<times> u32 option"
  | Theme_chosen int bool
  | Restart_clicked winui_files shell_env
  | Log_clicked winui_files
  | Legacy_clicked winui_files
  | Window_closed shell_env

fun on_click :: "('s \<Rightarrow> int) \<Rightarrow> 's device \<Rightarrow> windows \<Rightarrow> click \<Rightarrow> 's winui \<Rightarrow> 's winui" where
  "on_click now D W (Page_chosen p seen) u = show_page now D W seen p u"
| "on_click now D W Rescan_clicked u = start_drive_discovery True u"
| "on_click now D W (Drive_selected i) u = u\<lparr>ui_drive_selected := i\<rparr>"
| "on_click now D W Open_drive_clicked u = on_open_drive u"
| "on_click now D W (Open_image_clicked path) u = (case path of None \<Rightarrow> u | Some path \<Rightarrow> open_image_async path u)"
| "on_click now D W (Filter_typed query) u = refresh_partition_list W (u\<lparr>ui_query := query\<rparr>)"
| "on_click now D W (Kind_chosen k) u = refresh_partition_list W (u\<lparr>ui_kind_filter := k\<rparr>)"
| "on_click now D W (Subs_toggled on) u = refresh_partition_list W (u\<lparr>ui_show_subs := on\<rparr>)"
| "on_click now D W Refresh_metadata_clicked u = start_enrichment_thread now D W True u"
| "on_click now D W (Pfs_partition_chosen i) u = on_pfs_partition_changed now D W (u\<lparr>ui_pfs_selected := i\<rparr>)"
| "on_click now D W (File_selected i) u = on_files_selection_changed i u"
| "on_click now D W File_double_tapped u = on_files_double_tapped now D W u"
| "on_click now D W Up_clicked u = on_files_up now D W u"
| "on_click now D W (Export_clicked answer) u = export_selected_entry W answer u"
| "on_click now D W Reset_stats_clicked u = on_reset_stats now D W u"
| "on_click now D W Telemetry_tick u =
     (if sn_open (ui_snapshot u)
      then
        let sn = native_snapshot now D (ui_native u)
        in refresh_performance now D W (note_reads sn (u\<lparr>ui_snapshot := sn\<rparr>))
      else u)"
| "on_click now D W (Mount_clicked S before after) u =
     on_mount_page (shell_start_mount S (sn_open (ui_snapshot u)) (ui_physical u) (ui_picture u) before after) u"
| "on_click now D W (Unmount_clicked S) u = on_mount_page (shell_request_unmount S True) u"
| "on_click now D W Explorer_clicked u = winui_open_volume u"
| "on_click now D W (Mount_tick seen) u =
     (if mp_timer (ui_mount u) then on_mount_page (poll_mount_state (sn_open (ui_snapshot u)) seen) u else u)"
| "on_click now D W (Theme_chosen selected writable) u = on_theme_changed selected writable u"
| "on_click now D W (Restart_clicked F S) u = restart_as_administrator F S u"
| "on_click now D W (Log_clicked F) u = open_startup_log F u"
| "on_click now D W (Legacy_clicked F) u = open_legacy_frontend F u"
| "on_click now D W (Window_closed S) u = on_closed S u"

fun on_posted :: "('s \<Rightarrow> int) \<Rightarrow> 's device \<Rightarrow> windows \<Rightarrow> (host_path \<Rightarrow> wide) \<Rightarrow> posted \<Rightarrow> 's winui \<Rightarrow> 's winui" where
  "on_posted now D W path_text (Probes_found probes user_requested) u = handle_discovery W probes user_requested u"
| "on_posted now D W path_text (Source_finished failed physical picture) u = finish_source_open now D W failed physical picture u"
| "on_posted now D W path_text (Export_finished failed destination) u =
     refresh_performance now D W
       (case failed of
          None \<Rightarrow> ui_set_status (wtext ''Export complete: '' @ path_text destination) u
        | Some e \<Rightarrow> ui_error ''Export'' (winui_widen W e) (ui_set_status (wtext ''Export failed'') u))"
| "on_posted now D W path_text (Enrichment_progress completed candidates) u = on_progress now D W completed candidates u"
| "on_posted now D W path_text (Enrichment_over cancelled) u = on_enrichment_over now D W cancelled u"

text \<open>The constructor: \<open>settings\<close> is the content of the settings file, if there is one.\<close>

definition new_winui :: "string option \<Rightarrow> 's winui" where
  "new_winui settings =
     start_drive_discovery False
       \<lparr>ui_native = new_native, ui_snapshot = blank_snapshot, ui_page = Hdd_page, ui_detected = [], ui_drive_labels = [],
        ui_drive_selected = None, ui_open_enabled = False, ui_access_bar = False, ui_query = '''', ui_kind_filter = 0,
        ui_show_subs = True, ui_visible = [], ui_partition_cells = [], ui_empty_state = True, ui_pfs = [],
        ui_pfs_selected = None, ui_partition = '''', ui_path = '''', ui_entries = [], ui_file_cells = [],
        ui_file_selected = None, ui_path_text = [], ui_up = False, ui_export = False, ui_physical = None,
        ui_picture = [], ui_source_texts = [], ui_performance = [], ui_enrichment = ([], []), ui_progress = (0, 0),
        ui_cancel_enabled = False,
        ui_mount = \<lparr>mp_point = [], mp_process = False, mp_timer = False, mp_state = [], mp_letter = [],
          mp_explorer = False, mp_unmount = False, mp_mount = False, mp_status = [], mp_errors = [], mp_runs = []\<rparr>,
        ui_status = [], ui_errors = [], ui_theme = theme_index settings, ui_settings = settings, ui_ran = [],
        ui_closed = False, ui_busy = False, ui_discovering = None, ui_opening = None, ui_enriching = 0,
        ui_reported = {}, ui_exports = [], ui_queue = []\<rparr>"

section \<open>Any run of the window\<close>

text \<open>A click, a posted result, or a step of one of the threads, in any order.\<close>

inductive winui_step ::
  "('s \<Rightarrow> int) \<Rightarrow> 's device \<Rightarrow> windows \<Rightarrow> (u32 \<Rightarrow> 's \<Rightarrow> bool) \<Rightarrow> (wide \<Rightarrow> 's \<Rightarrow> bool) \<Rightarrow> 's winui \<Rightarrow> 's winui \<Rightarrow> bool"
  for now D W drive_source picture_source where
  click: "winui_step now D W drive_source picture_source u (on_click now D W c u)"
    if "\<not> ui_closed u" "c \<noteq> Open_image_clicked (Some [])"
| dispatch: "winui_step now D W drive_source picture_source u (on_posted now D W path_text x (u\<lparr>ui_queue := xs\<rparr>))"
    if "ui_queue u = x # xs"
| discovered: "winui_step now D W drive_source picture_source u
      (u\<lparr>ui_discovering := None, ui_queue := ui_queue u @ [Probes_found probes user_requested]\<rparr>)"
    if "ui_discovering u = Some user_requested"
| open_drive: "winui_step now D W drive_source picture_source u
      (u\<lparr>ui_native := n, ui_opening := None, ui_queue := ui_queue u @ [Source_finished failed (Some index) []]\<rparr>)"
    if "ui_opening u = Some (Inl index)" "native_open_physical now D opened index elapsed (ui_native u) = (failed, n)"
      "\<And>s. opened index = Inr s \<Longrightarrow> drive_source index s"
| open_picture: "winui_step now D W drive_source picture_source u
      (u\<lparr>ui_native := n, ui_opening := None, ui_queue := ui_queue u @ [Source_finished failed None path]\<rparr>)"
    if "ui_opening u = Some (Inr path)" "native_open_image now D opened_image path elapsed (ui_native u) = (failed, n)"
      "\<And>s. opened_image path = Some s \<Longrightarrow> picture_source path s"
| enrichment_begins: "winui_step now D W drive_source picture_source u
      (u\<lparr>ui_native := begin_enrichment now D (ui_native u), ui_enriching := ui_enriching u - 1\<rparr>)"
    if "0 < ui_enriching u"
| enrichment_works: "winui_step now D W drive_source picture_source u
      (u\<lparr>ui_native := n, ui_queue := ui_queue u @
        map (\<lambda>(completed, candidates). Enrichment_progress completed candidates)
          (drop (length (nv_progress (ui_native u))) (nv_progress n))\<rparr>)"
    if "t < length (nv_tasks (ui_native u))" "n = after_work t e (ui_native u)"
      "enrichment_step (stack_device now D) (et_partitions (nv_tasks (ui_native u) ! t)) (task_run (ui_native u) t) e"
| enrichment_ends: "winui_step now D W drive_source picture_source u
      (u\<lparr>ui_reported := insert t (ui_reported u),
         ui_queue := ui_queue u @ [Enrichment_over (en_stop (et_run (nv_tasks (ui_native u) ! t)))]\<rparr>)"
    if "t < length (nv_tasks (ui_native u))" "all_finished (et_run (nv_tasks (ui_native u) ! t))" "t \<notin> ui_reported u"
| export: "winui_step now D W drive_source picture_source u
      (u\<lparr>ui_native := n, ui_exports := waiting, ui_queue := ui_queue u @ [Export_finished failed destination]\<rparr>)"
    if "ui_exports u = (pid, path, destination) # waiting"
      "native_export now D host pid path destination (ui_native u) = (failed, n)"

inductive winui_reachable ::
  "('s \<Rightarrow> int) \<Rightarrow> 's device \<Rightarrow> windows \<Rightarrow> (u32 \<Rightarrow> 's \<Rightarrow> bool) \<Rightarrow> (wide \<Rightarrow> 's \<Rightarrow> bool) \<Rightarrow> 's winui \<Rightarrow> bool"
  for now D W drive_source picture_source where
  new: "winui_reachable now D W drive_source picture_source (new_winui settings)"
| step: "winui_reachable now D W drive_source picture_source u \<Longrightarrow>
    winui_step now D W drive_source picture_source u u' \<Longrightarrow> winui_reachable now D W drive_source picture_source u'"

section \<open>The window and the controller agree\<close>

definition ui_core :: "'s winui \<Rightarrow> 's native \<times> u32 option \<times> wide \<times> bool \<times> (u32 + wide) option \<times> posted list" where
  "ui_core u = (ui_native u, ui_physical u, ui_picture u, ui_busy u, ui_opening u, ui_queue u)"

lemma core_texts [simp]:
  "ui_core (ui_error title w u) = ui_core u" "ui_core (ui_set_status w u) = ui_core u"
  "ui_core (refresh_partition_list W u) = ui_core u" "ui_core (refresh_files_list W u) = ui_core u"
  "ui_core (on_files_selection_changed i u) = ui_core u" "ui_core (note_reads sn u) = ui_core u"
  "ui_core (note_games sn u) = ui_core u"
  by (simp_all add: ui_core_def ui_error_def ui_set_status_def refresh_partition_list_def refresh_files_list_def
      on_files_selection_changed_def note_reads_def note_games_def Let_def)

lemma core_settings [simp]:
  "ui_core (on_mount_page f u) = ui_core u" "ui_core (winui_open_volume u) = ui_core u" "ui_core (on_closed S u) = ui_core u"
  "ui_core (on_theme_changed i b u) = ui_core u" "ui_core (snd (ui_execute F verb file directory u)) = ui_core u"
  by (simp_all add: ui_core_def on_mount_page_def winui_open_volume_def on_closed_def on_theme_changed_def ui_execute_def
      Let_def)

lemma core_programs [simp]:
  "ui_core (open_startup_log F u) = ui_core u" "ui_core (open_legacy_frontend F u) = ui_core u"
  "ui_core (restart_as_administrator F S u) = ui_core u"
  by (simp_all add: open_startup_log_def open_legacy_frontend_def restart_as_administrator_def Let_def split_def)

lemma core_performance [simp]: "ui_core (refresh_performance now D W u) = ui_core u"
  by (simp add: ui_core_def refresh_performance_def Let_def split_def)

lemma core_export [simp]: "ui_core (export_selected_entry W answer u) = ui_core u"
  by (auto simp: export_selected_entry_def Let_def split: option.splits picked_folder.splits) (simp add: ui_core_def)

lemma core_start_discovery [simp]: "ui_core (start_drive_discovery b u) = ui_core u"
  by (simp add: start_drive_discovery_def) (simp add: ui_core_def)

text \<open>A step that opens nothing: the source, the pending open and the queue stay, and the controller keeps its
  installed source.\<close>

definition quiet :: "('s \<Rightarrow> bool) \<Rightarrow> ('s \<Rightarrow> image) \<Rightarrow> 's winui \<Rightarrow> 's winui \<Rightarrow> bool" where
  "quiet ok img u v \<longleftrightarrow>
     snd (ui_core v) = snd (ui_core u) \<and>
     (native_inv ok img (ui_native u) \<longrightarrow>
        native_inv ok img (ui_native v) \<and> installed_image img (ui_native v) = installed_image img (ui_native u))"

lemma quiet_refl: "quiet ok img u u"
  by (simp add: quiet_def)

lemma quiet_core: "ui_core v' = ui_core v \<Longrightarrow> quiet ok img u v' = quiet ok img u v"
  by (simp add: quiet_def ui_core_def)

lemmas quiet_texts [simp] = core_texts [THEN quiet_core] core_performance [THEN quiet_core] core_export [THEN quiet_core]
  core_start_discovery [THEN quiet_core] core_settings [THEN quiet_core] core_programs [THEN quiet_core]

lemma quiet_native:
  assumes "quiet ok img u v"
    and "native_inv ok img (ui_native v) \<Longrightarrow> native_inv ok img n \<and> installed_image img n = installed_image img (ui_native v)"
  shows "quiet ok img u (v\<lparr>ui_native := n\<rparr>)"
  using assms by (auto simp: quiet_def ui_core_def)

lemma quiet_update:
  assumes "quiet ok img u v"
  shows "quiet ok img u (v\<lparr>ui_snapshot := sn\<rparr>)" "quiet ok img u (v\<lparr>ui_path := path\<rparr>)"
    "quiet ok img u (v\<lparr>ui_partition := pid, ui_path := path\<rparr>)" "quiet ok img u (v\<lparr>ui_page := p\<rparr>)"
    "quiet ok img u (v\<lparr>ui_mount := mp\<rparr>)" "quiet ok img u (v\<lparr>ui_source_texts := ws\<rparr>)"
    "quiet ok img u (v\<lparr>ui_query := q\<rparr>)" "quiet ok img u (v\<lparr>ui_kind_filter := k\<rparr>)" "quiet ok img u (v\<lparr>ui_show_subs := b\<rparr>)"
    "quiet ok img u (v\<lparr>ui_drive_selected := i\<rparr>)" "quiet ok img u (v\<lparr>ui_pfs_selected := i\<rparr>)"
    "quiet ok img u (v\<lparr>ui_pfs := ids, ui_pfs_selected := i, ui_partition := pid\<rparr>)"
    "quiet ok img u (v\<lparr>ui_pfs := ids, ui_pfs_selected := i, ui_partition := pid, ui_entries := es, ui_file_cells := cs,
       ui_file_selected := i, ui_export := b\<rparr>)"
    "quiet ok img u (v\<lparr>ui_enrichment := texts, ui_progress := n, ui_cancel_enabled := b\<rparr>)"
    "quiet ok img u (v\<lparr>ui_enrichment := texts, ui_progress := n, ui_cancel_enabled := b, ui_enriching := m\<rparr>)"
    "quiet ok img u (v\<lparr>ui_snapshot := sn, ui_progress := n, ui_enrichment := texts\<rparr>)"
    "quiet ok img u (v\<lparr>ui_snapshot := sn, ui_cancel_enabled := b, ui_enrichment := texts\<rparr>)"
    "quiet ok img u (v\<lparr>ui_performance := ws\<rparr>)" "quiet ok img u (v\<lparr>ui_entries := es\<rparr>)"
  using assms by (simp_all add: quiet_def ui_core_def)

context reliable_device
begin

lemma quiet_browse:
  assumes "quiet ok img u v"
  shows "quiet ok img u (browse_current_pfs now D W v)"
proof -
  have kept: "native_inv ok img (snd (browse_pfs now D pid path n)) \<and>
      installed_image img (snd (browse_pfs now D pid path n)) = installed_image img n" if "native_inv ok img n" for n pid path
    using installed_browse [OF that] inv_native_step [OF native_step.browse that] by blast
  have quiet: "quiet ok img u (v\<lparr>ui_native := snd (browse_pfs now D (ui_partition v) (ui_path v) (ui_native v))\<rparr>)"
    by (rule quiet_native [OF assms kept])
  from this quiet_update(19) [OF this] show ?thesis
    using assms by (simp add: browse_current_pfs_def split_def Let_def)
qed

lemma quiet_partition_changed: "quiet ok img u v \<Longrightarrow> quiet ok img u (on_pfs_partition_changed now D W v)"
  by (simp add: on_pfs_partition_changed_def quiet_browse quiet_update split: option.split)

lemma quiet_pfs_partitions: "quiet ok img u v \<Longrightarrow> quiet ok img u (refresh_pfs_partitions now D W v)"
  by (simp add: refresh_pfs_partitions_def Let_def quiet_partition_changed quiet_update split: option.split)

lemma quiet_refresh_all: "quiet ok img u v \<Longrightarrow> quiet ok img u (refresh_all_from_snapshot now D W v)"
  by (simp add: refresh_all_from_snapshot_def Let_def quiet_pfs_partitions quiet_update)

lemma quiet_enrichment: "quiet ok img u v \<Longrightarrow> quiet ok img u (start_enrichment_thread now D W reset v)"
proof -
  assume v: "quiet ok img u v"
  have "native_inv ok img (reset_enrichment n) \<and> installed_image img (reset_enrichment n) = installed_image img n"
    if "native_inv ok img n" for n
    using installed_enrichments(1) inv_native_step [OF native_step.reset that] by blast
  then have "quiet ok img u (v\<lparr>ui_native := reset_enrichment (ui_native v)\<rparr>)" by (rule quiet_native [OF v])
  then have reset: "quiet ok img u (refresh_partition_list W (v\<lparr>ui_native := reset_enrichment (ui_native v), ui_snapshot := sn\<rparr>))" for sn
    by (simp add: quiet_update)
  show ?thesis
    using v reset by (simp add: start_enrichment_thread_def Let_def quiet_update)
qed

lemma quiet_show_page: "quiet ok img u v \<Longrightarrow> quiet ok img u (show_page now D W seen p v)"
  by (simp add: show_page_def Let_def quiet_browse quiet_update split: window_page.split)

lemma quiet_reset_stats: "quiet ok img u v \<Longrightarrow> quiet ok img u (on_reset_stats now D W v)"
proof -
  assume v: "quiet ok img u v"
  have "native_inv ok img (native_reset_stats n) \<and> installed_image img (native_reset_stats n) = installed_image img n"
    if "native_inv ok img n" for n
    using installed_reset_stats [OF that] inv_native_step [OF native_step.reset_stats that] by blast
  then have "quiet ok img u (v\<lparr>ui_native := native_reset_stats (ui_native v)\<rparr>)" by (rule quiet_native [OF v])
  then show ?thesis by (simp add: on_reset_stats_def quiet_refresh_all)
qed

lemma quiet_double_tap: "quiet ok img u v \<Longrightarrow> quiet ok img u (on_files_double_tapped now D W v)"
  by (simp add: on_files_double_tapped_def Let_def quiet_browse quiet_update split: option.split)

lemma quiet_files_up: "quiet ok img u v \<Longrightarrow> quiet ok img u (on_files_up now D W v)"
  by (simp add: on_files_up_def quiet_browse quiet_update)

lemma quiet_posted:
  assumes "quiet ok img u v"
  shows "quiet ok img u (on_posted now D W path_text (Export_finished failed destination) v)"
    "quiet ok img u (on_posted now D W path_text (Enrichment_progress completed candidates) v)"
    "quiet ok img u (on_posted now D W path_text (Enrichment_over cancelled) v)"
  using assms
  by (simp_all add: on_progress_def on_enrichment_over_def Let_def quiet_update split: option.split)

end

text \<open>The disk that a drive number or an image path names.\<close>

definition disk_of :: "(u32 \<Rightarrow> image) \<Rightarrow> (wide \<Rightarrow> image) \<Rightarrow> u32 option \<Rightarrow> wide \<Rightarrow> image option" where
  "disk_of drives pictures physical picture =
     (case physical of
        Some i \<Rightarrow> Some (drives i)
      | None \<Rightarrow> if picture \<noteq> [] then Some (pictures picture) else None)"

fun source_finished :: "posted \<Rightarrow> bool" where
  "source_finished (Source_finished failed physical picture) = True"
| "source_finished _ = False"

text \<open>At most one open is under way, exactly while the window is busy; when it has succeeded, its result names the
  installed source, and before that the window does.\<close>

definition winui_inv :: "('s \<Rightarrow> bool) \<Rightarrow> ('s \<Rightarrow> image) \<Rightarrow> (u32 \<Rightarrow> image) \<Rightarrow> (wide \<Rightarrow> image) \<Rightarrow> 's winui \<Rightarrow> bool" where
  "winui_inv ok img drives pictures u \<longleftrightarrow>
     native_inv ok img (ui_native u) \<and>
     length (filter source_finished (ui_queue u)) + (if ui_opening u = None then 0 else 1) = (if ui_busy u then 1 else 0 :: nat) \<and>
     ui_opening u \<noteq> Some (Inr []) \<and>
     (\<forall>physical picture. Source_finished None physical picture \<in> set (ui_queue u) \<longrightarrow>
        installed_image img (ui_native u) = disk_of drives pictures physical picture) \<and>
     ((\<forall>physical picture. Source_finished None physical picture \<notin> set (ui_queue u)) \<longrightarrow>
        installed_image img (ui_native u) = disk_of drives pictures (ui_physical u) (ui_picture u))"

lemma inv_core: "ui_core v = ui_core u \<Longrightarrow> winui_inv ok img drives pictures v = winui_inv ok img drives pictures u"
  by (simp add: winui_inv_def ui_core_def)

lemmas inv_texts [simp] = core_texts [THEN inv_core] core_performance [THEN inv_core]

lemma inv_quiet: "quiet ok img u v \<Longrightarrow> winui_inv ok img drives pictures u \<Longrightarrow> winui_inv ok img drives pictures v"
  unfolding winui_inv_def quiet_def ui_core_def by simp

lemma inv_open_async:
  assumes "winui_inv ok img drives pictures u"
  shows "winui_inv ok img drives pictures (open_physical_async index u)"
    "path \<noteq> [] \<Longrightarrow> winui_inv ok img drives pictures (open_image_async path u)"
  using assms
  by (simp_all add: open_physical_async_def open_image_async_def) (simp_all add: winui_inv_def split: if_splits)

lemma inv_discovery:
  assumes "winui_inv ok img drives pictures u"
  shows "winui_inv ok img drives pictures (handle_discovery W probes user_requested u)"
proof -
  have "winui_inv ok img drives pictures (u\<lparr>ui_detected := d, ui_drive_labels := l, ui_drive_selected := i,
      ui_open_enabled := e, ui_access_bar := b\<rparr>)" for d l i e b
    using assms by (rule inv_core [THEN iffD2, rotated]) (simp add: ui_core_def)
  then show ?thesis
    unfolding handle_discovery_def Let_def by (simp only: inv_texts inv_open_async split: if_split) simp
qed

context reliable_device
begin

lemma quiet_click:
  assumes "\<And>path. c \<noteq> Open_image_clicked path" "c \<noteq> Open_drive_clicked"
  shows "quiet ok img u (on_click now D W c u)"
  using quiet_refl [of ok img u] assms(2) assms(1) [of "case c of Open_image_clicked path \<Rightarrow> path"]
  by (cases c)
    (simp_all add: Let_def quiet_update quiet_show_page quiet_partition_changed quiet_double_tap quiet_files_up
      quiet_reset_stats quiet_enrichment)

lemma inv_click:
  assumes "winui_inv ok img drives pictures u" "c \<noteq> Open_image_clicked (Some [])"
  shows "winui_inv ok img drives pictures (on_click now D W c u)"
proof (cases "(\<forall>path. c \<noteq> Open_image_clicked path) \<and> c \<noteq> Open_drive_clicked")
  case True
  with inv_quiet [OF quiet_click assms(1)] show ?thesis by blast
next
  case False
  then consider path where "c = Open_image_clicked path" | "c = Open_drive_clicked" by blast
  then show ?thesis
  proof cases
    case 1
    then show ?thesis using assms inv_open_async(2) by (cases path) auto
  next
    case 2
    then show ?thesis using assms by (simp add: on_open_drive_def inv_open_async split: option.split)
  qed
qed

lemma inv_finish:
  assumes inv: "winui_inv ok img drives pictures u" and queue: "ui_queue u = Source_finished failed physical picture # xs"
  shows "winui_inv ok img drives pictures (finish_source_open now D W failed physical picture (u\<lparr>ui_queue := xs\<rparr>))"
proof -
  have one: "filter source_finished xs = []" "ui_opening u = None" "ui_busy u"
    using inv queue by (auto simp: winui_inv_def split: if_splits)
  then have none: "Source_finished f p q \<notin> set xs" for f p q
    by (auto simp: filter_empty_conv)
  show ?thesis
  proof (cases failed)
    case (Some e)
    then have "winui_inv ok img drives pictures (u\<lparr>ui_queue := xs, ui_busy := False\<rparr>)"
      using inv queue one none by (simp add: winui_inv_def)
    then show ?thesis using Some by (simp add: finish_source_open_def)
  next
    case None
    let ?v = "u\<lparr>ui_queue := xs, ui_busy := False, ui_physical := physical, ui_picture := picture, ui_access_bar := False,
      ui_partition := '''', ui_path := ''''\<rparr>"
    have v: "winui_inv ok img drives pictures ?v"
      using inv queue one none None by (simp add: winui_inv_def)
    have "quiet ok img ?v (start_enrichment_thread now D W False (refresh_all_from_snapshot now D W ?v))"
      by (rule quiet_enrichment [OF quiet_refresh_all [OF quiet_refl]])
    from quiet_update(5) [OF this] have "winui_inv ok img drives pictures
      ((start_enrichment_thread now D W False (refresh_all_from_snapshot now D W ?v))\<lparr>ui_mount := m\<rparr>)" for m
      by (rule inv_quiet [OF _ v])
    then show ?thesis using None by (simp add: finish_source_open_def Let_def)
  qed
qed

lemma inv_posted:
  assumes inv: "winui_inv ok img drives pictures u" and queue: "ui_queue u = x # xs"
  shows "winui_inv ok img drives pictures (on_posted now D W path_text x (u\<lparr>ui_queue := xs\<rparr>))"
proof (cases "source_finished x")
  case True
  then obtain failed physical picture where "x = Source_finished failed physical picture"
    by (cases x) simp_all
  with inv_finish [OF inv] queue show ?thesis by simp
next
  case False
  then have rest: "winui_inv ok img drives pictures (u\<lparr>ui_queue := xs\<rparr>)"
    using inv queue by (auto simp: winui_inv_def)
  from False inv_discovery [OF rest] inv_quiet [OF quiet_posted(1) [OF quiet_refl] rest]
    inv_quiet [OF quiet_posted(2) [OF quiet_refl] rest] inv_quiet [OF quiet_posted(3) [OF quiet_refl] rest]
  show ?thesis by (cases x) simp_all
qed

end

text \<open>A step of a thread that opens nothing: it may change the controller behind the window, and it posts only
  results of its own.\<close>

lemma inv_thread:
  assumes inv: "winui_inv ok img drives pictures u"
    and n: "native_inv ok img n" "installed_image img n = installed_image img (ui_native u)"
    and more: "filter source_finished posts = []"
    and v: "ui_core v = (n, ui_physical u, ui_picture u, ui_busy u, ui_opening u, ui_queue u @ posts)"
  shows "winui_inv ok img drives pictures v"
proof -
  have none: "Source_finished failed physical picture \<notin> set posts" for failed physical picture
    using more by (auto simp: filter_empty_conv)
  have "ui_native v = n" "ui_physical v = ui_physical u" "ui_picture v = ui_picture u" "ui_busy v = ui_busy u"
    "ui_opening v = ui_opening u" "ui_queue v = ui_queue u @ posts"
    using v by (simp_all add: ui_core_def)
  then show ?thesis using inv n more none by (simp add: winui_inv_def)
qed

text \<open>The end of an open: refused, and the controller is as it was; or accepted, and it serves the source that
  the result names.\<close>

lemma inv_opened:
  assumes inv: "winui_inv ok img drives pictures u" and busy: "ui_opening u = Some which"
    and n: "native_inv ok img n"
    and refused: "\<And>e. failed = Some e \<Longrightarrow> n = ui_native u"
    and accepted: "failed = None \<Longrightarrow> installed_image img n = disk_of drives pictures physical picture"
  shows "winui_inv ok img drives pictures
    (u\<lparr>ui_native := n, ui_opening := None, ui_queue := ui_queue u @ [Source_finished failed physical picture]\<rparr>)"
proof -
  have one: "ui_busy u" "filter source_finished (ui_queue u) = []"
    using inv busy by (auto simp: winui_inv_def split: if_splits)
  then have none: "Source_finished f p q \<notin> set (ui_queue u)" for f p q
    by (auto simp: filter_empty_conv)
  then show ?thesis
    using inv one n refused accepted by (cases failed) (simp_all add: winui_inv_def)
qed

context reliable_device
begin

lemma native_opened:
  assumes "native_open_physical now D opened index elapsed n = (failed, n')"
    and "\<And>s. opened index = Inr s \<Longrightarrow> ok s \<and> img s = im"
  shows "\<And>e. failed = Some e \<Longrightarrow> n' = n" "failed = None \<Longrightarrow> installed_image img n' = Some im"
  using assms by (auto simp: native_open_physical_def dest: refused_source installed_opened split: sum.splits)

lemma picture_opened:
  assumes "native_open_image now D opened path elapsed n = (failed, n')"
    and "\<And>s. opened path = Some s \<Longrightarrow> ok s \<and> img s = im"
  shows "\<And>e. failed = Some e \<Longrightarrow> n' = n" "failed = None \<Longrightarrow> installed_image img n' = Some im"
  using assms by (auto simp: native_open_image_def dest: refused_source installed_opened split: option.splits)

lemma inv_winui_step:
  assumes step: "winui_step now D W drive_source picture_source u v" and inv: "winui_inv ok img drives pictures u"
    and drives: "\<And>i s. drive_source i s \<Longrightarrow> ok s \<and> img s = drives i"
    and pictures: "\<And>p s. picture_source p s \<Longrightarrow> ok s \<and> img s = pictures p"
  shows "winui_inv ok img drives pictures v"
proof -
  have native: "native_inv ok img (ui_native u)" and named: "ui_opening u \<noteq> Some (Inr [])"
    using inv by (simp_all add: winui_inv_def)
  note stays = inv_native_step [OF _ native]
  from step show ?thesis
  proof cases
    case (click c)
    then show ?thesis using inv_click [OF inv] by simp
  next
    case (dispatch x xs path_text)
    then show ?thesis using inv_posted [OF inv] by simp
  next
    case (discovered user_requested probes)
    show ?thesis
      by (rule inv_thread [OF inv native refl, of "[Probes_found probes user_requested]"])
        (simp_all add: discovered(1) ui_core_def)
  next
    case (open_drive index opened elapsed failed n)
    have opened: "ok s \<and> img s = drives index" if "opened index = Inr s" for s
      using drives open_drive(4) that by blast
    have "n = snd (native_open_physical now D opened index elapsed (ui_native u))"
      using open_drive(3) by simp
    then have "native_inv ok img n"
      using stays [OF native_step.physical] opened by blast
    then show ?thesis
      unfolding open_drive(1) using native_opened [OF open_drive(3) opened]
      by (intro inv_opened [OF inv open_drive(2)]) (simp_all add: disk_of_def)
  next
    case (open_picture path opened elapsed failed n)
    have opened: "ok s \<and> img s = pictures path" if "opened path = Some s" for s
      using pictures open_picture(4) that by blast
    have "n = snd (native_open_image now D opened path elapsed (ui_native u))"
      using open_picture(3) by simp
    then have "native_inv ok img n"
      using stays [OF native_step.image] opened by blast
    moreover have "path \<noteq> []" using named open_picture(2) by auto
    ultimately show ?thesis
      unfolding open_picture(1) using picture_opened [OF open_picture(3) opened]
      by (intro inv_opened [OF inv open_picture(2)]) (simp_all add: disk_of_def)
  next
    case enrichment_begins
    show ?thesis
      by (rule inv_thread [OF inv stays [OF native_step.enrich] installed_enrichments(2), of "[]"])
        (simp_all add: enrichment_begins(1) ui_core_def)
  next
    case (enrichment_works t n e)
    have n: "native_inv ok img n" "installed_image img n = installed_image img (ui_native u)"
      using stays [OF native_step.work] installed_work [OF native] enrichment_works(2-4) by blast+
    show ?thesis
      by (rule inv_thread [OF inv n, of "map (\<lambda>(completed, candidates). Enrichment_progress completed candidates)
          (drop (length (nv_progress (ui_native u))) (nv_progress n))"])
        (auto simp: enrichment_works(1) ui_core_def filter_empty_conv)
  next
    case (enrichment_ends t)
    show ?thesis
      by (rule inv_thread [OF inv native refl,
          of "[Enrichment_over (en_stop (et_run (nv_tasks (ui_native u) ! t)))]"])
        (simp_all add: enrichment_ends(1) ui_core_def)
  next
    case (export pid path destination waiting host failed n)
    have "n = snd (native_export now D host pid path destination (ui_native u))"
      using export(3) by simp
    then have n: "native_inv ok img n" "installed_image img n = installed_image img (ui_native u)"
      using stays [OF native_step.export] installed_export [OF native] by blast+
    show ?thesis
      by (rule inv_thread [OF inv n, of "[Export_finished failed destination]"])
        (simp_all add: export(1) ui_core_def)
  qed
qed

end

lemma inv_new_winui: "winui_inv ok img drives pictures (new_winui settings)"
  by (simp add: winui_inv_def new_winui_def start_drive_discovery_def ui_set_status_def native_inv_def new_native_def
      installed_image_def disk_of_def)

text \<open>C9: The window names the source that the controller serves.  Whatever is clicked and in whatever order
  the threads finish (drive discovery, opens that succeed or are refused, exports, enrichments that still run
  after their source was replaced), a window that is not opening a source holds the drive number or the image
  path of the very disk behind the installed session: that is what the mount helper will be started on.\<close>

theorem winui_source_agrees:
  assumes "reliable_device D ok img" "winui_reachable now D W drive_source picture_source u" "\<not> ui_busy u"
    and drives: "\<And>i s. drive_source i s \<Longrightarrow> ok s \<and> img s = drives i"
    and pictures: "\<And>p s. picture_source p s \<Longrightarrow> ok s \<and> img s = pictures p"
  shows "installed_image img (ui_native u) = disk_of drives pictures (ui_physical u) (ui_picture u)"
proof -
  from assms(2) have "winui_inv ok img drives pictures u"
  proof induction
    case new
    show ?case by (rule inv_new_winui)
  next
    case (step u v)
    then show ?case using reliable_device.inv_winui_step [OF assms(1)] drives pictures by blast
  qed
  moreover have "Source_finished f p q \<notin> set (ui_queue u)" for f p q
    using calculation assms(3) by (auto simp: winui_inv_def filter_empty_conv split: if_splits)
  ultimately show ?thesis by (simp add: winui_inv_def)
qed

end
