(* ===== verification/ShellSamples.thy ===== *)
theory ShellSamples
  imports HostSamples NativeSession ClassicShell WinuiWindow
begin

text \<open>
  The sample disk opened, listed and mounted by the shells: the properties of the shells and the launcher
  applied to concrete runs.
\<close>

section \<open>The controller of the WinUI shell\<close>

lemma sample_scanned:
  "\<exists>ss. run_state (session_scan (\<lambda>_. 0) image_device) (open_session sample_disk) = (True, ss) \<and>
     coherent (\<lambda>_. True) (\<lambda>im. im) sample_disk (spec_scan sample_disk) ss \<and> mbr_valid (ss_scan ss)"
proof -
  obtain b ss where run: "run_state (session_scan (\<lambda>_. 0) image_device) (open_session sample_disk) = (b, ss)" by fastforce
  have "coherent (\<lambda>_. True) (\<lambda>im. im) sample_disk empty_scan (open_session sample_disk)"
    using coherent_open [of "\<lambda>_. True" sample_disk "\<lambda>im. im"] by simp
  from run_session_scan [OF image.reliable_device_axioms this, of "\<lambda>_. 0"] run
  have "b" "coherent (\<lambda>_. True) (\<lambda>im. im) sample_disk (spec_scan sample_disk) ss"
    by (simp_all add: sample_spec_scan scan_ok_def)
  moreover from this have "mbr_valid (ss_scan ss)" by (simp add: coherent_def sample_spec_scan)
  ultimately show ?thesis using run by simp
qed

definition sample_native :: "image native" where
  "sample_native = snd (native_open_image (\<lambda>_. 0) image_device (\<lambda>_. Some sample_disk) (wtext ''ps2.img'') 0 new_native)"

lemma sample_native_reachable: "native_reachable (\<lambda>_. 0) image_device (\<lambda>_. True) sample_native"
  unfolding sample_native_def
  by (rule native_reachable.step [OF native_reachable.new native_step.image]) simp

lemma sample_native_session:
  "nv_session sample_native = Some 0" "stack_img (\<lambda>im. im) (ss_stack (nv_sessions sample_native ! 0)) = sample_disk"
  using sample_scanned
  by (auto simp: sample_native_def native_open_image_def open_source_def new_native_def Let_def coherent_def)

theorem snapshot_of_installed_source_witness:
  "scan_ok (spec_scan sample_disk) \<and>
   (\<exists>rs. set rs \<subseteq> game_on sample_disk ` set (hdl_mains_by_lba (spec_scan sample_disk)) \<and>
     sn_rows (native_snapshot (\<lambda>_. 0) image_device sample_native) =
       map make_row_snapshot (mm_rows (apply_all rs (management_model (build_partition_catalog (spec_scan sample_disk) True)))))"
  by (rule snapshot_of_installed_source [OF image.reliable_device_axioms sample_native_reachable sample_native_session(1)
        sample_native_session(2) [symmetric]])

section \<open>The Win32 shell\<close>

definition sample_system :: "image shell_system" where
  "sample_system =
     \<lparr>sy_windows = byte_windows, sy_widen = (\<lambda>s. Some (wide_of s)),
      sy_elevation = \<lparr>ev_token_elevation = Some 1, ev_module = None, ev_runas = (\<lambda>_ _. None), ev_error_cancelled = 1223\<rparr>,
      sy_drive = (\<lambda>_. Inr sample_disk), sy_picture = (\<lambda>_. Some sample_disk), sy_open_name = Some (wtext ''ps2.img''),
      sy_save_name = (\<lambda>_. None), sy_host_path = (\<lambda>_. []), sy_host = (\<lambda>_ _. None), sy_yes = False, sy_drives = 0,
      sy_dokan_success = 0, sy_remove = (\<lambda>_. True), sy_version = '''', sy_codename = ''''\<rparr>"

abbreviation sample_shell :: "image app \<Rightarrow> bool" where
  "sample_shell \<equiv> app_reachable (\<lambda>_. 0) image_device (sy_windows sample_system) (sy_widen sample_system)
     (sy_dokan_success sample_system) (\<lambda>_ s. s = sample_disk) (\<lambda>_ s. s = sample_disk)"

lemma sample_sources: "sources_are (\<lambda>_. True) (\<lambda>im. im) (\<lambda>_. sample_disk) (\<lambda>_. sample_disk) (\<lambda>_ s. s = sample_disk) (\<lambda>_ s. s = sample_disk)"
  using sample_plain_partitions sample_plain_names by (simp add: sources_are_def plain_sources_def)

lemma sample_event:
  assumes "sample_shell a" "window_proc (\<lambda>_. 0) image_device sample_system ev a = Some b" "\<And>probes. ev \<noteq> Discovery_posted probes"
  shows "sample_shell b"
  by (rule app_event [OF assms(1) _ _ assms(2,3)]) (simp_all add: sample_system_def)

definition sample_opened_app :: "image app" where
  "sample_opened_app = snd (open_image_dialog (\<lambda>_. 0) image_device sample_system (new_app sample_system Theme_system False))"

lemma sample_opened_reachable: "sample_shell sample_opened_app"
proof -
  have "classic_start sample_system Theme_system [] = Some (new_app sample_system Theme_system False)"
    by (simp add: classic_start_def relaunch_elevated_def is_process_elevated_def sample_system_def)
  then have "sample_shell (new_app sample_system Theme_system False)" by (rule app_reachable.start)
  then show ?thesis
    by (rule sample_event [where ev = "Command 100"]) (simp_all add: menu_command_def sample_opened_app_def)
qed

lemma sample_new_app:
  "ap_controller (new_app sample_system Theme_system False) = None"
  by (simp add: new_app_def start_discovery_def rebuild_physical_menu_def update_action_menu_def Let_def)

lemma sample_opened_source: "ap_image sample_opened_app = Some (wtext ''ps2.img'')" "ap_physical sample_opened_app = None"
  "ap_controller sample_opened_app = None"
proof -
  let ?a = "new_app sample_system Theme_system False"
  obtain b where b: "load_device (\<lambda>_. 0) image_device sample_system sample_disk ?a = (True, b)"
    using sample_scanned by (auto simp: load_device_def controller_running_def sample_new_app Let_def)
  then have "ap_controller b = None"
    using load_device_loaded [OF image.reliable_device_axioms TrueI b] sample_new_app by simp
  moreover have "sy_open_name sample_system = Some (wtext ''ps2.img'')" "sy_picture sample_system = (\<lambda>_. Some sample_disk)"
    by (simp_all add: sample_system_def)
  ultimately show "ap_image sample_opened_app = Some (wtext ''ps2.img'')" "ap_physical sample_opened_app = None"
    "ap_controller sample_opened_app = None"
    using b by (simp_all add: sample_opened_app_def open_image_dialog_def update_action_menu_def)
qed

lemma sample_opened_mains:
  "ap_mains sample_opened_app = [partition_of sample_mbr, sample_pfs]" "ap_session sample_opened_app \<noteq> None"
proof -
  have "shell_ok (\<lambda>_. True) (\<lambda>im. im) (\<lambda>_. sample_disk) (\<lambda>_. sample_disk) (sy_widen sample_system)
      (sy_dokan_success sample_system) sample_opened_app"
    by (rule app_reachable_ok [OF sample_opened_reachable sample_sources image.reliable_device_axioms])
  moreover have "\<not> is_sub (partition_of sample_mbr)"
    by (simp add: is_sub_def partition_of_def sample_fields)
  ultimately show "ap_mains sample_opened_app = [partition_of sample_mbr, sample_pfs]" "ap_session sample_opened_app \<noteq> None"
    by (auto simp: shell_ok_def window_ok_def shown_image_def sample_opened_source source_ok_def sample_spec_scan)
qed

definition sample_listed_app :: "image app" where
  "sample_listed_app = tree_selection_changed (\<lambda>_. 0) image_device sample_system 2 sample_opened_app"

lemma navigate_active [simp]: "ap_active (navigate now D E path a) = ap_active a"
  by (simp add: navigate_def Let_def split_def split: option.splits)

lemma sample_listed: "sample_shell sample_listed_app" "ap_active sample_listed_app = Some sample_pfs"
  "shown_image (\<lambda>_. sample_disk) (\<lambda>_. sample_disk) sample_listed_app = Some sample_disk"
proof -
  show "sample_shell sample_listed_app"
    by (rule sample_event [OF sample_opened_reachable, where ev = "Tree_selected 2"]) (simp_all add: sample_listed_app_def)
  show "ap_active sample_listed_app = Some sample_pfs"
    by (simp add: sample_listed_app_def tree_selection_changed_def sample_opened_mains open_partition_view_def Let_def)
  show "shown_image (\<lambda>_. sample_disk) (\<lambda>_. sample_disk) sample_listed_app = Some sample_disk"
    by (simp add: sample_listed_app_def shown_image_def sample_opened_source)
qed

theorem classic_lists_the_disk_witness:
  "ap_rows sample_listed_app = [] \<and> ap_entries sample_listed_app = [] \<and> ap_path sample_listed_app = '''' \<or>
   (let r = spec_browse sample_disk (spec_scan sample_disk) ''__common'' (ap_path sample_listed_app)
    in br_ok r \<and> ap_entries sample_listed_app = sort_key entry_key (br_entries r) \<and>
       ap_rows sample_listed_app = listing_rows (sy_widen sample_system) (ap_path sample_listed_app) (ap_entries sample_listed_app))"
  using classic_lists_the_disk [OF sample_listed(1) sample_sources image.reliable_device_axioms sample_listed(2)] sample_listed(3)
  by simp

definition sample_mount_app :: "image app" where
  "sample_mount_app = mount_read_only (\<lambda>_. 0) image_device sample_system sample_opened_app"

lemma sample_mount_reachable: "sample_shell sample_mount_app"
  by (rule sample_event [OF sample_opened_reachable, where ev = "Command 107"])
    (simp_all add: menu_command_def sample_mount_app_def)

lemma sample_mount_controller:
  "\<exists>c. ap_controller sample_mount_app = Some c \<and> ct_worker c = In_dokan \<and> ct_running c \<and> ct_runtime c \<noteq> None"
proof -
  have point: "suggest_mount_point 0 = [67, colon, backslash]"
    by (simp add: suggest_mount_point_def choose_mount_letter_def letter_from.simps)
  have "reopen_source sample_system sample_opened_app = Inr sample_disk"
    by (simp add: reopen_source_def sample_opened_source) (simp add: sample_system_def)
  moreover have "sy_drives sample_system = 0" "sy_windows sample_system = byte_windows" "sy_dokan_success sample_system = 0"
    by (simp_all add: sample_system_def)
  moreover have "normalize_mount_point byte_windows [67, colon, backslash] = [67, colon, backslash]"
    by (simp add: normalize_mount_point_def byte_windows_def colon_def backslash_def)
  ultimately show ?thesis
    using sample_scanned sample_opened_mains(2)
    by (auto simp: sample_mount_app_def mount_read_only_def controller_running_def sample_opened_source point Let_def
        start_mount_def new_controller_def update_action_menu_def)
qed

theorem classic_mounts_shown_source_witness:
  "\<exists>c rt. ap_controller sample_mount_app = Some c \<and> ct_runtime c = Some rt \<and>
     coherent (\<lambda>_. True) (\<lambda>im. im) sample_disk (spec_scan sample_disk) (rt_session rt)"
proof -
  obtain c where c: "ap_controller sample_mount_app = Some c" "ct_running c" using sample_mount_controller by blast
  from classic_mounts_shown_source [OF sample_mount_reachable sample_sources image.reliable_device_axioms c] c(1)
  show ?thesis by (auto simp: shown_image_def split: option.splits)
qed

theorem classic_unmount_unnoticed_witness:
  "\<exists>a c. sample_shell a \<and> ap_controller a = Some c \<and> ct_worker c = Worker_done 0 \<and> \<not> ct_mounted c \<and> \<not> ap_timer a \<and>
     ap_actions a = (False, True, True, False)"
proof -
  obtain c where c: "ap_controller sample_mount_app = Some c" "ct_worker c = In_dokan" "ct_running c" "ct_runtime c \<noteq> None"
    using sample_mount_controller by blast
  let ?c = "c\<lparr>ct_mounted := True\<rparr>"
  have "sample_shell (sample_mount_app\<lparr>ap_controller := Some ?c\<rparr>)"
    by (rule app_reachable.step [OF sample_mount_reachable app_step.worker [OF c(1) worker_step.mounted [OF c(2)]]])
  from classic_unmount_unnoticed [OF this, of ?c 0] c
  show ?thesis
    by (auto simp: request_unmount_def) (auto simp: sample_system_def is_process_elevated_def)
qed

section \<open>The mount page\<close>

definition sample_page :: "wide \<Rightarrow> mount_page" where
  "sample_page point =
     \<lparr>mp_point = point, mp_process = False, mp_timer = False, mp_state = [], mp_letter = [], mp_explorer = False,
      mp_unmount = False, mp_mount = True, mp_status = [], mp_errors = [], mp_runs = []\<rparr>"

definition willing_shell :: shell_env where
  "willing_shell = \<lparr>sh_helper_present = True, sh_drives = 0, sh_execute = (\<lambda>_ _. Started)\<rparr>"

definition started_page :: mount_page where
  "started_page = shell_start_mount willing_shell True None (wtext ''ps2.img'') (False, None) (False, None) (sample_page [])"

lemma started_runs: "mp_runs started_page \<noteq> mp_runs (sample_page [])"
  by (simp add: started_page_def shell_start_mount_def sample_page_def willing_shell_def choose_mount_letter_def
      letter_from.simps mount_parameters_def poll_mount_state_def Let_def) (simp add: wtext_def)

lemma byte_helper_upper: "67 \<le> l \<Longrightarrow> l \<le> 90 \<Longrightarrow> win_upper (hp_windows byte_helper) (of_nat l) = of_nat l"
  by (simp add: byte_helper_def byte_windows_def word_le_nat_alt unat_of_nat)

lemma sample_picture: "quote \<notin> set (wtext ''ps2.img'') \<and> last (wtext ''ps2.img'') \<noteq> backslash"
  by (simp add: wtext_def quote_def backslash_def char_code_def)

theorem shell_mounts_shown_source_witness:
  "\<exists>letter parameters. mp_runs started_page = [(parameters, False)] \<and>
    helper_plan byte_helper (crt_arguments parameters) =
      Run_mount (Helper_image (wtext ''ps2.img'')) [of_nat letter, colon, backslash] False"
proof -
  have "unat (- 1 :: u32) \<le> hp_ulong_max byte_helper" by (simp add: byte_helper_def unsigned_minus_1_eq_mask mask_eq_exp_minus_1)
  moreover have "\<not> hp_blank byte_helper c" if "48 \<le> c" for c using that by (simp add: byte_helper_def)
  ultimately obtain letter parameters where
    "mp_runs started_page = mp_runs (sample_page []) @ [(parameters, (None :: u32 option) \<noteq> None)]"
    "helper_plan byte_helper (crt_arguments parameters) =
      Run_mount (Helper_image (wtext ''ps2.img'')) [of_nat letter, colon, backslash] False"
    using shell_mounts_shown_source [OF started_page_def [symmetric] started_runs sample_picture _ _ byte_helper_upper] by auto
  then show ?thesis by (auto simp: sample_page_def)
qed

theorem shell_unmounts_shown_point_witness:
  "\<exists>parameters. mp_runs (shell_request_unmount willing_shell True (sample_page [0x50, colon, backslash])) = [(parameters, True)] \<and>
    helper_plan byte_helper (crt_arguments parameters) = Remove_mount [0x50, colon, backslash]"
  using shell_unmounts_shown_point [OF refl, of willing_shell True "sample_page [0x50, colon, backslash]" "0x50" byte_helper]
  by (simp add: shell_request_unmount_def sample_page_def willing_shell_def byte_helper_def byte_windows_def quote_def)

section \<open>The WinUI window\<close>

abbreviation sample_winui :: "image winui \<Rightarrow> bool" where
  "sample_winui \<equiv> winui_reachable (\<lambda>_. 0) image_device byte_windows (\<lambda>_ s. s = sample_disk) (\<lambda>_ s. s = sample_disk)"

definition sample_opening :: "image winui" where
  "sample_opening = open_image_async (wtext ''ps2.img'') (new_winui None)"

definition sample_posted :: "image winui" where
  "sample_posted = sample_opening\<lparr>ui_native := sample_native, ui_opening := None,
     ui_queue := [Source_finished None None (wtext ''ps2.img'')]\<rparr>"

lemma sample_opening_fields:
  "ui_native sample_opening = new_native" "ui_opening sample_opening = Some (Inr (wtext ''ps2.img''))" "ui_queue sample_opening = []"
  by (simp_all add: sample_opening_def open_image_async_def new_winui_def start_drive_discovery_def ui_set_status_def)

lemma sample_opening_reachable: "sample_winui sample_opening"
proof -
  have "Open_image_clicked (Some (wtext ''ps2.img'')) \<noteq> Open_image_clicked (Some [])" by (simp add: wtext_def)
  from winui_reachable.step [OF winui_reachable.new winui_step.click [OF _ this]]
  show ?thesis by (simp add: sample_opening_def new_winui_def start_drive_discovery_def ui_set_status_def)
qed

lemma sample_posted_reachable: "sample_winui sample_posted"
proof -
  have "native_open_image (\<lambda>_. 0) image_device (\<lambda>_. Some sample_disk) (wtext ''ps2.img'') 0 (ui_native sample_opening) =
      (None, sample_native)"
    using sample_scanned by (auto simp: sample_opening_fields sample_native_def native_open_image_def open_source_def Let_def)
  from winui_reachable.step [OF sample_opening_reachable winui_step.open_picture [OF sample_opening_fields(2) this]]
  show ?thesis by (simp add: sample_posted_def sample_opening_fields(3))
qed

definition sample_window :: "image winui" where
  "sample_window = finish_source_open (\<lambda>_. 0) image_device byte_windows None None (wtext ''ps2.img'') (sample_posted\<lparr>ui_queue := []\<rparr>)"

lemma sample_window_reachable: "sample_winui sample_window"
proof -
  have "ui_queue sample_posted = [Source_finished None None (wtext ''ps2.img'')]" by (simp add: sample_posted_def)
  from winui_reachable.step [OF sample_posted_reachable winui_step.dispatch [OF this]]
  show ?thesis by (simp add: sample_window_def)
qed

lemma sample_window_fields:
  "ui_physical sample_window = None" "ui_picture sample_window = wtext ''ps2.img''" "\<not> ui_busy sample_window"
proof -
  let ?v = "sample_posted\<lparr>ui_queue := [], ui_busy := False, ui_physical := None, ui_picture := wtext ''ps2.img'',
    ui_access_bar := False, ui_partition := '''', ui_path := ''''\<rparr>"
  note D = image.reliable_device_axioms
  have "quiet (\<lambda>_. True) (\<lambda>im. im) ?v (start_enrichment_thread (\<lambda>_. 0) image_device byte_windows False
      (refresh_all_from_snapshot (\<lambda>_. 0) image_device byte_windows ?v))"
    by (rule reliable_device.quiet_enrichment [OF D reliable_device.quiet_refresh_all [OF D quiet_refl]])
  then show "ui_physical sample_window = None" "ui_picture sample_window = wtext ''ps2.img''" "\<not> ui_busy sample_window"
    by (simp_all add: quiet_def ui_core_def sample_window_def finish_source_open_def Let_def ui_set_status_def)
qed

theorem winui_source_agrees_witness:
  "installed_image (\<lambda>im. im) (ui_native sample_window) = Some sample_disk \<and> ui_picture sample_window = wtext ''ps2.img''"
  using winui_source_agrees [OF image.reliable_device_axioms sample_window_reachable sample_window_fields(3),
      of "\<lambda>_. sample_disk" "\<lambda>_. sample_disk"]
  by (simp add: sample_window_fields disk_of_def) (simp add: wtext_def)

end
