(* ===== verification/Theme.thy ===== *)
theory Theme
  imports ClassicShell
begin

text \<open>
  The theme of the Win32 shell (\<open>src/gui/windows_theme.cpp\<close>): the stored preference, the palette and what
  the process and the window are told.  The registry, the system colours and \<open>uxtheme.dll\<close> are parameters.
  Painting the status bar is not modelled.
\<close>

section \<open>The system\<close>

text \<open>\<open>th_registry\<close> is what \<open>RegGetValueW\<close> finds as a DWORD of the current user, \<open>th_high_contrast\<close> the flags
  that \<open>SystemParametersInfoW\<close> gives, \<open>th_exports\<close> the ordinals of \<open>uxtheme.dll\<close> if it can be loaded.\<close>

record theme_system =
  th_registry :: "string \<times> string \<Rightarrow> u32 option"
  th_writable :: bool
  th_high_contrast :: "u32 option"
  th_color :: "nat \<Rightarrow> u32"
  th_exports :: "(nat \<Rightarrow> bool) option"

definition kPreference :: "string \<times> string" where
  "kPreference = (''Software'' @ [CHR 0x5C] @ ''PS2DriveForge'', ''Theme'')"

definition kAppsUseLightTheme :: "string \<times> string" where
  "kAppsUseLightTheme =
     (''Software'' @ [CHR 0x5C] @ ''Microsoft'' @ [CHR 0x5C] @ ''Windows'' @ [CHR 0x5C] @ ''CurrentVersion'' @ [CHR 0x5C] @
      ''Themes'' @ [CHR 0x5C] @ ''Personalize'', ''AppsUseLightTheme'')"

section \<open>The preference\<close>

fun preference_value :: "theme_preference \<Rightarrow> u32" where
  "preference_value Theme_system = 0"
| "preference_value Theme_light = 1"
| "preference_value Theme_dark = 2"

definition load_theme_preference :: "theme_system \<Rightarrow> theme_preference" where
  "load_theme_preference T =
     (case th_registry T kPreference of
        None \<Rightarrow> Theme_system
      | Some v \<Rightarrow> if 2 < v then Theme_system else if v = 1 then Theme_light else if v = 2 then Theme_dark else Theme_system)"

definition save_theme_preference :: "theme_preference \<Rightarrow> theme_system \<Rightarrow> theme_system" where
  "save_theme_preference preference T =
     (if \<not> th_writable T then T
      else T\<lparr>th_registry := (th_registry T)(kPreference := Some (preference_value preference))\<rparr>)"

lemma preference_reloads: "th_writable T \<Longrightarrow> load_theme_preference (save_theme_preference p T) = p"
  by (cases p) (simp_all add: load_theme_preference_def save_theme_preference_def)

section \<open>The palette\<close>

definition high_contrast_enabled :: "theme_system \<Rightarrow> bool" where
  "high_contrast_enabled T = (case th_high_contrast T of None \<Rightarrow> False | Some flags \<Rightarrow> flags AND 1 \<noteq> 0)"

definition system_prefers_dark :: "theme_system \<Rightarrow> bool" where
  "system_prefers_dark T = (th_registry T kAppsUseLightTheme = Some 0)"

definition resolved_dark :: "theme_system \<Rightarrow> theme_preference \<Rightarrow> bool" where
  "resolved_dark T preference =
     (if high_contrast_enabled T then False
      else case preference of Theme_dark \<Rightarrow> True | Theme_light \<Rightarrow> False | Theme_system \<Rightarrow> system_prefers_dark T)"

record theme_palette =
  pal_dark :: bool
  pal_window :: u32
  pal_control :: u32
  pal_text :: u32
  pal_muted :: u32
  pal_border :: u32

definition rgb :: "u32 \<Rightarrow> u32 \<Rightarrow> u32 \<Rightarrow> u32" where
  "rgb r g b = r OR push_bit 8 g OR push_bit 16 b"

definition system_palette :: "theme_system \<Rightarrow> theme_palette" where
  "system_palette T =
     \<lparr>pal_dark = False, pal_window = th_color T 5, pal_control = th_color T 5, pal_text = th_color T 8,
      pal_muted = th_color T 17, pal_border = th_color T 6\<rparr>"

definition palette_for :: "theme_system \<Rightarrow> theme_preference \<Rightarrow> theme_palette" where
  "palette_for T preference =
     (if high_contrast_enabled T then system_palette T
      else if resolved_dark T preference
      then \<lparr>pal_dark = True, pal_window = rgb 24 24 24, pal_control = rgb 30 30 30, pal_text = rgb 238 238 238,
            pal_muted = rgb 180 180 180, pal_border = rgb 58 58 58\<rparr>
      else system_palette T)"

text \<open>High contrast wins over any preference, and otherwise an explicit preference over the system.\<close>

lemma palette_dark:
  "pal_dark (palette_for T preference) \<longleftrightarrow>
     \<not> high_contrast_enabled T \<and> (preference = Theme_dark \<or> preference = Theme_system \<and> system_prefers_dark T)"
  by (cases preference) (simp_all add: palette_for_def resolved_dark_def system_palette_def)

section \<open>What Windows is told\<close>

datatype themed = Frame | Tree_control | List_control | List_header | Status_control

datatype theme_action =
    Prefer_mode nat
  | Flush_menus
  | Dark_frame bool
  | Allow_dark themed bool
  | Window_theme themed "string option"
  | Background themed u32
  | Text_background themed u32
  | Text_color themed u32
  | Status_paint bool u32 u32
  | Redraw themed

text \<open>Ordinals 133, 135 and 136 of \<open>uxtheme.dll\<close>.\<close>

definition exported :: "theme_system \<Rightarrow> nat \<Rightarrow> bool" where
  "exported T ordinal = (case th_exports T of None \<Rightarrow> False | Some E \<Rightarrow> E ordinal)"

definition apply_process_theme :: "theme_system \<Rightarrow> theme_preference \<Rightarrow> theme_action list" where
  "apply_process_theme T preference =
     (if exported T 135
      then [Prefer_mode (if high_contrast_enabled T then 0
        else case preference of Theme_dark \<Rightarrow> 2 | Theme_light \<Rightarrow> 3 | Theme_system \<Rightarrow> 1)]
      else []) @
     (if exported T 136 then [Flush_menus] else [])"

definition allow_dark_for_window :: "theme_system \<Rightarrow> themed \<Rightarrow> bool \<Rightarrow> theme_action list" where
  "allow_dark_for_window T window dark = (if exported T 133 then [Allow_dark window dark] else [])"

text \<open>\<open>there\<close> says which of the window, the controls and the header of the list exist; \<open>hooked\<close> that the status
  bar takes the subclass that paints it.\<close>

definition apply_window_theme :: "theme_system \<Rightarrow> (themed \<Rightarrow> bool) \<Rightarrow> bool \<Rightarrow> theme_preference \<Rightarrow> theme_action list" where
  "apply_window_theme T there hooked preference =
     (let p = palette_for T preference;
          dark = pal_dark p;
          name = (if high_contrast_enabled T then None else Some (if dark then ''DarkMode_Explorer'' else ''Explorer''));
          style = (\<lambda>c. allow_dark_for_window T c dark @ [Window_theme c name])
      in (if there Frame then Dark_frame dark # allow_dark_for_window T Frame dark else []) @
         (if there Tree_control
          then style Tree_control @ [Background Tree_control (pal_control p), Text_color Tree_control (pal_text p)] else []) @
         (if there List_control
          then style List_control @
            [Background List_control (pal_control p), Text_background List_control (pal_control p),
             Text_color List_control (pal_text p)] @
            (if there List_header then style List_header else [])
          else []) @
         (if there Status_control
          then style Status_control @
            [Background Status_control (if dark then pal_control p else 0xFF000000)] @
            (if hooked then [Status_paint (dark \<and> \<not> high_contrast_enabled T) (pal_control p) (pal_text p)] else []) @
            [Redraw Status_control]
          else []) @
         (if there Frame then [Redraw Frame] else []))"

text \<open>Under high contrast nothing is told to be dark and no theme of the shell is set.\<close>

lemma high_contrast_plain:
  assumes "high_contrast_enabled T" "action \<in> set (apply_window_theme T there hooked preference)"
  shows "\<forall>c. action \<noteq> Dark_frame True \<and> action \<noteq> Allow_dark c True \<and>
    (\<forall>name. action \<noteq> Window_theme c (Some name)) \<and> (\<forall>b t. action \<noteq> Status_paint True b t)"
  using assms
  by (auto simp: apply_window_theme_def palette_for_def system_palette_def allow_dark_for_window_def Let_def split: if_splits)

end
