(* ===== verification/WinuiApp.thy ===== *)
theory WinuiApp
  imports Launcher
begin

text \<open>
  The start of the WinUI shell (\<open>src/winui/App.xaml.cpp\<close> and the constructor of \<open>MainWindow\<close>): the startup log
  and the handshake with the launcher.  Every call into the Windows App SDK may throw; what it throws is a
  parameter.  The layout of the window (\<open>configure_main_window_shell\<close>) is one such call.
\<close>

section \<open>The startup log\<close>

definition hex_digit :: "nat \<Rightarrow> char" where
  "hex_digit d = char_of (if d < 10 then 48 + d else 55 + d)"

text \<open>\<open>%08lX\<close> of 32 bits, and \<open>%0nu\<close>.\<close>

definition hex8 :: "u32 \<Rightarrow> string" where
  "hex8 v = map (\<lambda>k. hex_digit (unat v div 16 ^ k mod 16)) (rev [0..<8])"

definition padded_decimal :: "nat \<Rightarrow> nat \<Rightarrow> string" where
  "padded_decimal k n = replicate (k - length (decimal n)) CHR ''0'' @ decimal n"

text \<open>\<open>WideCharToMultiByte\<close> without flags, \<open>None\<close> when it fails.\<close>

definition log_utf8 :: "(wide \<Rightarrow> string option) \<Rightarrow> wide \<Rightarrow> string" where
  "log_utf8 convert text =
     (if text = [] then ''''
      else case convert text of None \<Rightarrow> ''<UTF-8 conversion failed>'' | Some s \<Rightarrow> s)"

text \<open>\<open>None\<close> when \<open>LOCALAPPDATA\<close> is not set, is empty or does not fit.\<close>

definition make_log_path :: "wide option \<Rightarrow> wide" where
  "make_log_path local_app_data =
     (case local_app_data of None \<Rightarrow> wtext ''.'' | Some root \<Rightarrow> root) @
     [backslash] @ wtext ''PS2 DriveForge'' @ [backslash] @ wtext ''Logs'' @ [backslash] @ wtext ''winui-startup.log''"

record log_time =
  lt_year :: nat
  lt_month :: nat
  lt_day :: nat
  lt_hour :: nat
  lt_minute :: nat
  lt_second :: nat
  lt_milliseconds :: nat

text \<open>A line of the file, from the time, the process and the thread.\<close>

definition write_line :: "log_time \<Rightarrow> nat \<Rightarrow> nat \<Rightarrow> string \<Rightarrow> string" where
  "write_line t pid tid message =
     ''['' @ padded_decimal 4 (lt_year t) @ ''-'' @ padded_decimal 2 (lt_month t) @ ''-'' @ padded_decimal 2 (lt_day t) @ '' '' @
     padded_decimal 2 (lt_hour t) @ '':'' @ padded_decimal 2 (lt_minute t) @ '':'' @ padded_decimal 2 (lt_second t) @ ''.'' @
     padded_decimal 3 (lt_milliseconds t) @ ''] pid='' @ decimal pid @ '' tid='' @ decimal tid @ '' '' @ message @
     [CHR 0x0D, CHR 0x0A]"

definition log_hresult :: "(wide \<Rightarrow> string option) \<Rightarrow> string \<Rightarrow> u32 \<Rightarrow> wide \<Rightarrow> string" where
  "log_hresult convert context code message =
     context @ '' HRESULT=0x'' @ hex8 code @
     (if message \<noteq> [] then '' message='' @ [CHR 0x22] @ log_utf8 convert message @ [CHR 0x22] else '''')"

section \<open>Starting\<close>

datatype thrown = Winrt_error u32 wide | Std_exception string | Other_exception

text \<open>What the system and the SDK answer.  \<open>wa_event_name\<close> is the variable the launcher sets (\<open>None\<close> when it is
  missing, empty or too long); \<open>wa_open_event\<close> and \<open>wa_set_event\<close> say whether these calls succeed.\<close>

record app_env =
  wa_utf8 :: "wide \<Rightarrow> string option"
  wa_app_data :: "wide option"
  wa_module :: "wide option"
  wa_app_components :: "thrown option"
  wa_window_components :: "thrown option"
  wa_window_setup :: "thrown option"
  wa_layout :: "string list \<times> thrown option"
  wa_activate :: "thrown option"
  wa_event_name :: "wide option"
  wa_open_event :: bool
  wa_set_event :: bool

text \<open>A run so far: the messages logged, whether the launcher's event has been set, and the exception in flight.\<close>

type_synonym app_run = "string list \<times> bool \<times> thrown option"

definition and_then :: "app_run \<Rightarrow> app_run \<Rightarrow> app_run" where
  "and_then r s =
     (case r of (log, ready, None) \<Rightarrow> (case s of (log', ready', t) \<Rightarrow> (log @ log', ready \<or> ready', t)) | _ \<Rightarrow> r)"

definition says :: "string \<Rightarrow> app_run" where
  "says message = ([message], False, None)"

definition calls :: "thrown option \<Rightarrow> app_run" where
  "calls t = ([], False, t)"

text \<open>The handlers around a \<open>try\<close> block: log and throw again.\<close>

definition logging_failure :: "app_env \<Rightarrow> string \<Rightarrow> string \<Rightarrow> app_run \<Rightarrow> app_run" where
  "logging_failure A failed std run =
     (case run of
        (log, ready, None) \<Rightarrow> run
      | (log, ready, Some t) \<Rightarrow>
          (log @ [case t of
             Winrt_error code message \<Rightarrow> log_hresult (wa_utf8 A) failed code message
           | Std_exception what \<Rightarrow> std @ '' std::exception: '' @ what
           | Other_exception \<Rightarrow> failed @ '' with unknown exception''], ready, Some t))"

text \<open>\<open>diag::initialize\<close>, run before \<open>main\<close> by \<open>EarlyStartupMarker\<close>.\<close>

definition diag_initialize :: "app_env \<Rightarrow> app_run" where
  "diag_initialize A =
     ([''WinUI diagnostics initialized''] @
      (case wa_module A of None \<Rightarrow> [] | Some path \<Rightarrow> [''executable='' @ log_utf8 (wa_utf8 A) path]) @
      [''log_path='' @ log_utf8 (wa_utf8 A) (make_log_path (wa_app_data A)),
       ''CRT/static initialization reached App.xaml.cpp''], False, None)"

definition construct_app :: "app_env \<Rightarrow> app_run" where
  "construct_app A =
     and_then (says ''App::App entered'')
     (and_then
        (logging_failure A ''App::InitializeComponent failed'' ''App::InitializeComponent''
          (and_then (says ''App::InitializeComponent begin'')
           (and_then (calls (wa_app_components A)) (says ''App::InitializeComponent complete''))))
        (says ''App::App complete; XAML unhandled-exception hook installed''))"

definition construct_window :: "app_env \<Rightarrow> app_run" where
  "construct_window A =
     and_then (says ''MainWindow::MainWindow entered'')
     (and_then
        (logging_failure A ''MainWindow construction failed'' ''MainWindow construction''
          (and_then (says ''MainWindow::InitializeComponent begin'')
           (and_then (calls (wa_window_components A))
            (and_then (says ''MainWindow::InitializeComponent complete'') (calls (wa_window_setup A))))))
        (says ''MainWindow::MainWindow complete''))"

text \<open>\<open>configure_main_window_shell\<close> swallows what it catches.\<close>

definition configure_shell :: "app_env \<Rightarrow> app_run" where
  "configure_shell A =
     (let (log, t) = wa_layout A
      in (log @
          (case t of
             None \<Rightarrow> []
           | Some (Winrt_error code message) \<Rightarrow> [log_hresult (wa_utf8 A) ''configure_main_window_shell failed'' code message]
           | Some _ \<Rightarrow> [''configure_main_window_shell failed with unknown exception'']), False, None))"

definition signal_launcher_ready :: "app_env \<Rightarrow> app_run" where
  "signal_launcher_ready A =
     (if wa_event_name A = None then says ''launcher readiness event not present (direct WinUI launch)''
      else if \<not> wa_open_event A then says ''launcher readiness event could not be opened''
      else if wa_set_event A then ([''launcher readiness event signaled''], True, None)
      else says ''launcher readiness event signaling failed'')"

definition on_launched :: "app_env \<Rightarrow> app_run" where
  "on_launched A =
     and_then (says ''App::OnLaunched entered'')
     (logging_failure A ''App::OnLaunched failed'' ''App::OnLaunched''
       (and_then (says ''App::OnLaunched creating MainWindow'')
       (and_then (construct_window A)
       (and_then (says ''App::OnLaunched MainWindow created'')
       (and_then (configure_shell A)
       (and_then (calls (wa_activate A))
       (and_then (says ''App::OnLaunched MainWindow activated'')
         (signal_launcher_ready A))))))))"

definition start_app :: "app_env \<Rightarrow> app_run" where
  "start_app A = and_then (diag_initialize A) (and_then (construct_app A) (on_launched A))"

section \<open>The handshake\<close>

text \<open>Whether a run has set the event, and what it has thrown.\<close>

abbreviation ready :: "app_run \<Rightarrow> bool" where
  "ready r \<equiv> fst (snd r)"

abbreviation thrown_by :: "app_run \<Rightarrow> thrown option" where
  "thrown_by r \<equiv> snd (snd r)"

lemma and_then_simps [simp]:
  "fst (and_then r s) = fst r @ (if thrown_by r = None then fst s else [])"
  "ready (and_then r s) \<longleftrightarrow> ready r \<or> thrown_by r = None \<and> ready s"
  "thrown_by (and_then r s) = (if thrown_by r = None then thrown_by s else thrown_by r)"
  by (auto simp: and_then_def split: prod.splits option.splits)

lemma logging_failure_simps [simp]:
  "snd (logging_failure A failed std r) = snd r"
  "thrown_by r = None \<Longrightarrow> logging_failure A failed std r = r"
  by (auto simp: logging_failure_def split: prod.splits option.splits)

lemma calls_simps [simp]:
  "says message = ([message], False, None)" "calls e = ([], False, e)" "snd (configure_shell A) = (False, None)"
  "snd (diag_initialize A) = (False, None)"
  by (simp_all add: says_def calls_def configure_shell_def diag_initialize_def split_def Let_def)

lemma construct_simps [simp]:
  "snd (construct_app A) = (False, wa_app_components A)"
  "snd (construct_window A) = (False, if wa_window_components A = None then wa_window_setup A else wa_window_components A)"
  by (simp_all add: prod_eq_iff construct_app_def construct_window_def)

text \<open>The launcher hears of the window only after every stage has succeeded and the window is on the screen; and
  then the last message says so.\<close>

lemma ready_means_activated:
  assumes "ready (start_app A)"
  shows "thrown_by (start_app A) = None" "wa_app_components A = None" "wa_window_components A = None"
    "wa_window_setup A = None" "wa_activate A = None"
    "''App::OnLaunched MainWindow activated'' \<in> set (fst (start_app A))"
    "last (fst (start_app A)) = ''launcher readiness event signaled''"
proof -
  show none: "wa_app_components A = None" "wa_window_components A = None" "wa_window_setup A = None" "wa_activate A = None"
    using assms by (auto simp: start_app_def on_launched_def split: if_splits)
  have "ready (signal_launcher_ready A)"
    using assms none by (simp add: start_app_def on_launched_def)
  then have "signal_launcher_ready A = ([''launcher readiness event signaled''], True, None)"
    by (simp add: signal_launcher_ready_def split: if_splits)
  then show "thrown_by (start_app A) = None" "''App::OnLaunched MainWindow activated'' \<in> set (fst (start_app A))"
    "last (fst (start_app A)) = ''launcher readiness event signaled''"
    using none by (simp_all add: start_app_def on_launched_def)
qed

end
