(* ===== verification/Spec2Isabelle.thy ===== *)
theory Spec2Isabelle
  imports Samples SessionSamples HostSamples ShellSamples Theme WinuiApp
begin

text \<open>
  PS2 DriveForge reads PlayStation 2 hard disks (raw drives and images): the APA partition table, PFS
  file systems inside its partitions and HDLoader game metadata, for a command line, two Windows shells
  and a read-only Dokany mount.  This library models the program from the device interface up to its
  shells, as HOL functions translated from the source, and proves what each part is meant to guarantee.
  Paths are relative to \<open>src/\<close> and \<open>include/ps2hdd/\<close> of the repository.

  The program, bottom up, and the theories that model it:

  \<^item> \<open>Prelude\<close>: 8- to 64-bit words, little-endian loads and stores, byte slices, the state and error
    monad (\<open>ret\<close>, \<open>okE\<close>, \<open>failE\<close>, \<open>bindE\<close>).
  \<^item> \<open>BlockDevice\<close> (\<open>include/ps2hdd/block_device.hpp\<close>): a device is a record of four operations over an
    abstract state.  The locales \<open>block_device\<close> and \<open>reliable_device\<close> are its contract; disk images are
    the reference device, and \<open>transparent\<close> relates a computation on any device with the same
    computation on the image behind it.  Every parser is proved transparent, so every statement about
    images holds for any reliable device.
  \<^item> \<open>Instrumented\<close>, \<open>ReadAhead\<close>, \<open>HashMap\<close>, \<open>ReadCache\<close> (\<open>instrumented_block_device.hpp\<close>,
    \<open>read_ahead_block_device.hpp\<close>, \<open>read_cache_block_device.hpp\<close>): the three wrappers.  Each is an
    interpretation of the device contract over the contract of what it wraps.  \<open>HashMap\<close> is
    \<open>std::unordered_map\<close> as far as the source uses it, with an unspecified iteration order.
  \<^item> \<open>ApaFormat\<close>, \<open>Apa\<close>, \<open>ApaVolume\<close> (\<open>core/apa.cpp\<close>, \<open>core/apa_volume.cpp\<close>): packed headers, checksum, the
    scan with all its diagnostics, and the mapping of sub-partition sectors to device bytes.
  \<^item> \<open>PfsFormat\<close>, \<open>PfsReader\<close>, \<open>PfsMetadata\<close>, \<open>PfsPayload\<close>, \<open>PfsReadSpec\<close>, \<open>PfsDirectory\<close>
    (\<open>core/pfs.cpp\<close>): superblock probe, SEGD inodes, SEGI chains, block descriptors merged into runs,
    reads of byte ranges, directory records and path resolution.  Inodes and file contents are specified
    over the raw words of the blocks (\<open>segd_block\<close>, \<open>segi_block\<close>, \<open>file_extents\<close>, \<open>file_byte\<close>), apart from the
    records and walks of the code.
  \<^item> \<open>Hdl\<close> (\<open>core/hdl.cpp\<close>), \<open>PartitionCatalog\<close> (\<open>core/partition_catalog.cpp\<close>,
    \<open>host/management_model.cpp\<close>) and \<open>HdlEnrichment\<close> (\<open>host/hdl_enrichment.cpp\<close>): game metadata, the
    partition list of the managers, and the concurrent enrichment as a step relation.
  \<^item> \<open>HostNames\<close>, \<open>PfsExport\<close>, \<open>ExportSpec\<close> (\<open>host/pfs_export.cpp\<close>): host file names and the recursive
    export, with the host file system as a parameter that answers each call.  An export stays below its
    destination, makes the host calls of the same export on the bare image, and reports as a cycle exactly a
    directory that is among its own ancestors (\<open>export_tree\<close>).
  \<^item> \<open>DriveSession\<close>, \<open>SessionSpec\<close> (\<open>host/drive_session.cpp\<close>): the device stack, the semantic caches and the
    session's operations; the invariant \<open>coherent\<close> ties the caches to the image, and every operation refines
    a session without caches that computes its answers from the image.
  \<^item> \<open>MountView\<close>, \<open>MountSpec\<close> (\<open>host/mount_view.cpp\<close>): the mounted namespace behind host-safe aliases;
    lookups, listings and reads are those of the image and agree with each other.
  \<^item> \<open>DokanyPolicy\<close>, \<open>Dokany\<close>, \<open>DokanySpec\<close>, \<open>DokanyController\<close> (\<open>mount/dokany_open_policy.hpp\<close>,
    \<open>darkness_policy.hpp\<close>, \<open>mount/dokany_controller.cpp\<close>): the policies, the callbacks with their status codes,
    what a program sees through them, and the controller as a step relation between its owner and its
    worker (\<open>worker_step\<close>, \<open>mount_step\<close>).
  \<^item> \<open>HostBackends\<close>, \<open>SectorReads\<close> (\<open>core/file_block_device.cpp\<close>, \<open>platform/windows/physical_drive.cpp\<close>):
    files and raw drives over the calls of the operating system; a session asks a device of whole sectors
    only for whole sectors.  \<open>PhysicalDiscovery\<close> (\<open>platform/windows/physical_discovery.cpp\<close>): the enumeration of drives.
  \<^item> \<open>Console\<close>, \<open>Inspect\<close>, \<open>Benchmark\<close>, \<open>WarmCache\<close> (\<open>cli/main.cpp\<close>, \<open>cli/benchmark.cpp\<close>): arguments, every
    line printed and the exit codes, over sessions; a run of the inspector prints what the image holds.
  \<^item> \<open>MountHelper\<close> (\<open>mount/dokany_main.cpp\<close>): the program that holds a mount; its console control handler is
    a requested unmount.  Its plans are compared with a grammar of its command line (\<open>cli_option\<close>).
  \<^item> \<open>Launcher\<close> (\<open>launcher/windows_launcher.cpp\<close>, \<open>gui/windows_elevation.cpp\<close>), \<open>WinuiApp\<close>
    (\<open>winui/App.xaml.cpp\<close>): the start of the shells, the startup log and the handshake between them.
  \<^item> \<open>NativeSession\<close> (\<open>winui/NativeSessionController.cpp\<close>): the controller behind the WinUI window, as an
    interleaving of the threads that call it; \<open>native_inv\<close> keeps results of one source out of the table of
    another.  \<open>WinuiWindow\<close> (\<open>winui/MainWindow.xaml.cpp\<close>): the handlers of the window, its threads and the
    queue of their results; \<open>winui_inv\<close> ties the source that the window names to the one that the
    controller serves.  \<open>ShellMount\<close>: its mount page and the command line that the helper parses back.
  \<^item> \<open>ClassicShell\<close>, \<open>Theme\<close> (\<open>gui/windows_main.cpp\<close>, \<open>gui/windows_theme.cpp\<close>): the Win32 shell, whose events
    and mount worker are one step relation with the invariant \<open>shell_ok\<close>; its theme.
  \<^item> \<open>Samples\<close>, \<open>SessionSamples\<close>, \<open>HostSamples\<close>, \<open>ShellSamples\<close>: a concrete disk, its sessions, backends and
    shells, on which the properties with hypotheses are applied.

  Conventions.  \<open>bool read(..., span out)\<close> becomes a function that returns the bytes or \<open>None\<close>; a routine
  that leaves a message in \<open>last_error_\<close> returns \<open>Inl\<close> that error.  Machine integers keep their width.
  \<open>std::size_t\<close> values that are bounded by a buffer or list length are naturals.

  Threads.  The state that threads share is changed in atomic steps, each the part of the code between two
  points where another thread can see it; the step relations allow every order of them.

  Bounds and fuel.  \<open>scan_loop\<close> has the code's own bound \<open>max_headers\<close>; \<open>export_node\<close> counts the code's own
  depth limit of 256 down from 257; \<open>collect_runs\<close> runs over the descriptors an inode declares; the helper
  waits for a mount in the code's own 200 polls (\<open>kMountPolls\<close>).  Two loops need not end and are
  \<open>partial_function\<close>s: \<open>inode_scale\<close>, for which \<open>inode_scale_returns_iff\<close> says exactly when it returns, and
  \<open>discover_loop\<close>, which returns when the enumeration ends (\<open>discovery_returns\<close>) and otherwise may not
  (\<open>discovery_hangs\<close>).

  Not modelled.  Locks and memory order of the caches and counters.  Out-of-memory.  The contents of
  operating-system error messages, debug output and the closing of handles.  Layout and drawing: XAML
  elements, list views, menus as pixels, \<open>configure_main_window_shell\<close> and the subclass that paints the
  status bar, which are calls into Windows libraries without state of the program.  The modal loops of
  message boxes: a message is handled to its end before the next one.  The crash hooks of the startup log,
  the tests and the fuzz target.
\<close>

end
